(* ===== verification/Prelude.thy ===== *)
theory Prelude
  imports Main "HOL-Library.Word"
begin

unbundle bit_operations_syntax

text \<open>
  Shared ground of the development: the machine integers of the Rust sources, results and
  their early returns, checked arithmetic, the split of a word into smaller words (bytes),
  and the generic facts on lists and maps that the components use.

  \<^item> \<open>u8\<close>, \<open>u32\<close>, \<open>u64\<close>, \<open>u128\<close> are words of that width; \<open>usize\<close> is \<open>nat\<close>.
  \<^item> \<open>[u8; 32]\<close> is a 256-bit word read big-endian (\<open>array32\<close> gives its bytes), so
    the derived lexicographic order of byte arrays is the order of words.
  \<^item> \<open>Result<T, E>\<close> is \<open>'e + 't\<close> with \<open>Inl\<close> the error. \<open>ensure\<close> is \<open>assert!\<close> and
    \<open>ensure!\<close>, \<open>and_then\<close> the \<open>?\<close> operator, \<open>expect_some\<close> is \<open>expect\<close> and \<open>let .. else\<close>.
\<close>

type_synonym u8 = "8 word"
type_synonym u32 = "32 word"
type_synonym u64 = "64 word"
type_synonym u128 = "128 word"
type_synonym bytes = "8 word list"
type_synonym array32 = "256 word"

named_theorems result_simps \<open>inversion of results built with the early-return combinators\<close>
named_theorems panic_simps \<open>inversion of runs that do not panic\<close>
named_theorems codec_simps \<open>round trips of encoders and decoders\<close>
named_theorems checked_simps \<open>checked word arithmetic over the naturals\<close>

subsection \<open>Results\<close>

definition ensure :: "bool \<Rightarrow> 'e \<Rightarrow> 'e + 'a \<Rightarrow> 'e + 'a" where
  "ensure c e k = (if c then k else Inl e)"

definition and_then :: "'e + 'a \<Rightarrow> ('a \<Rightarrow> 'e + 'b) \<Rightarrow> 'e + 'b" where
  "and_then r k = (case r of Inl e \<Rightarrow> Inl e | Inr v \<Rightarrow> k v)"

definition expect_some :: "'a option \<Rightarrow> 'e \<Rightarrow> ('a \<Rightarrow> 'e + 'b) \<Rightarrow> 'e + 'b" where
  "expect_some x e k = (case x of None \<Rightarrow> Inl e | Some v \<Rightarrow> k v)"

definition map_err :: "('e \<Rightarrow> 'f) \<Rightarrow> 'e + 'a \<Rightarrow> 'f + 'a" where
  "map_err f r = (case r of Inl e \<Rightarrow> Inl (f e) | Inr v \<Rightarrow> Inr v)"

definition is_ok :: "'e + 'a \<Rightarrow> bool" where
  "is_ok r = (case r of Inl _ \<Rightarrow> False | Inr _ \<Rightarrow> True)"

text \<open>A loop whose body may return early: the fold of a fallible step.\<close>

fun try_fold :: "('s \<Rightarrow> 'x \<Rightarrow> 'e + 's) \<Rightarrow> 's \<Rightarrow> 'x list \<Rightarrow> 'e + 's" where
  "try_fold f s [] = Inr s"
| "try_fold f s (x # xs) = and_then (f s x) (\<lambda>s'. try_fold f s' xs)"

subsection \<open>Panics\<close>

text \<open>Code that panics returns \<open>None\<close>: \<open>assert_that\<close> is \<open>assert!\<close>, \<open>list_get\<close> is \<open>get\<close>.\<close>

definition assert_that :: "bool \<Rightarrow> unit option" where
  "assert_that c = (if c then Some () else None)"

definition list_get :: "'a list \<Rightarrow> nat \<Rightarrow> 'a option" where
  "list_get xs n = (if n < length xs then Some (xs ! n) else None)"

fun position :: "('a \<Rightarrow> bool) \<Rightarrow> 'a list \<Rightarrow> nat option" where
  "position P [] = None"
| "position P (x # xs) = (if P x then Some 0 else map_option Suc (position P xs))"

subsection \<open>Checked arithmetic\<close>

definition checked_add :: "'a::len word \<Rightarrow> 'a word \<Rightarrow> 'a word option" where
  "checked_add a b = (if unat a + unat b < 2 ^ LENGTH('a) then Some (a + b) else None)"

definition checked_sub :: "'a::len word \<Rightarrow> 'a word \<Rightarrow> 'a word option" where
  "checked_sub a b = (if b \<le> a then Some (a - b) else None)"

definition checked_mul :: "'a::len word \<Rightarrow> 'a word \<Rightarrow> 'a word option" where
  "checked_mul a b = (if unat a * unat b < 2 ^ LENGTH('a) then Some (a * b) else None)"

definition checked_div :: "'a::len word \<Rightarrow> 'a word \<Rightarrow> 'a word option" where
  "checked_div a b = (if b = 0 then None else Some (a div b))"

definition overflowing_add :: "'a::len word \<Rightarrow> 'a word \<Rightarrow> 'a word \<times> bool" where
  "overflowing_add a b = (a + b, 2 ^ LENGTH('a) \<le> unat a + unat b)"

definition saturating_sub :: "'a::len word \<Rightarrow> 'a word \<Rightarrow> 'a word" where
  "saturating_sub a b = (if b \<le> a then a - b else 0)"

definition saturating_add :: "'a::len word \<Rightarrow> 'a word \<Rightarrow> 'a word" where
  "saturating_add a b = (if unat a + unat b < 2 ^ LENGTH('a) then a + b else - 1)"

subsection \<open>A word as a list of smaller words\<close>

fun le_split :: "nat \<Rightarrow> 'a::len word \<Rightarrow> 'b::len word list" where
  "le_split 0 w = []"
| "le_split (Suc n) w = ucast w # le_split n (drop_bit LENGTH('b) w)"

fun le_join :: "'b::len word list \<Rightarrow> 'a::len word" where
  "le_join [] = 0"
| "le_join (b # bs) = ucast b OR push_bit LENGTH('b) (le_join bs)"

definition u32_to_le_bytes :: "u32 \<Rightarrow> bytes" where
  "u32_to_le_bytes w = le_split 4 w"

definition u64_to_le_bytes :: "u64 \<Rightarrow> bytes" where
  "u64_to_le_bytes w = le_split 8 w"

definition u128_to_le_bytes :: "u128 \<Rightarrow> bytes" where
  "u128_to_le_bytes w = le_split 16 w"

text \<open>The bytes of a \<open>[u8; 32]\<close>, first byte first, and back.\<close>

definition array32 :: "array32 \<Rightarrow> bytes" where
  "array32 w = rev (le_split 32 w)"

definition of_array32 :: "bytes \<Rightarrow> array32" where
  "of_array32 bs = le_join (rev bs)"

text \<open>\<open>Cursor::read_exact\<close>: the next \<open>n\<close> bytes and the rest, or an error.\<close>

definition read_exact :: "nat \<Rightarrow> bytes \<Rightarrow> (bytes \<times> bytes) option" where
  "read_exact n bs = (if n \<le> length bs then Some (take n bs, drop n bs) else None)"

text \<open>The ASCII bytes of a byte-string literal.\<close>

definition ascii :: "string \<Rightarrow> bytes" where
  "ascii s = map (\<lambda>c. of_nat (of_char c)) s"

subsection \<open>Facts on results\<close>

lemma ensure_Inr [result_simps]: "ensure c e k = Inr v \<longleftrightarrow> c \<and> k = Inr v"
  by (simp add: ensure_def)

lemma ensure_Inl [result_simps]: "ensure c e k = Inl x \<longleftrightarrow> (\<not> c \<and> x = e) \<or> (c \<and> k = Inl x)"
  by (auto simp: ensure_def)

lemma and_then_Inr [result_simps]: "and_then r k = Inr v \<longleftrightarrow> (\<exists>u. r = Inr u \<and> k u = Inr v)"
  by (simp add: and_then_def split: sum.splits)

lemma and_then_Inl [result_simps]:
  "and_then r k = Inl e \<longleftrightarrow> r = Inl e \<or> (\<exists>u. r = Inr u \<and> k u = Inl e)"
  by (simp add: and_then_def split: sum.splits)

lemma expect_some_Inr [result_simps]:
  "expect_some x e k = Inr v \<longleftrightarrow> (\<exists>u. x = Some u \<and> k u = Inr v)"
  by (simp add: expect_some_def split: option.splits)

lemma expect_some_Inl [result_simps]:
  "expect_some x e k = Inl f \<longleftrightarrow> (x = None \<and> f = e) \<or> (\<exists>u. x = Some u \<and> k u = Inl f)"
  by (auto simp: expect_some_def split: option.splits)

lemma map_err_Inr [result_simps]: "map_err f r = Inr v \<longleftrightarrow> r = Inr v"
  by (simp add: map_err_def split: sum.splits)

lemma map_err_Inl [result_simps]: "map_err f r = Inl e \<longleftrightarrow> (\<exists>d. r = Inl d \<and> e = f d)"
  by (auto simp: map_err_def split: sum.splits)

lemma is_ok_iff [result_simps]: "is_ok r \<longleftrightarrow> (\<exists>v. r = Inr v)"
  by (cases r) (simp_all add: is_ok_def)

lemma result_steps [simp]:
  "ensure True e k = k" "ensure False e k = Inl e"
  "and_then (Inl d) g = Inl d" "and_then (Inr v) g = g v"
  "expect_some None e h = Inl e" "expect_some (Some u) e h = h u"
  "map_err f (Inl d) = Inl (f d)" "map_err f (Inr v) = Inr v"
  by (simp_all add: ensure_def and_then_def expect_some_def map_err_def)

lemma try_fold_append:
  "try_fold f s (xs @ ys) = and_then (try_fold f s xs) (\<lambda>s'. try_fold f s' ys)"
  by (induction xs arbitrary: s) (auto simp: and_then_def split: sum.splits)

subsection \<open>Facts on panics\<close>

declare bind_eq_Some_conv [panic_simps]

lemma assert_that_Some [panic_simps]: "assert_that c = Some u \<longleftrightarrow> c"
  by (simp add: assert_that_def)

lemma list_get_Some [panic_simps]: "list_get xs n = Some x \<longleftrightarrow> n < length xs \<and> xs ! n = x"
  by (simp add: list_get_def)

lemma assert_that_steps [simp]: "assert_that True = Some ()" "assert_that False = None"
  by (simp_all add: assert_that_def)

lemma position_Some: "position P xs = Some n \<Longrightarrow> n < length xs \<and> P (xs ! n)"
  by (induction xs arbitrary: n) (auto split: if_splits)

lemma position_exists: "x \<in> set xs \<Longrightarrow> P x \<Longrightarrow> \<exists>n. position P xs = Some n"
  by (induction xs) auto

subsection \<open>Facts on checked arithmetic\<close>

lemma unat_bound: "unat (w :: 'a::len word) = n \<Longrightarrow> n < 2 ^ LENGTH('a)"
  using unsigned_less [of w, where 'a = nat] by simp

lemma checked_add_Some [checked_simps]:
  "checked_add a b = Some c \<longleftrightarrow> unat c = unat a + unat b"
  for a b c :: "'a::len word"
proof (cases "unat a + unat b < 2 ^ LENGTH('a)")
  case True
  then have "unat (a + b) = unat a + unat b"
    by (simp add: unat_word_ariths)
  with True show ?thesis
    by (simp add: checked_add_def word_unat_eq_iff eq_commute)
next
  case False
  then show ?thesis
    by (auto simp: checked_add_def dest: unat_bound)
qed

lemma checked_mul_Some [checked_simps]:
  "checked_mul a b = Some c \<longleftrightarrow> unat c = unat a * unat b"
  for a b c :: "'a::len word"
proof (cases "unat a * unat b < 2 ^ LENGTH('a)")
  case True
  then have "unat (a * b) = unat a * unat b"
    by (simp add: unat_word_ariths)
  with True show ?thesis
    by (simp add: checked_mul_def word_unat_eq_iff eq_commute)
next
  case False
  then show ?thesis
    by (auto simp: checked_mul_def dest: unat_bound)
qed

lemma checked_sub_Some [checked_simps]:
  "checked_sub a b = Some c \<longleftrightarrow> unat a = unat b + unat c"
  for a b c :: "'a::len word"
proof (cases "b \<le> a")
  case True
  then have le: "unat b \<le> unat a"
    by (simp add: word_le_nat_alt)
  have "checked_sub a b = Some c \<longleftrightarrow> unat (a - b) = unat c"
    using True by (simp add: checked_sub_def word_unat_eq_iff)
  also have "unat (a - b) = unat a - unat b"
    using True by (rule unat_sub)
  finally show ?thesis using le by linarith
next
  case False
  then show ?thesis by (simp add: checked_sub_def word_le_nat_alt)
qed

lemma sum_mod_once:
  fixes x y m :: nat
  assumes "x < m" and "y < m"
  shows "(x + y) mod m = x + y - (if m \<le> x + y then m else 0)"
proof (cases "m \<le> x + y")
  case True
  then have "(x + y) mod m = (x + y - m) mod m" by (rule le_mod_geq)
  with assms True show ?thesis by simp
qed simp

lemma overflowing_add_unat:
  "overflowing_add a b = (c, ov) \<Longrightarrow>
    unat a + unat b = unat c + (if ov then 2 ^ LENGTH('a) else 0)"
  for a b c :: "'a::len word"
proof -
  assume eq: "overflowing_add a b = (c, ov)"
  have "unat a < 2 ^ LENGTH('a)" "unat b < 2 ^ LENGTH('a)"
    by (simp_all add: unsigned_less)
  moreover have c: "unat c = (unat a + unat b) mod 2 ^ LENGTH('a)"
    using eq by (auto simp: overflowing_add_def unat_word_ariths)
  moreover have ov: "ov = (2 ^ LENGTH('a) \<le> unat a + unat b)"
    using eq by (simp add: overflowing_add_def)
  ultimately have "unat c = unat a + unat b - (if ov then 2 ^ LENGTH('a) else 0)"
    by (simp add: sum_mod_once)
  with ov show ?thesis by simp
qed

subsection \<open>Facts on splitting words\<close>

lemma length_le_split [simp]: "length (le_split n w) = n"
  by (induction n arbitrary: w) simp_all

lemma le_join_split_take:
  "le_join (le_split n w :: 'b::len word list) = take_bit (n * LENGTH('b)) (w :: 'a::len word)"
proof (induction n arbitrary: w)
  case 0
  then show ?case by simp
next
  case (Suc n)
  have "ucast (ucast w :: 'b word) OR
      push_bit LENGTH('b) (take_bit (n * LENGTH('b)) (drop_bit LENGTH('b) w))
      = take_bit (LENGTH('b) + n * LENGTH('b)) w"
    by (rule bit_eqI) (auto simp: bit_simps dest: bit_imp_le_length)
  with Suc.IH show ?case by simp
qed

lemma le_join_split [codec_simps]:
  "LENGTH('a) \<le> n * LENGTH('b) \<Longrightarrow> le_join (le_split n w :: 'b::len word list) = (w :: 'a::len word)"
  by (simp add: le_join_split_take take_bit_word_eq_self)

lemma le_join_bits:
  "bit (le_join (bs :: 'b::len word list) :: 'a::len word) i \<Longrightarrow> i < length bs * LENGTH('b)"
proof (induction bs arbitrary: i)
  case Nil
  then show ?case by simp
next
  case (Cons b bs)
  show ?case
  proof (cases "i < LENGTH('b)")
    case True
    then show ?thesis by simp
  next
    case False
    with Cons.prems have "bit (le_join bs :: 'a word) (i - LENGTH('b))"
      by (auto simp: bit_simps dest: bit_imp_le_length)
    from Cons.IH [OF this] False show ?thesis by simp
  qed
qed

lemma le_split_join [codec_simps]:
  "length bs * LENGTH('b) \<le> LENGTH('a) \<Longrightarrow>
    le_split (length bs) (le_join bs :: 'a::len word) = (bs :: 'b::len word list)"
proof (induction bs)
  case Nil
  then show ?case by simp
next
  case (Cons b bs)
  let ?J = "le_join bs :: 'a word"
  from Cons.prems have bound: "LENGTH('b) + length bs * LENGTH('b) \<le> LENGTH('a)"
    by simp
  have "drop_bit LENGTH('b) (ucast b OR push_bit LENGTH('b) ?J) = ?J"
    by (rule bit_eqI)
      (use bound in \<open>auto simp: bit_simps dest: bit_imp_le_length le_join_bits\<close>)
  moreover have "ucast (ucast b OR push_bit LENGTH('b) ?J :: 'a word) = b"
    by (rule bit_eqI) (use bound in \<open>auto simp: bit_simps dest: bit_imp_le_length\<close>)
  ultimately show ?case using Cons by simp
qed

lemma length_le_bytes [simp]:
  "length (u32_to_le_bytes a) = 4" "length (u64_to_le_bytes b) = 8"
  "length (u128_to_le_bytes c) = 16" "length (array32 d) = 32"
  by (simp_all add: u32_to_le_bytes_def u64_to_le_bytes_def u128_to_le_bytes_def array32_def)

lemma le_bytes_join [simp]:
  "le_join (u32_to_le_bytes a) = a" "le_join (u64_to_le_bytes b) = b"
  "le_join (u128_to_le_bytes c) = c" "of_array32 (array32 d) = d"
  by (simp_all add: u32_to_le_bytes_def u64_to_le_bytes_def u128_to_le_bytes_def array32_def
      of_array32_def codec_simps)

lemma array32_of_array32 [simp]: "length bs = 32 \<Longrightarrow> array32 (of_array32 bs) = bs"
  using le_split_join [of "rev bs", where 'a = 256] by (simp add: array32_def of_array32_def)

lemma array32_eq_iff [simp]: "array32 v = array32 w \<longleftrightarrow> v = w"
  by (metis le_bytes_join(4))

lemma u128_to_le_bytes_eq_iff [simp]: "u128_to_le_bytes v = u128_to_le_bytes w \<longleftrightarrow> v = w"
  by (metis le_bytes_join(3))

lemma u32_to_le_bytes_eq_iff [simp]: "u32_to_le_bytes v = u32_to_le_bytes w \<longleftrightarrow> v = w"
  by (metis le_bytes_join(1))

lemma u64_to_le_bytes_eq_iff [simp]: "u64_to_le_bytes v = u64_to_le_bytes w \<longleftrightarrow> v = w"
  by (metis le_bytes_join(2))

lemma read_exact_append [codec_simps]:
  "length xs = n \<Longrightarrow> read_exact n (xs @ ys) = Some (xs, ys)"
  by (auto simp: read_exact_def)

lemma read_exact_Some:
  "read_exact n bs = Some (xs, ys) \<longleftrightarrow> length xs = n \<and> bs = xs @ ys"
  by (auto simp: read_exact_def)

lemma length_ascii [simp]: "length (ascii s) = length s"
  by (simp add: ascii_def)

subsection \<open>The interface of a byte codec\<close>

text \<open>
  A decoder reads a value off the front of its input and returns the rest. The law of a
  codec is that it reads back every valid value, whatever follows.
\<close>

locale byte_codec =
  fixes enc :: "'a \<Rightarrow> bytes"
    and dec :: "bytes \<Rightarrow> 'e + ('a \<times> bytes)"
    and valid :: "'a \<Rightarrow> bool"
  assumes dec_enc: "valid x \<Longrightarrow> dec (enc x @ rest) = Inr (x, rest)"
begin

lemma enc_prefix_free:
  assumes "valid x" and "valid y" and "enc x @ r = enc y @ s"
  shows "x = y \<and> r = s"
proof -
  have "dec (enc x @ r) = dec (enc y @ s)"
    using assms(3) by (rule arg_cong)
  then show ?thesis
    by (simp only: dec_enc [OF assms(1)] dec_enc [OF assms(2)] sum.inject prod.inject)
qed

lemma enc_inj: "valid x \<Longrightarrow> valid y \<Longrightarrow> enc x = enc y \<Longrightarrow> x = y"
  using enc_prefix_free [of x y "[]" "[]"] by simp

end

subsection \<open>The interface of a step that keeps an invariant\<close>

locale invariant_step =
  fixes inv :: "'s \<Rightarrow> bool"
    and step :: "'s \<Rightarrow> 'x \<Rightarrow> 'e + 's"
  assumes step_inv: "inv s \<Longrightarrow> step s x = Inr s' \<Longrightarrow> inv s'"
begin

lemma try_fold_inv: "inv s \<Longrightarrow> try_fold step s xs = Inr s' \<Longrightarrow> inv s'"
  by (induction xs arbitrary: s) (auto simp: result_simps intro: step_inv)

end

subsection \<open>Lists and maps\<close>

lemma distinct_card_iff: "length xs = card (set xs) \<longleftrightarrow> distinct xs"
  by (metis card_distinct distinct_card)

lemma sum_list_map_of_nat_cong:
  "list_all2 (\<lambda>x y. f x = g y) xs ys \<Longrightarrow> sum_list (map f xs) = sum_list (map g ys)"
  by (induction rule: list_all2_induct) simp_all

lemma list_all2_mem: "list_all2 P xs ys \<Longrightarrow> x \<in> set xs \<Longrightarrow> \<exists>y \<in> set ys. P x y"
  by (induction rule: list_all2_induct) auto

end
