(* ===== verification/Accounts.thy ===== *)
theory Accounts
  imports Prelude
begin

text \<open>
  Accounts and their byte encoding: \<open>core/src/account.rs\<close>, \<open>core/src/account/data.rs\<close>,
  \<open>core/src/encoding.rs\<close> and the conversions between program and account identifiers of
  \<open>core/src/program/mod.rs\<close>.

  Identifiers are newtypes over \<open>[u8; 32]\<close>. A \<open>ProgramId\<close> is \<open>[u32; 8]\<close>: a 256-bit word
  whose most significant 32 bits are word 0. The reader of an encoded account is a decoder
  in the sense of \<open>byte_codec\<close>: the cursor is the remaining input.
\<close>

subsection \<open>Identifiers\<close>

datatype account_id = AccountId (id_value: array32)

datatype program_id = ProgramId (program_words: array32)

text \<open>\<open>Ord\<close> on \<open>AccountId\<close> and \<open>ProgramId\<close> is the derived order of their arrays.\<close>

instantiation account_id :: linorder
begin

definition less_eq_account_id :: "account_id \<Rightarrow> account_id \<Rightarrow> bool" where
  "less_eq_account_id a b \<longleftrightarrow> id_value a \<le> id_value b"

definition less_account_id :: "account_id \<Rightarrow> account_id \<Rightarrow> bool" where
  "less_account_id a b \<longleftrightarrow> id_value a < id_value b"

instance
  by standard (auto simp: less_eq_account_id_def less_account_id_def account_id.expand)

end

instantiation program_id :: linorder
begin

definition less_eq_program_id :: "program_id \<Rightarrow> program_id \<Rightarrow> bool" where
  "less_eq_program_id a b \<longleftrightarrow> program_words a \<le> program_words b"

definition less_program_id :: "program_id \<Rightarrow> program_id \<Rightarrow> bool" where
  "less_program_id a b \<longleftrightarrow> program_words a < program_words b"

instance
  by standard (auto simp: less_eq_program_id_def less_program_id_def program_id.expand)

end

text \<open>The eight words of a program id, word 0 first, and the two conversions.\<close>

definition program_id_words :: "program_id \<Rightarrow> u32 list" where
  "program_id_words p = rev (le_split 8 (program_words p))"

definition program_id_of_words :: "u32 list \<Rightarrow> program_id" where
  "program_id_of_words ws = ProgramId (le_join (rev ws))"

definition account_of_program :: "program_id \<Rightarrow> account_id" where
  "account_of_program p = AccountId (of_array32 (concat (map u32_to_le_bytes (program_id_words p))))"

fun chunks4 :: "bytes \<Rightarrow> bytes list" where
  "chunks4 (a # b # c # d # rest) = [a, b, c, d] # chunks4 rest"
| "chunks4 _ = []"

definition program_of_account :: "account_id \<Rightarrow> program_id" where
  "program_of_account a = program_id_of_words (map le_join (chunks4 (array32 (id_value a))))"

definition DEFAULT_PROGRAM_ID :: program_id where
  "DEFAULT_PROGRAM_ID = ProgramId 0"

definition DEFAULT_PROGRAM_OWNER :: account_id where
  "DEFAULT_PROGRAM_OWNER = AccountId 0"

definition PROGRAM_STORAGE_OWNER :: account_id where
  "PROGRAM_STORAGE_OWNER = AccountId (of_array32 (replicate 32 0xFF))"

subsection \<open>Account data\<close>

definition DATA_MAX_LENGTH :: nat where
  "DATA_MAX_LENGTH = 700 * 1024"

datatype account_data = Data (into_inner: bytes)

datatype core_error = UnexpectedEof | DataTooBigError

definition data_try_from :: "bytes \<Rightarrow> core_error + account_data" where
  "data_try_from v = ensure (length v \<le> DATA_MAX_LENGTH) DataTooBigError (Inr (Data v))"

definition data_from_cursor :: "bytes \<Rightarrow> core_error + account_data \<times> bytes" where
  "data_from_cursor c0 =
    expect_some (read_exact 4 c0) UnexpectedEof (\<lambda>(u32_bytes, c1).
    let data_length = le_join u32_bytes :: u32 in
    ensure (unat data_length \<le> DATA_MAX_LENGTH) DataTooBigError (
    expect_some (read_exact (unat data_length) c1) UnexpectedEof (\<lambda>(bs, c2).
    Inr (Data bs, c2))))"

definition data_valid :: "account_data \<Rightarrow> bool" where
  "data_valid d \<longleftrightarrow> length (into_inner d) \<le> DATA_MAX_LENGTH"

subsection \<open>Accounts\<close>

datatype nonce = Nonce (nonce_value: u128)

record account =
  program_owner :: account_id
  balance :: u128
  data :: account_data
  nonce :: nonce

definition default_account :: account where
  "default_account =
    \<lparr>program_owner = AccountId 0, balance = 0, data = Data [], nonce = Nonce 0\<rparr>"

record account_with_metadata =
  account :: account
  is_authorized :: bool
  account_id :: account_id

text \<open>The expectation that the counter does not overflow is the \<open>None\<close> result.\<close>

definition public_account_nonce_increment :: "nonce \<Rightarrow> nonce option" where
  "public_account_nonce_increment n = map_option Nonce (checked_add (nonce_value n) 1)"

type_synonym hasher = "bytes \<Rightarrow> array32"

definition private_account_nonce_init :: "hasher \<Rightarrow> account_id \<Rightarrow> nonce" where
  "private_account_nonce_init sha256 a =
    Nonce (le_join (take 16 (array32 (sha256 (array32 (id_value a) @ replicate 32 0)))))"

definition private_account_nonce_increment :: "hasher \<Rightarrow> nonce \<Rightarrow> array32 \<Rightarrow> nonce" where
  "private_account_nonce_increment sha256 n nsk =
    Nonce (le_join (take 16 (array32 (sha256
      (array32 nsk @ u128_to_le_bytes (nonce_value n) @ replicate 16 0)))))"

text \<open>\<open>to_bytes\<close> expects the data length to fit in a \<open>u32\<close>: \<open>None\<close> is that panic.\<close>

definition account_to_bytes :: "account \<Rightarrow> bytes option" where
  "account_to_bytes a =
    (let n = length (into_inner (data a)) in
     if n < 2 ^ 32 then
       Some (array32 (id_value (program_owner a)) @ u128_to_le_bytes (balance a)
         @ u128_to_le_bytes (nonce_value (nonce a)) @ u32_to_le_bytes (of_nat n)
         @ into_inner (data a))
     else None)"

definition account_from_cursor :: "bytes \<Rightarrow> core_error + account \<times> bytes" where
  "account_from_cursor c0 =
    expect_some (read_exact 32 c0) UnexpectedEof (\<lambda>(program_owner_bytes, c1).
    expect_some (read_exact 16 c1) UnexpectedEof (\<lambda>(balance_bytes, c2).
    expect_some (read_exact 16 c2) UnexpectedEof (\<lambda>(nonce_bytes, c3).
    and_then (data_from_cursor c3) (\<lambda>(d, c4).
    Inr (\<lparr>program_owner = AccountId (of_array32 program_owner_bytes),
          balance = le_join balance_bytes, data = d, nonce = Nonce (le_join nonce_bytes)\<rparr>,
         c4)))))"

definition account_valid :: "account \<Rightarrow> bool" where
  "account_valid a \<longleftrightarrow> data_valid (data a)"

subsection \<open>The conversions between program and account identifiers\<close>

lemma length_program_id_words [simp]: "length (program_id_words p) = 8"
  by (simp add: program_id_words_def)

lemma chunks4_concat: "chunks4 (concat (map u32_to_le_bytes ws)) = map u32_to_le_bytes ws"
proof (induction ws)
  case (Cons w ws)
  obtain a b c d where "u32_to_le_bytes w = [a, b, c, d]"
    by (simp add: u32_to_le_bytes_def numeral_eq_Suc)
  with Cons show ?case by simp
qed simp

lemma concat_chunks4: "4 dvd length bs \<Longrightarrow> concat (chunks4 bs) = bs"
proof (induction bs rule: chunks4.induct)
  case (1 a b c d rest)
  then have "4 dvd length rest" by simp presburger
  with 1 show ?case by simp
qed (auto dest: dvd_imp_le)

lemma chunks4_lengths: "\<forall>c \<in> set (chunks4 bs). length c = 4"
  by (induction bs rule: chunks4.induct) auto

lemma length_chunks4: "4 dvd length bs \<Longrightarrow> 4 * length (chunks4 bs) = length bs"
proof (induction bs rule: chunks4.induct)
  case (1 a b c d rest)
  then have "4 dvd length rest" by simp presburger
  with 1 show ?case by simp
qed (auto dest: dvd_imp_le)

lemma u32_bytes_of_join: "length c = 4 \<Longrightarrow> u32_to_le_bytes (le_join c) = c"
  using le_split_join [of c, where 'a = 32] by (simp add: u32_to_le_bytes_def)

lemma program_of_account_of_program [simp]: "program_of_account (account_of_program p) = p"
proof -
  have "length (concat (map u32_to_le_bytes (program_id_words p))) = 32"
    by (simp add: length_concat comp_def sum_list_triv)
  moreover have "program_id_of_words (program_id_words p) = p"
    by (simp add: program_id_of_words_def program_id_words_def codec_simps)
  ultimately show ?thesis
    by (simp add: program_of_account_def account_of_program_def chunks4_concat comp_def)
qed

lemma account_of_program_of_account [simp]: "account_of_program (program_of_account a) = a"
proof -
  let ?cs = "chunks4 (array32 (id_value a))"
  have n: "length ?cs = 8" using length_chunks4 [of "array32 (id_value a)"] by simp
  have "map (\<lambda>c. u32_to_le_bytes (le_join c)) ?cs = ?cs"
    using chunks4_lengths [of "array32 (id_value a)"] by (auto intro!: map_idI u32_bytes_of_join)
  then have "concat (map u32_to_le_bytes (map le_join ?cs)) = array32 (id_value a)"
    by (simp add: comp_def concat_chunks4)
  moreover have "program_id_words (program_id_of_words (map le_join ?cs)) = map le_join ?cs"
    using le_split_join [of "rev (map le_join ?cs) :: u32 list", where 'a = 256] n
    by (simp add: program_id_words_def program_id_of_words_def)
  ultimately show ?thesis
    by (simp add: program_of_account_def account_of_program_def)
qed

lemma account_of_program_inject [simp]: "account_of_program p = account_of_program q \<longleftrightarrow> p = q"
  by (metis program_of_account_of_program)

subsection \<open>The account codec\<close>

lemma data_from_cursor_append [codec_simps]:
  assumes "data_valid d"
  shows "data_from_cursor (u32_to_le_bytes (of_nat (length (into_inner d))) @ into_inner d @ rest)
    = Inr (d, rest)"
proof -
  have "length (into_inner d) < 2 ^ 32"
    using assms by (simp add: data_valid_def DATA_MAX_LENGTH_def)
  then have "unat (of_nat (length (into_inner d)) :: u32) = length (into_inner d)"
    by (simp add: unat_of_nat)
  with assms show ?thesis
    by (simp add: data_from_cursor_def data_valid_def codec_simps)
qed

lemma account_to_bytes_valid: "account_valid a \<Longrightarrow> \<exists>bs. account_to_bytes a = Some bs"
  by (simp add: account_to_bytes_def account_valid_def data_valid_def DATA_MAX_LENGTH_def)

lemma account_from_cursor_append:
  assumes "account_valid a" and "account_to_bytes a = Some bs"
  shows "account_from_cursor (bs @ rest) = Inr (a, rest)"
proof -
  have "bs = array32 (id_value (program_owner a)) @ u128_to_le_bytes (balance a)
      @ u128_to_le_bytes (nonce_value (nonce a))
      @ u32_to_le_bytes (of_nat (length (into_inner (data a)))) @ into_inner (data a)"
    using assms(2) by (simp add: account_to_bytes_def Let_def split: if_splits)
  with assms(1) show ?thesis
    by (simp add: account_from_cursor_def codec_simps account_valid_def)
qed

interpretation account_codec: byte_codec "\<lambda>a. the (account_to_bytes a)" account_from_cursor account_valid
  using account_from_cursor_append account_to_bytes_valid by unfold_locales fastforce

lemma storage_owner_not_default [simp]: "PROGRAM_STORAGE_OWNER \<noteq> DEFAULT_PROGRAM_OWNER"
proof
  assume "PROGRAM_STORAGE_OWNER = DEFAULT_PROGRAM_OWNER"
  then have "array32 (of_array32 (replicate 32 0xFF)) = array32 0"
    by (simp add: PROGRAM_STORAGE_OWNER_def DEFAULT_PROGRAM_OWNER_def)
  then have "replicate 32 (0xFF :: u8) ! 0 = array32 0 ! 0" by simp
  moreover have "array32 0 ! 0 = 0" by (simp add: array32_def numeral_eq_Suc)
  ultimately show False by simp
qed

end
