(* ===== verification/Derivations.thy ===== *)
theory Derivations
  imports Accounts
begin

unbundle bit_operations_syntax

text \<open>
  Hash-derived identifiers: program-derived and private account ids
  (\<open>core/src/program/mod.rs\<close>, \<open>core/src/nullifier.rs\<close>), commitments and their Merkle paths
  (\<open>core/src/commitment.rs\<close>), nullifiers (\<open>core/src/nullifier.rs\<close>), and the note encryption
  (\<open>core/src/encryption/mod.rs\<close>).

  SHA-256 is the parameter \<open>sha256\<close>. The derivations are written as a preimage and its
  hash, so that binding is a statement about preimages: two derivations that give the same
  value come from the same input, or their preimages are an explicit collision. Nothing is
  assumed of the hash.

  The viewing key is a byte vector whose length the derivations rely on: copying a key of
  another length into the fixed buffer panics, which is the \<open>None\<close> result.
\<close>

definition collision :: "hasher \<Rightarrow> bytes \<Rightarrow> bytes \<Rightarrow> bool" where
  "collision sha256 x y \<longleftrightarrow> x \<noteq> y \<and> sha256 x = sha256 y"

subsection \<open>Seeds and keys\<close>

datatype pda_seed = PdaSeed (seed_bytes: array32)

instantiation pda_seed :: linorder
begin

definition less_eq_pda_seed :: "pda_seed \<Rightarrow> pda_seed \<Rightarrow> bool" where
  "less_eq_pda_seed a b \<longleftrightarrow> seed_bytes a \<le> seed_bytes b"

definition less_pda_seed :: "pda_seed \<Rightarrow> pda_seed \<Rightarrow> bool" where
  "less_pda_seed a b \<longleftrightarrow> seed_bytes a < seed_bytes b"

instance
  by standard (auto simp: less_eq_pda_seed_def less_pda_seed_def pda_seed.expand)

end

datatype nullifier_public_key = NullifierPublicKey (npk_bytes: array32)

datatype authorization_secret_key = AuthorizationSecretKey (ask_bytes: array32)

type_synonym nullifier_secret_key = array32
type_synonym account_identifier = u128

datatype viewing_public_key = MlKem768EncapsulationKey (vpk_bytes: bytes)

definition VIEWING_PUBLIC_KEY_LEN :: nat where
  "VIEWING_PUBLIC_KEY_LEN = 1184"

definition vpk_from_bytes :: "bytes \<Rightarrow> viewing_public_key option" where
  "vpk_from_bytes bs =
    (if length bs = VIEWING_PUBLIC_KEY_LEN then Some (MlKem768EncapsulationKey bs) else None)"

definition nsk_of_ask :: "hasher \<Rightarrow> authorization_secret_key \<Rightarrow> nullifier_secret_key" where
  "nsk_of_ask sha256 ask =
    sha256 (ascii ''/LEE-Keys/v1/Nullifier/Secret'' @ array32 (ask_bytes ask))"

definition npk_of_nsk :: "hasher \<Rightarrow> nullifier_secret_key \<Rightarrow> nullifier_public_key" where
  "npk_of_nsk sha256 nsk =
    NullifierPublicKey (sha256 (ascii ''/LEE-Keys/v1/Nullifier/Public'' @ array32 nsk))"

subsection \<open>Account identifiers\<close>

datatype private_account_kind =
    Regular account_identifier
  | Pda program_id pda_seed account_identifier

definition program_id_bytes :: "program_id \<Rightarrow> bytes" where
  "program_id_bytes p = concat (map u32_to_le_bytes (program_id_words p))"

definition public_pda_preimage :: "program_id \<Rightarrow> pda_seed \<Rightarrow> bytes" where
  "public_pda_preimage p seed =
    ascii ''/LEE/v0.2/AccountId/PDA/'' @ replicate 8 0 @ program_id_bytes p
      @ array32 (seed_bytes seed)"

definition for_public_pda :: "hasher \<Rightarrow> program_id \<Rightarrow> pda_seed \<Rightarrow> account_id" where
  "for_public_pda sha256 p seed = AccountId (sha256 (public_pda_preimage p seed))"

definition private_pda_preimage ::
  "program_id \<Rightarrow> pda_seed \<Rightarrow> nullifier_public_key \<Rightarrow> viewing_public_key \<Rightarrow> account_identifier \<Rightarrow> bytes" where
  "private_pda_preimage p seed npk vpk identifier =
    ascii ''/LEE/v0.3/AccountId/PrivatePDA/'' @ [0] @ program_id_bytes p
      @ array32 (seed_bytes seed) @ array32 (npk_bytes npk) @ vpk_bytes vpk
      @ u128_to_le_bytes identifier"

definition for_private_pda ::
  "hasher \<Rightarrow> program_id \<Rightarrow> pda_seed \<Rightarrow> nullifier_public_key \<Rightarrow> viewing_public_key \<Rightarrow> account_identifier
    \<Rightarrow> account_id option" where
  "for_private_pda sha256 p seed npk vpk identifier =
    (if length (vpk_bytes vpk) = VIEWING_PUBLIC_KEY_LEN
     then Some (AccountId (sha256 (private_pda_preimage p seed npk vpk identifier))) else None)"

definition regular_private_preimage ::
  "nullifier_public_key \<Rightarrow> viewing_public_key \<Rightarrow> account_identifier \<Rightarrow> bytes" where
  "regular_private_preimage npk vpk identifier =
    ascii ''/LEE/v0.3/AccountId/Private/'' @ replicate 4 0 @ array32 (npk_bytes npk)
      @ vpk_bytes vpk @ u128_to_le_bytes identifier"

definition for_regular_private_account ::
  "hasher \<Rightarrow> nullifier_public_key \<Rightarrow> viewing_public_key \<Rightarrow> account_identifier \<Rightarrow> account_id option" where
  "for_regular_private_account sha256 npk vpk identifier =
    (if length (vpk_bytes vpk) = VIEWING_PUBLIC_KEY_LEN
     then Some (AccountId (sha256 (regular_private_preimage npk vpk identifier))) else None)"

fun for_private_account ::
  "hasher \<Rightarrow> nullifier_public_key \<Rightarrow> viewing_public_key \<Rightarrow> private_account_kind \<Rightarrow> account_id option"
where
  "for_private_account sha256 npk vpk (Regular identifier)
    = for_regular_private_account sha256 npk vpk identifier"
| "for_private_account sha256 npk vpk (Pda p seed identifier)
    = for_private_pda sha256 p seed npk vpk identifier"

subsection \<open>Commitments\<close>

datatype commitment = Commitment (commitment_bytes: array32)

instantiation commitment :: linorder
begin

definition less_eq_commitment :: "commitment \<Rightarrow> commitment \<Rightarrow> bool" where
  "less_eq_commitment a b \<longleftrightarrow> commitment_bytes a \<le> commitment_bytes b"

definition less_commitment :: "commitment \<Rightarrow> commitment \<Rightarrow> bool" where
  "less_commitment a b \<longleftrightarrow> commitment_bytes a < commitment_bytes b"

instance
  by standard (auto simp: less_eq_commitment_def less_commitment_def commitment.expand)

end

type_synonym commitment_set_digest = array32
type_synonym membership_proof = "nat \<times> array32 list"

definition DUMMY_COMMITMENT :: commitment where
  "DUMMY_COMMITMENT = Commitment (of_array32
    [55, 228, 215, 207, 112, 221, 239, 49, 238, 79, 71, 135, 155, 15, 184, 45, 104, 74, 51, 211,
     238, 42, 160, 243, 15, 124, 253, 62, 3, 229, 90, 27])"

definition DUMMY_COMMITMENT_HASH :: array32 where
  "DUMMY_COMMITMENT_HASH = of_array32
    [250, 237, 192, 113, 155, 101, 119, 30, 235, 183, 20, 84, 26, 32, 196, 229, 154, 74, 254, 249,
     129, 241, 118, 39, 41, 253, 141, 171, 184, 71, 8, 41]"

definition commitment_preimage :: "hasher \<Rightarrow> account_id \<Rightarrow> account \<Rightarrow> bytes" where
  "commitment_preimage sha256 aid a =
    ascii ''/LEE/v0.3/Commitment/'' @ replicate 11 0 @ array32 (id_value aid)
      @ array32 (id_value (program_owner a)) @ u128_to_le_bytes (balance a)
      @ u128_to_le_bytes (nonce_value (nonce a)) @ array32 (sha256 (into_inner (data a)))"

definition commitment_new :: "hasher \<Rightarrow> account_id \<Rightarrow> account \<Rightarrow> commitment" where
  "commitment_new sha256 aid a = Commitment (sha256 (commitment_preimage sha256 aid a))"

fun digest_along_path :: "hasher \<Rightarrow> array32 \<Rightarrow> nat \<Rightarrow> array32 list \<Rightarrow> array32" where
  "digest_along_path sha256 result level_index [] = result"
| "digest_along_path sha256 result level_index (node # path) =
    digest_along_path sha256
      (if even level_index then sha256 (array32 result @ array32 node)
       else sha256 (array32 node @ array32 result))
      (level_index div 2) path"

definition compute_digest_for_path ::
  "hasher \<Rightarrow> commitment \<Rightarrow> membership_proof \<Rightarrow> commitment_set_digest" where
  "compute_digest_for_path sha256 c proof =
    digest_along_path sha256 (sha256 (array32 (commitment_bytes c))) (fst proof) (snd proof)"

subsection \<open>Nullifiers\<close>

datatype nullifier = Nullifier (nullifier_bytes: array32)

instantiation nullifier :: linorder
begin

definition less_eq_nullifier :: "nullifier \<Rightarrow> nullifier \<Rightarrow> bool" where
  "less_eq_nullifier a b \<longleftrightarrow> nullifier_bytes a \<le> nullifier_bytes b"

definition less_nullifier :: "nullifier \<Rightarrow> nullifier \<Rightarrow> bool" where
  "less_nullifier a b \<longleftrightarrow> nullifier_bytes a < nullifier_bytes b"

instance
  by standard (auto simp: less_eq_nullifier_def less_nullifier_def nullifier.expand)

end

definition update_nullifier_preimage :: "commitment \<Rightarrow> nullifier_secret_key \<Rightarrow> bytes" where
  "update_nullifier_preimage c nsk =
    ascii ''/LEE/v0.3/Nullifier/Update/'' @ replicate 5 0 @ array32 (commitment_bytes c) @ array32 nsk"

definition for_account_update :: "hasher \<Rightarrow> commitment \<Rightarrow> nullifier_secret_key \<Rightarrow> nullifier" where
  "for_account_update sha256 c nsk = Nullifier (sha256 (update_nullifier_preimage c nsk))"

definition init_nullifier_preimage :: "account_id \<Rightarrow> bytes" where
  "init_nullifier_preimage aid =
    ascii ''/LEE/v0.3/Nullifier/Initialize/'' @ [0] @ array32 (id_value aid)"

definition for_account_initialization :: "hasher \<Rightarrow> account_id \<Rightarrow> nullifier" where
  "for_account_initialization sha256 aid = Nullifier (sha256 (init_nullifier_preimage aid))"

definition dummy_nullifier_preimage :: "array32 \<Rightarrow> bytes" where
  "dummy_nullifier_preimage seed =
    ascii ''/LEE/v0.3/Nullifier/Dummy/'' @ replicate 6 0 @ array32 seed"

definition nullifier_for_dummy :: "hasher \<Rightarrow> array32 \<Rightarrow> nullifier" where
  "nullifier_for_dummy sha256 seed = Nullifier (sha256 (dummy_nullifier_preimage seed))"

definition commitment_for_dummy :: "hasher \<Rightarrow> nullifier \<Rightarrow> array32 \<Rightarrow> commitment" where
  "commitment_for_dummy sha256 n seed =
    Commitment (sha256 (ascii ''/LEE/v0.3/Commitment/Dummy/'' @ replicate 5 0
      @ array32 (nullifier_bytes n) @ array32 seed))"

subsection \<open>Note encryption\<close>

text \<open>
  Borsh (\<open>ser\<close>, \<open>de\<close>) and the ChaCha20 keystream are parameters. \<open>de\<close> reads a value off the
  front of a slice; \<open>apply_keystream\<close> transforms a buffer under a key.
\<close>

definition HEADER_LEN :: nat where
  "HEADER_LEN = 81"

definition to_header_bytes :: "(private_account_kind \<Rightarrow> bytes) \<Rightarrow> private_account_kind \<Rightarrow> bytes option" where
  "to_header_bytes ser kind =
    (let serialized = ser kind in
     if length serialized \<le> HEADER_LEN
     then Some (serialized @ replicate (HEADER_LEN - length serialized) 0) else None)"

definition from_header_bytes ::
  "(bytes \<Rightarrow> (private_account_kind \<times> bytes) option) \<Rightarrow> bytes \<Rightarrow> private_account_kind option" where
  "from_header_bytes de bs = map_option fst (de bs)"

definition kdf :: "hasher \<Rightarrow> array32 \<Rightarrow> nullifier \<Rightarrow> array32" where
  "kdf sha256 shared_secret n =
    sha256 (ascii ''LEE/v0.3/KDF-SHA256/'' @ array32 shared_secret @ array32 (nullifier_bytes n))"

definition symmetric_transform ::
  "hasher \<Rightarrow> (array32 \<Rightarrow> bytes \<Rightarrow> bytes) \<Rightarrow> bytes \<Rightarrow> array32 \<Rightarrow> nullifier \<Rightarrow> bytes" where
  "symmetric_transform sha256 apply_keystream buffer shared_secret n =
    apply_keystream (kdf sha256 shared_secret n) buffer"

datatype ciphertext = Ciphertext (ciphertext_bytes: bytes)

definition encrypt ::
  "hasher \<Rightarrow> (private_account_kind \<Rightarrow> bytes) \<Rightarrow> (array32 \<Rightarrow> bytes \<Rightarrow> bytes) \<Rightarrow> account
    \<Rightarrow> private_account_kind \<Rightarrow> array32 \<Rightarrow> nullifier \<Rightarrow> ciphertext option" where
  "encrypt sha256 ser apply_keystream a kind shared_secret n =
    Option.bind (to_header_bytes ser kind) (\<lambda>header.
    Option.bind (account_to_bytes a) (\<lambda>bs.
    Some (Ciphertext (symmetric_transform sha256 apply_keystream (header @ bs) shared_secret n))))"

definition decrypt ::
  "hasher \<Rightarrow> (bytes \<Rightarrow> (private_account_kind \<times> bytes) option) \<Rightarrow> (array32 \<Rightarrow> bytes \<Rightarrow> bytes)
    \<Rightarrow> ciphertext \<Rightarrow> array32 \<Rightarrow> nullifier \<Rightarrow> (private_account_kind \<times> account) option" where
  "decrypt sha256 de apply_keystream c shared_secret n =
    (let buffer = symmetric_transform sha256 apply_keystream (ciphertext_bytes c) shared_secret n in
     if length buffer < HEADER_LEN then None
     else Option.bind (from_header_bytes de (take HEADER_LEN buffer)) (\<lambda>kind.
       case account_from_cursor (drop HEADER_LEN buffer) of
         Inl _ \<Rightarrow> None
       | Inr (a, _) \<Rightarrow> Some (kind, a)))"

text \<open>\<open>Ciphertext::to_bytes\<close> and \<open>Ciphertext::from_cursor\<close>: a length prefix and the bytes.\<close>

definition ciphertext_to_bytes :: "ciphertext \<Rightarrow> bytes option" where
  "ciphertext_to_bytes c =
    (let n = length (ciphertext_bytes c) in
     if n < 2 ^ 32 then Some (u32_to_le_bytes (of_nat n) @ ciphertext_bytes c) else None)"

definition ciphertext_from_cursor :: "bytes \<Rightarrow> core_error + ciphertext \<times> bytes" where
  "ciphertext_from_cursor c0 =
    expect_some (read_exact 4 c0) UnexpectedEof (\<lambda>(u32_bytes, c1).
    expect_some (read_exact (unat (le_join u32_bytes :: u32)) c1) UnexpectedEof (\<lambda>(bs, c2).
    Inr (Ciphertext bs, c2)))"

definition commitment_from_cursor :: "bytes \<Rightarrow> core_error + commitment \<times> bytes" where
  "commitment_from_cursor c0 =
    expect_some (read_exact 32 c0) UnexpectedEof (\<lambda>(bs, c1). Inr (Commitment (of_array32 bs), c1))"

definition nullifier_from_cursor :: "bytes \<Rightarrow> core_error + nullifier \<times> bytes" where
  "nullifier_from_cursor c0 =
    expect_some (read_exact 32 c0) UnexpectedEof (\<lambda>(bs, c1). Inr (Nullifier (of_array32 bs), c1))"

interpretation commitment_codec: byte_codec "\<lambda>c. array32 (commitment_bytes c)" commitment_from_cursor "\<lambda>_. True"
  by unfold_locales (simp add: commitment_from_cursor_def codec_simps)

interpretation nullifier_codec: byte_codec "\<lambda>n. array32 (nullifier_bytes n)" nullifier_from_cursor "\<lambda>_. True"
  by unfold_locales (simp add: nullifier_from_cursor_def codec_simps)

lemma ciphertext_from_cursor_append:
  assumes "ciphertext_to_bytes c = Some bs"
  shows "ciphertext_from_cursor (bs @ rest) = Inr (c, rest)"
proof -
  have n: "length (ciphertext_bytes c) < 2 ^ 32"
    and bs: "bs = u32_to_le_bytes (of_nat (length (ciphertext_bytes c))) @ ciphertext_bytes c"
    using assms by (simp_all add: ciphertext_to_bytes_def Let_def split: if_splits)
  from n have "unat (of_nat (length (ciphertext_bytes c)) :: u32) = length (ciphertext_bytes c)"
    by (simp add: unat_of_nat)
  then show ?thesis
    by (simp add: bs ciphertext_from_cursor_def codec_simps)
qed

interpretation ciphertext_codec: byte_codec "\<lambda>c. the (ciphertext_to_bytes c)" ciphertext_from_cursor
    "\<lambda>c. length (ciphertext_bytes c) < 2 ^ 32"
proof unfold_locales
  fix c rest
  assume "length (ciphertext_bytes c) < 2 ^ 32"
  then obtain bs where "ciphertext_to_bytes c = Some bs"
    by (auto simp: ciphertext_to_bytes_def Let_def)
  then show "ciphertext_from_cursor (the (ciphertext_to_bytes c) @ rest) = Inr (c, rest)"
    by (simp add: ciphertext_from_cursor_append)
qed

subsection \<open>Binding\<close>

lemma length_program_id_bytes [simp]: "length (program_id_bytes p) = 32"
  by (simp add: program_id_bytes_def length_concat comp_def sum_list_triv)

lemma program_id_bytes_eq_iff [simp]: "program_id_bytes p = program_id_bytes q \<longleftrightarrow> p = q"
proof
  assume "program_id_bytes p = program_id_bytes q"
  then have "account_of_program p = account_of_program q"
    by (simp add: account_of_program_def program_id_bytes_def)
  then show "p = q" by simp
qed simp

datatype id_derivation =
    PublicPda program_id pda_seed
  | PrivatePda program_id pda_seed nullifier_public_key viewing_public_key account_identifier
  | RegularPrivate nullifier_public_key viewing_public_key account_identifier

fun id_preimage :: "id_derivation \<Rightarrow> bytes" where
  "id_preimage (PublicPda p s) = public_pda_preimage p s"
| "id_preimage (PrivatePda p s npk vpk i) = private_pda_preimage p s npk vpk i"
| "id_preimage (RegularPrivate npk vpk i) = regular_private_preimage npk vpk i"

fun derive_account_id :: "hasher \<Rightarrow> id_derivation \<Rightarrow> account_id option" where
  "derive_account_id sha256 (PublicPda p s) = Some (for_public_pda sha256 p s)"
| "derive_account_id sha256 (PrivatePda p s npk vpk i) = for_private_pda sha256 p s npk vpk i"
| "derive_account_id sha256 (RegularPrivate npk vpk i) = for_regular_private_account sha256 npk vpk i"

lemmas preimage_defs = public_pda_preimage_def private_pda_preimage_def regular_private_preimage_def

lemma id_preimage_tag:
  "id_preimage (PublicPda p s) ! 8 = 0x32"
  "id_preimage (PrivatePda p s npk vpk i) ! 8 = 0x33"
  "id_preimage (RegularPrivate npk vpk i) ! 8 = 0x33"
  "id_preimage (PrivatePda p s npk vpk i) ! 27 = 0x50"
  "id_preimage (RegularPrivate npk vpk i) ! 27 = 0x2F"
  by (simp_all add: preimage_defs ascii_def nth_Cons')

lemma id_preimage_inject:
  assumes "derive_account_id sha256 d = Some a" and "derive_account_id sha256 d' = Some a'"
    and "id_preimage d = id_preimage d'"
  shows "d = d'"
proof -
  have "id_preimage d ! 8 = id_preimage d' ! 8" and "id_preimage d ! 27 = id_preimage d' ! 27"
    by (simp_all add: assms(3))
  then show ?thesis using assms
    by (cases d; cases d')
      (auto simp del: id_preimage.simps simp: id_preimage_tag,
       auto simp: preimage_defs for_private_pda_def for_regular_private_account_def
         nullifier_public_key.expand pda_seed.expand viewing_public_key.expand split: if_splits)
qed

datatype nullifier_derivation =
    UpdateOf commitment nullifier_secret_key
  | InitOf account_id
  | DummyOf array32

fun nullifier_preimage :: "nullifier_derivation \<Rightarrow> bytes" where
  "nullifier_preimage (UpdateOf c nsk) = update_nullifier_preimage c nsk"
| "nullifier_preimage (InitOf a) = init_nullifier_preimage a"
| "nullifier_preimage (DummyOf s) = dummy_nullifier_preimage s"

fun derive_nullifier :: "hasher \<Rightarrow> nullifier_derivation \<Rightarrow> nullifier" where
  "derive_nullifier sha256 (UpdateOf c nsk) = for_account_update sha256 c nsk"
| "derive_nullifier sha256 (InitOf a) = for_account_initialization sha256 a"
| "derive_nullifier sha256 (DummyOf s) = nullifier_for_dummy sha256 s"

lemmas nullifier_preimage_defs =
  update_nullifier_preimage_def init_nullifier_preimage_def dummy_nullifier_preimage_def

lemma nullifier_preimage_tag:
  "nullifier_preimage (UpdateOf c nsk) ! 20 = 0x55"
  "nullifier_preimage (InitOf a) ! 20 = 0x49"
  "nullifier_preimage (DummyOf s) ! 20 = 0x44"
  by (simp_all add: nullifier_preimage_defs ascii_def nth_Cons')

lemma nullifier_preimage_inject:
  assumes "nullifier_preimage d = nullifier_preimage d'"
  shows "d = d'"
proof -
  have "nullifier_preimage d ! 20 = nullifier_preimage d' ! 20"
    by (simp add: assms)
  then show ?thesis using assms
    by (cases d; cases d')
      (auto simp del: nullifier_preimage.simps simp: nullifier_preimage_tag,
       auto simp: nullifier_preimage_defs commitment.expand account_id.expand)
qed

text \<open>
  C16: A nullifier determines what it nullifies: equal nullifiers come from the same
  derivation (the same commitment and key, the same initialised account, or the same dummy
  seed), or their preimages collide under SHA-256.
\<close>

theorem nullifier_binding:
  assumes "derive_nullifier sha256 d = derive_nullifier sha256 d'"
  shows "d = d' \<or> collision sha256 (nullifier_preimage d) (nullifier_preimage d')"
proof -
  have "sha256 (nullifier_preimage d) = sha256 (nullifier_preimage d')"
    using assms
    by (cases d; cases d')
      (simp_all add: for_account_update_def for_account_initialization_def nullifier_for_dummy_def)
  then show ?thesis
    using nullifier_preimage_inject by (auto simp: collision_def)
qed

text \<open>
  Witness: under a constant hash the nullifier of an update and that of an initialization are
  equal, and what the statement then gives is a collision of two different preimages.
\<close>

theorem nullifier_binding_witness:
  "derive_nullifier (\<lambda>_. 0) (UpdateOf (Commitment 2) 5) = derive_nullifier (\<lambda>_. 0) (InitOf (AccountId 1)) \<and>
    nullifier_preimage (UpdateOf (Commitment 2) 5) \<noteq> nullifier_preimage (InitOf (AccountId 1)) \<and>
    collision (\<lambda>_. 0) (nullifier_preimage (UpdateOf (Commitment 2) 5)) (nullifier_preimage (InitOf (AccountId 1)))"
proof -
  have same: "derive_nullifier (\<lambda>_. 0) (UpdateOf (Commitment 2) 5) = derive_nullifier (\<lambda>_. 0) (InitOf (AccountId 1))"
    by (simp add: for_account_update_def for_account_initialization_def)
  from nullifier_binding [OF this]
  have "collision (\<lambda>_. 0) (nullifier_preimage (UpdateOf (Commitment 2) 5)) (nullifier_preimage (InitOf (AccountId 1)))"
    by simp
  with same show ?thesis by (simp add: collision_def)
qed

text \<open>
  C17: Account ids are domain separated: a public program-derived id, a private
  program-derived id and a regular private id are equal only when they come from the same
  kind of derivation with the same inputs, or when their preimages collide under SHA-256.
\<close>

theorem account_id_binding:
  assumes "derive_account_id sha256 d = Some a" and "derive_account_id sha256 d' = Some a"
  shows "d = d' \<or> collision sha256 (id_preimage d) (id_preimage d')"
proof -
  have "sha256 (id_preimage d) = sha256 (id_preimage d')"
    using assms
    by (cases d; cases d')
      (auto simp: for_public_pda_def for_private_pda_def for_regular_private_account_def
         split: if_splits)
  then show ?thesis
    using id_preimage_inject [OF assms] by (auto simp: collision_def)
qed

theorem account_id_binding_witness:
  "PublicPda (ProgramId 0) (PdaSeed 1) = PublicPda (ProgramId 0) (PdaSeed 2) \<or>
    collision (\<lambda>_. 7) (id_preimage (PublicPda (ProgramId 0) (PdaSeed 1)))
      (id_preimage (PublicPda (ProgramId 0) (PdaSeed 2)))"
  by (rule account_id_binding [of "\<lambda>_. 7" _ "AccountId 7"]) (simp_all add: for_public_pda_def)

lemma commitment_preimage_inject:
  assumes "commitment_preimage sha256 aid a = commitment_preimage sha256 aid' a'"
  shows "aid = aid' \<and> program_owner a = program_owner a' \<and> balance a = balance a'
    \<and> nonce a = nonce a' \<and> sha256 (into_inner (data a)) = sha256 (into_inner (data a'))"
  using assms by (auto simp: commitment_preimage_def account_id.expand nonce.expand)

text \<open>
  C18: A commitment binds the account: equal commitments are to the same account id and the
  same owner, balance, nonce and data, or there is an explicit SHA-256 collision, of the two
  preimages or of the two data fields.
\<close>

theorem commitment_binding:
  assumes "commitment_new sha256 aid a = commitment_new sha256 aid' a'"
  shows "(aid = aid' \<and> a = a')
    \<or> collision sha256 (commitment_preimage sha256 aid a) (commitment_preimage sha256 aid' a')
    \<or> collision sha256 (into_inner (data a)) (into_inner (data a'))"
proof (cases "commitment_preimage sha256 aid a = commitment_preimage sha256 aid' a'")
  case True
  note same = commitment_preimage_inject [OF True]
  show ?thesis
  proof (cases "into_inner (data a) = into_inner (data a')")
    case True
    with same show ?thesis by (simp add: account.equality account_data.expand)
  next
    case False
    with same show ?thesis by (simp add: collision_def)
  qed
next
  case False
  with assms show ?thesis by (simp add: commitment_new_def collision_def)
qed

text \<open>
  Witness: under a constant hash two accounts that differ in their data only have the same
  commitment. Their preimages are equal, so the statement gives the collision of the data.
\<close>

theorem commitment_binding_witness:
  "let a = default_account; b = default_account\<lparr>data := Data [1]\<rparr> in
    commitment_new (\<lambda>_. 3) (AccountId 1) a = commitment_new (\<lambda>_. 3) (AccountId 1) b \<and>
    commitment_preimage (\<lambda>_. 3) (AccountId 1) a = commitment_preimage (\<lambda>_. 3) (AccountId 1) b \<and>
    collision (\<lambda>_. 3) (into_inner (data a)) (into_inner (data b))"
proof -
  let ?b = "default_account\<lparr>data := Data [1]\<rparr>"
  have pre: "commitment_preimage (\<lambda>_. 3) (AccountId 1) default_account = commitment_preimage (\<lambda>_. 3) (AccountId 1) ?b"
    by (simp add: commitment_preimage_def)
  have new: "commitment_new (\<lambda>_. 3) (AccountId 1) default_account = commitment_new (\<lambda>_. 3) (AccountId 1) ?b"
    by (simp add: commitment_new_def)
  have "\<not> collision (\<lambda>_. 3) (commitment_preimage (\<lambda>_. 3) (AccountId 1) default_account)
      (commitment_preimage (\<lambda>_. 3) (AccountId 1) ?b)"
    unfolding pre by (simp add: collision_def)
  moreover have "default_account \<noteq> ?b" by (simp add: default_account_def)
  ultimately have "collision (\<lambda>_. 3) (into_inner (data default_account)) (into_inner (data ?b))"
    using commitment_binding [OF new] by blast
  with pre new show ?thesis by (simp only: Let_def)
qed

subsection \<open>The note pipeline\<close>

lemma to_header_bytes_length: "to_header_bytes ser kind = Some h \<Longrightarrow> length h = HEADER_LEN"
  by (auto simp: to_header_bytes_def Let_def split: if_splits)

text \<open>
  C19: A note decrypts to what was encrypted: with a deserializer that reads back the
  serialized kind and a keystream that is its own inverse, decrypting with the same shared
  secret and nullifier returns the account kind and the account, for every account whose
  data is within the limit.
\<close>

theorem decrypt_encrypt:
  assumes de_ser: "\<And>k rest. de (ser k @ rest) = Some (k, rest)"
    and ser_len: "\<And>k. length (ser k) \<le> HEADER_LEN"
    and involution: "\<And>key buf. apply_keystream key (apply_keystream key buf) = buf"
    and valid: "account_valid a"
  shows "\<exists>c. encrypt sha256 ser apply_keystream a kind secret n = Some c
    \<and> decrypt sha256 de apply_keystream c secret n = Some (kind, a)"
proof -
  obtain h where h: "to_header_bytes ser kind = Some h"
    using ser_len by (auto simp: to_header_bytes_def Let_def)
  obtain bs where bs: "account_to_bytes a = Some bs"
    using account_to_bytes_valid [OF valid] by blast
  have "from_header_bytes de h = Some kind"
    using h de_ser by (auto simp: from_header_bytes_def to_header_bytes_def Let_def split: if_splits)
  moreover have "account_from_cursor bs = Inr (a, [])"
    using account_from_cursor_append [OF valid bs, of "[]"] by simp
  ultimately show ?thesis
    using h bs to_header_bytes_length [OF h]
    by (simp add: encrypt_def decrypt_def symmetric_transform_def involution Let_def)
qed

text \<open>
  A serializer with the layout the sources document for \<open>PrivateAccountKind\<close>: a variant
  byte, then the fields in order, integers little-endian.
\<close>

fun documented_ser :: "private_account_kind \<Rightarrow> bytes" where
  "documented_ser (Regular i) = 0 # u128_to_le_bytes i"
| "documented_ser (Pda p s i) =
    1 # program_id_bytes p @ array32 (seed_bytes s) @ u128_to_le_bytes i"

fun documented_de :: "bytes \<Rightarrow> (private_account_kind \<times> bytes) option" where
  "documented_de [] = None"
| "documented_de (v # c0) =
    (if v = 0 then map_option (\<lambda>(i, c1). (Regular (le_join i), c1)) (read_exact 16 c0)
     else if v = 1 then
       Option.bind (read_exact 32 c0) (\<lambda>(p, c1).
       Option.bind (read_exact 32 c1) (\<lambda>(s, c2).
       map_option (\<lambda>(i, c3). (Pda (program_of_account (AccountId (of_array32 p)))
         (PdaSeed (of_array32 s)) (le_join i), c3)) (read_exact 16 c2)))
     else None)"

lemma program_of_program_id_bytes [simp]:
  "program_of_account (AccountId (of_array32 (program_id_bytes p))) = p"
  using program_of_account_of_program [of p] by (simp add: account_of_program_def program_id_bytes_def)

lemma documented_de_ser: "documented_de (documented_ser k @ rest) = Some (k, rest)"
  by (cases k) (simp_all add: codec_simps)

lemma documented_ser_length: "length (documented_ser k) \<le> HEADER_LEN"
  by (cases k) (simp_all add: HEADER_LEN_def)

theorem decrypt_encrypt_witness:
  "\<exists>c. encrypt (\<lambda>_. 0) documented_ser (\<lambda>_. map (\<lambda>b. b XOR 0x5A)) default_account (Regular 5) 1
      (Nullifier 2) = Some c
    \<and> decrypt (\<lambda>_. 0) documented_de (\<lambda>_. map (\<lambda>b. b XOR 0x5A)) c 1 (Nullifier 2)
      = Some (Regular 5, default_account)"
  by (rule decrypt_encrypt)
    (simp_all add: documented_de_ser documented_ser_length comp_def account_valid_def data_valid_def
      default_account_def flip: xor.assoc, simp add: xor.assoc)

end
