(* ===== verification/Execution.thy ===== *)
theory Execution
  imports Derivations
begin

text \<open>
  The program interface and the rules of well-behaved execution
  (\<open>core/src/program/mod.rs\<close>): chained calls, post states and claims, validity windows,
  program outputs, the 256-bit balance sum, and \<open>validate_execution\<close>.
\<close>

subsection \<open>Calls, claims and outputs\<close>

definition MAX_NUMBER_CHAINED_CALLS :: nat where
  "MAX_NUMBER_CHAINED_CALLS = 10"

type_synonym instruction_data = "u32 list"
type_synonym block_id = u64
type_synonym timestamp = u64

record caller_data =
  caller_program :: "program_id option"
  authorized_accounts :: "account_id set"

record chained_call =
  call_program_id :: program_id
  call_pre_states :: "account_with_metadata list"
  call_instruction_data :: instruction_data
  call_pda_seeds :: "pda_seed list"

text \<open>\<open>to_words\<close> is the zkVM serializer of the instruction type.\<close>

definition chained_call_new ::
  "('i \<Rightarrow> u32 list) \<Rightarrow> program_id \<Rightarrow> account_with_metadata list \<Rightarrow> 'i \<Rightarrow> chained_call" where
  "chained_call_new to_words p pre instruction =
    \<lparr>call_program_id = p, call_pre_states = pre,
     call_instruction_data = to_words instruction, call_pda_seeds = []\<rparr>"

definition with_pda_seeds :: "chained_call \<Rightarrow> pda_seed list \<Rightarrow> chained_call" where
  "with_pda_seeds c seeds = c\<lparr>call_pda_seeds := seeds\<rparr>"

datatype claim = ClaimAuthorized | ClaimPda pda_seed

record account_post_state =
  post_account :: account
  post_claim :: "claim option"

definition post_new :: "account \<Rightarrow> account_post_state" where
  "post_new a = \<lparr>post_account = a, post_claim = None\<rparr>"

definition new_claimed :: "account \<Rightarrow> claim \<Rightarrow> account_post_state" where
  "new_claimed a c = \<lparr>post_account = a, post_claim = Some c\<rparr>"

definition new_claimed_if_default :: "account \<Rightarrow> claim \<Rightarrow> account_post_state" where
  "new_claimed_if_default a c =
    \<lparr>post_account = a,
     post_claim = (if program_owner a = DEFAULT_PROGRAM_OWNER then Some c else None)\<rparr>"

record 't validity_window =
  window_from :: "'t option"
  window_to :: "'t option"

datatype invalid_window = InvalidWindow

definition new_unbounded :: "'t validity_window" where
  "new_unbounded = \<lparr>window_from = None, window_to = None\<rparr>"

definition is_valid_for :: "'t::linorder validity_window \<Rightarrow> 't \<Rightarrow> bool" where
  "is_valid_for w v \<longleftrightarrow>
    (case window_from w of None \<Rightarrow> True | Some start \<Rightarrow> start \<le> v) \<and>
    (case window_to w of None \<Rightarrow> True | Some stop \<Rightarrow> v < stop)"

definition check_window :: "'t::linorder validity_window \<Rightarrow> invalid_window + unit" where
  "check_window w =
    (case (window_from w, window_to w) of
       (Some start, Some stop) \<Rightarrow> if stop \<le> start then Inl InvalidWindow else Inr ()
     | _ \<Rightarrow> Inr ())"

definition window_try_from ::
  "'t::linorder option \<times> 't option \<Rightarrow> invalid_window + 't validity_window" where
  "window_try_from v =
    (let this = \<lparr>window_from = fst v, window_to = snd v\<rparr> in
     and_then (check_window this) (\<lambda>_. Inr this))"

definition window_from_range :: "'t::linorder \<Rightarrow> 't \<Rightarrow> invalid_window + 't validity_window" where
  "window_from_range start stop = window_try_from (Some start, Some stop)"

definition window_range_from :: "'t \<Rightarrow> 't validity_window" where
  "window_range_from start = \<lparr>window_from = Some start, window_to = None\<rparr>"

definition window_range_to :: "'t \<Rightarrow> 't validity_window" where
  "window_range_to stop = \<lparr>window_from = None, window_to = Some stop\<rparr>"

record program_output =
  self_program_id :: program_id
  caller_program_id :: "program_id option"
  instruction_data :: instruction_data
  pre_states :: "account_with_metadata list"
  post_states :: "account_post_state list"
  chained_calls :: "chained_call list"
  block_validity_window :: "block_id validity_window"
  timestamp_validity_window :: "timestamp validity_window"

definition program_output_new ::
  "program_id \<Rightarrow> program_id option \<Rightarrow> instruction_data \<Rightarrow> account_with_metadata list
    \<Rightarrow> account_post_state list \<Rightarrow> program_output" where
  "program_output_new self caller instr pre post =
    \<lparr>self_program_id = self, caller_program_id = caller, instruction_data = instr,
     pre_states = pre, post_states = post, chained_calls = [],
     block_validity_window = new_unbounded, timestamp_validity_window = new_unbounded\<rparr>"

definition with_chained_calls :: "program_output \<Rightarrow> chained_call list \<Rightarrow> program_output" where
  "with_chained_calls out calls = out\<lparr>chained_calls := calls\<rparr>"

definition valid_from_timestamp ::
  "program_output \<Rightarrow> timestamp option \<Rightarrow> invalid_window + program_output" where
  "valid_from_timestamp out ts =
    and_then (window_try_from (ts, window_to (timestamp_validity_window out))) (\<lambda>w.
    Inr (out\<lparr>timestamp_validity_window := w\<rparr>))"

definition valid_until_timestamp ::
  "program_output \<Rightarrow> timestamp option \<Rightarrow> invalid_window + program_output" where
  "valid_until_timestamp out ts =
    and_then (window_try_from (window_from (timestamp_validity_window out), ts)) (\<lambda>w.
    Inr (out\<lparr>timestamp_validity_window := w\<rparr>))"

definition compute_public_authorized_pdas ::
  "hasher \<Rightarrow> program_id option \<Rightarrow> pda_seed list \<Rightarrow> account_id set" where
  "compute_public_authorized_pdas sha256 caller seeds =
    (case caller of None \<Rightarrow> {} | Some c \<Rightarrow> set (map (for_public_pda sha256 c) seeds))"

subsection \<open>Balance sums\<close>

record wrapped_balance_sum =
  lo :: u128
  hi :: u128

fun sum_balances :: "wrapped_balance_sum \<Rightarrow> u128 list \<Rightarrow> wrapped_balance_sum option" where
  "sum_balances wrapped [] = Some wrapped"
| "sum_balances wrapped (b # bs) =
    (let (new_sum, did_overflow) = overflowing_add (lo wrapped) b in
     if did_overflow then
       Option.bind (checked_add (hi wrapped) 1) (\<lambda>h. sum_balances \<lparr>lo = new_sum, hi = h\<rparr> bs)
     else sum_balances (wrapped\<lparr>lo := new_sum\<rparr>) bs)"

definition from_balances :: "u128 list \<Rightarrow> wrapped_balance_sum option" where
  "from_balances bs = sum_balances \<lparr>lo = 0, hi = 0\<rparr> bs"

subsection \<open>Validation of an execution\<close>

datatype execution_validation_error =
    PreStateAccountIdsNotUnique
  | MismatchedPreStatePostStateLength nat nat
  | ModifiedNonce account_id
  | ModifiedProgramOwner account_id
  | UnauthorizedBalanceDecrease account_id account_id program_id
  | UnauthorizedDataModification account_id program_id
  | NonDefaultAccountWithDefaultOwner account_id
  | BalanceSumOverflow
  | MismatchedTotalBalance wrapped_balance_sum wrapped_balance_sum

definition validate_uniqueness_of_account_ids :: "account_with_metadata list \<Rightarrow> bool" where
  "validate_uniqueness_of_account_ids pre \<longleftrightarrow> length pre = card (set (map account_id pre))"

text \<open>Checks 3 to 7 on one account, in the order of the loop body.\<close>

definition validate_account ::
  "program_id \<Rightarrow> account_with_metadata \<Rightarrow> account_post_state
    \<Rightarrow> execution_validation_error + unit" where
  "validate_account executing_program_id pre post =
    (let executing_account_id = account_of_program executing_program_id;
         a = account pre; b = post_account post; owner = program_owner a in
     ensure (nonce a = nonce b) (ModifiedNonce (account_id pre)) (
     ensure (program_owner a = program_owner b) (ModifiedProgramOwner (account_id pre)) (
     ensure (\<not> (balance b < balance a \<and> owner \<noteq> executing_account_id))
       (UnauthorizedBalanceDecrease (account_id pre) owner executing_program_id) (
     ensure (\<not> (data a \<noteq> data b \<and> a \<noteq> default_account \<and> owner \<noteq> executing_account_id))
       (UnauthorizedDataModification (account_id pre) executing_program_id) (
     ensure (\<not> (program_owner b = DEFAULT_PROGRAM_OWNER \<and> a \<noteq> default_account))
       (NonDefaultAccountWithDefaultOwner (account_id pre)) (
     Inr ()))))))"

definition validate_execution ::
  "account_with_metadata list \<Rightarrow> account_post_state list \<Rightarrow> program_id
    \<Rightarrow> execution_validation_error + unit" where
  "validate_execution pre post executing_program_id =
    ensure (validate_uniqueness_of_account_ids pre) PreStateAccountIdsNotUnique (
    ensure (length pre = length post)
      (MismatchedPreStatePostStateLength (length pre) (length post)) (
    and_then (try_fold (\<lambda>_ (a, b). validate_account executing_program_id a b) () (zip pre post)) (\<lambda>_.
    expect_some (from_balances (map (balance \<circ> account) pre)) BalanceSumOverflow (\<lambda>total_pre.
    expect_some (from_balances (map (balance \<circ> post_account) post)) BalanceSumOverflow (\<lambda>total_post.
    ensure (total_pre = total_post) (MismatchedTotalBalance total_pre total_post) (
    Inr ()))))))"

subsection \<open>Windows\<close>

lemma window_try_from_iff:
  "window_try_from (f, t) = Inr w \<longleftrightarrow>
    w = \<lparr>window_from = f, window_to = t\<rparr> \<and> (\<forall>a b. f = Some a \<and> t = Some b \<longrightarrow> a < b)"
  by (auto simp: window_try_from_def check_window_def Let_def result_simps
      split: option.splits if_splits)

lemma window_try_from_nonempty:
  assumes "window_try_from (Some a, t) = Inr w"
  shows "is_valid_for w a"
  using assms by (auto simp: window_try_from_iff is_valid_for_def split: option.splits)

subsection \<open>The balance sum is exact\<close>

definition balance_sum_value :: "wrapped_balance_sum \<Rightarrow> nat" where
  "balance_sum_value w = unat (lo w) + 2 ^ 128 * unat (hi w)"

lemma balance_sum_value_bound: "balance_sum_value w < 2 ^ 256"
proof -
  have "unat (lo w) < 2 ^ 128" and "unat (hi w) \<le> 2 ^ 128 - 1"
    using unsigned_less [of "lo w", where 'a = nat] unsigned_less [of "hi w", where 'a = nat]
    by simp_all
  then show ?thesis by (simp add: balance_sum_value_def)
qed

lemma balance_sum_value_parts:
  "unat (lo w) = balance_sum_value w mod 2 ^ 128" "unat (hi w) = balance_sum_value w div 2 ^ 128"
  using unsigned_less [of "lo w", where 'a = nat] by (simp_all add: balance_sum_value_def)

lemma balance_sum_value_inject: "balance_sum_value v = balance_sum_value w \<longleftrightarrow> v = w"
proof
  assume "balance_sum_value v = balance_sum_value w"
  then have "unat (lo v) = unat (lo w)" and "unat (hi v) = unat (hi w)"
    by (simp_all only: balance_sum_value_parts)
  then show "v = w" by (simp add: word_unat_eq_iff)
qed simp

lemma sum_balances_iff:
  "sum_balances w bs = Some r \<longleftrightarrow>
    balance_sum_value r = balance_sum_value w + sum_list (map unat bs)"
proof (induction bs arbitrary: w)
  case Nil
  then show ?case using balance_sum_value_inject by auto
next
  case (Cons b bs)
  obtain c ov where add: "overflowing_add (lo w) b = (c, ov)" by fastforce
  note lo_sum = overflowing_add_unat [OF add]
  show ?case
  proof (cases ov)
    case False
    then have "balance_sum_value (w\<lparr>lo := c\<rparr>) = balance_sum_value w + unat b"
      using lo_sum by (simp add: balance_sum_value_def)
    with False add Cons.IH show ?thesis by (simp add: add.assoc)
  next
    case True
    show ?thesis
    proof (cases "checked_add (hi w) 1")
      case (Some h)
      then have "balance_sum_value \<lparr>lo = c, hi = h\<rparr> = balance_sum_value w + unat b"
        using lo_sum True by (simp add: balance_sum_value_def checked_simps)
      with True add Some Cons.IH show ?thesis by (simp add: add.assoc)
    next
      case None
      then have "unat (hi w) + 1 \<ge> 2 ^ 128"
        by (simp add: checked_add_def split: if_splits)
      then have "balance_sum_value w + unat b \<ge> 2 ^ 256"
        using lo_sum True by (simp add: balance_sum_value_def)
      with balance_sum_value_bound [of r] None True add show ?thesis by auto
    qed
  qed
qed

lemma from_balances_iff:
  "from_balances bs = Some r \<longleftrightarrow> balance_sum_value r = sum_list (map unat bs)"
  by (simp add: from_balances_def sum_balances_iff balance_sum_value_def)

lemma balance_sum_value_surj:
  assumes "n < 2 ^ 256"
  shows "\<exists>r. balance_sum_value r = n"
proof -
  let ?r = "\<lparr>lo = of_nat (n mod 2 ^ 128), hi = of_nat (n div 2 ^ 128)\<rparr> :: wrapped_balance_sum"
  have "n div 2 ^ 128 < 2 ^ 128"
    using assms by (simp add: less_mult_imp_div_less flip: power_add)
  then have "unat (lo ?r) = n mod 2 ^ 128" and "unat (hi ?r) = n div 2 ^ 128"
    by (simp_all add: unat_of_nat)
  then have "balance_sum_value ?r = n"
    unfolding balance_sum_value_def by (metis mod_mult_div_eq)
  then show ?thesis ..
qed

lemma balance_sum_value_range:
  "(\<exists>r. balance_sum_value r = m \<and> balance_sum_value r = n) \<longleftrightarrow> m = n \<and> m < 2 ^ 256"
  using balance_sum_value_surj balance_sum_value_bound by metis

text \<open>
  C15: The balance sum is exact: summing the balances of a list returns the representation
  of their sum as \<open>lo + hi * 2^128\<close>, and fails exactly when the sum does not fit in 256 bits.
\<close>

theorem from_balances_exact:
  "(from_balances bs = Some r \<longleftrightarrow> unat (lo r) + 2 ^ 128 * unat (hi r) = sum_list (map unat bs))
    \<and> (from_balances bs = None \<longleftrightarrow> 2 ^ 256 \<le> sum_list (map unat bs))"
proof (intro conjI)
  show "from_balances bs = Some r \<longleftrightarrow>
      unat (lo r) + 2 ^ 128 * unat (hi r) = sum_list (map unat bs)"
    by (simp add: from_balances_iff balance_sum_value_def)
  have "(\<exists>r. from_balances bs = Some r) \<longleftrightarrow> sum_list (map unat bs) < 2 ^ 256"
    using balance_sum_value_surj balance_sum_value_bound by (metis from_balances_iff)
  then show "from_balances bs = None \<longleftrightarrow> 2 ^ 256 \<le> sum_list (map unat bs)"
    by (metis linorder_not_le not_Some_eq)
qed

subsection \<open>What a validated execution satisfies\<close>

definition well_behaved :: "program_id \<Rightarrow> account_with_metadata \<Rightarrow> account_post_state \<Rightarrow> bool" where
  "well_behaved p pre post \<longleftrightarrow>
    (let a = account pre; b = post_account post; mine = (program_owner a = account_of_program p) in
     nonce b = nonce a \<and> program_owner b = program_owner a \<and>
     (balance b < balance a \<longrightarrow> mine) \<and>
     (data b \<noteq> data a \<longrightarrow> mine \<or> a = default_account) \<and>
     (program_owner a = DEFAULT_PROGRAM_OWNER \<longrightarrow> a = default_account))"

lemma validate_account_iff: "validate_account p a b = Inr () \<longleftrightarrow> well_behaved p a b"
  by (auto simp: validate_account_def well_behaved_def Let_def result_simps)

lemma try_fold_unit:
  "try_fold (\<lambda>_ x. f x) () xs = Inr () \<longleftrightarrow> (\<forall>x \<in> set xs. f x = Inr ())"
  by (induction xs) (auto simp: result_simps)

lemma validate_execution_Inr:
  "validate_execution pre post p = Inr () \<longleftrightarrow>
    distinct (map account_id pre) \<and> list_all2 (well_behaved p) pre post \<and>
    (\<Sum>a\<leftarrow>pre. unat (balance (account a))) = (\<Sum>b\<leftarrow>post. unat (balance (post_account b))) \<and>
    (\<Sum>a\<leftarrow>pre. unat (balance (account a))) < 2 ^ 256"
proof -
  have uniq: "validate_uniqueness_of_account_ids pre \<longleftrightarrow> distinct (map account_id pre)"
    using distinct_card_iff [of "map account_id pre"]
    by (simp add: validate_uniqueness_of_account_ids_def)
  have rules: "length pre = length post \<and>
      try_fold (\<lambda>_ (a, b). validate_account p a b) () (zip pre post) = Inr ()
      \<longleftrightarrow> list_all2 (well_behaved p) pre post"
    using try_fold_unit [of "\<lambda>(a, b). validate_account p a b" "zip pre post"]
    by (simp add: list_all2_iff validate_account_iff split_def)
  have sums: "(\<exists>r. from_balances (map (balance \<circ> account) pre) = Some r \<and>
        from_balances (map (balance \<circ> post_account) post) = Some r)
      \<longleftrightarrow> (\<Sum>a\<leftarrow>pre. unat (balance (account a))) = (\<Sum>b\<leftarrow>post. unat (balance (post_account b)))
        \<and> (\<Sum>a\<leftarrow>pre. unat (balance (account a))) < 2 ^ 256"
    using balance_sum_value_range by (simp add: from_balances_iff comp_def)
  show ?thesis
    unfolding rules [symmetric] sums [symmetric] uniq [symmetric]
    by (auto simp: validate_execution_def result_simps)
qed

text \<open>
  C14: An execution validates exactly when the account ids are distinct, every account obeys
  the rules (nonce and owner kept; balance decreased only by the owning program; data
  changed only by the owning program or on a default account; a default-owned account was
  a default account), and the sum of the balances, as a natural number, is the same before
  and after and fits in 256 bits.
\<close>

theorem validate_execution_iff:
  "validate_execution pre post p = Inr () \<longleftrightarrow>
    distinct (map account_id pre) \<and> list_all2 (well_behaved p) pre post \<and>
    (\<Sum>a\<leftarrow>pre. unat (balance (account a))) = (\<Sum>b\<leftarrow>post. unat (balance (post_account b))) \<and>
    (\<Sum>a\<leftarrow>pre. unat (balance (account a))) < 2 ^ 256"
  by (rule validate_execution_Inr)

end
