(* ===== verification/Transactions.thy ===== *)
theory Transactions
  imports Execution
begin

text \<open>
  Transactions and what they carry: public messages and their witness sets
  (\<open>state_machine/src/public_transaction\<close>), privacy-preserving messages
  (\<open>state_machine/src/privacy_preserving_transaction\<close>), the circuit's input and output
  (\<open>core/src/circuit_io.rs\<close>), deployments
  (\<open>state_machine/src/program_deployment_transaction\<close>), keys and signatures
  (\<open>state_machine/src/signature\<close>) and errors (\<open>state_machine/src/error.rs\<close>).

  Code of other crates is a field of the record \<open>externals\<close>: SHA-256, Borsh encodings,
  BIP-340 verification, the zkVM executor, the image id of a program binary, and receipt
  verification.
\<close>

subsection \<open>Errors\<close>

datatype invalid_program_behavior_error =
    InconsistentAccountPreState account_id account account
  | InvalidAccountAuthorization account_id
  | AuthorizedAccountMarkedAsNotAuthorized account_id
  | MismatchedProgramId program_id program_id
  | MismatchedCallerProgramId "program_id option" "program_id option"
  | ExecutionValidationFailed execution_validation_error
  | ClaimedNonDefaultAccount account_id
  | ClaimedUnauthorizedAccount account_id
  | MismatchedPdaClaim account_id account_id
  | DefaultAccountModifiedWithoutClaim account_id
  | UndeclaredProgramDependency program_id
  | DeclaredAccountMissingFromOutput account_id

datatype lee_error =
    InvalidInput string
  | InvalidProgramBehavior invalid_program_behavior_error
  | InstructionSerializationError string
  | InvalidPrivateKey
  | Io string
  | InvalidPublicKey string
  | InvalidHexPublicKey string
  | ProgramWriteInputFailed string
  | ProgramExecutionFailed string
  | ProgramProveFailed string
  | TransactionDeserializationError string
  | Core core_error
  | ProgramOutputDeserializationError string
  | CircuitOutputDeserializationError string
  | InvalidPrivacyPreservingProof
  | CircuitProvingError string
  | InvalidProgramBytecode string
  | ProgramAlreadyExists
  | MaxChainedCallsDepthExceeded
  | MaxAccountNonceReached
  | OutOfValidityWindow

subsection \<open>Keys and witness sets\<close>

datatype signature = Signature (signature_value: "512 word")

datatype public_key = PublicKey (pk_value: array32)

type_synonym signatures_and_public_keys = "(signature \<times> public_key) list"

definition public_account_id :: "hasher \<Rightarrow> public_key \<Rightarrow> account_id" where
  "public_account_id sha256 key =
    AccountId (sha256 (ascii ''/LEE/v0.3/AccountId/Public/'' @ replicate 5 0 @ array32 (pk_value key)))"

subsection \<open>Public transactions\<close>

record public_message =
  msg_program_id :: program_id
  msg_account_ids :: "account_id list"
  msg_nonces :: "nonce list"
  msg_instruction_data :: instruction_data

record public_transaction =
  pub_message :: public_message
  pub_witness_set :: signatures_and_public_keys

subsection \<open>The circuit's output and privacy-preserving transactions\<close>

record encrypted_account_data =
  note_ciphertext :: ciphertext
  note_epk :: bytes
  note_view_tag :: u8

record private_action =
  action_nullifier :: nullifier
  action_root :: commitment_set_digest
  action_commitment :: commitment
  action_note :: encrypted_account_data

record public_action =
  action_pre :: account_with_metadata
  action_post :: account

record circuit_output =
  out_public_actions :: "public_action list"
  out_private_actions :: "private_action list"
  out_block_window :: "block_id validity_window"
  out_timestamp_window :: "timestamp validity_window"

record public_action_with_id =
  action_account_id :: account_id
  action_post_state :: account

record privacy_message =
  priv_public_actions :: "public_action_with_id list"
  priv_nonces :: "nonce list"
  priv_private_actions :: "private_action list"
  priv_block_window :: "block_id validity_window"
  priv_timestamp_window :: "timestamp validity_window"

record privacy_transaction =
  priv_message :: privacy_message
  priv_signatures :: signatures_and_public_keys
  priv_proof :: bytes

record deployment_transaction =
  dep_bytecode :: bytes

definition message_from_circuit_output :: "nonce list \<Rightarrow> circuit_output \<Rightarrow> privacy_message" where
  "message_from_circuit_output nonces out =
    \<lparr>priv_public_actions = map (\<lambda>a. \<lparr>action_account_id = account_id (action_pre a),
       action_post_state = action_post a\<rparr>) (out_public_actions out),
     priv_nonces = nonces, priv_private_actions = out_private_actions out,
     priv_block_window = out_block_window out, priv_timestamp_window = out_timestamp_window out\<rparr>"

definition message_commitments :: "privacy_message \<Rightarrow> commitment list" where
  "message_commitments m = map action_commitment (priv_private_actions m)"

definition message_nullifiers :: "privacy_message \<Rightarrow> (nullifier \<times> commitment_set_digest) list" where
  "message_nullifiers m = map (\<lambda>a. (action_nullifier a, action_root a)) (priv_private_actions m)"

definition message_public_account_ids :: "privacy_message \<Rightarrow> account_id list" where
  "message_public_account_ids m = map action_account_id (priv_public_actions m)"

subsection \<open>Code of other crates\<close>

record externals =
  ext_sha256 :: hasher
  ext_public_message_bytes :: "public_message \<Rightarrow> bytes"
  ext_privacy_message_bytes :: "privacy_message \<Rightarrow> bytes"
  ext_verify_prehash :: "array32 \<Rightarrow> array32 \<Rightarrow> 512 word \<Rightarrow> bool"
  ext_image_id :: "bytes \<Rightarrow> string + program_id"
  ext_execute :: "bytes \<Rightarrow> program_id \<Rightarrow> program_id option \<Rightarrow> account_with_metadata list
    \<Rightarrow> instruction_data \<Rightarrow> string + program_output"
  ext_receipt_verifies :: "bytes \<Rightarrow> circuit_output \<Rightarrow> program_id \<Rightarrow> bool"
  ext_circuit_id :: program_id

subsection \<open>Hashes, signatures and signers\<close>

definition public_message_hash :: "externals \<Rightarrow> public_message \<Rightarrow> array32" where
  "public_message_hash E m =
    ext_sha256 E (ascii ''/LEE/v0.3/Message/Public/'' @ replicate 7 0 @ ext_public_message_bytes E m)"

definition privacy_message_hash :: "externals \<Rightarrow> privacy_message \<Rightarrow> array32" where
  "privacy_message_hash E m =
    ext_sha256 E (ascii ''/LEE/v0.3/Message/Privacy/'' @ replicate 6 0 @ ext_privacy_message_bytes E m)"

text \<open>\<open>Signature::is_valid_for\<close>: a malformed key or signature does not verify.\<close>

definition signature_is_valid_for :: "externals \<Rightarrow> signature \<Rightarrow> array32 \<Rightarrow> public_key \<Rightarrow> bool" where
  "signature_is_valid_for E sig hash key = ext_verify_prehash E (pk_value key) hash (signature_value sig)"

fun signatures_valid :: "externals \<Rightarrow> array32 \<Rightarrow> signatures_and_public_keys \<Rightarrow> bool" where
  "signatures_valid E hash [] = True"
| "signatures_valid E hash ((sig, key) # rest) =
    (if \<not> signature_is_valid_for E sig hash key then False else signatures_valid E hash rest)"

definition witness_set_is_valid_for :: "externals \<Rightarrow> signatures_and_public_keys \<Rightarrow> public_message \<Rightarrow> bool" where
  "witness_set_is_valid_for E ws m = signatures_valid E (public_message_hash E m) ws"

definition signatures_are_valid_for :: "externals \<Rightarrow> signatures_and_public_keys \<Rightarrow> privacy_message \<Rightarrow> bool" where
  "signatures_are_valid_for E ws m = signatures_valid E (privacy_message_hash E m) ws"

definition signer_account_ids :: "externals \<Rightarrow> signatures_and_public_keys \<Rightarrow> account_id list" where
  "signer_account_ids E ws = map (\<lambda>(_, key). public_account_id (ext_sha256 E) key) ws"

definition affected_public_account_ids :: "externals \<Rightarrow> public_transaction \<Rightarrow> account_id set" where
  "affected_public_account_ids E tx =
    set (signer_account_ids E (pub_witness_set tx)) \<union> set (msg_account_ids (pub_message tx))"

definition affected_public_account_ids_private :: "externals \<Rightarrow> privacy_transaction \<Rightarrow> account_id set" where
  "affected_public_account_ids_private E tx =
    set (signer_account_ids E (priv_signatures tx))
      \<union> set (map action_account_id (priv_public_actions (priv_message tx)))"

definition proof_is_valid_for_circuit :: "externals \<Rightarrow> bytes \<Rightarrow> circuit_output \<Rightarrow> program_id \<Rightarrow> bool" where
  "proof_is_valid_for_circuit E proof out circuit_id = ext_receipt_verifies E proof out circuit_id"

definition proof_is_valid_for :: "externals \<Rightarrow> bytes \<Rightarrow> circuit_output \<Rightarrow> bool" where
  "proof_is_valid_for E proof out = proof_is_valid_for_circuit E proof out (ext_circuit_id E)"

subsection \<open>Programs\<close>

record program =
  prog_id :: program_id
  prog_elf :: bytes

definition program_new :: "externals \<Rightarrow> bytes \<Rightarrow> lee_error + program" where
  "program_new E elf =
    and_then (map_err InvalidProgramBytecode (ext_image_id E elf)) (\<lambda>i.
    Inr \<lparr>prog_id = i, prog_elf = elf\<rparr>)"

definition execute :: "externals \<Rightarrow> program \<Rightarrow> program_id option \<Rightarrow> account_with_metadata list
    \<Rightarrow> instruction_data \<Rightarrow> lee_error + program_output" where
  "execute E p caller pre instr =
    map_err ProgramExecutionFailed (ext_execute E (prog_elf p) (prog_id p) caller pre instr)"

lemma signatures_valid_iff:
  "signatures_valid E hash ws \<longleftrightarrow> (\<forall>(sig, key) \<in> set ws. signature_is_valid_for E sig hash key)"
  by (induction ws) (auto split: if_splits)

end
