(* ===== verification/Circuit.thy ===== *)
theory Circuit
  imports Transactions "HOL-Library.Monad_Syntax"
begin

text \<open>
  The privacy-preserving circuit (\<open>lee/privacy_preserving_circuit/src\<close>): the guest program
  that checks a chain of program outputs, decides which accounts are authorized, binds
  private program-derived accounts to their keys, and emits the public actions and the
  private actions (nullifier, commitment, encrypted note) of a transaction.

  A failed assertion panics and no proof exists: the model returns \<open>None\<close>. The zkVM's
  \<open>env::verify\<close>, ML-KEM encapsulation, Borsh and ChaCha20 are fields of \<open>guest_env\<close>.
\<close>

subsection \<open>Inputs\<close>

datatype nullifier_witness =
    InitWitness nullifier_public_key commitment_set_digest
  | UpdateWitness u8 nullifier_secret_key membership_proof

datatype witness_kind =
    RegularWitness "authorization_secret_key option"
  | PdaWitness "(program_id \<times> pda_seed) option"

record private_witness =
  wit_vpk :: viewing_public_key
  wit_random_seed :: array32
  wit_identifier :: account_identifier
  wit_kind :: witness_kind
  wit_nullifier :: nullifier_witness

datatype input_account_identity = PublicIdentity | PrivateIdentity private_witness

record dummy_input =
  dummy_nullifier_seed :: array32
  dummy_commitment_seed :: array32
  dummy_note :: encrypted_account_data
  dummy_root :: commitment_set_digest

record circuit_input =
  in_program_outputs :: "program_output list"
  in_account_identities :: "input_account_identity list"
  in_program_id :: program_id
  in_dummy_inputs :: "dummy_input list"

record guest_env =
  env_sha256 :: hasher
  env_verify :: "program_id \<Rightarrow> program_output \<Rightarrow> bool"
  env_encapsulate :: "viewing_public_key \<Rightarrow> array32 \<Rightarrow> (array32 \<times> bytes) option"
  env_serialize_kind :: "private_account_kind \<Rightarrow> bytes"
  env_apply_keystream :: "array32 \<Rightarrow> bytes \<Rightarrow> bytes"

definition is_public :: "input_account_identity \<Rightarrow> bool" where
  "is_public x = (case x of PublicIdentity \<Rightarrow> True | PrivateIdentity _ \<Rightarrow> False)"

definition is_private_pda :: "input_account_identity \<Rightarrow> bool" where
  "is_private_pda x = (case x of
      PrivateIdentity w \<Rightarrow> (case wit_kind w of PdaWitness _ \<Rightarrow> True | RegularWitness _ \<Rightarrow> False)
    | PublicIdentity \<Rightarrow> False)"

fun witness_npk :: "hasher \<Rightarrow> nullifier_witness \<Rightarrow> nullifier_public_key" where
  "witness_npk sha256 (InitWitness npk _) = npk"
| "witness_npk sha256 (UpdateWitness _ nsk _) = npk_of_nsk sha256 nsk"

definition npk_vpk_if_private_pda ::
  "hasher \<Rightarrow> input_account_identity \<Rightarrow> (nullifier_public_key \<times> viewing_public_key \<times> account_identifier) option" where
  "npk_vpk_if_private_pda sha256 x = (case x of
      PrivateIdentity w \<Rightarrow> (case wit_kind w of
          PdaWitness _ \<Rightarrow> Some (witness_npk sha256 (wit_nullifier w), wit_vpk w, wit_identifier w)
        | RegularWitness _ \<Rightarrow> None)
    | PublicIdentity \<Rightarrow> None)"

subsection \<open>Execution state\<close>

type_synonym family_binding = "program_id \<times> pda_seed \<rightharpoonup> account_id"
type_synonym bound_positions = "nat \<rightharpoonup> program_id \<times> pda_seed"

record execution_state =
  es_pre_states :: "account_with_metadata list"
  es_post_states :: "account_id \<rightharpoonup> account"
  es_block_window :: "block_id validity_window"
  es_timestamp_window :: "timestamp validity_window"
  es_bound_positions :: bound_positions
  es_family_binding :: family_binding
  es_pda_by_position :: "nat \<rightharpoonup> nullifier_public_key \<times> viewing_public_key \<times> account_identifier"
  es_globally_authorized :: "account_id set"

definition assert_family_binding ::
  "family_binding \<Rightarrow> program_id \<Rightarrow> pda_seed \<Rightarrow> account_id \<Rightarrow> family_binding option" where
  "assert_family_binding bindings p seed i =
    (case bindings (p, seed) of
       None \<Rightarrow> Some (bindings((p, seed) \<mapsto> i))
     | Some j \<Rightarrow> do { assert_that (j = i); Some bindings })"

definition bind_private_pda_position ::
  "bound_positions \<Rightarrow> nat \<Rightarrow> program_id \<Rightarrow> pda_seed \<Rightarrow> bound_positions option" where
  "bind_private_pda_position bound pos p seed =
    (case bound pos of
       Some b \<Rightarrow> do { assert_that (b = (p, seed)); Some bound }
     | None \<Rightarrow> Some (bound(pos \<mapsto> (p, seed))))"

definition match_caller_seed_as_public_pda ::
  "hasher \<Rightarrow> caller_data \<Rightarrow> pda_seed list \<Rightarrow> account_id \<Rightarrow> (pda_seed \<times> program_id) option" where
  "match_caller_seed_as_public_pda sha256 caller seeds i =
    do { p \<leftarrow> caller_program caller;
         seed \<leftarrow> List.find (\<lambda>seed. for_public_pda sha256 p seed = i) seeds;
         Some (seed, p) }"

text \<open>
  The private derivation panics on a viewing key of the wrong length; the outer option is
  that panic, the inner one the result of \<open>find_map\<close>.
\<close>

fun find_private_seed ::
  "hasher \<Rightarrow> program_id \<Rightarrow> nullifier_public_key \<Rightarrow> viewing_public_key \<Rightarrow> account_identifier \<Rightarrow> account_id
    \<Rightarrow> pda_seed list \<Rightarrow> (pda_seed \<times> program_id) option option" where
  "find_private_seed sha256 p npk vpk identifier i [] = Some None"
| "find_private_seed sha256 p npk vpk identifier i (seed # seeds) =
    do { pda \<leftarrow> for_private_pda sha256 p seed npk vpk identifier;
         if pda = i then Some (Some (seed, p))
         else find_private_seed sha256 p npk vpk identifier i seeds }"

definition match_caller_seed_as_private_pda ::
  "hasher \<Rightarrow> (nat \<rightharpoonup> nullifier_public_key \<times> viewing_public_key \<times> account_identifier) \<Rightarrow> caller_data
    \<Rightarrow> pda_seed list \<Rightarrow> account_id \<Rightarrow> nat \<Rightarrow> (pda_seed \<times> program_id) option option" where
  "match_caller_seed_as_private_pda sha256 by_position caller seeds i pos =
    (case by_position pos of
       None \<Rightarrow> Some None
     | Some (npk, vpk, identifier) \<Rightarrow>
       (case caller_program caller of
          None \<Rightarrow> Some None
        | Some p \<Rightarrow> find_private_seed sha256 p npk vpk identifier i seeds))"

definition assert_authorization_and_record_bindings ::
  "hasher \<Rightarrow> execution_state \<Rightarrow> caller_data \<Rightarrow> pda_seed list \<Rightarrow> account_id \<Rightarrow> nat \<Rightarrow> bool
    \<Rightarrow> execution_state option" where
  "assert_authorization_and_record_bindings sha256 es caller seeds i pos pre_is_authorized =
    do { matched \<leftarrow> (case match_caller_seed_as_public_pda sha256 caller seeds i of
            Some (seed, p) \<Rightarrow> Some (Some (seed, False, p))
          | None \<Rightarrow> do { m \<leftarrow> match_caller_seed_as_private_pda sha256 (es_pda_by_position es) caller seeds i pos;
              Some (map_option (\<lambda>(seed, p). (seed, True, p)) m) });
         es' \<leftarrow> (case matched of
            None \<Rightarrow> Some es
          | Some (seed, is_private_form, p) \<Rightarrow>
              do { fam \<leftarrow> assert_family_binding (es_family_binding es) p seed i;
                   bound \<leftarrow> (if is_private_form
                     then bind_private_pda_position (es_bound_positions es) pos p seed
                     else Some (es_bound_positions es));
                   Some (es\<lparr>es_family_binding := fam, es_bound_positions := bound\<rparr>) });
         assert_that (pre_is_authorized = (matched \<noteq> None \<or> i \<in> es_globally_authorized es
           \<or> i \<in> authorized_accounts caller));
         Some es' }"

text \<open>The flag tells whether the account is a public derived account, to be masked in the journal.\<close>

definition authorize_first_sight_without_pda_witness ::
  "hasher \<Rightarrow> execution_state \<Rightarrow> caller_data \<Rightarrow> pda_seed list \<Rightarrow> account_id \<Rightarrow> bool
    \<Rightarrow> (execution_state \<times> bool) option" where
  "authorize_first_sight_without_pda_witness sha256 es caller seeds i pre_is_authorized =
    (case match_caller_seed_as_public_pda sha256 caller seeds i of
       Some (seed, p) \<Rightarrow>
         do { assert_that pre_is_authorized;
              fam \<leftarrow> assert_family_binding (es_family_binding es) p seed i;
              Some (es\<lparr>es_family_binding := fam\<rparr>, True) }
     | None \<Rightarrow> Some (if pre_is_authorized
         then es\<lparr>es_globally_authorized := insert i (es_globally_authorized es)\<rparr> else es, False))"

subsection \<open>One account of a program output\<close>

definition external_seed ::
  "hasher \<Rightarrow> input_account_identity list \<Rightarrow> nat \<Rightarrow> account_id \<Rightarrow> (program_id \<times> pda_seed) option option" where
  "external_seed sha256 identities pos i =
    (case list_get identities pos of
       Some (PrivateIdentity w) \<Rightarrow>
         (case wit_kind w of
            PdaWitness (Some (p, seed)) \<Rightarrow>
              do { expected \<leftarrow> for_private_pda sha256 p seed (witness_npk sha256 (wit_nullifier w))
                     (wit_vpk w) (wit_identifier w);
                   assert_that (i = expected);
                   Some (Some (p, seed)) }
          | _ \<Rightarrow> Some None)
     | _ \<Rightarrow> Some None)"

definition bind_external_seed ::
  "execution_state \<Rightarrow> nat \<Rightarrow> account_id \<Rightarrow> (program_id \<times> pda_seed) option \<Rightarrow> execution_state option" where
  "bind_external_seed es pos i ext =
    (case ext of
       None \<Rightarrow> Some es
     | Some (p, seed) \<Rightarrow>
         do { bound \<leftarrow> bind_private_pda_position (es_bound_positions es) pos p seed;
              fam \<leftarrow> assert_family_binding (es_family_binding es) p seed i;
              Some (es\<lparr>es_bound_positions := bound, es_family_binding := fam\<rparr>) })"

definition sync_pre ::
  "hasher \<Rightarrow> input_account_identity list \<Rightarrow> caller_data \<Rightarrow> pda_seed list \<Rightarrow> execution_state
    \<Rightarrow> account_with_metadata \<Rightarrow> execution_state option" where
  "sync_pre sha256 identities caller seeds es pre =
    (let i = account_id pre in
     case es_post_states es i of
       Some known \<Rightarrow>
         do { assert_that (known = account pre);
              pos \<leftarrow> position (\<lambda>a. account_id a = i) (es_pre_states es);
              assert_authorization_and_record_bindings sha256 es caller seeds i pos (is_authorized pre) }
     | None \<Rightarrow>
         (let pos = length (es_pre_states es) in
          do { ext \<leftarrow> external_seed sha256 identities pos i;
               es1 \<leftarrow> bind_external_seed es pos i ext;
               if es_pda_by_position es1 pos \<noteq> None
               then do { es2 \<leftarrow> assert_authorization_and_record_bindings sha256 es1 caller seeds i pos
                           (is_authorized pre);
                         Some (es2\<lparr>es_pre_states := es_pre_states es2 @ [pre]\<rparr>) }
               else do { (es2, masked) \<leftarrow> authorize_first_sight_without_pda_witness sha256 es1 caller
                           seeds i (is_authorized pre);
                         Some (es2\<lparr>es_pre_states := es_pre_states es2 @
                           [if masked then pre\<lparr>is_authorized := False\<rparr> else pre]\<rparr>) } }))"

definition sync_claim ::
  "hasher \<Rightarrow> input_account_identity list \<Rightarrow> program_id \<Rightarrow> execution_state \<Rightarrow> account_with_metadata
    \<Rightarrow> account_post_state \<Rightarrow> (execution_state \<times> account) option" where
  "sync_claim sha256 identities program_id es pre post =
    (case post_claim post of
       None \<Rightarrow> Some (es, post_account post)
     | Some claim \<Rightarrow>
       do { assert_that (program_owner (post_account post) = DEFAULT_PROGRAM_OWNER);
            pos \<leftarrow> position (\<lambda>a. account_id a = account_id pre) (es_pre_states es);
            identity \<leftarrow> list_get identities pos;
            es' \<leftarrow> (if is_public identity then
                (case claim of
                   ClaimAuthorized \<Rightarrow> do { assert_that (is_authorized pre); Some es }
                 | ClaimPda seed \<Rightarrow>
                     do { assert_that (account_id pre = for_public_pda sha256 program_id seed);
                          fam \<leftarrow> assert_family_binding (es_family_binding es) program_id seed (account_id pre);
                          Some (es\<lparr>es_family_binding := fam\<rparr>) })
              else
                (case claim of
                   ClaimAuthorized \<Rightarrow> Some es
                 | ClaimPda seed \<Rightarrow>
                     do { (npk, vpk, identifier) \<leftarrow> es_pda_by_position es pos;
                          pda \<leftarrow> for_private_pda sha256 program_id seed npk vpk identifier;
                          assert_that (account_id pre = pda);
                          bound \<leftarrow> bind_private_pda_position (es_bound_positions es) pos program_id seed;
                          fam \<leftarrow> assert_family_binding (es_family_binding es) program_id seed (account_id pre);
                          Some (es\<lparr>es_bound_positions := bound, es_family_binding := fam\<rparr>) }));
            Some (es', (post_account post)\<lparr>program_owner := account_of_program program_id\<rparr>) })"

definition sync_account ::
  "hasher \<Rightarrow> input_account_identity list \<Rightarrow> program_id \<Rightarrow> caller_data \<Rightarrow> pda_seed list \<Rightarrow> execution_state
    \<Rightarrow> account_with_metadata \<Rightarrow> account_post_state \<Rightarrow> execution_state option" where
  "sync_account sha256 identities program_id caller seeds es pre post =
    do { es1 \<leftarrow> sync_pre sha256 identities caller seeds es pre;
         (es2, a) \<leftarrow> sync_claim sha256 identities program_id es1 pre post;
         Some (es2\<lparr>es_post_states := (es_post_states es2)(account_id pre \<mapsto> a)\<rparr>) }"

fun sync_accounts ::
  "hasher \<Rightarrow> input_account_identity list \<Rightarrow> program_id \<Rightarrow> caller_data \<Rightarrow> pda_seed list \<Rightarrow> execution_state
    \<Rightarrow> (account_with_metadata \<times> account_post_state) list \<Rightarrow> execution_state option" where
  "sync_accounts sha256 identities program_id caller seeds es [] = Some es"
| "sync_accounts sha256 identities program_id caller seeds es ((pre, post) # rest) =
    do { es' \<leftarrow> sync_account sha256 identities program_id caller seeds es pre post;
         sync_accounts sha256 identities program_id caller seeds es' rest }"

definition validate_and_sync_states ::
  "hasher \<Rightarrow> input_account_identity list \<Rightarrow> execution_state \<Rightarrow> program_id \<Rightarrow> caller_data \<Rightarrow> pda_seed list
    \<Rightarrow> account_with_metadata list \<Rightarrow> account_post_state list
    \<Rightarrow> (execution_state \<times> account_id set) option" where
  "validate_and_sync_states sha256 identities es program_id caller seeds pres posts =
    do { es' \<leftarrow> sync_accounts sha256 identities program_id caller seeds es (zip pres posts);
         Some (es', authorized_accounts caller
           \<union> set (map account_id (filter is_authorized (map fst (zip pres posts))))) }"

subsection \<open>The chain of outputs\<close>

fun run_outputs ::
  "guest_env \<Rightarrow> input_account_identity list \<Rightarrow> execution_state \<Rightarrow> (chained_call \<times> caller_data) list \<Rightarrow> nat
    \<Rightarrow> program_output list \<Rightarrow> execution_state option" where
  "run_outputs G identities es [] n [] = Some es"
| "run_outputs G identities es [] n (out # outs) = None"
| "run_outputs G identities es (c # queue) n [] = None"
| "run_outputs G identities es ((call, caller) # queue) n (out # outs) =
    do { assert_that (n \<le> MAX_NUMBER_CHAINED_CALLS);
         assert_that (call_instruction_data call = instruction_data out);
         assert_that (env_verify G (call_program_id call) out);
         assert_that (self_program_id out = call_program_id call);
         assert_that (caller_program_id out = caller_program caller);
         assert_that (validate_execution (pre_states out) (post_states out) (call_program_id call) = Inr ());
         (es', authorized) \<leftarrow> validate_and_sync_states (env_sha256 G) identities es (call_program_id call)
           caller (call_pda_seeds call) (pre_states out) (post_states out);
         run_outputs G identities es'
           (map (\<lambda>c. (c, \<lparr>caller_program = Some (call_program_id call), authorized_accounts = authorized\<rparr>))
              (chained_calls out) @ queue)
           (n + 1) outs }"

definition max_opt :: "'a::linorder list \<Rightarrow> 'a option" where
  "max_opt xs = (if xs = [] then None else Some (Max (set xs)))"

definition min_opt :: "'a::linorder list \<Rightarrow> 'a option" where
  "min_opt xs = (if xs = [] then None else Some (Min (set xs)))"

definition intersect_windows :: "'a::linorder validity_window list \<Rightarrow> 'a validity_window option" where
  "intersect_windows ws =
    (case window_try_from (max_opt (List.map_filter window_from ws), min_opt (List.map_filter window_to ws)) of
       Inl _ \<Rightarrow> None
     | Inr w \<Rightarrow> Some w)"

definition pda_positions ::
  "hasher \<Rightarrow> input_account_identity list
    \<Rightarrow> (nat \<rightharpoonup> nullifier_public_key \<times> viewing_public_key \<times> account_identifier)" where
  "pda_positions sha256 identities pos =
    Option.bind (list_get identities pos) (npk_vpk_if_private_pda sha256)"

definition circuit_initial_call :: "program_id \<Rightarrow> program_output \<Rightarrow> chained_call \<times> caller_data" where
  "circuit_initial_call program_id first =
    (\<lparr>call_program_id = program_id, call_pre_states = pre_states first,
      call_instruction_data = instruction_data first, call_pda_seeds = []\<rparr>,
     \<lparr>caller_program = None, authorized_accounts = {}\<rparr>)"

definition modified_default_accounts_claimed :: "execution_state \<Rightarrow> bool" where
  "modified_default_accounts_claimed es \<longleftrightarrow>
    list_all (\<lambda>pre. program_owner (account pre) = DEFAULT_PROGRAM_OWNER \<longrightarrow>
      (case es_post_states es (account_id pre) of
         None \<Rightarrow> False
       | Some post \<Rightarrow> account pre \<noteq> post \<longrightarrow> program_owner post \<noteq> DEFAULT_PROGRAM_OWNER))
      (es_pre_states es)"

definition derive_from_outputs ::
  "guest_env \<Rightarrow> input_account_identity list \<Rightarrow> program_id \<Rightarrow> program_output list \<Rightarrow> execution_state option" where
  "derive_from_outputs G identities program_id outs =
    do { block_window \<leftarrow> intersect_windows (map block_validity_window outs);
         timestamp_window \<leftarrow> intersect_windows (map timestamp_validity_window outs);
         first \<leftarrow> list_get outs 0;
         es \<leftarrow> run_outputs G identities
           \<lparr>es_pre_states = [], es_post_states = Map.empty, es_block_window = block_window,
            es_timestamp_window = timestamp_window, es_bound_positions = Map.empty,
            es_family_binding = Map.empty, es_pda_by_position = pda_positions (env_sha256 G) identities,
            es_globally_authorized = {}\<rparr>
           [circuit_initial_call program_id first] 0 outs;
         assert_that (list_all (\<lambda>(pos, identity). is_private_pda identity \<longrightarrow> es_bound_positions es pos \<noteq> None)
           (zip [0..<length identities] identities));
         assert_that (modified_default_accounts_claimed es);
         Some es }"

fun take_states ::
  "(account_id \<rightharpoonup> account) \<Rightarrow> account_with_metadata list \<Rightarrow> (account_with_metadata \<times> account) list option" where
  "take_states posts [] = Some []"
| "take_states posts (pre # pres) =
    do { post \<leftarrow> posts (account_id pre);
         rest \<leftarrow> take_states (posts(account_id pre := None)) pres;
         Some ((pre, post) # rest) }"

subsection \<open>The output\<close>

definition ephemeral_secret_key :: "hasher \<Rightarrow> account_id \<Rightarrow> array32 \<Rightarrow> nonce \<Rightarrow> array32" where
  "ephemeral_secret_key sha256 i random_seed n =
    sha256 (ascii ''/LEE/v0.3/esk/'' @ array32 (id_value i) @ array32 random_seed
      @ u128_to_le_bytes (nonce_value n))"

definition compute_view_tag :: "hasher \<Rightarrow> nullifier_public_key \<Rightarrow> viewing_public_key \<Rightarrow> u8 option" where
  "compute_view_tag sha256 npk vpk =
    (if length (vpk_bytes vpk) = VIEWING_PUBLIC_KEY_LEN
     then Some (hd (array32 (sha256 (ascii ''/LEE/v0.3/ViewTag/'' @ array32 (npk_bytes npk) @ vpk_bytes vpk))))
     else None)"

definition compute_update_nullifier_and_set_digest ::
  "hasher \<Rightarrow> membership_proof \<Rightarrow> account \<Rightarrow> account_id \<Rightarrow> nullifier_secret_key
    \<Rightarrow> nullifier \<times> commitment_set_digest" where
  "compute_update_nullifier_and_set_digest sha256 proof pre i nsk =
    (let commitment_pre = commitment_new sha256 i pre in
     (for_account_update sha256 commitment_pre nsk, compute_digest_for_path sha256 commitment_pre proof))"

definition witness_account_id ::
  "hasher \<Rightarrow> private_witness \<Rightarrow> account_with_metadata \<Rightarrow> account_id option" where
  "witness_account_id sha256 w pre =
    (case wit_kind w of
       RegularWitness _ \<Rightarrow>
         do { derived \<leftarrow> for_regular_private_account sha256 (witness_npk sha256 (wit_nullifier w))
                (wit_vpk w) (wit_identifier w);
              assert_that (derived = account_id pre);
              Some derived }
     | PdaWitness _ \<Rightarrow> Some (account_id pre))"

definition check_credential :: "hasher \<Rightarrow> private_witness \<Rightarrow> account_with_metadata \<Rightarrow> unit option" where
  "check_credential sha256 w pre =
    (case wit_kind w of
       PdaWitness _ \<Rightarrow> Some ()
     | RegularWitness ask_opt \<Rightarrow>
         do { (case ask_opt of
                 None \<Rightarrow> Some ()
               | Some ask \<Rightarrow>
                   (case wit_nullifier w of
                      UpdateWitness _ nsk _ \<Rightarrow> assert_that (nsk_of_ask sha256 ask = nsk)
                    | InitWitness npk _ \<Rightarrow> assert_that (npk_of_nsk sha256 (nsk_of_ask sha256 ask) = npk)));
              assert_that (is_authorized pre = (ask_opt \<noteq> None)) })"

definition witness_nullifier ::
  "hasher \<Rightarrow> private_witness \<Rightarrow> account_with_metadata \<Rightarrow> account_id
    \<Rightarrow> ((nullifier \<times> commitment_set_digest) \<times> nonce \<times> u8) option" where
  "witness_nullifier sha256 w pre i =
    (case wit_nullifier w of
       InitWitness npk root \<Rightarrow>
         do { assert_that (account pre = default_account);
              view_tag \<leftarrow> compute_view_tag sha256 npk (wit_vpk w);
              Some ((for_account_initialization sha256 i, root), private_account_nonce_init sha256 i, view_tag) }
     | UpdateWitness view_tag nsk proof \<Rightarrow>
         Some (compute_update_nullifier_and_set_digest sha256 proof (account pre) i nsk,
           private_account_nonce_increment sha256 (nonce (account pre)) nsk, view_tag))"

definition witness_account_kind ::
  "bound_positions \<Rightarrow> nat \<Rightarrow> private_witness \<Rightarrow> private_account_kind option" where
  "witness_account_kind pda_seeds pos w =
    (case wit_kind w of
       RegularWitness _ \<Rightarrow> Some (Regular (wit_identifier w))
     | PdaWitness _ \<Rightarrow> do { (p, seed) \<leftarrow> pda_seeds pos; Some (Pda p seed (wit_identifier w)) })"

definition emit_private_output ::
  "guest_env \<Rightarrow> account \<Rightarrow> account_id \<Rightarrow> private_account_kind \<Rightarrow> u8 \<Rightarrow> viewing_public_key \<Rightarrow> array32
    \<Rightarrow> nullifier \<times> commitment_set_digest \<Rightarrow> nonce \<Rightarrow> private_action option" where
  "emit_private_output G post i kind view_tag vpk random_seed new_nullifier new_nonce =
    (let post' = post\<lparr>nonce := new_nonce\<rparr>;
         esk = ephemeral_secret_key (env_sha256 G) i random_seed new_nonce in
     do { (shared_secret, epk) \<leftarrow> env_encapsulate G vpk esk;
          c \<leftarrow> encrypt (env_sha256 G) (env_serialize_kind G) (env_apply_keystream G) post' kind
            shared_secret (fst new_nullifier);
          Some \<lparr>action_nullifier = fst new_nullifier, action_root = snd new_nullifier,
                action_commitment = commitment_new (env_sha256 G) i post',
                action_note = \<lparr>note_ciphertext = c, note_epk = epk, note_view_tag = view_tag\<rparr>\<rparr> })"

definition private_output ::
  "guest_env \<Rightarrow> bound_positions \<Rightarrow> nat \<Rightarrow> private_witness \<Rightarrow> account_with_metadata \<Rightarrow> account
    \<Rightarrow> private_action option" where
  "private_output G pda_seeds pos w pre post =
    do { i \<leftarrow> witness_account_id (env_sha256 G) w pre;
         check_credential (env_sha256 G) w pre;
         (new_nullifier, new_nonce, view_tag) \<leftarrow> witness_nullifier (env_sha256 G) w pre i;
         kind \<leftarrow> witness_account_kind pda_seeds pos w;
         emit_private_output G post i kind view_tag (wit_vpk w) (wit_random_seed w) new_nullifier new_nonce }"

fun emit_outputs ::
  "guest_env \<Rightarrow> bound_positions \<Rightarrow> nat
    \<Rightarrow> (input_account_identity \<times> account_with_metadata \<times> account) list \<Rightarrow> circuit_output
    \<Rightarrow> circuit_output option" where
  "emit_outputs G pda_seeds pos [] out = Some out"
| "emit_outputs G pda_seeds pos ((identity, pre, post) # rest) out =
    do { out' \<leftarrow> (case identity of
            PublicIdentity \<Rightarrow> Some (out\<lparr>out_public_actions := out_public_actions out
              @ [\<lparr>action_pre = pre, action_post = post\<rparr>]\<rparr>)
          | PrivateIdentity w \<Rightarrow>
              do { action \<leftarrow> private_output G pda_seeds pos w pre post;
                   Some (out\<lparr>out_private_actions := out_private_actions out @ [action]\<rparr>) });
         emit_outputs G pda_seeds (pos + 1) rest out' }"

definition emit_dummy_output :: "hasher \<Rightarrow> dummy_input \<Rightarrow> private_action" where
  "emit_dummy_output sha256 d =
    (let n = nullifier_for_dummy sha256 (dummy_nullifier_seed d) in
     \<lparr>action_nullifier = n, action_root = dummy_root d,
      action_commitment = commitment_for_dummy sha256 n (dummy_commitment_seed d),
      action_note = dummy_note d\<rparr>)"

text \<open>
  The sorts by key are unstable; the order of actions with equal nullifiers does not matter
  to the verifier, which rejects them.
\<close>

definition obfuscate_output_ordering :: "private_action list \<Rightarrow> private_action list" where
  "obfuscate_output_ordering actions =
    (let commitments = sort (map action_commitment actions) in
     map (\<lambda>(action, c). action\<lparr>action_commitment := c\<rparr>)
       (zip (sort_key action_nullifier actions) commitments))"

definition compute_circuit_output ::
  "guest_env \<Rightarrow> execution_state \<Rightarrow> input_account_identity list \<Rightarrow> dummy_input list \<Rightarrow> circuit_output option" where
  "compute_circuit_output G es identities dummies =
    do { assert_that (length identities = length (es_pre_states es));
         states \<leftarrow> take_states (es_post_states es) (es_pre_states es);
         out \<leftarrow> emit_outputs G (es_bound_positions es) 0 (zip identities states)
           \<lparr>out_public_actions = [], out_private_actions = [], out_block_window = es_block_window es,
            out_timestamp_window = es_timestamp_window es\<rparr>;
         Some (out\<lparr>out_private_actions := obfuscate_output_ordering
           (out_private_actions out @ map (emit_dummy_output (env_sha256 G)) dummies)\<rparr>) }"

definition circuit_main :: "guest_env \<Rightarrow> circuit_input \<Rightarrow> circuit_output option" where
  "circuit_main G inp =
    do { es \<leftarrow> derive_from_outputs G (in_account_identities inp) (in_program_id inp) (in_program_outputs inp);
         compute_circuit_output G es (in_account_identities inp) (in_dummy_inputs inp) }"

end
