(* ===== verification/MerkleTrees.thy ===== *)
theory MerkleTrees
  imports Derivations
begin

text \<open>
  The commitment tree (\<open>state_machine/src/merkle_tree/mod.rs\<close>): a complete binary tree in one
  array, level by level from the top, that doubles its capacity when it is full. The loops
  that index the array panic out of bounds and on underflow; these are the \<open>None\<close> results.

  The invariant ties every node the tree relies on to a reference hash of the inserted
  values (\<open>tree_hash\<close>), which mentions neither the array nor the capacity.
\<close>

subsection \<open>The tree\<close>

definition DEFAULT_VALUES :: "array32 list" where
  "DEFAULT_VALUES = map of_array32 [
    [0, 0, 0, 0, 0, 0, 0, 0, 0, 0, 0, 0, 0, 0, 0, 0, 0, 0, 0, 0,
     0, 0, 0, 0, 0, 0, 0, 0, 0, 0, 0, 0],
    [245, 165, 253, 66, 209, 106, 32, 48, 39, 152, 239, 110, 211, 9, 151, 155, 67, 0, 61, 35,
     32, 217, 240, 232, 234, 152, 49, 169, 39, 89, 251, 75],
    [219, 86, 17, 78, 0, 253, 212, 193, 248, 92, 137, 43, 243, 90, 201, 168, 146, 137, 170, 236,
     177, 235, 208, 169, 108, 222, 96, 106, 116, 139, 93, 113],
    [199, 128, 9, 253, 240, 127, 197, 106, 17, 241, 34, 55, 6, 88, 163, 83, 170, 165, 66, 237,
     99, 228, 76, 75, 193, 95, 244, 205, 16, 90, 179, 60],
    [83, 109, 152, 131, 127, 45, 209, 101, 165, 93, 94, 234, 233, 20, 133, 149, 68, 114, 213, 111,
     36, 109, 242, 86, 191, 60, 174, 25, 53, 42, 18, 60],
    [158, 253, 224, 82, 170, 21, 66, 159, 174, 5, 186, 212, 208, 177, 215, 198, 77, 166, 77, 3,
     215, 161, 133, 74, 88, 140, 44, 184, 67, 12, 13, 48],
    [216, 141, 223, 238, 212, 0, 168, 117, 85, 150, 178, 25, 66, 193, 73, 126, 17, 76, 48, 46,
     97, 24, 41, 15, 145, 230, 119, 41, 118, 4, 31, 161],
    [135, 235, 13, 219, 165, 126, 53, 246, 210, 134, 103, 56, 2, 164, 175, 89, 117, 226, 37, 6,
     199, 207, 76, 100, 187, 107, 229, 238, 17, 82, 127, 44],
    [38, 132, 100, 118, 253, 95, 197, 74, 93, 67, 56, 81, 103, 201, 81, 68, 242, 100, 63, 83,
     60, 200, 91, 185, 209, 107, 120, 47, 141, 125, 177, 147],
    [80, 109, 134, 88, 45, 37, 36, 5, 184, 64, 1, 135, 146, 202, 210, 191, 18, 89, 241, 239,
     90, 165, 248, 135, 225, 60, 178, 240, 9, 79, 81, 225],
    [255, 255, 10, 215, 230, 89, 119, 47, 149, 52, 193, 149, 200, 21, 239, 196, 1, 78, 241, 225,
     218, 237, 68, 4, 192, 99, 133, 209, 17, 146, 233, 43],
    [108, 240, 65, 39, 219, 5, 68, 28, 216, 51, 16, 122, 82, 190, 133, 40, 104, 137, 14, 67,
     23, 230, 160, 42, 180, 118, 131, 170, 117, 150, 66, 32],
    [183, 208, 95, 135, 95, 20, 0, 39, 239, 81, 24, 162, 36, 123, 187, 132, 206, 143, 47, 15,
     17, 35, 98, 48, 133, 218, 247, 150, 12, 50, 159, 95],
    [223, 106, 245, 245, 187, 219, 107, 233, 239, 138, 166, 24, 228, 191, 128, 115, 150, 8, 103, 23,
     30, 41, 103, 111, 139, 40, 77, 234, 106, 8, 168, 94],
    [181, 141, 144, 15, 94, 24, 46, 60, 80, 239, 116, 150, 158, 161, 108, 119, 38, 197, 73, 117,
     124, 194, 53, 35, 195, 105, 88, 125, 167, 41, 55, 132],
    [212, 154, 117, 2, 255, 207, 176, 52, 11, 29, 120, 133, 104, 133, 0, 202, 48, 129, 97, 167,
     249, 107, 98, 223, 157, 8, 59, 113, 252, 200, 242, 187],
    [143, 230, 177, 104, 146, 86, 192, 211, 133, 244, 47, 91, 190, 32, 39, 162, 44, 25, 150, 225,
     16, 186, 151, 193, 113, 211, 229, 148, 141, 233, 43, 235],
    [141, 13, 99, 195, 158, 186, 222, 133, 9, 224, 174, 60, 156, 56, 118, 251, 95, 161, 18, 190,
     24, 249, 5, 236, 172, 254, 203, 146, 5, 118, 3, 171],
    [149, 238, 200, 178, 229, 65, 202, 212, 233, 29, 227, 131, 133, 242, 224, 70, 97, 159, 84, 73,
     108, 35, 130, 203, 108, 172, 213, 185, 140, 38, 245, 164],
    [248, 147, 233, 8, 145, 119, 117, 182, 43, 255, 35, 41, 77, 187, 227, 161, 205, 142, 108, 193,
     195, 91, 72, 1, 136, 123, 100, 106, 111, 129, 241, 127],
    [205, 219, 167, 181, 146, 227, 19, 51, 147, 193, 97, 148, 250, 199, 67, 26, 191, 47, 84, 133,
     237, 113, 29, 178, 130, 24, 60, 129, 158, 8, 235, 170],
    [138, 141, 127, 227, 175, 140, 170, 8, 90, 118, 57, 168, 50, 0, 20, 87, 223, 185, 18, 138,
     128, 97, 20, 42, 208, 51, 86, 41, 255, 35, 255, 156],
    [254, 179, 195, 55, 215, 165, 26, 111, 191, 0, 185, 227, 76, 82, 225, 201, 25, 92, 150, 155,
     212, 231, 160, 191, 213, 29, 92, 91, 237, 156, 17, 103],
    [231, 31, 10, 168, 60, 195, 46, 223, 190, 250, 159, 77, 62, 1, 116, 202, 133, 24, 46, 236,
     159, 58, 9, 246, 166, 192, 223, 99, 119, 165, 16, 215],
    [49, 32, 111, 168, 10, 80, 187, 106, 190, 41, 8, 80, 88, 241, 98, 18, 33, 42, 96, 238,
     200, 240, 73, 254, 203, 146, 216, 200, 224, 168, 75, 192],
    [33, 53, 43, 254, 203, 237, 221, 233, 147, 131, 159, 97, 76, 61, 172, 10, 62, 227, 117, 67,
     249, 180, 18, 177, 97, 153, 220, 21, 142, 35, 181, 68],
    [97, 158, 49, 39, 36, 187, 109, 124, 49, 83, 237, 157, 231, 145, 215, 100, 163, 102, 179, 137,
     175, 19, 197, 139, 248, 168, 217, 4, 129, 164, 103, 101],
    [124, 221, 41, 134, 38, 130, 80, 98, 141, 12, 16, 227, 133, 197, 140, 97, 145, 230, 251, 224,
     81, 145, 188, 192, 79, 19, 63, 44, 234, 114, 193, 196],
    [132, 137, 48, 189, 123, 168, 202, 197, 70, 97, 7, 33, 19, 251, 39, 136, 105, 224, 123, 184,
     88, 127, 145, 57, 41, 51, 55, 77, 1, 123, 203, 225],
    [136, 105, 255, 44, 34, 178, 140, 193, 5, 16, 217, 133, 50, 146, 128, 51, 40, 190, 79, 176,
     232, 4, 149, 232, 187, 141, 39, 31, 91, 136, 150, 54],
    [181, 254, 40, 231, 159, 27, 133, 15, 134, 88, 36, 108, 233, 182, 161, 231, 180, 159, 192, 109,
     183, 20, 62, 143, 224, 180, 242, 176, 197, 82, 58, 92],
    [152, 94, 146, 159, 112, 175, 40, 208, 189, 209, 169, 10, 128, 143, 151, 127, 89, 124, 124, 119,
     140, 72, 158, 152, 211, 189, 137, 16, 211, 26, 192, 247]]"

record merkle_tree =
  nodes :: "array32 list"
  capacity :: nat
  tree_length :: nat

fun ceil_log2 :: "nat \<Rightarrow> nat" where
  "ceil_log2 n = (if n \<le> 1 then 0 else Suc (ceil_log2 ((n + 1) div 2)))"

declare ceil_log2.simps [simp del]

definition next_power_of_two :: "nat \<Rightarrow> nat" where
  "next_power_of_two n = 2 ^ ceil_log2 n"

fun trailing_zeros :: "nat \<Rightarrow> nat" where
  "trailing_zeros n = (if n = 0 then 64 else if even n then Suc (trailing_zeros (n div 2)) else 0)"

declare trailing_zeros.simps [simp del]

fun floor_log2 :: "nat \<Rightarrow> nat" where
  "floor_log2 n = (if n \<le> 1 then 0 else Suc (floor_log2 (n div 2)))"

declare floor_log2.simps [simp del]

definition prev_power_of_two :: "nat \<Rightarrow> nat" where
  "prev_power_of_two x = (if x = 0 then 0 else 2 ^ floor_log2 x)"

definition hash_two :: "hasher \<Rightarrow> array32 \<Rightarrow> array32 \<Rightarrow> array32" where
  "hash_two sha256 l r = sha256 (array32 l @ array32 r)"

definition hash_value :: "hasher \<Rightarrow> array32 \<Rightarrow> array32" where
  "hash_value sha256 v = sha256 (array32 v)"

definition tree_with_capacity :: "nat \<Rightarrow> merkle_tree option" where
  "tree_with_capacity cap0 =
    (let cap = next_power_of_two cap0; total_depth = trailing_zeros cap in
     if total_depth < length DEFAULT_VALUES then
       Some \<lparr>nodes = concat (map (\<lambda>(level, v). replicate (2 ^ level) v)
               (enumerate 0 (rev (take (Suc total_depth) DEFAULT_VALUES)))),
             capacity = cap, tree_length = 0\<rparr>
     else None)"

definition tree_depth :: "merkle_tree \<Rightarrow> nat" where
  "tree_depth t = trailing_zeros (next_power_of_two (tree_length t))"

definition root_index :: "merkle_tree \<Rightarrow> nat" where
  "root_index t =
    (let depth = tree_depth t; capacity_depth = trailing_zeros (capacity t) in
     if depth = capacity_depth then 0 else 2 ^ (capacity_depth - depth) - 1)"

definition get_node :: "array32 list \<Rightarrow> nat \<Rightarrow> array32 option" where
  "get_node ns i = (if i < length ns then Some (ns ! i) else None)"

definition set_node :: "array32 list \<Rightarrow> nat \<Rightarrow> array32 \<Rightarrow> array32 list option" where
  "set_node ns i v = (if i < length ns then Some (ns[i := v]) else None)"

definition tree_root :: "merkle_tree \<Rightarrow> array32 option" where
  "tree_root t = get_node (nodes t) (root_index t)"

fun copy_nodes :: "(nat \<times> array32) list \<Rightarrow> array32 list \<Rightarrow> array32 list option" where
  "copy_nodes [] ns = Some ns"
| "copy_nodes ((index, v) # rest) ns =
    Option.bind (set_node ns (index + prev_power_of_two (index + 1)) v) (copy_nodes rest)"

definition reallocate_to_double_capacity :: "merkle_tree \<Rightarrow> merkle_tree option" where
  "reallocate_to_double_capacity t =
    Option.bind (tree_with_capacity (capacity t * 2)) (\<lambda>this.
    Option.bind (copy_nodes (enumerate 0 (nodes t)) (nodes this)) (\<lambda>ns.
    Some (this\<lparr>nodes := ns, tree_length := tree_length t\<rparr>)))"

fun update_ancestors :: "hasher \<Rightarrow> nat \<Rightarrow> nat \<Rightarrow> array32 list \<Rightarrow> array32 list option" where
  "update_ancestors sha256 0 node_index ns = Some ns"
| "update_ancestors sha256 (Suc n) node_index ns =
    (if node_index = 0 then None
     else let parent_index = (node_index - 1) div 2 in
       Option.bind (get_node ns (parent_index * 2 + 1)) (\<lambda>left_child.
       Option.bind (get_node ns (parent_index * 2 + 2)) (\<lambda>right_child.
       Option.bind (set_node ns parent_index (hash_two sha256 left_child right_child)) (\<lambda>ns'.
       update_ancestors sha256 n parent_index ns'))))"

definition tree_insert :: "hasher \<Rightarrow> merkle_tree \<Rightarrow> array32 \<Rightarrow> (merkle_tree \<times> nat) option" where
  "tree_insert sha256 t0 v =
    Option.bind (if tree_length t0 = capacity t0 then reallocate_to_double_capacity t0 else Some t0)
    (\<lambda>t. let new_index = tree_length t; node_index = new_index + capacity t - 1 in
     Option.bind (set_node (nodes t) node_index (hash_value sha256 v)) (\<lambda>ns.
     let t' = t\<lparr>nodes := ns, tree_length := tree_length t + 1\<rparr> in
     Option.bind (update_ancestors sha256 (tree_depth t') node_index ns) (\<lambda>ns'.
     Some (t'\<lparr>nodes := ns'\<rparr>, new_index))))"

fun path_to_root :: "array32 list \<Rightarrow> nat \<Rightarrow> nat \<Rightarrow> array32 list option" where
  "path_to_root ns root node_index =
    (if node_index = root then Some []
     else if node_index = 0 then None
     else Option.bind (get_node ns (if odd node_index then node_index + 1 else node_index - 1))
       (\<lambda>sibling. map_option ((#) sibling) (path_to_root ns root ((node_index - 1) div 2))))"

declare path_to_root.simps [simp del]

text \<open>The outer option is the panic of the loop, the inner one the result.\<close>

definition get_authentication_path_for :: "merkle_tree \<Rightarrow> nat \<Rightarrow> array32 list option option" where
  "get_authentication_path_for t index =
    (if tree_length t \<le> index then Some None
     else map_option Some (path_to_root (nodes t) (root_index t) (capacity t + index - 1)))"

subsection \<open>The reference hash\<close>

fun tree_hash :: "hasher \<Rightarrow> array32 list \<Rightarrow> nat \<Rightarrow> nat \<Rightarrow> array32" where
  "tree_hash sha256 vs 0 k =
    (if k < length vs then hash_value sha256 (vs ! k) else DEFAULT_VALUES ! 0)"
| "tree_hash sha256 vs (Suc h) k =
    (if k * 2 ^ Suc h < length vs
     then hash_two sha256 (tree_hash sha256 vs h (2 * k)) (tree_hash sha256 vs h (2 * k + 1))
     else DEFAULT_VALUES ! Suc h)"

definition node_ix :: "nat \<Rightarrow> nat \<Rightarrow> nat \<Rightarrow> nat" where
  "node_ix d h k = 2 ^ (d - h) - 1 + k"

definition merkle_inv :: "hasher \<Rightarrow> merkle_tree \<Rightarrow> array32 list \<Rightarrow> bool" where
  "merkle_inv sha256 t vs \<longleftrightarrow>
    (\<exists>d < 32. capacity t = 2 ^ d \<and> length (nodes t) = 2 ^ Suc d - 1 \<and>
      tree_length t = length vs \<and> length vs \<le> 2 ^ d \<and>
      (\<forall>h \<le> d. \<forall>k < 2 ^ (d - h). h \<le> ceil_log2 (length vs) \<or> length vs \<le> k * 2 ^ h \<longrightarrow>
        nodes t ! node_ix d h k = tree_hash sha256 vs h k))"

subsection \<open>Powers of two and array positions\<close>

lemma ceil_log2_le_iff: "ceil_log2 n \<le> d \<longleftrightarrow> n \<le> 2 ^ d"
proof (induction n arbitrary: d rule: ceil_log2.induct)
  case (1 n)
  show ?case
  proof (cases "n \<le> 1")
    case True
    then have "n \<le> 2 ^ d" by (meson le_trans one_le_numeral one_le_power)
    with True show ?thesis by (simp add: ceil_log2.simps [of n])
  next
    case False
    show ?thesis
    proof (cases d)
      case 0
      with False show ?thesis by (simp add: ceil_log2.simps [of n])
    next
      case (Suc e)
      have "(n + 1) div 2 \<le> 2 ^ e \<longleftrightarrow> n \<le> 2 * 2 ^ e" by linarith
      with False Suc 1 [of e] show ?thesis by (simp add: ceil_log2.simps [of n])
    qed
  qed
qed

lemma ceil_log2_power [simp]: "ceil_log2 (2 ^ d) = d"
proof (rule antisym)
  show "ceil_log2 (2 ^ d) \<le> d" by (simp add: ceil_log2_le_iff)
  have "(2 :: nat) ^ d \<le> 2 ^ ceil_log2 (2 ^ d)" by (simp flip: ceil_log2_le_iff)
  then show "d \<le> ceil_log2 (2 ^ d)" by simp
qed

lemma le_power_ceil_log2: "n \<le> 2 ^ ceil_log2 n"
  by (simp flip: ceil_log2_le_iff)

lemma power2_pos: "(1 :: nat) \<le> 2 ^ n"
  by (rule one_le_power) simp

lemma ceil_log2_Suc: "ceil_log2 (Suc n) \<le> Suc (ceil_log2 n)"
proof -
  have "n \<le> 2 ^ ceil_log2 n" by (rule le_power_ceil_log2)
  then have "Suc n \<le> 2 * 2 ^ ceil_log2 n"
    using power2_pos [of "ceil_log2 n"] by linarith
  then show ?thesis by (simp add: ceil_log2_le_iff)
qed

lemma ceil_log2_mono: "m \<le> n \<Longrightarrow> ceil_log2 m \<le> ceil_log2 n"
  using le_power_ceil_log2 [of n] by (simp add: ceil_log2_le_iff)

lemma trailing_zeros_power [simp]: "trailing_zeros (2 ^ d) = d"
  by (induction d) (simp_all add: trailing_zeros.simps [of "2 ^ _"] trailing_zeros.simps [of "2 * _"]
      trailing_zeros.simps [of 1] trailing_zeros.simps [of "Suc 0"])

lemma floor_log2_eq: "2 ^ l \<le> n \<Longrightarrow> n < 2 * 2 ^ l \<Longrightarrow> floor_log2 n = l"
proof (induction l arbitrary: n)
  case 0
  then show ?case by (simp add: floor_log2.simps [of n])
next
  case (Suc l)
  then have "2 ^ l \<le> n div 2" and "n div 2 < 2 * 2 ^ l" by auto
  then have "floor_log2 (n div 2) = l" by (rule Suc.IH)
  moreover have "\<not> n \<le> 1"
    using Suc.prems(1) power2_pos [of l] unfolding power_Suc by linarith
  ultimately show ?case by (simp add: floor_log2.simps [of n])
qed

lemma node_ix_parent:
  assumes "h < d"
  shows "node_ix d h k \<noteq> 0" and "(node_ix d h k - 1) div 2 = node_ix d (Suc h) (k div 2)"
    and "odd (node_ix d h k) \<longleftrightarrow> even k"
proof -
  obtain m where m: "(2 :: nat) ^ (d - Suc h) = Suc m"
    by (metis gr0_conv_Suc zero_less_numeral zero_less_power)
  have "(2 :: nat) ^ (d - h) = 2 * Suc m"
    using assms by (simp flip: m power_Suc add: Suc_diff_Suc)
  then have ix: "node_ix d h k = Suc (2 * m) + k" and up: "node_ix d (Suc h) (k div 2) = m + k div 2"
    using m by (simp_all add: node_ix_def)
  show "node_ix d h k \<noteq> 0" and "odd (node_ix d h k) \<longleftrightarrow> even k" by (simp_all add: ix)
  show "(node_ix d h k - 1) div 2 = node_ix d (Suc h) (k div 2)" by (simp add: ix up)
qed

lemma node_ix_children:
  assumes "h < d"
  shows "node_ix d (Suc h) p * 2 + 1 = node_ix d h (2 * p)"
    and "node_ix d (Suc h) p * 2 + 2 = node_ix d h (2 * p + 1)"
proof -
  obtain m where m: "(2 :: nat) ^ (d - Suc h) = Suc m"
    by (metis gr0_conv_Suc zero_less_numeral zero_less_power)
  have "(2 :: nat) ^ (d - h) = 2 * Suc m"
    using assms by (simp flip: m power_Suc add: Suc_diff_Suc)
  with m show "node_ix d (Suc h) p * 2 + 1 = node_ix d h (2 * p)"
    and "node_ix d (Suc h) p * 2 + 2 = node_ix d h (2 * p + 1)"
    by (simp_all add: node_ix_def)
qed

lemma node_ix_level: "k < 2 ^ (d - h) \<Longrightarrow> floor_log2 (node_ix d h k + 1) = d - h"
  by (rule floor_log2_eq) (auto simp: node_ix_def)

lemma node_ix_inject:
  assumes "h \<le> d" and "h' \<le> d" and "k < 2 ^ (d - h)" and "k' < 2 ^ (d - h')"
  shows "node_ix d h k = node_ix d h' k' \<longleftrightarrow> h = h' \<and> k = k'"
proof
  assume eq: "node_ix d h k = node_ix d h' k'"
  then have "d - h = d - h'"
    using node_ix_level [OF assms(3)] node_ix_level [OF assms(4)] by simp
  then have "h = h'" using assms by simp
  with eq show "h = h' \<and> k = k'"
    by (simp only: node_ix_def add_left_cancel simp_thms)
qed simp

lemma node_ix_bound: "k < 2 ^ (d - h) \<Longrightarrow> node_ix d h k < 2 ^ Suc d - 1"
proof -
  assume "k < 2 ^ (d - h)"
  moreover have "(2 :: nat) ^ (d - h) \<le> 2 ^ d" by simp
  ultimately show ?thesis
    using power2_pos [of "d - h"] unfolding node_ix_def power_Suc by linarith
qed

lemma node_ix_root: "node_ix d d 0 = 0"
  by (simp add: node_ix_def)

lemma floor_log2_bounds: "0 < n \<Longrightarrow> 2 ^ floor_log2 n \<le> n \<and> n < 2 * 2 ^ floor_log2 n"
proof (induction n rule: floor_log2.induct)
  case (1 n)
  show ?case
  proof (cases "n \<le> 1")
    case True
    with 1 show ?thesis by (simp add: floor_log2.simps [of n])
  next
    case False
    with 1 have "2 ^ floor_log2 (n div 2) \<le> n div 2 \<and> n div 2 < 2 * 2 ^ floor_log2 (n div 2)"
      by simp
    with False show ?thesis by (simp add: floor_log2.simps [of n]) linarith
  qed
qed

lemma node_ix_surj:
  assumes "i < 2 ^ Suc d - 1"
  obtains h k where "h \<le> d" and "k < 2 ^ (d - h)" and "i = node_ix d h k"
proof -
  define l where "l = floor_log2 (Suc i)"
  have bounds: "2 ^ l \<le> Suc i" "Suc i < 2 * 2 ^ l"
    using floor_log2_bounds [of "Suc i"] by (simp_all add: l_def)
  with assms have "(2 :: nat) ^ l < 2 ^ Suc d" by linarith
  then have "l < Suc d" by (rule power_less_imp_less_exp [rotated]) simp
  then have "l \<le> d" by simp
  have "i = node_ix d (d - l) (Suc i - 2 ^ l)"
    using bounds(1) \<open>l \<le> d\<close> power2_pos [of l] by (simp add: node_ix_def)
  moreover have "Suc i - 2 ^ l < 2 ^ (d - (d - l))"
    using bounds \<open>l \<le> d\<close> by simp
  ultimately show thesis using that [of "d - l" "Suc i - 2 ^ l"] by simp
qed

subsection \<open>Allocation\<close>

lemma level_list:
  fixes ds :: "'a list"
  defines "ns \<equiv> \<lambda>ds :: 'a list. concat (map (\<lambda>(l, v). replicate (2 ^ l) v) (enumerate 0 ds))"
  shows "length (ns ds) = 2 ^ length ds - 1
    \<and> (\<forall>l < length ds. \<forall>k < 2 ^ l. ns ds ! (2 ^ l - 1 + k) = ds ! l)"
proof (induction ds rule: rev_induct)
  case Nil
  then show ?case by (simp add: ns_def)
next
  case (snoc v ds)
  have app: "ns (ds @ [v]) = ns ds @ replicate (2 ^ length ds) v"
    by (simp add: ns_def enumerate_append_eq)
  have pos: "(1 :: nat) \<le> 2 ^ length ds" by (rule power2_pos)
  have len: "length (ns (ds @ [v])) = 2 ^ length (ds @ [v]) - 1"
    using snoc pos by (simp add: app)
  have "ns (ds @ [v]) ! (2 ^ l - 1 + k) = (ds @ [v]) ! l"
    if "l < length (ds @ [v])" and "k < 2 ^ l" for l k
  proof (cases "l < length ds")
    case True
    then have "(2 :: nat) ^ Suc l \<le> 2 ^ length ds" by (intro power_increasing) simp_all
    then have "2 ^ l - 1 + k < length (ns ds)"
      using snoc that(2) power2_pos [of l] unfolding power_Suc by linarith
    with snoc True that(2) show ?thesis by (simp add: app nth_append)
  next
    case False
    with that have l: "l = length ds" by simp
    then have "\<not> 2 ^ l - 1 + k < length (ns ds)" and "2 ^ l - 1 + k - length (ns ds) = k"
      using snoc by simp_all
    with l that(2) show ?thesis by (simp only: app nth_append) simp
  qed
  with len show ?case by blast
qed

lemma length_DEFAULT_VALUES [simp]: "length DEFAULT_VALUES = 32"
  by (simp add: DEFAULT_VALUES_def)

lemma tree_with_capacity_power:
  assumes "d < 32"
  obtains t where "tree_with_capacity (2 ^ d) = Some t" and "capacity t = 2 ^ d"
    and "tree_length t = 0" and "length (nodes t) = 2 ^ Suc d - 1"
    and "\<And>h k. h \<le> d \<Longrightarrow> k < 2 ^ (d - h) \<Longrightarrow> nodes t ! node_ix d h k = DEFAULT_VALUES ! h"
proof -
  let ?ds = "rev (take (Suc d) DEFAULT_VALUES)"
  let ?t = "\<lparr>nodes = concat (map (\<lambda>(l, v). replicate (2 ^ l) v) (enumerate 0 ?ds)),
             capacity = 2 ^ d, tree_length = 0\<rparr>"
  have n: "length ?ds = Suc d" using assms by simp
  have "tree_with_capacity (2 ^ d) = Some ?t"
    using assms by (simp add: tree_with_capacity_def next_power_of_two_def)
  moreover have "nodes ?t ! node_ix d h k = DEFAULT_VALUES ! h"
    if "h \<le> d" and "k < 2 ^ (d - h)" for h k
  proof -
    have "nodes ?t ! node_ix d h k = ?ds ! (d - h)"
      using level_list [of ?ds] n that by (simp add: node_ix_def)
    also have "\<dots> = DEFAULT_VALUES ! h"
      using assms that by (simp add: rev_nth)
    finally show ?thesis .
  qed
  ultimately show thesis
    using that [of ?t] level_list [of ?ds] n by simp
qed

lemma merkle_inv_empty:
  assumes "d < 32"
  shows "\<exists>t. tree_with_capacity (2 ^ d) = Some t \<and> merkle_inv sha256 t []"
proof -
  obtain t where t: "tree_with_capacity (2 ^ d) = Some t" "capacity t = 2 ^ d" "tree_length t = 0"
      "length (nodes t) = 2 ^ Suc d - 1"
    and default: "\<And>h k. h \<le> d \<Longrightarrow> k < 2 ^ (d - h) \<Longrightarrow> nodes t ! node_ix d h k = DEFAULT_VALUES ! h"
    by (rule tree_with_capacity_power [OF assms]) blast
  have "tree_hash sha256 [] h k = DEFAULT_VALUES ! h" for h k
    by (cases h) simp_all
  with t assms default have "merkle_inv sha256 t []"
    unfolding merkle_inv_def by (intro exI [of _ d]) simp
  with t(1) show ?thesis by blast
qed

lemma copy_nodes_spec:
  fixes f defines "f \<equiv> \<lambda>i. i + prev_power_of_two (i + 1)"
  assumes "\<forall>x \<in> set xs. f (fst x) < length ns" and "distinct (map (f \<circ> fst) xs)"
  shows "\<exists>ns'. copy_nodes xs ns = Some ns' \<and> length ns' = length ns
    \<and> (\<forall>x \<in> set xs. ns' ! f (fst x) = snd x)
    \<and> (\<forall>j. j \<notin> f ` fst ` set xs \<longrightarrow> ns' ! j = ns ! j)"
  using assms(2,3)
proof (induction xs arbitrary: ns)
  case Nil
  then show ?case by simp
next
  case (Cons x xs)
  obtain i v where x: "x = (i, v)" by fastforce
  let ?ns = "ns[f i := v]"
  have "\<forall>y \<in> set xs. f (fst y) < length ?ns" "distinct (map (f \<circ> fst) xs)"
    using Cons.prems by (simp_all add: comp_def)
  from Cons.IH [OF this] obtain ns' where ns': "copy_nodes xs ?ns = Some ns'"
      "length ns' = length ?ns" "\<forall>y \<in> set xs. ns' ! f (fst y) = snd y"
      "\<forall>j. j \<notin> f ` fst ` set xs \<longrightarrow> ns' ! j = ?ns ! j"
    by blast
  have "f i \<notin> f ` fst ` set xs" and "f i < length ns"
    using Cons.prems x by (auto simp: image_image)
  with ns' x have "copy_nodes (x # xs) ns = Some ns'" and "ns' ! f i = v"
    by (simp_all add: set_node_def f_def)
  with ns' x show ?case by auto
qed

lemma prev_power_of_two_node_ix:
  "h \<le> d \<Longrightarrow> k < 2 ^ (d - h) \<Longrightarrow>
    node_ix d h k + prev_power_of_two (node_ix d h k + 1) = node_ix (Suc d) h k"
  using node_ix_level [of k d h] power2_pos [of "d - h"]
  by (simp add: prev_power_of_two_def node_ix_def Suc_diff_le)

lemma copy_nodes_doubles:
  assumes old: "length old = 2 ^ Suc d - 1" and ns: "length ns = 2 ^ Suc (Suc d) - 1"
  obtains ns' where "copy_nodes (enumerate 0 old) ns = Some ns'" and "length ns' = length ns"
    and "\<And>h k. h \<le> d \<Longrightarrow> k < 2 ^ (d - h) \<Longrightarrow> ns' ! node_ix (Suc d) h k = old ! node_ix d h k"
    and "\<And>h k. h \<le> Suc d \<Longrightarrow> k < 2 ^ (Suc d - h) \<Longrightarrow> d < h \<or> 2 ^ (d - h) \<le> k \<Longrightarrow>
      ns' ! node_ix (Suc d) h k = ns ! node_ix (Suc d) h k"
proof -
  define f where "f = (\<lambda>i. i + prev_power_of_two (i + 1))"
  let ?xs = "enumerate 0 old"
  have f_ix: "f (node_ix d h k) = node_ix (Suc d) h k" if "h \<le> d" "k < 2 ^ (d - h)" for h k
    using prev_power_of_two_node_ix [OF that] by (simp add: f_def)
  have dom: "fst ` set ?xs = {..< 2 ^ Suc d - 1}"
    using old by (simp add: atLeast0LessThan flip: set_map)
  have image: "\<exists>h k. h \<le> d \<and> k < 2 ^ (d - h) \<and> i = node_ix d h k \<and> f i = node_ix (Suc d) h k"
    if "i \<in> fst ` set ?xs" for i
  proof -
    have "i < 2 ^ Suc d - 1" using that unfolding dom by simp
    then obtain h k where hk: "h \<le> d" "k < 2 ^ (d - h)" "i = node_ix d h k"
      by (rule node_ix_surj)
    then have "f i = node_ix (Suc d) h k" by (simp add: f_ix)
    with hk show ?thesis by blast
  qed
  have wider: "k < 2 ^ (Suc d - h)" if "h \<le> d" "k < 2 ^ (d - h)" for h k :: nat
    using that by (simp add: Suc_diff_le)
  have range: "\<forall>x \<in> set ?xs. f (fst x) < length ns"
  proof
    fix x assume "x \<in> set ?xs"
    then obtain h k where "h \<le> d" "k < 2 ^ (d - h)" "f (fst x) = node_ix (Suc d) h k"
      using image [of "fst x"] by blast
    then show "f (fst x) < length ns"
      using wider [of h k] node_ix_bound [of k "Suc d" h] ns by simp
  qed
  have inj: "inj_on f (fst ` set ?xs)"
  proof (rule inj_onI)
    fix i j assume ij: "i \<in> fst ` set ?xs" "j \<in> fst ` set ?xs" and eq: "f i = f j"
    obtain h k where hk: "h \<le> d" "k < 2 ^ (d - h)" "i = node_ix d h k" "f i = node_ix (Suc d) h k"
      using image [OF ij(1)] by blast
    obtain h' k' where hk': "h' \<le> d" "k' < 2 ^ (d - h')" "j = node_ix d h' k'"
        "f j = node_ix (Suc d) h' k'"
      using image [OF ij(2)] by blast
    have "h = h' \<and> k = k'"
      using eq hk hk' wider [of h k] wider [of h' k'] node_ix_inject [of h "Suc d" h' k k'] by simp
    with hk(3) hk'(3) show "i = j" by simp
  qed
  then have "inj_on f {0..< length old}"
    unfolding dom using old by (simp add: atLeast0LessThan)
  then have dist: "distinct (map (f \<circ> fst) ?xs)"
    by (simp add: distinct_map flip: map_map)
  obtain ns' where ns': "copy_nodes ?xs ns = Some ns'" "length ns' = length ns"
      "\<forall>x \<in> set ?xs. ns' ! f (fst x) = snd x" "\<forall>j. j \<notin> f ` fst ` set ?xs \<longrightarrow> ns' ! j = ns ! j"
    using copy_nodes_spec [of ?xs ns] range dist unfolding f_def by blast
  have kept: "ns' ! node_ix (Suc d) h k = old ! node_ix d h k" if "h \<le> d" "k < 2 ^ (d - h)" for h k
  proof -
    have "node_ix d h k < length old" using node_ix_bound [OF that(2)] old by simp
    then have "(node_ix d h k, old ! node_ix d h k) \<in> set ?xs"
      by (simp add: in_set_enumerate_eq)
    with ns'(3) f_ix [OF that] show ?thesis by fastforce
  qed
  have fresh: "ns' ! node_ix (Suc d) h k = ns ! node_ix (Suc d) h k"
    if "h \<le> Suc d" "k < 2 ^ (Suc d - h)" "d < h \<or> 2 ^ (d - h) \<le> k" for h k
  proof -
    have "node_ix (Suc d) h k \<notin> f ` fst ` set ?xs"
    proof
      assume "node_ix (Suc d) h k \<in> f ` fst ` set ?xs"
      then obtain i where i: "i \<in> fst ` set ?xs" "node_ix (Suc d) h k = f i" by (rule imageE)
      obtain h' k' where hk': "h' \<le> d" "k' < 2 ^ (d - h')" "f i = node_ix (Suc d) h' k'"
        using image [OF i(1)] by (elim exE conjE)
      with i(2) that wider [of h' k'] have "h = h' \<and> k = k'"
        by (simp add: node_ix_inject)
      with hk' that(3) show False by simp
    qed
    with ns'(4) show ?thesis by simp
  qed
  show thesis by (rule that [OF ns'(1,2) kept fresh])
qed

lemma merkle_inv_reallocate:
  assumes inv: "merkle_inv sha256 t vs" and full: "tree_length t = capacity t"
    and room: "length vs < 2 ^ 31"
  shows "\<exists>t'. reallocate_to_double_capacity t = Some t' \<and> merkle_inv sha256 t' vs
    \<and> tree_length t' = tree_length t \<and> capacity t' = 2 * capacity t"
proof -
  obtain d where d: "capacity t = 2 ^ d" "length (nodes t) = 2 ^ Suc d - 1"
      "tree_length t = length vs"
    and hashes: "\<And>h k. h \<le> d \<Longrightarrow> k < 2 ^ (d - h) \<Longrightarrow>
        h \<le> ceil_log2 (length vs) \<or> length vs \<le> k * 2 ^ h \<Longrightarrow>
        nodes t ! node_ix d h k = tree_hash sha256 vs h k"
    using inv unfolding merkle_inv_def by blast
  have len: "length vs = 2 ^ d" using full d by simp
  with room have "(2 :: nat) ^ d < 2 ^ 31" by simp
  then have "d < 31" by (rule power_less_imp_less_exp [rotated]) simp
  then have "Suc d < 32" by simp
  then obtain t0 where new_t: "tree_with_capacity (2 ^ Suc d) = Some t0"
      "capacity t0 = 2 ^ Suc d" "tree_length t0 = 0" "length (nodes t0) = 2 ^ Suc (Suc d) - 1"
    and default: "\<And>h k. h \<le> Suc d \<Longrightarrow> k < 2 ^ (Suc d - h) \<Longrightarrow>
        nodes t0 ! node_ix (Suc d) h k = DEFAULT_VALUES ! h"
    by (rule tree_with_capacity_power) blast
  obtain ns where ns: "copy_nodes (enumerate 0 (nodes t)) (nodes t0) = Some ns"
      "length ns = length (nodes t0)"
    and kept: "\<And>h k. h \<le> d \<Longrightarrow> k < 2 ^ (d - h) \<Longrightarrow> ns ! node_ix (Suc d) h k = nodes t ! node_ix d h k"
    and fresh: "\<And>h k. h \<le> Suc d \<Longrightarrow> k < 2 ^ (Suc d - h) \<Longrightarrow> d < h \<or> 2 ^ (d - h) \<le> k \<Longrightarrow>
      ns ! node_ix (Suc d) h k = nodes t0 ! node_ix (Suc d) h k"
    by (rule copy_nodes_doubles [OF d(2) new_t(4)]) blast
  let ?t' = "t0\<lparr>nodes := ns, tree_length := tree_length t\<rparr>"
  have "reallocate_to_double_capacity t = Some ?t'"
    using new_t(1) ns(1) d(1) by (simp add: reallocate_to_double_capacity_def mult.commute)
  moreover have "ns ! node_ix (Suc d) h k = tree_hash sha256 vs h k"
    if "h \<le> Suc d" "k < 2 ^ (Suc d - h)" "h \<le> ceil_log2 (length vs) \<or> length vs \<le> k * 2 ^ h" for h k
  proof (cases "h \<le> d \<and> k < 2 ^ (d - h)")
    case True
    then show ?thesis using kept hashes that(3) by simp
  next
    case False
    then have new: "d < h \<or> 2 ^ (d - h) \<le> k" by auto
    have "length vs \<le> k * 2 ^ h"
    proof (cases "h \<le> d")
      case True
      with new have "(2 :: nat) ^ (d - h) * 2 ^ h \<le> k * 2 ^ h" by simp
      with True len show ?thesis by (simp flip: power_add)
    next
      case False
      with that(3) len show ?thesis by simp
    qed
    then have "tree_hash sha256 vs h k = DEFAULT_VALUES ! h"
      by (cases h) simp_all
    with fresh [OF that(1,2) new] default [OF that(1,2)] show ?thesis by simp
  qed
  ultimately show ?thesis
    using new_t ns(2) d len \<open>Suc d < 32\<close> unfolding merkle_inv_def
    by (intro exI [of _ ?t'] conjI exI [of _ "Suc d"]) simp_all
qed

subsection \<open>Insertion\<close>

lemma tree_hash_snoc:
  "k \<noteq> length vs div 2 ^ h \<Longrightarrow> tree_hash sha256 (vs @ [v]) h k = tree_hash sha256 vs h k"
proof (induction h arbitrary: k)
  case 0
  then show ?case by (auto simp: nth_append)
next
  case (Suc h)
  let ?a = "length vs div 2 ^ h"
  have up: "length vs div 2 ^ Suc h = ?a div 2"
    by (simp only: power_Suc2 div_mult2_eq)
  have "2 * k \<noteq> ?a" and "2 * k + 1 \<noteq> ?a"
    using Suc.prems unfolding up by auto
  moreover have "k * 2 ^ Suc h \<noteq> length vs"
    using Suc.prems by (metis nonzero_mult_div_cancel_right power_not_zero zero_neq_numeral)
  then have "k * 2 ^ Suc h < length (vs @ [v]) \<longleftrightarrow> k * 2 ^ Suc h < length vs" by auto
  ultimately show ?case by (simp only: tree_hash.simps Suc.IH not_False_eq_True)
qed

lemma ancestor_bound: "n < 2 ^ d \<Longrightarrow> h \<le> d \<Longrightarrow> n div 2 ^ h < 2 ^ (d - h)" for n :: nat
  by (simp add: less_mult_imp_div_less flip: power_add)

lemma update_ancestors_spec:
  fixes vs v sha256
  defines "n \<equiv> length vs" and "T \<equiv> tree_hash sha256 (vs @ [v])"
  assumes "n < 2 ^ d"
  shows "j + m \<le> d \<Longrightarrow> length ns = 2 ^ Suc d - 1 \<Longrightarrow>
    ns ! node_ix d j (n div 2 ^ j) = T j (n div 2 ^ j) \<Longrightarrow>
    \<forall>h k. j \<le> h \<and> h < j + m \<and> k < 2 ^ (d - h) \<and> k \<noteq> n div 2 ^ h \<longrightarrow> ns ! node_ix d h k = T h k \<Longrightarrow>
    \<exists>ns'. update_ancestors sha256 m (node_ix d j (n div 2 ^ j)) ns = Some ns' \<and> length ns' = length ns \<and>
      (\<forall>h \<le> d. \<forall>k < 2 ^ (d - h). ns' ! node_ix d h k =
        (if j < h \<and> h \<le> j + m \<and> k = n div 2 ^ h then T h k else ns ! node_ix d h k))"
proof (induction m arbitrary: j ns)
  case 0
  then show ?case by auto
next
  case (Suc m)
  let ?p = "n div 2 ^ Suc j"
  have jd: "j < d" using Suc.prems(1) by simp
  have p: "?p = n div 2 ^ j div 2" by (simp only: power_Suc2 div_mult2_eq)
  have p_bound: "?p < 2 ^ (d - Suc j)" using ancestor_bound [OF assms(3), of "Suc j"] jd by simp
  have "(2 :: nat) ^ (d - j) = 2 * 2 ^ (d - Suc j)"
    using jd by (metis Suc_diff_Suc power_Suc)
  with p_bound have children: "2 * ?p < 2 ^ (d - j)" "2 * ?p + 1 < 2 ^ (d - j)"
    by linarith+
  have child: "ns ! node_ix d j k = T j k" if "k < 2 ^ (d - j)" for k
    using Suc.prems(3,4) that by (cases "k = n div 2 ^ j") auto
  have "?p * 2 ^ Suc j < length (vs @ [v])"
    unfolding n_def by (simp only: length_append_singleton less_Suc_eq_le div_times_less_eq_dividend)
  then have parent_hash: "hash_two sha256 (T j (2 * ?p)) (T j (2 * ?p + 1)) = T (Suc j) ?p"
    unfolding T_def by (simp only: tree_hash.simps if_True)
  define ns1 where "ns1 = ns[node_ix d (Suc j) ?p := T (Suc j) ?p]"
  have at: "ns1 ! node_ix d h k = (if h = Suc j \<and> k = ?p then T h k else ns ! node_ix d h k)"
    if "h \<le> d" "k < 2 ^ (d - h)" for h k
    using that jd p_bound Suc.prems(2) node_ix_bound [OF p_bound]
    by (auto simp: ns1_def nth_list_update node_ix_inject Suc_le_eq)
  have "\<exists>ns'. update_ancestors sha256 m (node_ix d (Suc j) ?p) ns1 = Some ns' \<and> length ns' = length ns1 \<and>
      (\<forall>h \<le> d. \<forall>k < 2 ^ (d - h). ns' ! node_ix d h k =
        (if Suc j < h \<and> h \<le> Suc j + m \<and> k = n div 2 ^ h then T h k else ns1 ! node_ix d h k))"
    using Suc.prems jd p_bound at by (intro Suc.IH) (auto simp: ns1_def Suc_le_eq)
  then obtain ns' where ns': "update_ancestors sha256 m (node_ix d (Suc j) ?p) ns1 = Some ns'"
      "length ns' = length ns1"
      "\<forall>h \<le> d. \<forall>k < 2 ^ (d - h). ns' ! node_ix d h k =
        (if Suc j < h \<and> h \<le> Suc j + m \<and> k = n div 2 ^ h then T h k else ns1 ! node_ix d h k)"
    by blast
  have up: "(node_ix d j (n div 2 ^ j) - 1) div 2 = node_ix d (Suc j) ?p"
    using node_ix_parent(2) [OF jd] p by simp
  have in_range: "node_ix d j (2 * ?p) < length ns" "node_ix d j (2 * ?p + 1) < length ns"
      "node_ix d (Suc j) ?p < length ns"
    using node_ix_bound [OF children(1)] node_ix_bound [OF children(2)] node_ix_bound [OF p_bound]
    unfolding Suc.prems(2) by simp_all
  have "update_ancestors sha256 (Suc m) (node_ix d j (n div 2 ^ j)) ns = Some ns'"
    by (simp only: update_ancestors.simps Let_def up node_ix_parent(1) [OF jd] node_ix_children [OF jd]
        get_node_def set_node_def in_range if_True if_False bind.bind_lunit child children parent_hash
        ns1_def [symmetric] ns'(1))
  moreover have "ns' ! node_ix d h k = (if j < h \<and> h \<le> j + Suc m \<and> k = n div 2 ^ h
      then T h k else ns ! node_ix d h k)" if "h \<le> d" "k < 2 ^ (d - h)" for h k
  proof (cases "h = Suc j")
    case True
    with ns'(3) at [OF that] that show ?thesis by simp
  next
    case False
    then have "Suc j < h \<longleftrightarrow> j < h" by auto
    with False ns'(3) at [OF that] that show ?thesis by simp
  qed
  ultimately show ?case using ns'(2) by (auto simp: ns1_def)
qed

lemma merkle_inv_insert_room:
  assumes inv: "merkle_inv sha256 t vs" and room: "length vs < capacity t"
  shows "\<exists>t'. tree_insert sha256 t v = Some (t', length vs) \<and> merkle_inv sha256 t' (vs @ [v])"
proof -
  let ?n = "length vs" and ?T = "tree_hash sha256 (vs @ [v])"
  let ?m = "ceil_log2 (Suc ?n)"
  obtain d where d: "d < 32" "capacity t = 2 ^ d" "length (nodes t) = 2 ^ Suc d - 1"
      "tree_length t = ?n"
    and hashes: "\<And>h k. h \<le> d \<Longrightarrow> k < 2 ^ (d - h) \<Longrightarrow> h \<le> ceil_log2 ?n \<or> ?n \<le> k * 2 ^ h \<Longrightarrow>
        nodes t ! node_ix d h k = tree_hash sha256 vs h k"
    using inv unfolding merkle_inv_def by blast
  have n: "?n < 2 ^ d" and m: "?m \<le> d"
    using room d(2) by (simp_all add: ceil_log2_le_iff)
  have leaf: "?n + capacity t - 1 = node_ix d 0 ?n" "node_ix d 0 ?n < length (nodes t)"
    using node_ix_bound [of ?n d 0] n d(2,3) power2_pos [of d] by (simp_all add: node_ix_def)
  define ns where "ns = (nodes t)[node_ix d 0 ?n := hash_value sha256 v]"
  have at: "ns ! node_ix d h k = (if h = 0 \<and> k = ?n then hash_value sha256 v else nodes t ! node_ix d h k)"
    if "h \<le> d" "k < 2 ^ (d - h)" for h k
    using that n leaf(2) by (auto simp: ns_def nth_list_update node_ix_inject)
  have off_path: "ns ! node_ix d h k = ?T h k"
    if "h \<le> d" "k < 2 ^ (d - h)" "k \<noteq> ?n div 2 ^ h" "h \<le> ceil_log2 ?n \<or> ?n \<le> k * 2 ^ h" for h k
    using at [OF that(1,2)] hashes [OF that(1,2,4)] tree_hash_snoc [OF that(3)] that(3) by auto
  have "\<exists>ns'. update_ancestors sha256 ?m (node_ix d 0 (?n div 2 ^ 0)) ns = Some ns' \<and>
      length ns' = length ns \<and> (\<forall>h \<le> d. \<forall>k < 2 ^ (d - h). ns' ! node_ix d h k =
        (if 0 < h \<and> h \<le> 0 + ?m \<and> k = ?n div 2 ^ h then ?T h k else ns ! node_ix d h k))"
    using n m d(3) at [of 0 ?n] off_path ceil_log2_Suc [of ?n]
    by (intro update_ancestors_spec) (auto simp: ns_def)
  then obtain ns' where ns': "update_ancestors sha256 ?m (node_ix d 0 ?n) ns = Some ns'"
      "length ns' = length ns"
    and after: "\<And>h k. h \<le> d \<Longrightarrow> k < 2 ^ (d - h) \<Longrightarrow> ns' ! node_ix d h k =
        (if 0 < h \<and> h \<le> ?m \<and> k = ?n div 2 ^ h then ?T h k else ns ! node_ix d h k)"
    by auto
  let ?t' = "t\<lparr>nodes := ns', tree_length := Suc ?n\<rparr>"
  have "tree_insert sha256 t v = Some (?t', ?n)"
    using room d(4) leaf ns'(1)
    by (simp add: tree_insert_def set_node_def tree_depth_def next_power_of_two_def Let_def ns_def)
  moreover have "ns' ! node_ix d h k = ?T h k"
    if hk: "h \<le> d" "k < 2 ^ (d - h)" and tracked: "h \<le> ?m \<or> Suc ?n \<le> k * 2 ^ h" for h k
  proof (cases "k = ?n div 2 ^ h")
    case True
    then have "h \<le> ?m"
      using tracked div_times_less_eq_dividend [of ?n "2 ^ h"] by auto
    with True after [OF hk] at [OF hk] show ?thesis by (cases h) auto
  next
    case False
    have "h \<le> ceil_log2 ?n \<or> ?n \<le> k * 2 ^ h"
    proof (rule ccontr)
      assume low: "\<not> ?thesis"
      with tracked have "?n \<le> 2 ^ h" "h = ?m"
        using ceil_log2_Suc [of ?n] ceil_log2_le_iff [of ?n h] by auto
      with low have "k = 0" by (cases k) auto
      with False have "2 ^ h \<le> ?n" by (metis div_less not_le)
      with low \<open>?n \<le> 2 ^ h\<close> show False by (simp add: le_antisym)
    qed
    with False after [OF hk] off_path [OF hk] show ?thesis by simp
  qed
  ultimately show ?thesis
    using d n ns'(2) unfolding merkle_inv_def
    by (intro exI [of _ ?t'] conjI exI [of _ d]) (simp_all add: ns_def)
qed

lemma merkle_inv_insert:
  assumes inv: "merkle_inv sha256 t vs" and room: "length vs < 2 ^ 31"
  shows "\<exists>t'. tree_insert sha256 t v = Some (t', length vs) \<and> merkle_inv sha256 t' (vs @ [v])"
proof (cases "tree_length t = capacity t")
  case True
  obtain t1 where t1: "reallocate_to_double_capacity t = Some t1" "merkle_inv sha256 t1 vs"
      "tree_length t1 = tree_length t" "capacity t1 = 2 * capacity t"
    using merkle_inv_reallocate [OF inv True room] by blast
  have len: "tree_length t = length vs" "0 < capacity t"
    using inv by (auto simp: merkle_inv_def)
  have "tree_insert sha256 t v = tree_insert sha256 t1 v"
    using True t1 len by (simp add: tree_insert_def)
  with merkle_inv_insert_room [OF t1(2), of v] t1(4) len True show ?thesis by simp
next
  case False
  then have "length vs < capacity t"
    using inv by (auto simp: merkle_inv_def)
  with inv show ?thesis by (rule merkle_inv_insert_room)
qed

lemma tree_insert_full:
  assumes "merkle_inv sha256 t vs" and "2 ^ 31 \<le> length vs"
  shows "tree_insert sha256 t v = None"
proof -
  obtain d where d: "d < 32" "capacity t = 2 ^ d" "tree_length t = length vs" "length vs \<le> 2 ^ d"
    using assms(1) unfolding merkle_inv_def by blast
  from assms(2) d(4) have "(2 :: nat) ^ 31 \<le> 2 ^ d" by linarith
  then have "31 \<le> d" by (rule power_le_imp_le_exp [rotated]) simp
  with d(1) have "d = 31" by simp
  with d assms(2) have "tree_length t = capacity t" and "capacity t * 2 = 2 ^ 32" by simp_all
  moreover have "tree_with_capacity (2 ^ 32) = None"
    by (simp only: tree_with_capacity_def next_power_of_two_def ceil_log2_power Let_def
        trailing_zeros_power length_DEFAULT_VALUES less_irrefl if_False)
  ultimately show ?thesis
    by (simp only: tree_insert_def reallocate_to_double_capacity_def simp_thms if_True bind.bind_lzero)
qed

subsection \<open>Root and membership paths\<close>

lemma merkle_inv_root_index:
  assumes "merkle_inv sha256 t vs" and "capacity t = 2 ^ d"
  shows "root_index t = node_ix d (ceil_log2 (length vs)) 0" and "ceil_log2 (length vs) \<le> d"
  using assms
  by (auto simp: merkle_inv_def root_index_def tree_depth_def next_power_of_two_def node_ix_def
      ceil_log2_le_iff Let_def)

lemma merkle_inv_root:
  assumes "merkle_inv sha256 t vs"
  shows "tree_root t = Some (tree_hash sha256 vs (ceil_log2 (length vs)) 0)"
proof -
  obtain d where d: "capacity t = 2 ^ d" "length (nodes t) = 2 ^ Suc d - 1"
    and hashes: "\<And>h k. h \<le> d \<Longrightarrow> k < 2 ^ (d - h) \<Longrightarrow>
        h \<le> ceil_log2 (length vs) \<or> length vs \<le> k * 2 ^ h \<Longrightarrow>
        nodes t ! node_ix d h k = tree_hash sha256 vs h k"
    using assms unfolding merkle_inv_def by blast
  note root = merkle_inv_root_index [OF assms d(1)]
  show ?thesis
    using hashes [of "ceil_log2 (length vs)" 0] node_ix_bound [of 0 d "ceil_log2 (length vs)"] root d(2)
    by (simp add: tree_root_def get_node_def)
qed

lemma tree_hash_parent:
  assumes "k * 2 ^ h < length vs"
  shows "tree_hash sha256 vs (Suc h) (k div 2) =
    (if even k then hash_two sha256 (tree_hash sha256 vs h k) (tree_hash sha256 vs h (k + 1))
     else hash_two sha256 (tree_hash sha256 vs h (k - 1)) (tree_hash sha256 vs h k))"
proof -
  have "k div 2 * 2 ^ Suc h \<le> k * 2 ^ h"
    using mult_le_mono1 [OF div_times_less_eq_dividend [of k 2], of "2 ^ h"] by (simp add: mult.assoc)
  with assms have "k div 2 * 2 ^ Suc h < length vs" by linarith
  then have "tree_hash sha256 vs (Suc h) (k div 2) =
      hash_two sha256 (tree_hash sha256 vs h (2 * (k div 2))) (tree_hash sha256 vs h (2 * (k div 2) + 1))"
    by (simp only: tree_hash.simps if_True)
  then show ?thesis
    by (cases "even k") (simp_all add: odd_two_times_div_two_nat)
qed

lemma sibling_bound:
  "k < n \<Longrightarrow> even n \<Longrightarrow> (if even k then k + 1 else k - 1) < n" for k n :: nat
  by presburger

lemma node_ix_sibling:
  assumes "h < d"
  shows "(if odd (node_ix d h k) then node_ix d h k + 1 else node_ix d h k - 1)
    = node_ix d h (if even k then k + 1 else k - 1)"
proof (cases "even k")
  case True
  then show ?thesis using node_ix_parent(3) [OF assms, of k] by (simp add: node_ix_def)
next
  case False
  then have "1 \<le> k" by (simp add: Suc_leI odd_pos)
  then have "node_ix d h k - 1 = node_ix d h (k - 1)"
    unfolding node_ix_def by linarith
  with False show ?thesis using node_ix_parent(3) [OF assms, of k] by simp
qed

lemma path_to_root_digest:
  assumes len: "length ns = 2 ^ Suc d - 1" and top: "D \<le> d" and i: "i < length vs" "length vs \<le> 2 ^ D"
    and hashes: "\<And>h k. h \<le> D \<Longrightarrow> k < 2 ^ (d - h) \<Longrightarrow> ns ! node_ix d h k = tree_hash sha256 vs h k"
  shows "j \<le> D \<Longrightarrow> \<exists>path. path_to_root ns (node_ix d D 0) (node_ix d j (i div 2 ^ j)) = Some path \<and>
      length path = D - j \<and>
      digest_along_path sha256 (tree_hash sha256 vs j (i div 2 ^ j)) (i div 2 ^ j) path
        = tree_hash sha256 vs D 0"
proof (induction "D - j" arbitrary: j)
  case 0
  then have "j = D" and "i div 2 ^ D = 0" using i by simp_all
  then show ?case by (simp add: path_to_root.simps)
next
  case (Suc m)
  then have j: "j < D" "j < d" using top by simp_all
  let ?k = "i div 2 ^ j"
  let ?s = "if even ?k then ?k + 1 else ?k - 1"
  have up: "?k div 2 = i div 2 ^ Suc j" by (simp only: power_Suc2 div_mult2_eq)
  have "(2 :: nat) ^ D \<le> 2 ^ d" using top by (rule power_increasing) simp
  with i have "i < 2 ^ d" by linarith
  then have k: "?k < 2 ^ (d - j)" using j by (intro ancestor_bound) simp_all
  have "even ((2 :: nat) ^ (d - j))" using j by simp
  with k have s: "?s < 2 ^ (d - j)" by (rule sibling_bound)
  have sib: "(if odd (node_ix d j ?k) then node_ix d j ?k + 1 else node_ix d j ?k - 1) = node_ix d j ?s"
    using j(2) by (rule node_ix_sibling)
  have not_root: "node_ix d j ?k \<noteq> node_ix d D 0"
    using node_ix_inject [of j d D ?k 0] j top k by simp
  have "m = D - Suc j" "Suc j \<le> D" using Suc(2) j by simp_all
  from Suc(1) [OF this] obtain path where path:
      "path_to_root ns (node_ix d D 0) (node_ix d (Suc j) (i div 2 ^ Suc j)) = Some path"
      "length path = D - Suc j"
      "digest_along_path sha256 (tree_hash sha256 vs (Suc j) (i div 2 ^ Suc j)) (i div 2 ^ Suc j) path
        = tree_hash sha256 vs D 0"
    by blast
  have "path_to_root ns (node_ix d D 0) (node_ix d j ?k) = Some (tree_hash sha256 vs j ?s # path)"
    using path(1) [folded up] not_root node_ix_parent(1,2) [OF j(2), of ?k] node_ix_bound [OF s] len
      hashes [of j ?s] s j
    by (simp add: path_to_root.simps [of _ _ "node_ix d j ?k"] sib get_node_def)
  moreover have "?k * 2 ^ j < length vs"
    using div_times_less_eq_dividend [of i "2 ^ j"] i(1) by linarith
  note tree_hash_parent [OF this]
  then have "digest_along_path sha256 (tree_hash sha256 vs j ?k) ?k (tree_hash sha256 vs j ?s # path)
      = tree_hash sha256 vs D 0"
    using path(3) unfolding up [symmetric] by (cases "even ?k") (simp_all add: hash_two_def)
  ultimately show ?case using path(2) j by (intro exI [of _ "tree_hash sha256 vs j ?s # path"]) simp
qed

lemma merkle_inv_path:
  assumes inv: "merkle_inv sha256 t vs" and i: "i < length vs"
  shows "\<exists>path. get_authentication_path_for t i = Some (Some path) \<and>
    length path = ceil_log2 (length vs) \<and>
    Some (digest_along_path sha256 (hash_value sha256 (vs ! i)) i path) = tree_root t"
proof -
  let ?D = "ceil_log2 (length vs)"
  obtain d where d: "capacity t = 2 ^ d" "length (nodes t) = 2 ^ Suc d - 1" "tree_length t = length vs"
      "length vs \<le> 2 ^ d"
    and hashes: "\<And>h k. h \<le> d \<Longrightarrow> k < 2 ^ (d - h) \<Longrightarrow> h \<le> ?D \<or> length vs \<le> k * 2 ^ h \<Longrightarrow>
        nodes t ! node_ix d h k = tree_hash sha256 vs h k"
    using inv unfolding merkle_inv_def by blast
  note root = merkle_inv_root_index [OF inv d(1)]
  have "\<exists>path. path_to_root (nodes t) (node_ix d ?D 0) (node_ix d 0 (i div 2 ^ 0)) = Some path \<and>
      length path = ?D - 0 \<and>
      digest_along_path sha256 (tree_hash sha256 vs 0 (i div 2 ^ 0)) (i div 2 ^ 0) path
        = tree_hash sha256 vs ?D 0"
    using d(2) root(2) i le_power_ceil_log2 hashes
    by (intro path_to_root_digest) simp_all
  moreover have "capacity t + i - 1 = node_ix d 0 i"
    using d(1) power2_pos [of d] by (simp add: node_ix_def)
  ultimately show ?thesis
    using i d(3) root(1) merkle_inv_root [OF inv]
    by (auto simp: get_authentication_path_for_def)
qed

subsection \<open>The interface of an append-only accumulator\<close>

text \<open>A run of insertions, with the index that each of them returns.\<close>

fun insert_all :: "('t \<Rightarrow> 'v \<Rightarrow> ('t \<times> nat) option) \<Rightarrow> 't \<Rightarrow> 'v list \<Rightarrow> ('t \<times> nat list) option" where
  "insert_all ins t [] = Some (t, [])"
| "insert_all ins t (v # vs) = Option.bind (ins t v) (\<lambda>(t', i).
    map_option (\<lambda>(t'', indices). (t'', i # indices)) (insert_all ins t' vs))"

text \<open>
  What a client of the tree relies on: an insertion below the limit succeeds, returns the
  position of the new value and keeps the earlier ones; a proof for a held value leads to
  the root; and the root depends on the held values only.
\<close>

locale accumulator =
  fixes holds :: "'t \<Rightarrow> 'v list \<Rightarrow> bool"
    and ins :: "'t \<Rightarrow> 'v \<Rightarrow> ('t \<times> nat) option"
    and root :: "'t \<Rightarrow> 'd option"
    and prove :: "'t \<Rightarrow> nat \<Rightarrow> 'p option option"
    and digest_of :: "'v \<Rightarrow> nat \<Rightarrow> 'p \<Rightarrow> 'd"
    and limit :: nat
  assumes ins_holds: "holds t vs \<Longrightarrow> length vs < limit \<Longrightarrow>
      \<exists>t'. ins t v = Some (t', length vs) \<and> holds t' (vs @ [v])"
    and prove_root: "holds t vs \<Longrightarrow> i < length vs \<Longrightarrow>
      \<exists>p. prove t i = Some (Some p) \<and> root t = Some (digest_of (vs ! i) i p)"
    and root_cong: "holds t vs \<Longrightarrow> holds t' vs \<Longrightarrow> root t = root t'"
    and root_total: "holds t vs \<Longrightarrow> \<exists>r. root t = Some r"
begin

lemma ins_result:
  "holds t vs \<Longrightarrow> length vs < limit \<Longrightarrow> ins t v = Some (t', i) \<Longrightarrow>
    i = length vs \<and> holds t' (vs @ [v])"
  using ins_holds [of t vs v] by auto

lemma insert_all_holds:
  "holds t vs \<Longrightarrow> length vs + length xs \<le> limit \<Longrightarrow>
    \<exists>t'. insert_all ins t xs = Some (t', [length vs..<length vs + length xs]) \<and> holds t' (vs @ xs)"
proof (induction xs arbitrary: t vs)
  case Nil
  then show ?case by simp
next
  case (Cons x xs)
  then obtain t1 where t1: "ins t x = Some (t1, length vs)" "holds t1 (vs @ [x])"
    using ins_holds [of t vs x] by auto
  have "[length vs..<length vs + length (x # xs)] = length vs # [Suc (length vs)..<length vs + length (x # xs)]"
    by (rule upt_conv_Cons) simp
  with t1 Cons.IH [of t1 "vs @ [x]"] Cons.prems(2) show ?case by (auto simp del: upt_Suc)
qed

end

interpretation merkle: accumulator "merkle_inv sha256" "tree_insert sha256" tree_root
    get_authentication_path_for "\<lambda>v i p. digest_along_path sha256 (hash_value sha256 v) i p" "2 ^ 31"
  for sha256
proof unfold_locales
  fix t vs v
  assume "merkle_inv sha256 t vs" and "length vs < 2 ^ 31"
  then show "\<exists>t'. tree_insert sha256 t v = Some (t', length vs) \<and> merkle_inv sha256 t' (vs @ [v])"
    by (rule merkle_inv_insert)
next
  fix t vs i
  assume "merkle_inv sha256 t vs" and "i < length vs"
  from merkle_inv_path [OF this] show "\<exists>p. get_authentication_path_for t i = Some (Some p)
      \<and> tree_root t = Some (digest_along_path sha256 (hash_value sha256 (vs ! i)) i p)"
    by metis
next
  fix t t' vs
  assume "merkle_inv sha256 t vs" and "merkle_inv sha256 t' vs"
  then show "tree_root t = tree_root t'" by (simp add: merkle_inv_root)
next
  fix t vs
  assume "merkle_inv sha256 t vs"
  then show "\<exists>r. tree_root t = Some r" by (simp add: merkle_inv_root)
qed

lemma tree_with_capacity_inv:
  assumes "cap \<le> 2 ^ 31"
  shows "\<exists>t. tree_with_capacity cap = Some t \<and> merkle_inv sha256 t []"
proof -
  have "ceil_log2 cap \<le> 31" using assms by (simp only: ceil_log2_le_iff)
  then have "ceil_log2 cap < 32" by simp
  moreover have "tree_with_capacity cap = tree_with_capacity (2 ^ ceil_log2 cap)"
    by (simp add: tree_with_capacity_def next_power_of_two_def)
  ultimately show ?thesis by (simp add: merkle_inv_empty)
qed

text \<open>
  C11: The array tree implements its specification. Starting from an allocation of any
  capacity up to \<open>2^31\<close>, inserting any list of at most \<open>2^31\<close> values never panics, whatever
  reallocations happen on the way, and returns the indices 0, 1, 2 and so on; the root is the reference hash of the list, which does
  not depend on the capacity; and the authentication path returned for every position has
  the depth of the tree and recomputes the root from the value.
\<close>

theorem merkle_tree_refines:
  assumes "cap \<le> 2 ^ 31" and "length vs \<le> 2 ^ 31"
  shows "\<exists>t0 t. tree_with_capacity cap = Some t0 \<and> insert_all (tree_insert sha256) t0 vs = Some (t, [0..<length vs])
    \<and> tree_root t = Some (tree_hash sha256 vs (ceil_log2 (length vs)) 0)
    \<and> (\<forall>i < length vs. \<exists>path. get_authentication_path_for t i = Some (Some path)
        \<and> length path = ceil_log2 (length vs)
        \<and> Some (digest_along_path sha256 (hash_value sha256 (vs ! i)) i path) = tree_root t)"
proof -
  obtain t0 where t0: "tree_with_capacity cap = Some t0" "merkle_inv sha256 t0 []"
    using tree_with_capacity_inv [OF assms(1)] by blast
  then obtain t where "insert_all (tree_insert sha256) t0 vs = Some (t, [0..<length vs])" "merkle_inv sha256 t vs"
    using merkle.insert_all_holds [OF t0(2), of vs] assms(2) by auto
  with t0(1) show ?thesis
    using merkle_inv_root [of sha256 t vs] merkle_inv_path [of sha256 t vs] by blast
qed

theorem merkle_tree_refines_witness:
  "\<exists>t0 t. tree_with_capacity 1 = Some t0 \<and> insert_all (tree_insert (\<lambda>_. 5)) t0 [1, 2, 3] = Some (t, [0, 1, 2])
    \<and> tree_root t = Some (tree_hash (\<lambda>_. 5) [1, 2, 3] (ceil_log2 (length [1, 2, 3 :: array32])) 0)
    \<and> (\<forall>i < length [1, 2, 3 :: array32]. \<exists>path. get_authentication_path_for t i = Some (Some path)
        \<and> length path = ceil_log2 (length [1, 2, 3 :: array32])
        \<and> Some (digest_along_path (\<lambda>_. 5) (hash_value (\<lambda>_. 5) ([1, 2, 3] ! i)) i path) = tree_root t)"
proof -
  have indices: "[0..<length [1, 2, 3 :: array32]] = [0, 1, 2]" by (simp add: upt_rec)
  show ?thesis by (rule merkle_tree_refines [of 1 "[1, 2, 3]" "\<lambda>_. 5", unfolded indices]) simp_all
qed

end
