(* ===== verification/State.thy ===== *)
theory State
  imports MerkleTrees Transactions
begin

text \<open>
  The ledger state (\<open>state_machine/src/state/mod.rs\<close>): the commitment set with its Merkle
  tree and root history, the nullifier set, the public accounts, and the operations that
  change them. A panic of the sources (an overflowing nonce, program bytes over the data
  limit, a tree past its deepest default value) is \<open>None\<close>.
\<close>

subsection \<open>Commitment and nullifier sets\<close>

record commitment_set =
  set_tree :: merkle_tree
  set_commitments :: "commitment \<rightharpoonup> nat"
  set_root_history :: "commitment_set_digest set"

definition commitment_set_digest :: "commitment_set \<Rightarrow> commitment_set_digest option" where
  "commitment_set_digest cs = tree_root (set_tree cs)"

definition get_proof_for :: "commitment_set \<Rightarrow> commitment \<Rightarrow> membership_proof option option" where
  "get_proof_for cs c =
    (case set_commitments cs c of
       None \<Rightarrow> Some None
     | Some index \<Rightarrow> map_option (map_option (\<lambda>path. (index, path)))
         (get_authentication_path_for (set_tree cs) index))"

fun insert_commitments :: "hasher \<Rightarrow> commitment_set \<Rightarrow> commitment list \<Rightarrow> commitment_set option" where
  "insert_commitments sha256 cs [] = Some cs"
| "insert_commitments sha256 cs (c # rest) =
    Option.bind (tree_insert sha256 (set_tree cs) (commitment_bytes c)) (\<lambda>(t, index).
    insert_commitments sha256
      (cs\<lparr>set_tree := t, set_commitments := (set_commitments cs)(c \<mapsto> index)\<rparr>) rest)"

definition extend_commitments :: "hasher \<Rightarrow> commitment_set \<Rightarrow> commitment list \<Rightarrow> commitment_set option" where
  "extend_commitments sha256 cs new =
    Option.bind (insert_commitments sha256 cs new) (\<lambda>cs'.
    Option.bind (commitment_set_digest cs') (\<lambda>digest.
    Some (cs'\<lparr>set_root_history := insert digest (set_root_history cs')\<rparr>)))"

definition contains_commitment :: "commitment_set \<Rightarrow> commitment \<Rightarrow> bool" where
  "contains_commitment cs c \<longleftrightarrow> set_commitments cs c \<noteq> None"

definition commitment_set_with_capacity :: "nat \<Rightarrow> commitment_set option" where
  "commitment_set_with_capacity cap =
    map_option (\<lambda>t. \<lparr>set_tree = t, set_commitments = Map.empty, set_root_history = {}\<rparr>)
      (tree_with_capacity cap)"

type_synonym nullifier_set = "nullifier set"

definition extend_nullifiers :: "nullifier_set \<Rightarrow> nullifier list \<Rightarrow> nullifier_set" where
  "extend_nullifiers ns new = ns \<union> set new"

subsection \<open>The state\<close>

record v03_state =
  public_state :: "account_id \<rightharpoonup> account"
  private_commitments :: commitment_set
  private_nullifiers :: nullifier_set

definition v03_default :: "hasher \<Rightarrow> v03_state option" where
  "v03_default sha256 =
    Option.bind (commitment_set_with_capacity 32) (\<lambda>cs.
    Option.bind (extend_commitments sha256 cs [DUMMY_COMMITMENT]) (\<lambda>cs'.
    Some \<lparr>public_state = Map.empty, private_commitments = cs', private_nullifiers = {}\<rparr>))"

definition with_public_accounts :: "v03_state \<Rightarrow> (account_id \<times> account) list \<Rightarrow> v03_state" where
  "with_public_accounts s accounts =
    s\<lparr>public_state := fold (\<lambda>(i, a) m. m(i \<mapsto> a)) accounts (public_state s)\<rparr>"

definition with_public_account_balances :: "v03_state \<Rightarrow> (account_id \<times> u128) list \<Rightarrow> v03_state" where
  "with_public_account_balances s balances =
    with_public_accounts s (map (\<lambda>(i, b). (i, default_account\<lparr>balance := b\<rparr>)) balances)"

definition with_private_accounts ::
  "hasher \<Rightarrow> v03_state \<Rightarrow> (commitment \<times> nullifier) list \<Rightarrow> v03_state option" where
  "with_private_accounts sha256 s accounts =
    Option.bind (extend_commitments sha256 (private_commitments s) (map fst accounts)) (\<lambda>cs.
    Some (s\<lparr>private_commitments := cs,
            private_nullifiers := extend_nullifiers (private_nullifiers s) (map snd accounts)\<rparr>))"

text \<open>\<open>entry(..).or_default()\<close> and \<open>get(..).unwrap_or_else(Account::default)\<close>.\<close>

definition account_or_default :: "(account_id \<rightharpoonup> account) \<Rightarrow> account_id \<Rightarrow> account" where
  "account_or_default m i = (case m i of None \<Rightarrow> default_account | Some a \<Rightarrow> a)"

definition get_account_by_id :: "v03_state \<Rightarrow> account_id \<Rightarrow> account" where
  "get_account_by_id s i = account_or_default (public_state s) i"

definition get_program :: "v03_state \<Rightarrow> program_id \<Rightarrow> account option" where
  "get_program s p =
    (case public_state s (account_of_program p) of
       None \<Rightarrow> None
     | Some a \<Rightarrow> if program_owner a = PROGRAM_STORAGE_OWNER then Some a else None)"

definition insert_program :: "v03_state \<Rightarrow> program \<Rightarrow> v03_state option" where
  "insert_program s p =
    (case data_try_from (prog_elf p) of
       Inl _ \<Rightarrow> None
     | Inr d \<Rightarrow> Some (s\<lparr>public_state := (public_state s)(account_of_program (prog_id p) \<mapsto>
         default_account\<lparr>program_owner := PROGRAM_STORAGE_OWNER, data := d\<rparr>)\<rparr>))"

fun with_programs :: "v03_state \<Rightarrow> program list \<Rightarrow> v03_state option" where
  "with_programs s [] = Some s"
| "with_programs s (p # ps) = Option.bind (insert_program s p) (\<lambda>s'. with_programs s' ps)"

subsection \<open>Applying a diff\<close>

record state_diff =
  diff_signers :: "account_id list"
  diff_public :: "(account_id \<times> account) list"
  diff_commitments :: "commitment list"
  diff_nullifiers :: "nullifier list"
  diff_program :: "program option"

fun write_accounts :: "(account_id \<rightharpoonup> account) \<Rightarrow> (account_id \<times> account) list \<Rightarrow> (account_id \<rightharpoonup> account)" where
  "write_accounts m [] = m"
| "write_accounts m ((i, a) # rest) = write_accounts (m(i \<mapsto> a)) rest"

fun increment_nonces :: "(account_id \<rightharpoonup> account) \<Rightarrow> account_id list \<Rightarrow> (account_id \<rightharpoonup> account) option" where
  "increment_nonces m [] = Some m"
| "increment_nonces m (i # rest) =
    (let a = account_or_default m i in
     Option.bind (public_account_nonce_increment (nonce a)) (\<lambda>n.
     increment_nonces (m(i \<mapsto> a\<lparr>nonce := n\<rparr>)) rest))"

definition apply_state_diff :: "hasher \<Rightarrow> v03_state \<Rightarrow> state_diff \<Rightarrow> v03_state option" where
  "apply_state_diff sha256 s diff =
    Option.bind (increment_nonces (write_accounts (public_state s) (diff_public diff)) (diff_signers diff))
    (\<lambda>accounts.
    Option.bind (extend_commitments sha256 (private_commitments s) (diff_commitments diff)) (\<lambda>cs.
    let s' = s\<lparr>public_state := accounts, private_commitments := cs,
               private_nullifiers := extend_nullifiers (private_nullifiers s) (diff_nullifiers diff)\<rparr> in
    case diff_program diff of
      None \<Rightarrow> Some s'
    | Some p \<Rightarrow> insert_program s' p))"

subsection \<open>Checks on private actions\<close>

fun check_commitments_are_new :: "v03_state \<Rightarrow> commitment list \<Rightarrow> lee_error + unit" where
  "check_commitments_are_new s [] = Inr ()"
| "check_commitments_are_new s (c # cs) =
    (if contains_commitment (private_commitments s) c
     then Inl (InvalidInput ''Commitment already seen'') else check_commitments_are_new s cs)"

fun check_nullifiers_are_valid ::
  "v03_state \<Rightarrow> (nullifier \<times> commitment_set_digest) list \<Rightarrow> lee_error + unit" where
  "check_nullifiers_are_valid s [] = Inr ()"
| "check_nullifiers_are_valid s ((n, digest) # rest) =
    (if n \<in> private_nullifiers s then Inl (InvalidInput ''Nullifier already seen'')
     else if digest \<notin> set_root_history (private_commitments s)
       then Inl (InvalidInput ''Unrecognized commitment set digest'')
     else check_nullifiers_are_valid s rest)"

subsection \<open>The commitment set holds what was inserted\<close>

definition root_of :: "hasher \<Rightarrow> commitment list \<Rightarrow> commitment_set_digest" where
  "root_of sha256 vs = tree_hash sha256 (map commitment_bytes vs) (ceil_log2 (length vs)) 0"

definition commitment_set_inv :: "hasher \<Rightarrow> commitment_set \<Rightarrow> commitment list \<Rightarrow> bool" where
  "commitment_set_inv sha256 cs vs \<longleftrightarrow>
    merkle_inv sha256 (set_tree cs) (map commitment_bytes vs) \<and>
    dom (set_commitments cs) = set vs \<and>
    (\<forall>c i. set_commitments cs c = Some i \<longrightarrow> i < length vs \<and> vs ! i = c) \<and>
    (\<forall>r \<in> set_root_history cs. \<exists>n \<le> length vs. r = root_of sha256 (take n vs))"

lemma commitment_set_inv_digest:
  "commitment_set_inv sha256 cs vs \<Longrightarrow> commitment_set_digest cs = Some (root_of sha256 vs)"
  using merkle_inv_root [of sha256 "set_tree cs" "map commitment_bytes vs"]
  by (simp add: commitment_set_inv_def commitment_set_digest_def root_of_def)

lemma commitment_set_inv_step:
  assumes inv: "commitment_set_inv sha256 cs vs" and room: "length vs < 2 ^ 31"
  shows "\<exists>t. tree_insert sha256 (set_tree cs) (commitment_bytes c) = Some (t, length vs) \<and>
    commitment_set_inv sha256
      (cs\<lparr>set_tree := t, set_commitments := (set_commitments cs)(c \<mapsto> length vs)\<rparr>) (vs @ [c])"
proof -
  obtain t where t: "tree_insert sha256 (set_tree cs) (commitment_bytes c) = Some (t, length vs)"
      "merkle_inv sha256 t (map commitment_bytes (vs @ [c]))"
    using merkle_inv_insert [of sha256 "set_tree cs" "map commitment_bytes vs" "commitment_bytes c"]
      inv room
    by (auto simp: commitment_set_inv_def)
  have history: "\<exists>n \<le> length (vs @ [c]). r = root_of sha256 (take n (vs @ [c]))"
    if r: "r \<in> set_root_history cs" for r
  proof -
    obtain n where "n \<le> length vs" "r = root_of sha256 (take n vs)"
      using inv r unfolding commitment_set_inv_def by blast
    then show ?thesis by (intro exI [of _ n]) simp
  qed
  have "\<forall>d i. ((set_commitments cs)(c \<mapsto> length vs)) d = Some i \<longrightarrow>
      i < length (vs @ [c]) \<and> (vs @ [c]) ! i = d"
    using inv by (auto simp: commitment_set_inv_def nth_append less_SucI split: if_splits)
  with t history show ?thesis
    using inv by (auto simp: commitment_set_inv_def)
qed

lemma insert_commitments_inv:
  "commitment_set_inv sha256 cs vs \<Longrightarrow> length vs + length new \<le> 2 ^ 31 \<Longrightarrow>
    \<exists>cs'. insert_commitments sha256 cs new = Some cs' \<and> commitment_set_inv sha256 cs' (vs @ new)
      \<and> set_root_history cs' = set_root_history cs"
proof (induction new arbitrary: cs vs)
  case Nil
  then show ?case by simp
next
  case (Cons c new)
  then have "length vs < 2 ^ 31" by simp
  with Cons.prems(1) obtain t where t:
      "tree_insert sha256 (set_tree cs) (commitment_bytes c) = Some (t, length vs)"
      "commitment_set_inv sha256
        (cs\<lparr>set_tree := t, set_commitments := (set_commitments cs)(c \<mapsto> length vs)\<rparr>) (vs @ [c])"
    using commitment_set_inv_step by blast
  from Cons.IH [OF t(2)] Cons.prems(2) t(1) show ?case by simp
qed

lemma insert_commitments_room:
  "commitment_set_inv sha256 cs vs \<Longrightarrow> insert_commitments sha256 cs new = Some cs' \<Longrightarrow>
    length vs + length new \<le> 2 ^ 31 \<or> new = []"
proof (induction new arbitrary: cs vs)
  case Nil
  then show ?case by simp
next
  case (Cons c new)
  have inv: "merkle_inv sha256 (set_tree cs) (map commitment_bytes vs)"
    using Cons.prems(1) by (simp add: commitment_set_inv_def)
  have room: "length vs < 2 ^ 31"
  proof (rule ccontr)
    assume "\<not> length vs < 2 ^ 31"
    then have "tree_insert sha256 (set_tree cs) (commitment_bytes c) = None"
      using tree_insert_full [OF inv, of "commitment_bytes c"] by (simp only: length_map not_less)
    with Cons.prems(2) show False by simp
  qed
  with Cons.prems(1) obtain t where t:
      "tree_insert sha256 (set_tree cs) (commitment_bytes c) = Some (t, length vs)"
      "commitment_set_inv sha256
        (cs\<lparr>set_tree := t, set_commitments := (set_commitments cs)(c \<mapsto> length vs)\<rparr>) (vs @ [c])"
    using commitment_set_inv_step by blast
  from Cons.IH [OF t(2)] Cons.prems(2) t(1) room show ?case by auto
qed

lemma commitment_set_room:
  assumes "commitment_set_inv sha256 cs vs"
  shows "length vs \<le> 2 ^ 31"
proof -
  obtain d where "d < 32" "length vs \<le> 2 ^ d"
    using assms by (auto simp: commitment_set_inv_def merkle_inv_def)
  moreover from \<open>d < 32\<close> have "(2 :: nat) ^ d \<le> 2 ^ 31" by (intro power_increasing) simp_all
  ultimately show ?thesis by linarith
qed

lemma extend_commitments_inv:
  assumes inv: "commitment_set_inv sha256 cs vs" and room: "length vs + length new \<le> 2 ^ 31"
  shows "\<exists>cs'. extend_commitments sha256 cs new = Some cs' \<and>
    commitment_set_inv sha256 cs' (vs @ new) \<and>
    set_root_history cs' = insert (root_of sha256 (vs @ new)) (set_root_history cs)"
proof -
  obtain cs1 where cs1: "insert_commitments sha256 cs new = Some cs1"
      "commitment_set_inv sha256 cs1 (vs @ new)" "set_root_history cs1 = set_root_history cs"
    using insert_commitments_inv [OF assms] by blast
  note digest = commitment_set_inv_digest [OF cs1(2)]
  let ?cs' = "cs1\<lparr>set_root_history := insert (root_of sha256 (vs @ new)) (set_root_history cs1)\<rparr>"
  have "commitment_set_inv sha256 ?cs' (vs @ new)"
    using cs1(2) unfolding commitment_set_inv_def by (auto intro: exI [of _ "length (vs @ new)"])
  with cs1 digest show ?thesis by (simp add: extend_commitments_def)
qed

lemma commitment_set_with_capacity_inv:
  "cap \<le> 2 ^ 31 \<Longrightarrow> \<exists>cs. commitment_set_with_capacity cap = Some cs \<and> commitment_set_inv sha256 cs []"
  using tree_with_capacity_inv [of cap sha256]
  by (auto simp: commitment_set_with_capacity_def commitment_set_inv_def)

lemma get_proof_for_inv:
  assumes inv: "commitment_set_inv sha256 cs vs" and c: "c \<in> set vs"
  shows "\<exists>p. get_proof_for cs c = Some (Some p) \<and> compute_digest_for_path sha256 c p = root_of sha256 vs"
proof -
  obtain i where i: "set_commitments cs c = Some i" "i < length vs" "vs ! i = c"
    using inv c by (fastforce simp: commitment_set_inv_def)
  obtain path where "get_authentication_path_for (set_tree cs) i = Some (Some path)"
      "tree_root (set_tree cs)
        = Some (digest_along_path sha256 (hash_value sha256 (map commitment_bytes vs ! i)) i path)"
    using merkle.prove_root [of sha256 "set_tree cs" "map commitment_bytes vs" i] inv i
    by (auto simp: commitment_set_inv_def)
  with i commitment_set_inv_digest [OF inv] show ?thesis
    by (intro exI [of _ "(i, path)"])
      (simp add: get_proof_for_def compute_digest_for_path_def commitment_set_digest_def hash_value_def)
qed

lemma contains_commitment_iff:
  "commitment_set_inv sha256 cs vs \<Longrightarrow> contains_commitment cs c \<longleftrightarrow> c \<in> set vs"
  by (auto simp: commitment_set_inv_def contains_commitment_def)

subsection \<open>The state invariant\<close>

text \<open>
  Finitely many accounts; the commitment set holds a list of commitments, every accepted
  root is the root of a prefix of that list, and the current root is accepted.
\<close>

definition state_inv :: "hasher \<Rightarrow> v03_state \<Rightarrow> commitment list \<Rightarrow> bool" where
  "state_inv sha256 s vs \<longleftrightarrow>
    finite (dom (public_state s)) \<and> commitment_set_inv sha256 (private_commitments s) vs \<and>
    root_of sha256 vs \<in> set_root_history (private_commitments s)"

lemma extend_with_nothing:
  "state_inv sha256 s vs \<Longrightarrow> \<exists>cs. extend_commitments sha256 (private_commitments s) [] = Some cs"
  using extend_commitments_inv [of sha256 "private_commitments s" vs "[]"]
    commitment_set_room [of sha256 "private_commitments s" vs]
  by (auto simp: state_inv_def)

lemma v03_default_inv: "\<exists>s. v03_default sha256 = Some s \<and> state_inv sha256 s [DUMMY_COMMITMENT]"
proof -
  obtain cs where cs: "commitment_set_with_capacity 32 = Some cs" "commitment_set_inv sha256 cs []"
    using commitment_set_with_capacity_inv [of 32 sha256] by auto
  obtain cs' where "extend_commitments sha256 cs [DUMMY_COMMITMENT] = Some cs'"
      "commitment_set_inv sha256 cs' [DUMMY_COMMITMENT]"
      "set_root_history cs' = insert (root_of sha256 [DUMMY_COMMITMENT]) (set_root_history cs)"
    using extend_commitments_inv [OF cs(2), of "[DUMMY_COMMITMENT]"] by auto
  with cs(1) show ?thesis by (simp add: v03_default_def state_inv_def)
qed

subsection \<open>Accounts after a diff\<close>

lemma write_accounts_distinct:
  "distinct (map fst xs) \<Longrightarrow> write_accounts m xs = m ++ map_of xs"
proof (induction xs arbitrary: m)
  case (Cons x xs)
  obtain i a where x: "x = (i, a)" by fastforce
  with Cons.prems have "i \<notin> dom (map_of xs)" by (simp add: dom_map_of_conv_image_fst)
  then have upd: "m(i \<mapsto> a) ++ map_of xs = m ++ (map_of xs)(i \<mapsto> a)"
    by (auto simp: map_add_def fun_eq_iff dom_def split: option.splits)
  have "write_accounts m (x # xs) = write_accounts (m(i \<mapsto> a)) xs"
    by (simp only: x write_accounts.simps)
  also have "\<dots> = m(i \<mapsto> a) ++ map_of xs"
    by (rule Cons.IH) (use Cons.prems in simp)
  also have "\<dots> = m ++ map_of (x # xs)"
    by (simp only: upd x map_of.simps fst_conv snd_conv)
  finally show ?case .
qed simp

lemma dom_write_accounts [simp]: "dom (write_accounts m xs) = dom m \<union> fst ` set xs"
proof (induction xs arbitrary: m)
  case (Cons x xs)
  then show ?case by (cases x) (auto split: if_splits)
qed simp

lemma increment_nonces_frame:
  assumes "increment_nonces m ids = Some m'"
  shows "dom m' = dom m \<union> set ids"
    and "balance (account_or_default m' i) = balance (account_or_default m i)"
    and "data (account_or_default m' i) = data (account_or_default m i)"
    and "program_owner (account_or_default m' i) = program_owner (account_or_default m i)"
    and "unat (nonce_value (nonce (account_or_default m' i)))
      = unat (nonce_value (nonce (account_or_default m i))) + count_list ids i"
  using assms
  by (induction ids arbitrary: m)
    (auto simp: public_account_nonce_increment_def checked_simps account_or_default_def Let_def
      split: bind_splits if_splits)

lemma increment_nonces_other:
  "increment_nonces m ids = Some m' \<Longrightarrow> i \<notin> set ids \<Longrightarrow> m' i = m i"
  by (induction ids arbitrary: m) (auto simp: Let_def split: bind_splits)

lemma insert_program_frame:
  assumes "insert_program s p = Some s'"
  shows "private_commitments s' = private_commitments s" "private_nullifiers s' = private_nullifiers s"
    and "dom (public_state s') = insert (account_of_program (prog_id p)) (dom (public_state s))"
    and "i \<noteq> account_of_program (prog_id p) \<Longrightarrow> public_state s' i = public_state s i"
    and "get_program s' (prog_id p)
      = Some (default_account\<lparr>program_owner := PROGRAM_STORAGE_OWNER, data := Data (prog_elf p)\<rparr>)"
  using assms
  by (auto simp: insert_program_def get_program_def data_try_from_def ensure_def
      split: sum.splits if_splits)

lemma apply_state_diff_parts:
  assumes "apply_state_diff sha256 s diff = Some s'"
  obtains accounts cs where
    "increment_nonces (write_accounts (public_state s) (diff_public diff)) (diff_signers diff) = Some accounts"
    "extend_commitments sha256 (private_commitments s) (diff_commitments diff) = Some cs"
    "private_commitments s' = cs"
    "private_nullifiers s' = private_nullifiers s \<union> set (diff_nullifiers diff)"
    "diff_program diff = None \<Longrightarrow> public_state s' = accounts"
    "\<And>p. diff_program diff = Some p \<Longrightarrow>
      dom (public_state s') = insert (account_of_program (prog_id p)) (dom accounts)
      \<and> (\<forall>i. i \<noteq> account_of_program (prog_id p) \<longrightarrow> public_state s' i = accounts i)"
proof -
  obtain accounts cs where parts:
      "increment_nonces (write_accounts (public_state s) (diff_public diff)) (diff_signers diff) = Some accounts"
      "extend_commitments sha256 (private_commitments s) (diff_commitments diff) = Some cs"
    using assms by (auto simp: apply_state_diff_def split: bind_splits)
  define s1 where "s1 = s\<lparr>public_state := accounts, private_commitments := cs,
    private_nullifiers := extend_nullifiers (private_nullifiers s) (diff_nullifiers diff)\<rparr>"
  have s': "(case diff_program diff of None \<Rightarrow> Some s1 | Some p \<Rightarrow> insert_program s1 p) = Some s'"
    using assms parts unfolding s1_def by (simp add: apply_state_diff_def Let_def)
  show thesis
  proof (rule that [OF parts])
    show "private_commitments s' = cs"
      and "private_nullifiers s' = private_nullifiers s \<union> set (diff_nullifiers diff)"
      and "diff_program diff = None \<Longrightarrow> public_state s' = accounts"
      using s' insert_program_frame [of s1 _ s']
      by (auto simp: s1_def extend_nullifiers_def split: option.splits)
    show "dom (public_state s') = insert (account_of_program (prog_id p)) (dom accounts)
        \<and> (\<forall>i. i \<noteq> account_of_program (prog_id p) \<longrightarrow> public_state s' i = accounts i)"
      if "diff_program diff = Some p" for p
      using s' that insert_program_frame [of s1 p s'] by (simp add: s1_def)
  qed
qed

lemma extend_commitments_room:
  assumes inv: "commitment_set_inv sha256 cs vs" and ext: "extend_commitments sha256 cs new = Some cs'"
  shows "commitment_set_inv sha256 cs' (vs @ new) \<and>
    set_root_history cs' = insert (root_of sha256 (vs @ new)) (set_root_history cs)"
proof -
  obtain cs1 where cs1: "insert_commitments sha256 cs new = Some cs1"
    using ext by (auto simp: extend_commitments_def split: bind_splits)
  have "length vs + length new \<le> 2 ^ 31"
    using insert_commitments_room [OF inv cs1] commitment_set_room [OF inv] by auto
  from extend_commitments_inv [OF inv this] ext show ?thesis by simp
qed

lemma apply_state_diff_inv:
  assumes inv: "state_inv sha256 s vs" and applied: "apply_state_diff sha256 s diff = Some s'"
  shows "state_inv sha256 s' (vs @ diff_commitments diff)"
proof -
  obtain accounts cs where parts:
      "increment_nonces (write_accounts (public_state s) (diff_public diff)) (diff_signers diff) = Some accounts"
      "extend_commitments sha256 (private_commitments s) (diff_commitments diff) = Some cs"
      "private_commitments s' = cs"
      "diff_program diff = None \<Longrightarrow> public_state s' = accounts"
      "\<And>p. diff_program diff = Some p \<Longrightarrow>
        dom (public_state s') = insert (account_of_program (prog_id p)) (dom accounts)"
    using apply_state_diff_parts [OF applied] by metis
  have "finite (dom accounts)"
    using inv increment_nonces_frame(1) [OF parts(1)] by (simp add: state_inv_def)
  then have "finite (dom (public_state s'))"
    using parts(4,5) by (cases "diff_program diff") auto
  with extend_commitments_room [of sha256 "private_commitments s" vs, OF _ parts(2)] inv parts(3)
  show ?thesis by (simp add: state_inv_def)
qed

subsection \<open>Total balance\<close>

definition total_balance :: "(account_id \<rightharpoonup> account) \<Rightarrow> nat" where
  "total_balance m = (\<Sum>i \<in> dom m. unat (balance (account_or_default m i)))"

lemma total_balance_superset:
  assumes "finite A" and "dom m \<subseteq> A"
  shows "total_balance m = (\<Sum>i \<in> A. unat (balance (account_or_default m i)))"
proof -
  have "unat (balance (account_or_default m i)) = 0" if "i \<notin> dom m" for i
    using that by (auto simp: account_or_default_def default_account_def dom_def)
  with assms show ?thesis
    unfolding total_balance_def by (intro sum.mono_neutral_left) auto
qed

lemma total_balance_increment:
  assumes "increment_nonces m ids = Some m'" and "finite (dom m)"
  shows "total_balance m' = total_balance m"
  using increment_nonces_frame(1,2) [OF assms(1)] assms(2)
    total_balance_superset [of "dom m \<union> set ids" m] by (simp add: total_balance_def)

lemma account_or_default_write:
  assumes "distinct (map fst xs)"
  shows "account_or_default (write_accounts m xs) i
    = (case map_of xs i of None \<Rightarrow> account_or_default m i | Some a \<Rightarrow> a)"
  using write_accounts_distinct [OF assms, of m]
  by (simp add: account_or_default_def map_add_def split: option.splits)

lemma total_balance_write:
  assumes fin: "finite (dom m)" and dist: "distinct (map fst xs)"
    and sums: "(\<Sum>x\<leftarrow>xs. unat (balance (snd x)))
      = (\<Sum>x\<leftarrow>xs. unat (balance (account_or_default m (fst x))))"
  shows "total_balance (write_accounts m xs) = total_balance m"
proof -
  let ?m' = "write_accounts m xs" and ?K = "fst ` set xs"
  let ?A = "dom m \<union> ?K"
  have split: "(\<Sum>i \<in> ?A. f i) = (\<Sum>i \<in> ?A - ?K. f i) + (\<Sum>x\<leftarrow>xs. f (fst x))"
    for f :: "account_id \<Rightarrow> nat"
  proof -
    have "(\<Sum>i \<in> ?K. f i) = (\<Sum>x\<leftarrow>xs. f (fst x))"
      using sum_list_distinct_conv_sum_set [OF dist, of f] by (simp add: comp_def)
    moreover have "(\<Sum>i \<in> ?A. f i) = (\<Sum>i \<in> ?A - ?K. f i) + (\<Sum>i \<in> ?K. f i)"
      using fin by (intro sum.subset_diff) auto
    ultimately show ?thesis by simp
  qed
  have "account_or_default ?m' (fst x) = snd x" if "x \<in> set xs" for x
  proof -
    have "map_of xs (fst x) = Some (snd x)" using that dist by (intro map_of_is_SomeI) simp_all
    then show ?thesis by (simp only: account_or_default_write [OF dist] option.case)
  qed
  then have new: "(\<Sum>x\<leftarrow>xs. unat (balance (account_or_default ?m' (fst x))))
      = (\<Sum>x\<leftarrow>xs. unat (balance (snd x)))"
    by (intro arg_cong [where f = sum_list] map_cong) auto
  have "map_of xs i = None" if "i \<notin> ?K" for i
    using that by (simp add: map_of_eq_None_iff)
  then have rest: "(\<Sum>i \<in> ?A - ?K. unat (balance (account_or_default ?m' i)))
      = (\<Sum>i \<in> ?A - ?K. unat (balance (account_or_default m i)))"
    using dist by (intro sum.cong) (auto simp: account_or_default_write)
  have "total_balance ?m' = (\<Sum>i \<in> ?A. unat (balance (account_or_default ?m' i)))"
    using fin by (simp add: total_balance_def)
  also have "\<dots> = (\<Sum>i \<in> ?A. unat (balance (account_or_default m i)))"
    by (simp only: split rest new sums)
  also have "\<dots> = total_balance m"
    using fin by (intro total_balance_superset [symmetric]) auto
  finally show ?thesis .
qed

end
