(* ===== verification/Validation.thy ===== *)
theory Validation
  imports State "HOL-Library.AList"
begin

text \<open>
  Validation of transactions against a state
  (\<open>state_machine/src/validated_state_diff/mod.rs\<close>) and the three transitions of
  \<open>state_machine/src/state/mod.rs\<close>.

  The hash map of modified accounts is an association list updated in place (\<open>AList.update\<close>),
  so its entries have distinct keys. Where the sources iterate over the map, the model
  visits the entries in the order of their first insertion. The queue of chained calls is a
  list whose head is the front; the counter bounds the number of executions, which is the
  termination measure of the loop.
\<close>

lemma ensure_cong [fundef_cong]:
  "c = c' \<Longrightarrow> e = e' \<Longrightarrow> (c' \<Longrightarrow> k = k') \<Longrightarrow> ensure c e k = ensure c' e' k'"
  by (simp add: ensure_def)

lemma and_then_cong [fundef_cong]:
  "r = r' \<Longrightarrow> (\<And>v. r' = Inr v \<Longrightarrow> k v = k' v) \<Longrightarrow> and_then r k = and_then r' k'"
  by (simp add: and_then_def split: sum.splits)

subsection \<open>Signers\<close>

fun check_nonces :: "v03_state \<Rightarrow> (account_id \<times> nonce) list \<Rightarrow> lee_error + unit" where
  "check_nonces s [] = Inr ()"
| "check_nonces s ((i, n) # rest) =
    ensure (nonce (get_account_by_id s i) = n) (InvalidInput ''Nonce mismatch'') (check_nonces s rest)"

definition authenticate_public_transaction_signers ::
  "externals \<Rightarrow> public_transaction \<Rightarrow> v03_state \<Rightarrow> lee_error + account_id list" where
  "authenticate_public_transaction_signers E tx s =
    (let message = pub_message tx; witness_set = pub_witness_set tx in
     ensure (length (msg_nonces message) = length witness_set)
       (InvalidInput ''Mismatch between number of nonces and signatures/public keys'') (
     ensure (witness_set_is_valid_for E witness_set message)
       (InvalidInput ''Invalid signature for given message and public key'') (
     let signers = signer_account_ids E witness_set in
     and_then (check_nonces s (zip signers (msg_nonces message))) (\<lambda>_. Inr signers))))"

subsection \<open>One call of the chain\<close>

type_synonym account_diff = "(account_id \<times> account) list"

definition expected_pre :: "v03_state \<Rightarrow> account_diff \<Rightarrow> account_id \<Rightarrow> account" where
  "expected_pre s diff i =
    (case map_of diff i of None \<Rightarrow> get_account_by_id s i | Some a \<Rightarrow> a)"

fun check_pre_states ::
  "v03_state \<Rightarrow> account_diff \<Rightarrow> (account_id \<Rightarrow> bool) \<Rightarrow> account_with_metadata list \<Rightarrow> lee_error + unit" where
  "check_pre_states s diff is_auth [] = Inr ()"
| "check_pre_states s diff is_auth (pre # rest) =
    (let i = account_id pre; expected = expected_pre s diff i in
     ensure (account pre = expected)
       (InvalidProgramBehavior (InconsistentAccountPreState i expected (account pre))) (
     ensure (\<not> is_authorized pre \<or> is_auth i)
       (InvalidProgramBehavior (InvalidAccountAuthorization i)) (
     ensure (is_authorized pre \<or> \<not> is_auth i)
       (InvalidProgramBehavior (AuthorizedAccountMarkedAsNotAuthorized i)) (
     check_pre_states s diff is_auth rest))))"

definition check_claim ::
  "hasher \<Rightarrow> program_id \<Rightarrow> account_with_metadata \<Rightarrow> account_post_state \<Rightarrow> lee_error + account_post_state"
where
  "check_claim sha256 program_id pre post =
    (case post_claim post of
       None \<Rightarrow> Inr post
     | Some claim \<Rightarrow>
       let i = account_id pre in
       ensure (program_owner (post_account post) = DEFAULT_PROGRAM_OWNER)
         (InvalidProgramBehavior (ClaimedNonDefaultAccount i)) (
       and_then (case claim of
           ClaimAuthorized \<Rightarrow> ensure (is_authorized pre)
             (InvalidProgramBehavior (ClaimedUnauthorizedAccount i)) (Inr ())
         | ClaimPda seed \<Rightarrow>
             let pda = for_public_pda sha256 program_id seed in
             ensure (i = pda) (InvalidProgramBehavior (MismatchedPdaClaim pda i)) (Inr ()))
       (\<lambda>_. Inr (post\<lparr>post_account :=
         (post_account post)\<lparr>program_owner := account_of_program program_id\<rparr>\<rparr>))))"

fun check_claims ::
  "hasher \<Rightarrow> program_id \<Rightarrow> account_with_metadata list \<Rightarrow> account_post_state list
    \<Rightarrow> lee_error + account_post_state list" where
  "check_claims sha256 p (pre # pres) (post # posts) =
    and_then (check_claim sha256 p pre post) (\<lambda>post'.
    and_then (check_claims sha256 p pres posts) (\<lambda>posts'. Inr (post' # posts')))"
| "check_claims sha256 p _ _ = Inr []"

fun update_diff :: "account_diff \<Rightarrow> (account_with_metadata \<times> account_post_state) list \<Rightarrow> account_diff" where
  "update_diff diff [] = diff"
| "update_diff diff ((pre, post) # rest) =
    update_diff (AList.update (account_id pre) (post_account post) diff) rest"

definition call_is_authorized :: "hasher \<Rightarrow> chained_call \<Rightarrow> caller_data \<Rightarrow> account_id \<Rightarrow> bool" where
  "call_is_authorized sha256 call caller i \<longleftrightarrow>
    i \<in> compute_public_authorized_pdas sha256 (caller_program caller) (call_pda_seeds call)
    \<or> i \<in> authorized_accounts caller"

text \<open>The caller data of the chained calls: authorization only grows along the chain.\<close>

definition next_caller :: "program_id \<Rightarrow> caller_data \<Rightarrow> account_with_metadata list \<Rightarrow> caller_data" where
  "next_caller p caller pres =
    \<lparr>caller_program = Some p,
     authorized_accounts = authorized_accounts caller \<union> set (map account_id (filter is_authorized pres))\<rparr>"

text \<open>
  The body of the loop: the modified diff, and the calls pushed to the front of the queue in
  the order the program listed them.
\<close>

definition execute_call ::
  "externals \<Rightarrow> v03_state \<Rightarrow> block_id \<Rightarrow> timestamp \<Rightarrow> chained_call \<Rightarrow> caller_data \<Rightarrow> account_diff
    \<Rightarrow> lee_error + account_diff \<times> (chained_call \<times> caller_data) list" where
  "execute_call E s block_id ts call caller diff =
    expect_some (get_program s (call_program_id call)) (InvalidInput ''Unknown program'') (\<lambda>program_account.
    let p = \<lparr>prog_id = call_program_id call, prog_elf = into_inner (data program_account)\<rparr> in
    and_then (execute E p (caller_program caller) (call_pre_states call) (call_instruction_data call)) (\<lambda>out.
    and_then (check_pre_states s diff (call_is_authorized (ext_sha256 E) call caller) (pre_states out)) (\<lambda>_.
    ensure (self_program_id out = call_program_id call)
      (InvalidProgramBehavior (MismatchedProgramId (call_program_id call) (self_program_id out))) (
    ensure (caller_program_id out = caller_program caller)
      (InvalidProgramBehavior (MismatchedCallerProgramId (caller_program caller) (caller_program_id out))) (
    and_then (map_err (InvalidProgramBehavior \<circ> ExecutionValidationFailed)
      (validate_execution (pre_states out) (post_states out) (call_program_id call))) (\<lambda>_.
    ensure (is_valid_for (block_validity_window out) block_id \<and>
        is_valid_for (timestamp_validity_window out) ts) OutOfValidityWindow (
    and_then (check_claims (ext_sha256 E) (call_program_id call) (pre_states out) (post_states out)) (\<lambda>posts.
    Inr (update_diff diff (zip (pre_states out) posts),
      map (\<lambda>c. (c, next_caller (call_program_id call) caller (pre_states out)))
        (chained_calls out))))))))))"

subsection \<open>The chain of calls\<close>

function run_calls ::
  "externals \<Rightarrow> v03_state \<Rightarrow> block_id \<Rightarrow> timestamp \<Rightarrow> (chained_call \<times> caller_data) list \<Rightarrow> nat
    \<Rightarrow> account_diff \<Rightarrow> lee_error + account_diff" where
  "run_calls E s block_id ts [] n diff = Inr diff"
| "run_calls E s block_id ts ((call, caller) # queue) n diff =
    ensure (n \<le> MAX_NUMBER_CHAINED_CALLS) MaxChainedCallsDepthExceeded (
    and_then (execute_call E s block_id ts call caller diff) (\<lambda>(diff', calls).
    run_calls E s block_id ts (calls @ queue) (n + 1) diff'))"
  by pat_completeness auto

termination
  by (relation "measure (\<lambda>(_, _, _, _, _, n, _). Suc MAX_NUMBER_CHAINED_CALLS - n)") auto

fun check_modified_default_accounts :: "v03_state \<Rightarrow> account_diff \<Rightarrow> lee_error + unit" where
  "check_modified_default_accounts s [] = Inr ()"
| "check_modified_default_accounts s ((i, post) # rest) =
    (let pre = get_account_by_id s i in
     if program_owner pre \<noteq> DEFAULT_PROGRAM_OWNER \<or> pre = post
     then check_modified_default_accounts s rest
     else ensure (program_owner post \<noteq> DEFAULT_PROGRAM_OWNER)
       (InvalidProgramBehavior (DefaultAccountModifiedWithoutClaim i))
       (check_modified_default_accounts s rest))"

fun check_declared_accounts :: "account_diff \<Rightarrow> account_id list \<Rightarrow> lee_error + unit" where
  "check_declared_accounts diff [] = Inr ()"
| "check_declared_accounts diff (i # rest) =
    ensure (map_of diff i \<noteq> None) (InvalidProgramBehavior (DeclaredAccountMissingFromOutput i))
      (check_declared_accounts diff rest)"

subsection \<open>Validated diffs\<close>

definition initial_call :: "v03_state \<Rightarrow> public_message \<Rightarrow> account_id list \<Rightarrow> chained_call \<times> caller_data" where
  "initial_call s message signers =
    (\<lparr>call_program_id = msg_program_id message,
      call_pre_states = map (\<lambda>i. \<lparr>account = get_account_by_id s i,
        is_authorized = (i \<in> set signers), account_id = i\<rparr>) (msg_account_ids message),
      call_instruction_data = msg_instruction_data message, call_pda_seeds = []\<rparr>,
     \<lparr>caller_program = None, authorized_accounts = set signers\<rparr>)"

definition from_public_transaction ::
  "externals \<Rightarrow> public_transaction \<Rightarrow> v03_state \<Rightarrow> block_id \<Rightarrow> timestamp \<Rightarrow> lee_error + state_diff" where
  "from_public_transaction E tx s block_id ts =
    and_then (authenticate_public_transaction_signers E tx s) (\<lambda>signers.
    let message = pub_message tx in
    ensure (msg_account_ids message \<noteq> [])
      (InvalidInput ''Public transaction must have at least one account'') (
    ensure (card (set (msg_account_ids message)) = length (msg_account_ids message))
      (InvalidInput ''Duplicate account_ids found in message'') (
    and_then (run_calls E s block_id ts [initial_call s message signers] 0 []) (\<lambda>diff.
    and_then (check_modified_default_accounts s diff) (\<lambda>_.
    and_then (check_declared_accounts diff (msg_account_ids message)) (\<lambda>_.
    Inr \<lparr>diff_signers = signers, diff_public = diff, diff_commitments = [],
         diff_nullifiers = [], diff_program = None\<rparr>))))))"

definition n_unique :: "'a list \<Rightarrow> nat" where
  "n_unique xs = card (set xs)"

definition check_privacy_preserving_circuit_proof_is_valid ::
  "externals \<Rightarrow> bytes \<Rightarrow> account_with_metadata list \<Rightarrow> privacy_message \<Rightarrow> program_id \<Rightarrow> lee_error + unit" where
  "check_privacy_preserving_circuit_proof_is_valid E proof pre message circuit_id =
    (let out = \<lparr>out_public_actions =
           map (\<lambda>(pre, action). \<lparr>action_pre = pre, action_post = action_post_state action\<rparr>)
             (zip pre (priv_public_actions message)),
         out_private_actions = priv_private_actions message,
         out_block_window = priv_block_window message,
         out_timestamp_window = priv_timestamp_window message\<rparr>;
       is_valid = (if circuit_id = ext_circuit_id E then proof_is_valid_for E proof out
                   else proof_is_valid_for_circuit E proof out circuit_id) in
     if is_valid then Inr () else Inl InvalidPrivacyPreservingProof)"

definition from_privacy_preserving_transaction_with_circuit_id ::
  "externals \<Rightarrow> privacy_transaction \<Rightarrow> v03_state \<Rightarrow> block_id \<Rightarrow> timestamp \<Rightarrow> program_id
    \<Rightarrow> lee_error + state_diff" where
  "from_privacy_preserving_transaction_with_circuit_id E tx s block_id ts circuit_id =
    (let message = priv_message tx; commitments = message_commitments message;
         nullifiers = message_nullifiers message; ids = message_public_account_ids message in
     ensure (priv_private_actions message \<noteq> [])
       (InvalidInput ''Empty commitments and empty nullifiers found in message'') (
     ensure (n_unique ids = length ids)
       (InvalidInput ''Duplicate account_ids found in message'') (
     ensure (n_unique (map fst nullifiers) = length nullifiers)
       (InvalidInput ''Duplicate nullifiers found in message'') (
     ensure (n_unique commitments = length commitments)
       (InvalidInput ''Duplicate commitments found in message'') (
     ensure (length (priv_nonces message) = length (priv_signatures tx))
       (InvalidInput ''Mismatch between number of nonces and signatures/public keys'') (
     ensure (signatures_are_valid_for E (priv_signatures tx) message)
       (InvalidInput ''Invalid signature for given message and public key'') (
     let signers = signer_account_ids E (priv_signatures tx) in
     and_then (check_nonces s (zip signers (priv_nonces message))) (\<lambda>_.
     ensure (is_valid_for (priv_block_window message) block_id \<and>
         is_valid_for (priv_timestamp_window message) ts) OutOfValidityWindow (
     let pre = map (\<lambda>i. \<lparr>account = get_account_by_id s i,
           is_authorized = (i \<in> set signers), account_id = i\<rparr>) ids in
     and_then (check_privacy_preserving_circuit_proof_is_valid E (priv_proof tx) pre message circuit_id) (\<lambda>_.
     and_then (check_commitments_are_new s commitments) (\<lambda>_.
     and_then (check_nullifiers_are_valid s nullifiers) (\<lambda>_.
     Inr \<lparr>diff_signers = signers,
          diff_public = map (\<lambda>a. (action_account_id a, action_post_state a)) (priv_public_actions message),
          diff_commitments = commitments, diff_nullifiers = map fst nullifiers,
          diff_program = None\<rparr>))))))))))))"

definition from_privacy_preserving_transaction ::
  "externals \<Rightarrow> privacy_transaction \<Rightarrow> v03_state \<Rightarrow> block_id \<Rightarrow> timestamp \<Rightarrow> lee_error + state_diff" where
  "from_privacy_preserving_transaction E tx s block_id ts =
    from_privacy_preserving_transaction_with_circuit_id E tx s block_id ts (ext_circuit_id E)"

definition from_program_deployment_transaction ::
  "externals \<Rightarrow> deployment_transaction \<Rightarrow> v03_state \<Rightarrow> lee_error + state_diff" where
  "from_program_deployment_transaction E tx s =
    and_then (program_new E (dep_bytecode tx)) (\<lambda>p.
    if get_program s (prog_id p) \<noteq> None then Inl ProgramAlreadyExists
    else Inr \<lparr>diff_signers = [], diff_public = [], diff_commitments = [], diff_nullifiers = [],
              diff_program = Some p\<rparr>)"

subsection \<open>Transitions\<close>

text \<open>A transition is rejected with an error, or panics while the diff is applied.\<close>

datatype transition_error = Rejected lee_error | Panicked

definition apply_validated :: "externals \<Rightarrow> v03_state \<Rightarrow> lee_error + state_diff \<Rightarrow> transition_error + v03_state" where
  "apply_validated E s r =
    and_then (map_err Rejected r) (\<lambda>diff.
    expect_some (apply_state_diff (ext_sha256 E) s diff) Panicked Inr)"

definition transition_from_public_transaction ::
  "externals \<Rightarrow> v03_state \<Rightarrow> public_transaction \<Rightarrow> block_id \<Rightarrow> timestamp \<Rightarrow> transition_error + v03_state" where
  "transition_from_public_transaction E s tx block_id ts =
    apply_validated E s (from_public_transaction E tx s block_id ts)"

definition transition_from_privacy_preserving_transaction ::
  "externals \<Rightarrow> v03_state \<Rightarrow> privacy_transaction \<Rightarrow> block_id \<Rightarrow> timestamp \<Rightarrow> transition_error + v03_state" where
  "transition_from_privacy_preserving_transaction E s tx block_id ts =
    apply_validated E s (from_privacy_preserving_transaction E tx s block_id ts)"

definition transition_from_program_deployment_transaction ::
  "externals \<Rightarrow> v03_state \<Rightarrow> deployment_transaction \<Rightarrow> transition_error + v03_state" where
  "transition_from_program_deployment_transaction E s tx =
    apply_validated E s (from_program_deployment_transaction E tx s)"

subsection \<open>What the checks establish\<close>

lemma check_nonces_iff:
  "check_nonces s xs = Inr () \<longleftrightarrow> (\<forall>(i, n) \<in> set xs. nonce (get_account_by_id s i) = n)"
  by (induction s xs rule: check_nonces.induct) (auto simp: result_simps)

lemma check_pre_states_iff:
  "check_pre_states s diff is_auth pres = Inr () \<longleftrightarrow>
    (\<forall>pre \<in> set pres. account pre = expected_pre s diff (account_id pre)
      \<and> (is_authorized pre \<longleftrightarrow> is_auth (account_id pre)))"
  by (induction s diff is_auth pres rule: check_pre_states.induct) (auto simp: Let_def result_simps)

lemma check_commitments_are_new_iff:
  "check_commitments_are_new s cs = Inr () \<longleftrightarrow>
    (\<forall>c \<in> set cs. \<not> contains_commitment (private_commitments s) c)"
  by (induction cs) auto

lemma check_nullifiers_are_valid_iff:
  "check_nullifiers_are_valid s ns = Inr () \<longleftrightarrow>
    (\<forall>(n, r) \<in> set ns. n \<notin> private_nullifiers s \<and> r \<in> set_root_history (private_commitments s))"
  by (induction s ns rule: check_nullifiers_are_valid.induct) auto

lemma check_modified_default_accounts_iff:
  "check_modified_default_accounts s diff = Inr () \<longleftrightarrow>
    (\<forall>(i, post) \<in> set diff. program_owner (get_account_by_id s i) = DEFAULT_PROGRAM_OWNER \<and>
      get_account_by_id s i \<noteq> post \<longrightarrow> program_owner post \<noteq> DEFAULT_PROGRAM_OWNER)"
  by (induction s diff rule: check_modified_default_accounts.induct) (auto simp: Let_def result_simps)

lemma check_declared_accounts_iff:
  "check_declared_accounts diff ids = Inr () \<longleftrightarrow> set ids \<subseteq> fst ` set diff"
  by (induction ids) (auto simp: result_simps map_of_eq_None_iff)

definition claimed_from :: "program_id \<Rightarrow> account_post_state \<Rightarrow> account_post_state \<Rightarrow> bool" where
  "claimed_from p post post' \<longleftrightarrow> post_account post' = post_account post \<or>
    program_owner (post_account post) = DEFAULT_PROGRAM_OWNER \<and>
    post_account post' = (post_account post)\<lparr>program_owner := account_of_program p\<rparr>"

lemma check_claim_claimed: "check_claim sha256 p pre post = Inr post' \<Longrightarrow> claimed_from p post post'"
  by (auto simp: check_claim_def claimed_from_def Let_def result_simps split: option.splits)

lemma check_claims_claimed:
  "check_claims sha256 p pres posts = Inr posts' \<Longrightarrow> length pres = length posts \<Longrightarrow>
    list_all2 (claimed_from p) posts posts'"
  by (induction sha256 p pres posts arbitrary: posts' rule: check_claims.induct)
    (auto simp: result_simps intro: check_claim_claimed)

subsection \<open>The accounts a chain of calls sees\<close>

definition overlay :: "v03_state \<Rightarrow> account_diff \<Rightarrow> (account_id \<rightharpoonup> account)" where
  "overlay s diff = public_state s ++ map_of diff"

lemma expected_pre_overlay: "expected_pre s diff i = account_or_default (overlay s diff) i"
  by (simp add: expected_pre_def overlay_def get_account_by_id_def account_or_default_def map_add_def
      split: option.splits)

definition written :: "account_with_metadata list \<Rightarrow> account_post_state list \<Rightarrow> account_diff" where
  "written pres posts = zip (map account_id pres) (map post_account posts)"

lemma map_fst_written: "length pres = length posts \<Longrightarrow> map fst (written pres posts) = map account_id pres"
  by (simp add: written_def)

lemma overlay_update:
  "overlay s (AList.update i a diff) = (overlay s diff)(i \<mapsto> a)"
  by (simp add: overlay_def update_conv')

lemma update_diff_overlay:
  "overlay s (update_diff diff (zip pres posts)) = write_accounts (overlay s diff) (written pres posts)"
proof (induction pres arbitrary: posts diff)
  case (Cons pre pres)
  then show ?case
    by (cases posts) (simp_all add: written_def overlay_update fun_upd_def)
qed (simp add: written_def)

lemma update_diff_distinct:
  "distinct (map fst diff) \<Longrightarrow> distinct (map fst (update_diff diff xs))"
  by (induction diff xs rule: update_diff.induct) (auto simp: distinct_update)

lemma update_diff_keys: "fst ` set (update_diff diff (zip pres posts)) = fst ` set diff \<union> fst ` set (written pres posts)"
proof (induction pres arbitrary: posts diff)
  case (Cons pre pres)
  then show ?case by (cases posts) (auto simp: written_def dom_update)
qed (simp add: written_def)

subsection \<open>The effect of one call\<close>

lemma execute_call_cases:
  assumes "execute_call E s block_id ts call caller diff = Inr (diff', calls)"
  obtains pres posts0 posts cs where
    "get_program s (call_program_id call) \<noteq> None"
    "\<And>pre. pre \<in> set pres \<Longrightarrow> account pre = account_or_default (overlay s diff) (account_id pre)"
    "\<And>pre. pre \<in> set pres \<Longrightarrow>
      is_authorized pre \<longleftrightarrow> call_is_authorized (ext_sha256 E) call caller (account_id pre)"
    "validate_execution pres posts0 (call_program_id call) = Inr ()"
    "list_all2 (claimed_from (call_program_id call)) posts0 posts"
    "diff' = update_diff diff (zip pres posts)"
    "calls = map (\<lambda>c. (c, next_caller (call_program_id call) caller pres)) cs"
proof -
  from assms obtain out :: program_output and posts where out:
      "get_program s (call_program_id call) \<noteq> None"
      "check_pre_states s diff (call_is_authorized (ext_sha256 E) call caller) (pre_states out) = Inr ()"
      "validate_execution (pre_states out) (post_states out) (call_program_id call) = Inr ()"
      "check_claims (ext_sha256 E) (call_program_id call) (pre_states out) (post_states out) = Inr posts"
      "diff' = update_diff diff (zip (pre_states out) posts)"
      "calls = map (\<lambda>c. (c, next_caller (call_program_id call) caller (pre_states out))) (chained_calls out)"
    by (auto simp: execute_call_def Let_def result_simps)
  have "length (pre_states out) = length (post_states out)"
    using out(3) by (auto simp: validate_execution_Inr dest: list_all2_lengthD)
  with out show thesis
    by (intro that [of "pre_states out" "post_states out" posts "chained_calls out"])
      (auto simp: check_pre_states_iff expected_pre_overlay intro: check_claims_claimed)
qed

text \<open>What an execution of program \<open>p\<close> may do to one account, the claim included.\<close>

definition allowed_change :: "program_id \<Rightarrow> account \<Rightarrow> account \<Rightarrow> bool" where
  "allowed_change p a b \<longleftrightarrow>
    nonce b = nonce a \<and>
    (program_owner b = program_owner a
      \<or> a = default_account \<and> program_owner b = account_of_program p) \<and>
    (balance b < balance a \<longrightarrow> program_owner a = account_of_program p) \<and>
    (data b \<noteq> data a \<longrightarrow> program_owner a = account_of_program p \<or> a = default_account) \<and>
    (program_owner a = DEFAULT_PROGRAM_OWNER \<longrightarrow> a = default_account)"

lemma allowed_change_claimed:
  "well_behaved p pre post \<Longrightarrow> claimed_from p post post' \<Longrightarrow> account pre = a \<Longrightarrow>
    allowed_change p a (post_account post')"
  by (auto simp: well_behaved_def claimed_from_def allowed_change_def Let_def)

lemma execute_call_accounts:
  assumes "execute_call E s block_id ts call caller diff = Inr (diff', calls)"
  shows "account_or_default (overlay s diff') i = account_or_default (overlay s diff) i
    \<or> allowed_change (call_program_id call) (account_or_default (overlay s diff) i)
        (account_or_default (overlay s diff') i)"
proof -
  let ?p = "call_program_id call"
  obtain pres posts0 posts where call:
      "\<And>pre. pre \<in> set pres \<Longrightarrow> account pre = account_or_default (overlay s diff) (account_id pre)"
      "validate_execution pres posts0 ?p = Inr ()"
      "list_all2 (claimed_from ?p) posts0 posts" "diff' = update_diff diff (zip pres posts)"
    using execute_call_cases [OF assms] by metis
  have rules: "list_all2 (well_behaved ?p) pres posts0" and dist: "distinct (map account_id pres)"
    using call(2) by (auto simp: validate_execution_Inr)
  have len: "length pres = length posts" "length posts0 = length posts"
    using list_all2_lengthD [OF rules] list_all2_lengthD [OF call(3)] by simp_all
  have keys: "distinct (map fst (written pres posts))"
    using dist len by (simp add: map_fst_written)
  have after: "account_or_default (overlay s diff') i = (case map_of (written pres posts) i of
      None \<Rightarrow> account_or_default (overlay s diff) i | Some a \<Rightarrow> a)"
    unfolding call(4) update_diff_overlay by (rule account_or_default_write [OF keys])
  show ?thesis
  proof (cases "map_of (written pres posts) i")
    case None
    with after show ?thesis by simp
  next
    case (Some b)
    then have "(i, b) \<in> set (written pres posts)" by (rule map_of_SomeD)
    then obtain k where k: "k < length pres" "account_id (pres ! k) = i" "b = post_account (posts ! k)"
      using len by (auto simp: written_def in_set_zip)
    have "account (pres ! k) = account_or_default (overlay s diff) i"
      using call(1) [of "pres ! k"] k by simp
    then have "allowed_change ?p (account_or_default (overlay s diff) i) b"
      using k len list_all2_nthD [OF rules k(1)] list_all2_nthD [OF call(3), of k]
      by (auto intro: allowed_change_claimed)
    with Some after show ?thesis by simp
  qed
qed

lemma execute_call_balance:
  assumes "execute_call E s block_id ts call caller diff = Inr (diff', calls)"
    and "finite (dom (overlay s diff))"
  shows "total_balance (overlay s diff') = total_balance (overlay s diff)"
proof -
  let ?p = "call_program_id call"
  obtain pres posts0 posts where call:
      "\<And>pre. pre \<in> set pres \<Longrightarrow> account pre = account_or_default (overlay s diff) (account_id pre)"
      "validate_execution pres posts0 ?p = Inr ()"
      "list_all2 (claimed_from ?p) posts0 posts" "diff' = update_diff diff (zip pres posts)"
    using execute_call_cases [OF assms(1)] by metis
  have dist: "distinct (map account_id pres)" and rules: "list_all2 (well_behaved ?p) pres posts0"
    and sums: "(\<Sum>a\<leftarrow>pres. unat (balance (account a))) = (\<Sum>b\<leftarrow>posts0. unat (balance (post_account b)))"
    using call(2) by (auto simp: validate_execution_Inr)
  then have len: "length pres = length posts"
    using list_all2_lengthD [OF rules] list_all2_lengthD [OF call(3)] by simp
  have "map (\<lambda>b. unat (balance (post_account b))) posts0 = map (\<lambda>b. unat (balance (post_account b))) posts"
    using call(3) by (induction rule: list_all2_induct) (auto simp: claimed_from_def)
  moreover have "map (\<lambda>x. unat (balance (snd x))) (written pres posts)
      = map (\<lambda>b. unat (balance (post_account b))) posts"
    using len by (intro nth_equalityI) (simp_all add: written_def)
  moreover have "map (\<lambda>x. unat (balance (account_or_default (overlay s diff) (fst x)))) (written pres posts)
      = map (\<lambda>a. unat (balance (account a))) pres"
    using len call(1) by (intro nth_equalityI) (simp_all add: written_def)
  ultimately show ?thesis
    unfolding call(4) update_diff_overlay
    using sums dist len by (intro total_balance_write [OF assms(2)]) (simp_all add: map_fst_written)
qed

subsection \<open>The chain as a state machine\<close>

type_synonym chain_config = "(chained_call \<times> caller_data) list \<times> nat \<times> account_diff"

inductive chain_step :: "externals \<Rightarrow> v03_state \<Rightarrow> block_id \<Rightarrow> timestamp \<Rightarrow> chain_config \<Rightarrow> chain_config \<Rightarrow> bool"
  for E s block_id ts where
  call: "n \<le> MAX_NUMBER_CHAINED_CALLS \<Longrightarrow>
    execute_call E s block_id ts call caller diff = Inr (diff', calls) \<Longrightarrow>
    chain_step E s block_id ts ((call, caller) # queue, n, diff) (calls @ queue, n + 1, diff')"

inductive_cases chain_step_elim: "chain_step E s block_id ts c c'"

lemma run_calls_steps:
  "run_calls E s block_id ts queue n diff = Inr d \<Longrightarrow>
    \<exists>m. (chain_step E s block_id ts)\<^sup>*\<^sup>* (queue, n, diff) ([], m, d)"
proof (induction E s block_id ts queue n diff rule: run_calls.induct)
  case (1 E s block_id ts n diff)
  then show ?case by auto
next
  case (2 E s block_id ts call caller queue n diff)
  then obtain diff' calls where step: "n \<le> MAX_NUMBER_CHAINED_CALLS"
      "execute_call E s block_id ts call caller diff = Inr (diff', calls)"
      "run_calls E s block_id ts (calls @ queue) (n + 1) diff' = Inr d"
    by (auto simp: result_simps)
  from "2.IH" [OF step(1,2) refl step(3)] obtain m where
      "(chain_step E s block_id ts)\<^sup>*\<^sup>* (calls @ queue, n + 1, diff') ([], m, d)" ..
  with chain_step.call [OF step(1,2)] show ?case
    by (blast intro: converse_rtranclp_into_rtranclp)
qed

text \<open>
  How an account may have changed after any number of calls of programs deployed in \<open>s\<close>:
  the nonce is kept; the owner is kept, or a default account was claimed by a deployed
  program; and an account that is neither default nor owned by a deployed program has at
  least its balance and exactly its data.
\<close>

definition deployed_owner :: "v03_state \<Rightarrow> account_id \<Rightarrow> bool" where
  "deployed_owner s owner \<longleftrightarrow> (\<exists>p. get_program s p \<noteq> None \<and> owner = account_of_program p)"

definition chain_change :: "v03_state \<Rightarrow> account \<Rightarrow> account \<Rightarrow> bool" where
  "chain_change s a b \<longleftrightarrow>
    nonce b = nonce a \<and>
    (program_owner b = program_owner a \<or> a = default_account \<and> deployed_owner s (program_owner b)) \<and>
    (b \<noteq> a \<longrightarrow> program_owner a = DEFAULT_PROGRAM_OWNER \<longrightarrow> a = default_account) \<and>
    (a \<noteq> default_account \<and> \<not> deployed_owner s (program_owner a) \<longrightarrow>
      balance a \<le> balance b \<and> data b = data a)"

lemma chain_change_refl [simp]: "chain_change s a a"
  by (simp add: chain_change_def)

lemma default_account_owner [simp]: "program_owner default_account = DEFAULT_PROGRAM_OWNER"
  by (simp add: default_account_def DEFAULT_PROGRAM_OWNER_def)

lemma chain_change_step:
  assumes change: "chain_change s a b" and p: "get_program s p \<noteq> None" and step: "allowed_change p b c"
  shows "chain_change s a c"
proof -
  have mine: "deployed_owner s (account_of_program p)" using p by (auto simp: deployed_owner_def)
  show ?thesis
  proof (cases "b = a")
    case True
    with step mine show ?thesis by (auto simp: chain_change_def allowed_change_def)
  next
    case False
    with change have dflt: "program_owner a = DEFAULT_PROGRAM_OWNER \<Longrightarrow> a = default_account"
      by (simp add: chain_change_def)
    have owner: "program_owner c = program_owner a \<or> a = default_account \<and> deployed_owner s (program_owner c)"
      using change step mine dflt by (auto simp: chain_change_def allowed_change_def)
    moreover have "balance a \<le> balance c \<and> data c = data a"
      if "a \<noteq> default_account" "\<not> deployed_owner s (program_owner a)"
    proof -
      have "program_owner b = program_owner a" "balance a \<le> balance b" "data b = data a"
        using change that by (auto simp: chain_change_def)
      moreover from this have "program_owner b \<noteq> account_of_program p" "b \<noteq> default_account"
        using that mine dflt by auto
      ultimately show ?thesis
        using step by (auto simp: allowed_change_def not_less intro: order_trans)
    qed
    ultimately show ?thesis
      using change step dflt by (auto simp: chain_change_def allowed_change_def)
  qed
qed

definition authorizable :: "hasher \<Rightarrow> v03_state \<Rightarrow> account_id set \<Rightarrow> account_id set" where
  "authorizable sha256 s signers =
    signers \<union> {i. \<exists>p seed. get_program s p \<noteq> None \<and> i = for_public_pda sha256 p seed}"

definition chain_inv :: "externals \<Rightarrow> v03_state \<Rightarrow> account_id set \<Rightarrow> chain_config \<Rightarrow> bool" where
  "chain_inv E s signers = (\<lambda>(queue, n, diff).
    n \<le> Suc MAX_NUMBER_CHAINED_CALLS \<and> distinct (map fst diff) \<and>
    finite (dom (overlay s diff)) \<and>
    total_balance (overlay s diff) = total_balance (public_state s) \<and>
    (\<forall>i. chain_change s (get_account_by_id s i) (account_or_default (overlay s diff) i)) \<and>
    (\<forall>x \<in> set queue.
      authorized_accounts (snd x) \<subseteq> authorizable (ext_sha256 E) s signers \<and>
      (\<forall>p. caller_program (snd x) = Some p \<longrightarrow> get_program s p \<noteq> None)))"

lemma call_is_authorized_authorizable:
  assumes "authorized_accounts caller \<subseteq> authorizable sha256 s signers"
    and "\<forall>p. caller_program caller = Some p \<longrightarrow> get_program s p \<noteq> None"
    and "call_is_authorized sha256 call caller i"
  shows "i \<in> authorizable sha256 s signers"
  using assms
  by (auto simp: call_is_authorized_def compute_public_authorized_pdas_def authorizable_def
      split: option.splits)

lemma chain_step_inv:
  assumes "chain_step E s block_id ts c c'" and "chain_inv E s signers c"
  shows "chain_inv E s signers c'"
  using assms(1)
proof (cases rule: chain_step.cases)
  case (call n "call" caller diff diff' calls queue)
  have inv: "distinct (map fst diff)" "finite (dom (overlay s diff))"
      "total_balance (overlay s diff) = total_balance (public_state s)"
      "\<And>i. chain_change s (get_account_by_id s i) (account_or_default (overlay s diff) i)"
      "\<And>x. x \<in> set ((call, caller) # queue) \<Longrightarrow>
        authorized_accounts (snd x) \<subseteq> authorizable (ext_sha256 E) s signers \<and>
        (\<forall>p. caller_program (snd x) = Some p \<longrightarrow> get_program s p \<noteq> None)"
    using assms(2) unfolding call(1) chain_inv_def prod.case by blast+
  obtain pres posts cs where exec:
      "get_program s (call_program_id call) \<noteq> None"
      "\<And>pre. pre \<in> set pres \<Longrightarrow>
        is_authorized pre \<longleftrightarrow> call_is_authorized (ext_sha256 E) call caller (account_id pre)"
      "diff' = update_diff diff (zip pres posts)"
      "calls = map (\<lambda>c. (c, next_caller (call_program_id call) caller pres)) cs"
    using execute_call_cases [OF call(4)] by metis
  have "distinct (map fst diff')" using inv(1) exec(3) by (simp add: update_diff_distinct)
  moreover have "finite (dom (overlay s diff'))"
    using inv(2) exec(3) by (simp add: update_diff_overlay)
  moreover have "total_balance (overlay s diff') = total_balance (public_state s)"
    using execute_call_balance [OF call(4) inv(2)] inv(3) by simp
  moreover have "chain_change s (get_account_by_id s i) (account_or_default (overlay s diff') i)" for i
    using execute_call_accounts [OF call(4), of i] chain_change_step [OF inv(4) exec(1)] inv(4) [of i]
    by auto
  moreover have "authorized_accounts (next_caller (call_program_id call) caller pres)
      \<subseteq> authorizable (ext_sha256 E) s signers"
    using inv(5) [of "(call, caller)"] exec(2) call_is_authorized_authorizable
    by (auto simp: next_caller_def)
  then have "authorized_accounts (snd x) \<subseteq> authorizable (ext_sha256 E) s signers \<and>
      (\<forall>p. caller_program (snd x) = Some p \<longrightarrow> get_program s p \<noteq> None)"
    if "x \<in> set (calls @ queue)" for x
  proof (cases "x \<in> set queue")
    case True
    then show ?thesis by (intro inv(5)) simp
  next
    case False
    with that have "snd x = next_caller (call_program_id call) caller pres"
      by (auto simp: exec(4))
    with \<open>authorized_accounts (next_caller _ _ _) \<subseteq> _\<close> exec(1) show ?thesis
      by (simp add: next_caller_def)
  qed
  ultimately show ?thesis
    using call(3) unfolding call(2) chain_inv_def by simp
qed

end
