(* ===== verification/Ledger.thy ===== *)
theory Ledger
  imports Validation
begin

text \<open>
  What the transitions of the state machine guarantee: conservation of the native balance,
  isolation of accounts, replay protection, the bound on chained calls, authorization, and
  the invariants of the private state along any sequence of transitions.
\<close>

subsection \<open>Public transactions\<close>

lemma initial_call_inv:
  assumes "finite (dom (public_state s))" and "set signers = A"
  shows "chain_inv E s A ([initial_call s message signers], 0, [])"
  using assms
  by (auto simp: chain_inv_def overlay_def initial_call_def get_account_by_id_def authorizable_def)

lemma chain_steps_inv:
  "(chain_step E s block_id ts)\<^sup>*\<^sup>* c c' \<Longrightarrow> chain_inv E s A c \<Longrightarrow> chain_inv E s A c'"
  by (induction rule: rtranclp_induct) (auto intro: chain_step_inv)

lemma from_public_transaction_cases:
  assumes "from_public_transaction E tx s block_id ts = Inr diff"
  obtains signers d where
    "authenticate_public_transaction_signers E tx s = Inr signers"
    "run_calls E s block_id ts [initial_call s (pub_message tx) signers] 0 [] = Inr d"
    "check_modified_default_accounts s d = Inr ()"
    "check_declared_accounts d (msg_account_ids (pub_message tx)) = Inr ()"
    "diff = \<lparr>diff_signers = signers, diff_public = d, diff_commitments = [],
      diff_nullifiers = [], diff_program = None\<rparr>"
  using assms by (auto simp: from_public_transaction_def Let_def result_simps)

lemma authenticate_signers_iff:
  "authenticate_public_transaction_signers E tx s = Inr signers \<longleftrightarrow>
    length (msg_nonces (pub_message tx)) = length (pub_witness_set tx) \<and>
    witness_set_is_valid_for E (pub_witness_set tx) (pub_message tx) \<and>
    signers = signer_account_ids E (pub_witness_set tx) \<and>
    (\<forall>(i, n) \<in> set (zip signers (msg_nonces (pub_message tx))). nonce (get_account_by_id s i) = n)"
  using check_nonces_iff
  by (auto simp: authenticate_public_transaction_signers_def Let_def result_simps)

lemma public_transition_cases:
  assumes "transition_from_public_transaction E s tx block_id ts = Inr s'"
    and "finite (dom (public_state s))"
  obtains signers d m where
    "authenticate_public_transaction_signers E tx s = Inr signers"
    "chain_inv E s (set signers) ([], m, d)"
    "increment_nonces (overlay s d) signers = Some (public_state s')"
    "check_modified_default_accounts s d = Inr ()"
    "check_declared_accounts d (msg_account_ids (pub_message tx)) = Inr ()"
    "private_nullifiers s' = private_nullifiers s"
    "extend_commitments (ext_sha256 E) (private_commitments s) [] = Some (private_commitments s')"
proof -
  obtain diff where diff: "from_public_transaction E tx s block_id ts = Inr diff"
      "apply_state_diff (ext_sha256 E) s diff = Some s'"
    using assms(1)
    by (auto simp: transition_from_public_transaction_def apply_validated_def result_simps)
  obtain signers d where d:
      "authenticate_public_transaction_signers E tx s = Inr signers"
      "run_calls E s block_id ts [initial_call s (pub_message tx) signers] 0 [] = Inr d"
      "check_modified_default_accounts s d = Inr ()"
      "check_declared_accounts d (msg_account_ids (pub_message tx)) = Inr ()"
      "diff = \<lparr>diff_signers = signers, diff_public = d, diff_commitments = [],
        diff_nullifiers = [], diff_program = None\<rparr>"
    by (rule from_public_transaction_cases [OF diff(1)])
  obtain m where "(chain_step E s block_id ts)\<^sup>*\<^sup>*
      ([initial_call s (pub_message tx) signers], 0, []) ([], m, d)"
    using run_calls_steps [OF d(2)] by blast
  from chain_steps_inv [OF this initial_call_inv [OF assms(2) refl]]
  have inv: "chain_inv E s (set signers) ([], m, d)" .
  then have "distinct (map fst d)" by (simp add: chain_inv_def)
  then have over: "write_accounts (public_state s) d = overlay s d"
    by (simp add: overlay_def write_accounts_distinct)
  obtain accounts cs where
      "increment_nonces (write_accounts (public_state s) (diff_public diff)) (diff_signers diff) = Some accounts"
      "extend_commitments (ext_sha256 E) (private_commitments s) (diff_commitments diff) = Some cs"
      "private_commitments s' = cs"
      "private_nullifiers s' = private_nullifiers s \<union> set (diff_nullifiers diff)"
      "diff_program diff = None \<Longrightarrow> public_state s' = accounts"
    using apply_state_diff_parts [OF diff(2)] by metis
  then show thesis
    using d inv over by (intro that [OF d(1) inv _ d(3,4)]) simp_all
qed

text \<open>
  C1: A public transaction conserves the native balance: whatever programs it executes and
  however they chain, the sum of all public balances after the transition is the sum before.
\<close>

theorem public_transaction_conserves_balance:
  assumes "transition_from_public_transaction E s tx block_id ts = Inr s'"
    and "finite (dom (public_state s))"
  shows "total_balance (public_state s') = total_balance (public_state s)"
proof -
  obtain signers d m where "chain_inv E s (set signers) ([], m, d)"
      "increment_nonces (overlay s d) signers = Some (public_state s')"
    by (rule public_transition_cases [OF assms])
  then show ?thesis
    using total_balance_increment [of "overlay s d" signers "public_state s'"]
    by (simp add: chain_inv_def)
qed

lemma unclaimed_account_kept:
  assumes "check_modified_default_accounts s d = Inr ()" and "chain_change s (get_account_by_id s i) b"
    and "b = account_or_default (overlay s d) i" and "\<not> deployed_owner s (program_owner b)"
  shows "balance (get_account_by_id s i) \<le> balance b \<and> data b = data (get_account_by_id s i)"
proof (cases "get_account_by_id s i = default_account")
  case True
  with assms(2,4) have owner: "program_owner b = DEFAULT_PROGRAM_OWNER" by (auto simp: chain_change_def)
  have "b = get_account_by_id s i"
  proof (cases "map_of d i")
    case None
    with assms(3) show ?thesis
      by (simp add: overlay_def account_or_default_def get_account_by_id_def map_add_def)
  next
    case (Some post)
    then have "(i, post) \<in> set d" "b = post"
      using assms(3) by (simp_all add: map_of_SomeD overlay_def account_or_default_def map_add_def)
    with assms(1) owner True show ?thesis by (auto simp: check_modified_default_accounts_iff)
  qed
  then show ?thesis by simp
next
  case False
  with assms(2,4) show ?thesis by (auto simp: chain_change_def)
qed

text \<open>
  C6: A public transaction isolates accounts. For every account: the nonce grows by the
  number of its signatures; the owner changes only when a default account is claimed by a
  deployed program; and an account that no deployed program owns after the transaction keeps
  its data and never loses balance. So data are written and balance is taken only where the
  account was owned by a deployed program before, or was a default account and was claimed by
  a deployed program in this transaction.
\<close>

theorem public_transaction_isolation:
  assumes "transition_from_public_transaction E s tx block_id ts = Inr s'"
    and "finite (dom (public_state s))"
  shows "let a = get_account_by_id s i; b = get_account_by_id s' i in
    unat (nonce_value (nonce b))
      = unat (nonce_value (nonce a)) + count_list (signer_account_ids E (pub_witness_set tx)) i
    \<and> (program_owner b = program_owner a
      \<or> a = default_account \<and> deployed_owner s (program_owner b))
    \<and> (\<not> deployed_owner s (program_owner b) \<longrightarrow> balance a \<le> balance b \<and> data b = data a)"
proof -
  obtain signers d m where tx: "authenticate_public_transaction_signers E tx s = Inr signers"
      "chain_inv E s (set signers) ([], m, d)"
      "increment_nonces (overlay s d) signers = Some (public_state s')"
      "check_modified_default_accounts s d = Inr ()"
    by (rule public_transition_cases [OF assms(1,2)])
  have "signers = signer_account_ids E (pub_witness_set tx)"
    using tx(1) by (simp add: authenticate_signers_iff)
  moreover have change: "chain_change s (get_account_by_id s i) (account_or_default (overlay s d) i)"
    using tx(2) by (simp add: chain_inv_def)
  ultimately show ?thesis
    using increment_nonces_frame(2-5) [OF tx(3), of i] unclaimed_account_kept [OF tx(4) change refl]
    by (auto simp: chain_change_def get_account_by_id_def Let_def)
qed

lemma check_nonces_error: "check_nonces s xs = Inl e \<Longrightarrow> e = InvalidInput ''Nonce mismatch''"
  by (induction s xs rule: check_nonces.induct) (auto simp: result_simps)

lemma check_nonces_fails:
  assumes "(i, n) \<in> set xs" and "nonce (get_account_by_id s i) \<noteq> n"
  shows "check_nonces s xs = Inl (InvalidInput ''Nonce mismatch'')"
proof (cases "check_nonces s xs")
  case (Inl e)
  then show ?thesis using check_nonces_error by simp
next
  case (Inr u)
  with assms show ?thesis by (auto simp: check_nonces_iff)
qed

text \<open>
  C8: A signed public transaction cannot be replayed: once it has been applied, submitting
  it again, at any block and time, is rejected with a nonce mismatch.
\<close>

theorem public_transaction_no_replay:
  assumes "transition_from_public_transaction E s tx block_id ts = Inr s'"
    and "finite (dom (public_state s))" and "pub_witness_set tx \<noteq> []"
  shows "transition_from_public_transaction E s' tx block_id' ts'
    = Inl (Rejected (InvalidInput ''Nonce mismatch''))"
proof -
  obtain signers d m where tx: "authenticate_public_transaction_signers E tx s = Inr signers"
      "chain_inv E s (set signers) ([], m, d)"
      "increment_nonces (overlay s d) signers = Some (public_state s')"
    by (rule public_transition_cases [OF assms(1,2)])
  note auth = tx(1) [unfolded authenticate_signers_iff]
  let ?xs = "zip signers (msg_nonces (pub_message tx))"
  have len: "length signers = length (msg_nonces (pub_message tx))" "signers \<noteq> []"
    using auth assms(3) by (auto simp: signer_account_ids_def)
  then obtain i n rest where first: "?xs = (i, n) # rest" "i \<in> set signers"
    by (cases signers; cases "msg_nonces (pub_message tx)") auto
  then have "nonce (get_account_by_id s i) = n" using auth by auto
  moreover have "nonce (account_or_default (overlay s d) i) = nonce (get_account_by_id s i)"
    using tx(2) by (simp add: chain_inv_def chain_change_def)
  moreover have "0 < count_list signers i" using first(2) count_list_0_iff [of signers i] by (metis gr0I)
  ultimately have "nonce (get_account_by_id s' i) \<noteq> n"
    using increment_nonces_frame(5) [OF tx(3), of i] by (auto simp: get_account_by_id_def)
  then have "check_nonces s' ?xs = Inl (InvalidInput ''Nonce mismatch'')"
    using first(1) by (intro check_nonces_fails [of i n]) simp_all
  then show ?thesis
    using auth
    by (auto simp: transition_from_public_transaction_def apply_validated_def
        from_public_transaction_def authenticate_public_transaction_signers_def Let_def ensure_def)
qed

text \<open>
  C7: Every account a program sees as authorized, at any depth of the chain of calls, is a
  signer of the transaction or a program-derived account of a deployed program.
\<close>

theorem chained_calls_authorization:
  assumes "finite (dom (public_state s))"
    and "(chain_step E s block_id ts)\<^sup>*\<^sup>* ([initial_call s message signers], 0, [])
      ((call, caller) # queue, n, diff)"
    and "execute_call E s block_id ts call caller diff = Inr (diff', calls)"
    and "execute E \<lparr>prog_id = call_program_id call, prog_elf = into_inner (data program)\<rparr>
      (caller_program caller) (call_pre_states call) (call_instruction_data call) = Inr out"
    and "get_program s (call_program_id call) = Some program"
    and "pre \<in> set (pre_states out)" and "is_authorized pre"
  shows "account_id pre \<in> set signers \<or>
    (\<exists>p seed. get_program s p \<noteq> None \<and> account_id pre = for_public_pda (ext_sha256 E) p seed)"
proof -
  have "chain_inv E s (set signers) ((call, caller) # queue, n, diff)"
    using chain_steps_inv [OF assms(2) initial_call_inv [OF assms(1) refl]] .
  then have "authorized_accounts caller \<subseteq> authorizable (ext_sha256 E) s (set signers)"
    "\<forall>p. caller_program caller = Some p \<longrightarrow> get_program s p \<noteq> None"
    by (simp_all add: chain_inv_def)
  moreover have "call_is_authorized (ext_sha256 E) call caller (account_id pre)"
    using assms(3-7) by (auto simp: execute_call_def Let_def result_simps check_pre_states_iff)
  ultimately have "account_id pre \<in> authorizable (ext_sha256 E) s (set signers)"
    by (rule call_is_authorized_authorizable)
  then show ?thesis by (auto simp: authorizable_def)
qed

lemma chain_steps_count:
  "(chain_step E s block_id ts ^^ k) (queue, n, diff) (queue', n', diff') \<Longrightarrow>
    n' = n + k \<and> (0 < k \<longrightarrow> n' \<le> Suc MAX_NUMBER_CHAINED_CALLS)"
proof (induction k arbitrary: queue' n' diff')
  case (Suc k)
  then obtain q1 n1 d1 where steps: "(chain_step E s block_id ts ^^ k) (queue, n, diff) (q1, n1, d1)"
      "chain_step E s block_id ts (q1, n1, d1) (queue', n', diff')"
    by auto
  from steps(2) have "n' = Suc n1 \<and> n1 \<le> MAX_NUMBER_CHAINED_CALLS"
    by (auto elim: chain_step_elim)
  with Suc.IH [OF steps(1)] show ?case by simp
qed simp

lemma run_calls_chain:
  "(chain_step E s block_id ts)\<^sup>*\<^sup>* (queue, n, diff) (queue', n', diff') \<Longrightarrow>
    run_calls E s block_id ts queue n diff = run_calls E s block_id ts queue' n' diff'"
proof (induction "(queue, n, diff)" arbitrary: queue n diff rule: converse_rtranclp_induct)
  case (step c)
  obtain q1 n1 d1 where c: "c = (q1, n1, d1)" by (cases c)
  have "run_calls E s block_id ts queue n diff = run_calls E s block_id ts q1 n1 d1"
    using step(1) c by (auto elim!: chain_step_elim)
  with step(3) [OF c] show ?case by simp
qed simp

text \<open>
  C13: A transaction executes at most eleven programs: a chain of calls that starts a
  transaction has at most \<open>MAX_NUMBER_CHAINED_CALLS + 1\<close> steps, and one that still has a call
  queued after them is rejected because its chain is too long.
\<close>

theorem chained_calls_bounded:
  assumes "(chain_step E s block_id ts ^^ k) ([initial_call s message signers], 0, []) (queue, n, diff)"
  shows "k \<le> 11 \<and> n = k \<and> (k = 11 \<and> queue \<noteq> [] \<longrightarrow>
    run_calls E s block_id ts [initial_call s message signers] 0 [] = Inl MaxChainedCallsDepthExceeded)"
proof -
  have k: "n = k" "k \<le> 11"
    using chain_steps_count [OF assms] by (auto simp: MAX_NUMBER_CHAINED_CALLS_def)
  have "run_calls E s block_id ts [initial_call s message signers] 0 []
      = run_calls E s block_id ts queue n diff"
    using run_calls_chain relpowp_imp_rtranclp [OF assms] by blast
  moreover have "run_calls E s block_id ts queue 11 diff = Inl MaxChainedCallsDepthExceeded"
    if "queue \<noteq> []"
    using that by (cases queue) (auto simp: MAX_NUMBER_CHAINED_CALLS_def)
  ultimately show ?thesis using k by auto
qed

subsection \<open>Privacy-preserving transactions and deployments\<close>

lemma from_privacy_cases:
  assumes "from_privacy_preserving_transaction E tx s block_id ts = Inr diff"
  shows "diff = \<lparr>diff_signers = signer_account_ids E (priv_signatures tx),
      diff_public = map (\<lambda>a. (action_account_id a, action_post_state a)) (priv_public_actions (priv_message tx)),
      diff_commitments = message_commitments (priv_message tx),
      diff_nullifiers = map fst (message_nullifiers (priv_message tx)), diff_program = None\<rparr>"
    and "priv_private_actions (priv_message tx) \<noteq> []"
    and "distinct (message_commitments (priv_message tx))"
    and "distinct (map fst (message_nullifiers (priv_message tx)))"
    and "distinct (message_public_account_ids (priv_message tx))"
    and "check_commitments_are_new s (message_commitments (priv_message tx)) = Inr ()"
    and "check_nullifiers_are_valid s (message_nullifiers (priv_message tx)) = Inr ()"
proof -
  have card: "card (set xs) = length xs \<longleftrightarrow> distinct xs" for xs :: "'z list"
    using distinct_card_iff by metis
  note defs = from_privacy_preserving_transaction_def n_unique_def
    from_privacy_preserving_transaction_with_circuit_id_def Let_def result_simps card
  show "diff = \<lparr>diff_signers = signer_account_ids E (priv_signatures tx),
      diff_public = map (\<lambda>a. (action_account_id a, action_post_state a)) (priv_public_actions (priv_message tx)),
      diff_commitments = message_commitments (priv_message tx),
      diff_nullifiers = map fst (message_nullifiers (priv_message tx)), diff_program = None\<rparr>"
    and "priv_private_actions (priv_message tx) \<noteq> []"
    and "check_commitments_are_new s (message_commitments (priv_message tx)) = Inr ()"
    and "check_nullifiers_are_valid s (message_nullifiers (priv_message tx)) = Inr ()"
    using assms by (auto simp: defs)
  show "distinct (message_commitments (priv_message tx))"
    and "distinct (message_public_account_ids (priv_message tx))"
    using assms by (auto simp: defs)
  have "card (set (map fst (message_nullifiers (priv_message tx))))
      = length (map fst (message_nullifiers (priv_message tx)))"
    using assms by (auto simp: defs)
  then show "distinct (map fst (message_nullifiers (priv_message tx)))"
    by (rule card_distinct)
qed

lemma privacy_transition_cases:
  assumes "transition_from_privacy_preserving_transaction E s tx block_id ts = Inr s'"
  obtains diff where "from_privacy_preserving_transaction E tx s block_id ts = Inr diff"
    and "apply_state_diff (ext_sha256 E) s diff = Some s'"
  using assms
  by (auto simp: transition_from_privacy_preserving_transaction_def apply_validated_def result_simps)

subsection \<open>Sequences of transitions\<close>

inductive ledger_step :: "externals \<Rightarrow> v03_state \<Rightarrow> v03_state \<Rightarrow> bool" for E where
  public_tx: "transition_from_public_transaction E s tx block_id ts = Inr s' \<Longrightarrow> ledger_step E s s'"
| private_tx: "transition_from_privacy_preserving_transaction E s ptx block_id ts = Inr s' \<Longrightarrow> ledger_step E s s'"
| deploy_tx: "transition_from_program_deployment_transaction E s dtx = Inr s' \<Longrightarrow> ledger_step E s s'"

inductive_cases ledger_step_elim: "ledger_step E s s'"

lemma ledger_step_diff:
  assumes "ledger_step E s s'"
  obtains diff where "apply_state_diff (ext_sha256 E) s diff = Some s'"
    and "diff_commitments diff = [] \<or> (distinct (diff_commitments diff) \<and>
      (\<forall>c \<in> set (diff_commitments diff). \<not> contains_commitment (private_commitments s) c))"
proof (rule ledger_step_elim [OF assms])
  fix tx block_id ts
  assume "transition_from_public_transaction E s tx block_id ts = Inr s'"
  then obtain diff where diff: "from_public_transaction E tx s block_id ts = Inr diff"
      "apply_state_diff (ext_sha256 E) s diff = Some s'"
    by (auto simp: transition_from_public_transaction_def apply_validated_def result_simps)
  have "diff_commitments diff = []"
    by (rule from_public_transaction_cases [OF diff(1)]) simp
  with diff(2) show thesis by (intro that [of diff]) simp_all
next
  fix ptx block_id ts
  assume "transition_from_privacy_preserving_transaction E s ptx block_id ts = Inr s'"
  then obtain diff where diff: "from_privacy_preserving_transaction E ptx s block_id ts = Inr diff"
      "apply_state_diff (ext_sha256 E) s diff = Some s'"
    by (rule privacy_transition_cases)
  with from_privacy_cases [OF diff(1)] show thesis
    by (intro that [of diff]) (simp_all add: check_commitments_are_new_iff)
next
  fix dtx
  assume "transition_from_program_deployment_transaction E s dtx = Inr s'"
  then obtain diff where "from_program_deployment_transaction E dtx s = Inr diff"
      "apply_state_diff (ext_sha256 E) s diff = Some s'"
    by (auto simp: transition_from_program_deployment_transaction_def apply_validated_def result_simps)
  then show thesis
    by (intro that [of diff])
      (auto simp: from_program_deployment_transaction_def result_simps split: if_splits)
qed

text \<open>
  The commitments of a ledger are those of its genesis followed by those of its transactions;
  the latter are never repeated. Genesis does not check its own list for repetitions.
\<close>

definition ledger_inv :: "externals \<Rightarrow> v03_state \<Rightarrow> commitment list \<Rightarrow> commitment list \<Rightarrow> bool" where
  "ledger_inv E s g vs \<longleftrightarrow> state_inv (ext_sha256 E) s (g @ vs) \<and> distinct vs \<and> set g \<inter> set vs = {}"

lemma ledger_step_inv:
  assumes "ledger_step E s s'" and "ledger_inv E s g vs"
  shows "\<exists>new. ledger_inv E s' g (vs @ new)"
proof -
  obtain diff where diff: "apply_state_diff (ext_sha256 E) s diff = Some s'"
      "diff_commitments diff = [] \<or> (distinct (diff_commitments diff) \<and>
        (\<forall>c \<in> set (diff_commitments diff). \<not> contains_commitment (private_commitments s) c))"
    by (rule ledger_step_diff [OF assms(1)])
  have inv: "state_inv (ext_sha256 E) s (g @ vs)" "distinct vs" "set g \<inter> set vs = {}"
    using assms(2) by (simp_all add: ledger_inv_def)
  then have "distinct (vs @ diff_commitments diff) \<and> set g \<inter> set (vs @ diff_commitments diff) = {}"
    using diff(2) contains_commitment_iff [of "ext_sha256 E" "private_commitments s" "g @ vs"]
    by (auto simp: state_inv_def)
  with apply_state_diff_inv [OF inv(1) diff(1)] show ?thesis by (auto simp: ledger_inv_def)
qed

lemma ledger_steps_inv:
  "(ledger_step E)\<^sup>*\<^sup>* s s' \<Longrightarrow> ledger_inv E s g vs \<Longrightarrow> \<exists>new. ledger_inv E s' g (vs @ new)"
proof (induction rule: rtranclp_induct)
  case base
  then show ?case by (auto intro: exI [of _ "[]"])
next
  case (step s1 s2)
  then obtain new where "ledger_inv E s1 g (vs @ new)" by blast
  from ledger_step_inv [OF step(2) this] show ?case by auto
qed

lemma ledger_step_nullifiers: "ledger_step E s s' \<Longrightarrow> private_nullifiers s \<subseteq> private_nullifiers s'"
proof -
  assume "ledger_step E s s'"
  then obtain diff where "apply_state_diff (ext_sha256 E) s diff = Some s'"
    by (rule ledger_step_diff)
  then show ?thesis by (elim apply_state_diff_parts) auto
qed

lemma ledger_steps_nullifiers: "(ledger_step E)\<^sup>*\<^sup>* s s' \<Longrightarrow> private_nullifiers s \<subseteq> private_nullifiers s'"
  by (induction rule: rtranclp_induct) (use ledger_step_nullifiers in blast)+

text \<open>
  C9: A nullifier is spent once: after a privacy-preserving transaction has been applied and
  any sequence of further transitions, a transaction that reveals one of its nullifiers
  again is rejected, at any block and time and with any proof.
\<close>

theorem nullifier_spent_once:
  assumes "transition_from_privacy_preserving_transaction E s tx block_id ts = Inr s1"
    and "(ledger_step E)\<^sup>*\<^sup>* s1 s2"
    and "n \<in> fst ` set (message_nullifiers (priv_message tx))"
    and "n \<in> fst ` set (message_nullifiers (priv_message tx'))"
  shows "\<exists>e. transition_from_privacy_preserving_transaction E s2 tx' block_id' ts' = Inl (Rejected e)"
proof -
  obtain diff where diff: "from_privacy_preserving_transaction E tx s block_id ts = Inr diff"
      "apply_state_diff (ext_sha256 E) s diff = Some s1"
    by (rule privacy_transition_cases [OF assms(1)])
  have "private_nullifiers s1 = private_nullifiers s \<union> set (diff_nullifiers diff)"
    using diff(2) by (rule apply_state_diff_parts)
  then have "n \<in> private_nullifiers s2"
    using from_privacy_cases(1) [OF diff(1)] assms(3) ledger_steps_nullifiers [OF assms(2)] by auto
  then have "check_nullifiers_are_valid s2 (message_nullifiers (priv_message tx')) \<noteq> Inr ()"
    using assms(4) by (auto simp: check_nullifiers_are_valid_iff)
  then have "from_privacy_preserving_transaction E tx' s2 block_id' ts' \<noteq> Inr d" for d
    using from_privacy_cases(7) by blast
  then show ?thesis
    by (cases "from_privacy_preserving_transaction E tx' s2 block_id' ts'")
      (auto simp: transition_from_privacy_preserving_transaction_def apply_validated_def)
qed

subsection \<open>Reachable states\<close>

text \<open>
  Genesis starts from the default state and adds public accounts, private accounts and
  built-in programs, in any order and number; from there on the state changes by transitions.
\<close>

inductive genesis_built :: "externals \<Rightarrow> v03_state \<Rightarrow> bool" for E where
  default: "v03_default (ext_sha256 E) = Some s \<Longrightarrow> genesis_built E s"
| accounts: "genesis_built E s \<Longrightarrow> genesis_built E (with_public_accounts s accounts)"
| private_accounts: "genesis_built E s \<Longrightarrow> with_private_accounts (ext_sha256 E) s pairs = Some s'
    \<Longrightarrow> genesis_built E s'"
| programs: "genesis_built E s \<Longrightarrow> with_programs s ps = Some s' \<Longrightarrow> genesis_built E s'"

inductive reachable :: "externals \<Rightarrow> v03_state \<Rightarrow> bool" for E where
  genesis: "genesis_built E s \<Longrightarrow> reachable E s"
| step: "reachable E s \<Longrightarrow> ledger_step E s s' \<Longrightarrow> reachable E s'"

lemma dom_fold_upd: "dom (fold (\<lambda>(i, a) m. m(i \<mapsto> a)) xs m) = dom m \<union> fst ` set xs"
  by (induction xs arbitrary: m) (auto split: if_splits)

lemma with_programs_frame:
  "with_programs s ps = Some s' \<Longrightarrow> private_commitments s' = private_commitments s \<and>
    private_nullifiers s' = private_nullifiers s \<and>
    (finite (dom (public_state s)) \<longrightarrow> finite (dom (public_state s')))"
proof (induction ps arbitrary: s)
  case (Cons p ps)
  then obtain s1 where s1: "insert_program s p = Some s1" "with_programs s1 ps = Some s'"
    by (auto split: bind_splits)
  from Cons.IH [OF s1(2)] insert_program_frame(1-3) [OF s1(1)] show ?case by simp
qed simp

lemma with_private_accounts_inv:
  assumes "state_inv sha256 s vs" and "with_private_accounts sha256 s pairs = Some s'"
  shows "state_inv sha256 s' (vs @ map fst pairs)"
proof -
  obtain cs where cs: "extend_commitments sha256 (private_commitments s) (map fst pairs) = Some cs"
      "private_commitments s' = cs" "public_state s' = public_state s"
    using assms(2) by (auto simp: with_private_accounts_def split: bind_splits)
  with extend_commitments_room [of sha256 "private_commitments s" vs "map fst pairs" cs] assms(1)
  show ?thesis by (simp add: state_inv_def)
qed

lemma genesis_built_inv: "genesis_built E s \<Longrightarrow> \<exists>g. state_inv (ext_sha256 E) s g"
proof (induction rule: genesis_built.induct)
  case (default s)
  then show ?case using v03_default_inv [of "ext_sha256 E"] by auto
next
  case (accounts s accounts)
  then show ?case by (auto simp: state_inv_def with_public_accounts_def dom_fold_upd)
next
  case (private_accounts s pairs s')
  then show ?case using with_private_accounts_inv by blast
next
  case (programs s ps s')
  then show ?case using with_programs_frame [of s ps s'] by (auto simp: state_inv_def)
qed

lemma reachable_inv: "reachable E s \<Longrightarrow> \<exists>g vs. ledger_inv E s g vs"
proof (induction rule: reachable.induct)
  case (genesis s)
  then obtain g where "state_inv (ext_sha256 E) s g" using genesis_built_inv by blast
  then have "ledger_inv E s g []" by (simp add: ledger_inv_def)
  then show ?case by blast
next
  case (step s s')
  then show ?case using ledger_step_inv by blast
qed


subsection \<open>Deployed code\<close>

text \<open>
  C12: Deployed code is immutable under public transactions and deployments, as long as no
  program is deployed under the identifier that marks program storage: its bytes stay the
  ones that were deployed.
\<close>

theorem deployed_code_immutable:
  assumes "finite (dom (public_state s))" and "\<not> deployed_owner s PROGRAM_STORAGE_OWNER"
    and "get_program s p = Some a"
    and "transition_from_public_transaction E s tx block_id ts = Inr s'
      \<or> transition_from_program_deployment_transaction E s dtx = Inr s'"
  shows "\<exists>a'. get_program s' p = Some a' \<and> data a' = data a"
  using assms(4)
proof
  let ?i = "account_of_program p"
  have a: "public_state s ?i = Some a" "program_owner a = PROGRAM_STORAGE_OWNER"
    using assms(3) by (auto simp: get_program_def split: option.splits if_splits)
  have nd: "a \<noteq> default_account" using a(2) storage_owner_not_default
    by (auto simp: default_account_def DEFAULT_PROGRAM_OWNER_def)
  assume tx: "transition_from_public_transaction E s tx block_id ts = Inr s'"
  obtain signers d m where inv: "chain_inv E s (set signers) ([], m, d)"
      "increment_nonces (overlay s d) signers = Some (public_state s')"
    by (rule public_transition_cases [OF tx assms(1)])
  have "get_account_by_id s ?i = a"
    using a(1) by (simp add: get_account_by_id_def account_or_default_def)
  then have "chain_change s a (account_or_default (overlay s d) ?i)"
    using inv(1) by (auto simp: chain_inv_def)
  then have "program_owner (account_or_default (overlay s d) ?i) = PROGRAM_STORAGE_OWNER"
      "data (account_or_default (overlay s d) ?i) = data a"
    using a(2) nd assms(2) by (auto simp: chain_change_def)
  moreover have "?i \<in> dom (public_state s')"
    using increment_nonces_frame(1) [OF inv(2)] a(1) by (auto simp: overlay_def)
  ultimately show ?thesis
    using increment_nonces_frame(3,4) [OF inv(2), of ?i]
    by (auto simp: get_program_def account_or_default_def)
next
  let ?i = "account_of_program p"
  assume "transition_from_program_deployment_transaction E s dtx = Inr s'"
  then obtain q where q: "get_program s (prog_id q) = None"
      "apply_state_diff (ext_sha256 E) s \<lparr>diff_signers = [], diff_public = [], diff_commitments = [],
        diff_nullifiers = [], diff_program = Some q\<rparr> = Some s'"
    by (auto simp: transition_from_program_deployment_transaction_def apply_validated_def
        from_program_deployment_transaction_def result_simps split: if_splits)
  then have "prog_id q \<noteq> p" using assms(3) by auto
  moreover have "\<forall>i. i \<noteq> account_of_program (prog_id q) \<longrightarrow> public_state s' i = public_state s i"
    using q(2) by (rule apply_state_diff_parts) simp
  ultimately have "public_state s' ?i = public_state s ?i" by simp
  then have "get_program s' p = get_program s p" by (simp add: get_program_def)
  with assms(3) show ?thesis by simp
qed

end
