(* ===== verification/CircuitSafety.thy ===== *)
theory CircuitSafety
  imports Circuit Ledger
begin

text \<open>
  What a run of the privacy circuit establishes: the balances of all accounts it touches are
  conserved, private program-derived accounts are bound to one seed each, every authorized
  account is backed by a credential or a derivation, and the emitted actions are those of
  the accounts in a sorted order.
\<close>

subsection \<open>Frames\<close>

lemma assert_family_binding_Some:
  "assert_family_binding fam p seed i = Some fam' \<Longrightarrow> fam' (p, seed) = Some i \<and> fam \<subseteq>\<^sub>m fam'"
  by (auto simp: assert_family_binding_def map_le_def panic_simps split: option.splits)

lemma bind_private_pda_position_Some:
  "bind_private_pda_position bound pos p seed = Some bound' \<Longrightarrow> bound' = bound(pos \<mapsto> (p, seed))"
  by (auto simp: bind_private_pda_position_def panic_simps fun_upd_idem split: option.splits)

definition same_accounts :: "execution_state \<Rightarrow> execution_state \<Rightarrow> bool" where
  "same_accounts es es' \<longleftrightarrow> es_pre_states es' = es_pre_states es \<and> es_post_states es' = es_post_states es \<and>
    es_pda_by_position es' = es_pda_by_position es \<and> es_block_window es' = es_block_window es \<and>
    es_timestamp_window es' = es_timestamp_window es"

lemma same_accounts_refl [simp]: "same_accounts es es"
  by (simp add: same_accounts_def)

lemma same_accounts_trans [trans]: "same_accounts es1 es2 \<Longrightarrow> same_accounts es2 es3 \<Longrightarrow> same_accounts es1 es3"
  by (simp add: same_accounts_def)

lemma same_accounts_update [simp]:
  "same_accounts es (es\<lparr>es_family_binding := fam\<rparr>)"
  "same_accounts es (es\<lparr>es_family_binding := fam, es_bound_positions := bound\<rparr>)"
  "same_accounts es (es\<lparr>es_bound_positions := bound, es_family_binding := fam\<rparr>)"
  "same_accounts es (es\<lparr>es_globally_authorized := glob\<rparr>)"
  by (simp_all add: same_accounts_def)

lemma record_bindings_frame:
  assumes "assert_authorization_and_record_bindings sha256 es caller seeds i pos auth = Some es'"
  shows "same_accounts es es' \<and> es_globally_authorized es' = es_globally_authorized es"
proof -
  obtain matched where "(case matched of
        None \<Rightarrow> Some es
      | Some (seed, is_private_form, p) \<Rightarrow>
          do { fam \<leftarrow> assert_family_binding (es_family_binding es) p seed i;
               bound \<leftarrow> (if is_private_form
                 then bind_private_pda_position (es_bound_positions es) pos p seed
                 else Some (es_bound_positions es));
               Some (es\<lparr>es_family_binding := fam, es_bound_positions := bound\<rparr>) }) = Some es'"
    using assms unfolding assert_authorization_and_record_bindings_def panic_simps by blast
  then show ?thesis by (cases matched) (auto simp: bind_eq_Some_conv)
qed

lemma bind_external_seed_frame:
  "bind_external_seed es pos i ext = Some es' \<Longrightarrow>
    same_accounts es es' \<and> es_globally_authorized es' = es_globally_authorized es"
  by (cases ext) (auto simp: bind_external_seed_def panic_simps)

lemma first_sight_frame:
  "authorize_first_sight_without_pda_witness sha256 es caller seeds i auth = Some (es', masked) \<Longrightarrow>
    same_accounts es es' \<and> es_bound_positions es' = es_bound_positions es"
  by (auto simp: authorize_first_sight_without_pda_witness_def panic_simps split: option.splits if_splits)

text \<open>The two ways an account enters a call: known from an earlier one, or at first sight.\<close>

lemma sync_pre_cases:
  assumes "sync_pre sha256 identities caller seeds es pre = Some es'"
  obtains (known) pos where "es_post_states es (account_id pre) = Some (account pre)"
      "position (\<lambda>a. account_id a = account_id pre) (es_pre_states es) = Some pos"
      "assert_authorization_and_record_bindings sha256 es caller seeds (account_id pre) pos (is_authorized pre) = Some es'"
  | (witness) ext es1 es2 where "es_post_states es (account_id pre) = None"
      "external_seed sha256 identities (length (es_pre_states es)) (account_id pre) = Some ext"
      "bind_external_seed es (length (es_pre_states es)) (account_id pre) ext = Some es1"
      "assert_authorization_and_record_bindings sha256 es1 caller seeds (account_id pre)
        (length (es_pre_states es)) (is_authorized pre) = Some es2"
      "es' = es2\<lparr>es_pre_states := es_pre_states es2 @ [pre]\<rparr>"
  | (first_sight) ext es1 es2 masked where "es_post_states es (account_id pre) = None"
      "external_seed sha256 identities (length (es_pre_states es)) (account_id pre) = Some ext"
      "bind_external_seed es (length (es_pre_states es)) (account_id pre) ext = Some es1"
      "es_pda_by_position es (length (es_pre_states es)) = None"
      "authorize_first_sight_without_pda_witness sha256 es1 caller seeds (account_id pre)
        (is_authorized pre) = Some (es2, masked)"
      "es' = es2\<lparr>es_pre_states := es_pre_states es2 @ [if masked then pre\<lparr>is_authorized := False\<rparr> else pre]\<rparr>"
proof (cases "es_post_states es (account_id pre)")
  case (Some a)
  then show thesis using assms known by (auto simp: sync_pre_def Let_def panic_simps)
next
  case None
  let ?pos = "length (es_pre_states es)"
  obtain ext es1 where es1: "external_seed sha256 identities ?pos (account_id pre) = Some ext"
      "bind_external_seed es ?pos (account_id pre) ext = Some es1"
    using assms None by (auto simp: sync_pre_def Let_def bind_eq_Some_conv)
  then have "es_pda_by_position es1 = es_pda_by_position es"
    by (auto dest!: bind_external_seed_frame simp: same_accounts_def)
  then show thesis
    using assms None es1 witness [OF None es1] first_sight [OF None es1]
    by (cases "es_pda_by_position es1 ?pos") (auto simp: sync_pre_def Let_def bind_eq_Some_conv)
qed

lemma sync_pre_frame:
  assumes "sync_pre sha256 identities caller seeds es pre = Some es'"
  shows "es_post_states es' = es_post_states es \<and> es_pda_by_position es' = es_pda_by_position es \<and>
    es_block_window es' = es_block_window es \<and> es_timestamp_window es' = es_timestamp_window es \<and>
    (es_post_states es (account_id pre) = Some (account pre) \<and> es_pre_states es' = es_pre_states es \<or>
     es_post_states es (account_id pre) = None \<and>
       (\<exists>pre'. account_id pre' = account_id pre \<and> account pre' = account pre \<and>
         es_pre_states es' = es_pre_states es @ [pre']))"
  using assms
proof (cases rule: sync_pre_cases)
  case (known pos)
  then show ?thesis using record_bindings_frame [OF known(3)] by (simp add: same_accounts_def)
next
  case (witness ext es1 es2)
  then show ?thesis
    using bind_external_seed_frame [OF witness(3)] record_bindings_frame [OF witness(4)]
    by (simp add: same_accounts_def)
next
  case (first_sight ext es1 es2 masked)
  then show ?thesis
    using bind_external_seed_frame [OF first_sight(3)] first_sight_frame [OF first_sight(5)]
    by (simp add: same_accounts_def)
qed

lemma sync_claim_frame:
  "sync_claim sha256 identities p es pre post = Some (es', a) \<Longrightarrow>
    same_accounts es es' \<and> es_globally_authorized es' = es_globally_authorized es \<and>
    balance a = balance (post_account post)"
  by (auto simp: sync_claim_def panic_simps split: option.splits claim.splits if_splits)

subsection \<open>Invariants of the chain of outputs\<close>

definition output_accepted ::
  "guest_env \<Rightarrow> input_account_identity list \<Rightarrow> execution_state \<Rightarrow> chained_call \<Rightarrow> caller_data
    \<Rightarrow> program_output \<Rightarrow> execution_state \<Rightarrow> account_id set \<Rightarrow> bool" where
  "output_accepted G identities es call caller out es' authorized \<longleftrightarrow>
    env_verify G (call_program_id call) out \<and>
    validate_execution (pre_states out) (post_states out) (call_program_id call) = Inr () \<and>
    validate_and_sync_states (env_sha256 G) identities es (call_program_id call) caller
      (call_pda_seeds call) (pre_states out) (post_states out) = Some (es', authorized)"

definition pushed_calls :: "chained_call \<Rightarrow> account_id set \<Rightarrow> program_output \<Rightarrow> (chained_call \<times> caller_data) list" where
  "pushed_calls call authorized out =
    map (\<lambda>c. (c, \<lparr>caller_program = Some (call_program_id call), authorized_accounts = authorized\<rparr>))
      (chained_calls out)"

text \<open>A property of the state, the queue and the outputs consumed so far that every call keeps.\<close>

locale output_chain =
  fixes G :: guest_env and identities :: "input_account_identity list"
    and inv :: "execution_state \<Rightarrow> (chained_call \<times> caller_data) list \<Rightarrow> program_output list \<Rightarrow> bool"
  assumes call_inv: "inv es ((call, caller) # queue) outs \<Longrightarrow>
    output_accepted G identities es call caller out es' authorized \<Longrightarrow>
    inv es' (pushed_calls call authorized out @ queue) (outs @ [out])"
begin

lemma run_inv:
  assumes "run_outputs G identities es queue n outs = Some es'" and "inv es queue seen"
  shows "inv es' [] (seen @ outs)"
  using assms
proof (induction outs arbitrary: es queue n seen)
  case Nil
  then show ?case by (cases queue) auto
next
  case (Cons out outs)
  then obtain call caller rest where queue: "queue = (call, caller) # rest"
    by (cases queue) auto
  obtain es1 authorized where acc: "output_accepted G identities es call caller out es1 authorized"
      and run: "run_outputs G identities es1 (pushed_calls call authorized out @ rest) (n + 1) outs = Some es'"
    using Cons.prems(1) by (auto simp: queue panic_simps output_accepted_def pushed_calls_def)
  from Cons.IH [OF run call_inv [OF _ acc]] Cons.prems(2) show ?case by (simp add: queue)
qed

end

subsection \<open>Conservation of balances\<close>

lemma total_balance_upd:
  assumes "finite (dom m)"
  shows "total_balance (m(i \<mapsto> a)) + unat (balance (account_or_default m i))
    = total_balance m + unat (balance a)"
proof -
  let ?A = "insert i (dom m)"
  have "total_balance (m(i \<mapsto> a)) = (\<Sum>j \<in> ?A. unat (balance (account_or_default (m(i \<mapsto> a)) j)))"
    using assms by (intro total_balance_superset) auto
  also have "\<dots> = unat (balance a) + (\<Sum>j \<in> dom m - {i}. unat (balance (account_or_default (m(i \<mapsto> a)) j)))"
    using assms by (subst sum.insert_remove) (simp_all add: account_or_default_def)
  also have "(\<Sum>j \<in> dom m - {i}. unat (balance (account_or_default (m(i \<mapsto> a)) j)))
      = (\<Sum>j \<in> dom m - {i}. unat (balance (account_or_default m j)))"
    by (intro sum.cong) (auto simp: account_or_default_def)
  finally have new: "total_balance (m(i \<mapsto> a))
      = unat (balance a) + (\<Sum>j \<in> dom m - {i}. unat (balance (account_or_default m j)))" .
  have "total_balance m = (\<Sum>j \<in> ?A. unat (balance (account_or_default m j)))"
    using assms by (intro total_balance_superset) auto
  also have "\<dots> = unat (balance (account_or_default m i)) + (\<Sum>j \<in> dom m - {i}. unat (balance (account_or_default m j)))"
    using assms by (subst sum.insert_remove) simp_all
  finally show ?thesis using new by simp
qed

definition accounts_inv :: "execution_state \<Rightarrow> bool" where
  "accounts_inv es \<longleftrightarrow> distinct (map account_id (es_pre_states es)) \<and>
    dom (es_post_states es) = account_id ` set (es_pre_states es)"

definition pre_total :: "execution_state \<Rightarrow> nat" where
  "pre_total es = (\<Sum>a\<leftarrow>es_pre_states es. unat (balance (account a)))"

definition post_total :: "execution_state \<Rightarrow> nat" where
  "post_total es = total_balance (es_post_states es)"

lemma sync_account_inv:
  assumes "sync_account sha256 identities p caller seeds es pre post = Some es'" and "accounts_inv es"
  shows "accounts_inv es' \<and>
    post_total es' + pre_total es + unat (balance (account pre))
      = post_total es + pre_total es' + unat (balance (post_account post))"
proof -
  obtain es1 es2 a where steps: "sync_pre sha256 identities caller seeds es pre = Some es1"
      "sync_claim sha256 identities p es1 pre post = Some (es2, a)"
      and es': "es' = es2\<lparr>es_post_states := (es_post_states es2)(account_id pre \<mapsto> a)\<rparr>"
    using assms(1) by (auto simp: sync_account_def bind_eq_Some_conv)
  note frame = sync_pre_frame [OF steps(1)] sync_claim_frame [OF steps(2)]
  have post: "es_post_states es' = (es_post_states es)(account_id pre \<mapsto> a)"
      "es_pre_states es' = es_pre_states es1" "balance a = balance (post_account post)"
    using frame es' by (simp_all add: same_accounts_def)
  have fin: "finite (dom (es_post_states es))" using assms(2) by (simp add: accounts_inv_def)
  have total: "post_total es' + unat (balance (account_or_default (es_post_states es) (account_id pre)))
      = post_total es + unat (balance (post_account post))"
    using total_balance_upd [OF fin, of "account_id pre" a] post by (simp add: post_total_def)
  show ?thesis
  proof (cases "es_post_states es (account_id pre)")
    case None
    then obtain pre' where "account_id pre' = account_id pre" "account pre' = account pre"
        "es_pre_states es1 = es_pre_states es @ [pre']"
      using frame(1) by auto
    moreover have "account_id pre \<notin> account_id ` set (es_pre_states es)"
      using None assms(2) by (auto simp: accounts_inv_def)
    moreover have "unat (balance (account_or_default (es_post_states es) (account_id pre))) = 0"
      using None by (simp add: account_or_default_def default_account_def)
    ultimately show ?thesis using assms(2) total post by (auto simp: accounts_inv_def pre_total_def)
  next
    case (Some known)
    then have "account pre = known" "es_pre_states es1 = es_pre_states es" using frame(1) by auto
    moreover have "account_id pre \<in> account_id ` set (es_pre_states es)"
      using Some assms(2) by (auto simp: accounts_inv_def)
    ultimately show ?thesis
      using assms(2) total post Some by (auto simp: accounts_inv_def pre_total_def account_or_default_def)
  qed
qed

lemma sync_accounts_inv:
  "sync_accounts sha256 identities p caller seeds es xs = Some es' \<Longrightarrow> accounts_inv es \<Longrightarrow>
    accounts_inv es' \<and>
    post_total es' + pre_total es + (\<Sum>(pre, post)\<leftarrow>xs. unat (balance (account pre)))
      = post_total es + pre_total es' + (\<Sum>(pre, post)\<leftarrow>xs. unat (balance (post_account post)))"
proof (induction xs arbitrary: es)
  case (Cons x xs)
  obtain pre post where x: "x = (pre, post)" by (cases x)
  obtain es1 where es1: "sync_account sha256 identities p caller seeds es pre post = Some es1"
      "sync_accounts sha256 identities p caller seeds es1 xs = Some es'"
    using Cons.prems(1) by (auto simp: x bind_eq_Some_conv)
  from sync_account_inv [OF es1(1) Cons.prems(2)] Cons.IH [OF es1(2)] show ?case by (simp add: x)
qed simp

lemma zip_sums:
  assumes "list_all2 P pres posts"
  shows "(\<Sum>(pre, post)\<leftarrow>zip pres posts. f pre) = sum_list (map f pres)"
    and "(\<Sum>(pre, post)\<leftarrow>zip pres posts. g post) = sum_list (map g posts)"
  using assms by (induction rule: list_all2_induct) simp_all

lemma output_accepted_balanced:
  assumes "output_accepted G identities es call caller out es' authorized" and "accounts_inv es"
    and "post_total es = pre_total es"
  shows "accounts_inv es' \<and> post_total es' = pre_total es'"
proof -
  have all: "list_all2 (well_behaved (call_program_id call)) (pre_states out) (post_states out)"
      "(\<Sum>a\<leftarrow>pre_states out. unat (balance (account a))) = (\<Sum>b\<leftarrow>post_states out. unat (balance (post_account b)))"
    using assms(1) by (simp_all add: output_accepted_def validate_execution_Inr)
  show ?thesis
    using sync_accounts_inv [of "env_sha256 G" identities "call_program_id call" caller "call_pda_seeds call" es
        "zip (pre_states out) (post_states out)" es'] assms all(2)
    by (auto simp: output_accepted_def validate_and_sync_states_def bind_eq_Some_conv zip_sums [OF all(1)])
qed

interpretation balance_chain: output_chain G identities
    "\<lambda>es queue outs. accounts_inv es \<and> post_total es = pre_total es" for G identities
  by unfold_locales (use output_accepted_balanced in blast)

subsection \<open>Bindings of private derived accounts\<close>

text \<open>
  Every bound position carries a private witness whose keys derive the account at that
  position from the recorded program and seed, and the program and seed resolve to that
  account. The account ids are a parameter, because a position is bound just before its
  account is recorded.
\<close>

definition bound_inv :: "hasher \<Rightarrow> account_id list \<Rightarrow> execution_state \<Rightarrow> bool" where
  "bound_inv sha256 ids es \<longleftrightarrow> (\<forall>pos p seed. es_bound_positions es pos = Some (p, seed) \<longrightarrow>
    pos < length ids \<and> es_family_binding es (p, seed) = Some (ids ! pos) \<and>
    (\<exists>npk vpk idf. es_pda_by_position es pos = Some (npk, vpk, idf) \<and>
      for_private_pda sha256 p seed npk vpk idf = Some (ids ! pos)))"

lemma bound_inv_append: "bound_inv sha256 ids es \<Longrightarrow> bound_inv sha256 (ids @ [i]) es"
  by (fastforce simp: bound_inv_def nth_append)

lemma bound_inv_cong:
  "es_bound_positions es' = es_bound_positions es \<Longrightarrow> es_family_binding es' = es_family_binding es \<Longrightarrow>
    es_pda_by_position es' = es_pda_by_position es \<Longrightarrow> bound_inv sha256 ids es' = bound_inv sha256 ids es"
  by (simp add: bound_inv_def)

lemma bound_inv_family:
  assumes "bound_inv sha256 ids es" and "assert_family_binding (es_family_binding es) p seed i = Some fam"
    and "es_bound_positions es' = es_bound_positions es" "es_family_binding es' = fam"
      "es_pda_by_position es' = es_pda_by_position es"
  shows "bound_inv sha256 ids es'"
proof -
  have "es_family_binding es \<subseteq>\<^sub>m fam" using assert_family_binding_Some [OF assms(2)] by simp
  then have "es_family_binding es k = Some v \<Longrightarrow> fam k = Some v" for k v
    by (metis map_le_def domI)
  then show ?thesis using assms(1) by (simp add: bound_inv_def assms(3-5))
qed

lemma bound_inv_bind:
  assumes "bound_inv sha256 ids es" and "assert_family_binding (es_family_binding es) p seed i = Some fam"
    and "bind_private_pda_position (es_bound_positions es) pos p seed = Some bound"
    and "pos < length ids" "ids ! pos = i" "es_pda_by_position es pos = Some (npk, vpk, idf)"
      "for_private_pda sha256 p seed npk vpk idf = Some i"
    and "es_bound_positions es' = bound" "es_family_binding es' = fam"
      "es_pda_by_position es' = es_pda_by_position es"
  shows "bound_inv sha256 ids es'"
proof -
  have "bound_inv sha256 ids (es\<lparr>es_family_binding := fam\<rparr>)"
    using assms(1,2) by (rule bound_inv_family) simp_all
  moreover have "fam (p, seed) = Some i" using assert_family_binding_Some [OF assms(2)] by simp
  ultimately show ?thesis
    using assms(4-10) bind_private_pda_position_Some [OF assms(3)] by (auto simp: bound_inv_def)
qed

lemma find_private_seed_Some:
  "find_private_seed sha256 p npk vpk idf i seeds = Some (Some (seed, q)) \<Longrightarrow>
    q = p \<and> for_private_pda sha256 p seed npk vpk idf = Some i"
  by (induction seeds) (auto simp: bind_eq_Some_conv split: if_splits)

lemma match_private_Some:
  "match_caller_seed_as_private_pda sha256 by_position caller seeds i pos = Some (Some (seed, p)) \<Longrightarrow>
    caller_program caller = Some p \<and> (\<exists>npk vpk idf. by_position pos = Some (npk, vpk, idf) \<and>
      for_private_pda sha256 p seed npk vpk idf = Some i)"
  by (auto simp: match_caller_seed_as_private_pda_def split: option.splits dest!: find_private_seed_Some)

lemma match_public_Some:
  "match_caller_seed_as_public_pda sha256 caller seeds i = Some (seed, p) \<Longrightarrow>
    caller_program caller = Some p \<and> i = for_public_pda sha256 p seed"
  by (auto simp: match_caller_seed_as_public_pda_def bind_eq_Some_conv find_Some_iff)

text \<open>What matching a caller's seeds leaves behind.\<close>

lemma record_bindings_cases:
  assumes "assert_authorization_and_record_bindings sha256 es caller seeds i pos auth = Some es'"
  obtains (unmatched) "es' = es" "auth \<longleftrightarrow> i \<in> es_globally_authorized es \<or> i \<in> authorized_accounts caller"
  | (public_pda) p seed fam where auth "caller_program caller = Some p" "i = for_public_pda sha256 p seed"
      "assert_family_binding (es_family_binding es) p seed i = Some fam"
      "es' = es\<lparr>es_family_binding := fam\<rparr>"
  | (private_pda) p seed fam bound npk vpk idf where auth "caller_program caller = Some p"
      "es_pda_by_position es pos = Some (npk, vpk, idf)"
      "for_private_pda sha256 p seed npk vpk idf = Some i"
      "assert_family_binding (es_family_binding es) p seed i = Some fam"
      "bind_private_pda_position (es_bound_positions es) pos p seed = Some bound"
      "es' = es\<lparr>es_family_binding := fam, es_bound_positions := bound\<rparr>"
proof (cases "match_caller_seed_as_public_pda sha256 caller seeds i")
  case (Some m)
  obtain seed p where m: "m = (seed, p)" by (cases m)
  obtain fam where "assert_family_binding (es_family_binding es) p seed i = Some fam" auth
      "es' = es\<lparr>es_family_binding := fam, es_bound_positions := es_bound_positions es\<rparr>"
    using assms Some m by (auto simp: assert_authorization_and_record_bindings_def panic_simps)
  then show thesis using match_public_Some [OF Some [unfolded m]] public_pda by simp
next
  case None
  obtain m where "match_caller_seed_as_private_pda sha256 (es_pda_by_position es) caller seeds i pos = Some m"
    using assms None by (auto simp: assert_authorization_and_record_bindings_def bind_eq_Some_conv)
  note m = this
  show thesis
  proof (cases m)
    case None': None
    from assms None m None' have "es' = es"
        "auth \<longleftrightarrow> i \<in> es_globally_authorized es \<or> i \<in> authorized_accounts caller"
      by (auto simp: assert_authorization_and_record_bindings_def panic_simps)
    then show thesis by (rule unmatched)
  next
    case (Some x)
    obtain seed p where x: "x = (seed, p)" by (cases x)
    obtain fam bound where "assert_family_binding (es_family_binding es) p seed i = Some fam"
        "bind_private_pda_position (es_bound_positions es) pos p seed = Some bound" auth
        "es' = es\<lparr>es_family_binding := fam, es_bound_positions := bound\<rparr>"
      using assms None m Some x by (auto simp: assert_authorization_and_record_bindings_def panic_simps)
    moreover obtain npk vpk idf where "caller_program caller = Some p"
        "es_pda_by_position es pos = Some (npk, vpk, idf)"
        "for_private_pda sha256 p seed npk vpk idf = Some i"
      using match_private_Some [OF m [unfolded Some x]] by blast
    ultimately show thesis using private_pda by blast
  qed
qed

lemma record_bindings_bound:
  assumes "assert_authorization_and_record_bindings sha256 es caller seeds i pos auth = Some es'"
    and "bound_inv sha256 ids es" "pos < length ids" "ids ! pos = i"
  shows "bound_inv sha256 ids es'"
  using assms(1)
proof (cases rule: record_bindings_cases)
  case unmatched
  with assms(2) show ?thesis by simp
next
  case (public_pda p seed fam)
  show ?thesis by (rule bound_inv_family [OF assms(2) public_pda(4)]) (simp_all add: public_pda)
next
  case (private_pda p seed fam bound npk vpk idf)
  show ?thesis
    by (rule bound_inv_bind [OF assms(2) private_pda(5,6) assms(3,4) private_pda(3,4)])
      (simp_all add: private_pda)
qed

lemma first_sight_cases:
  assumes "authorize_first_sight_without_pda_witness sha256 es caller seeds i auth = Some (es', masked)"
  obtains (public_pda) p seed fam where masked auth "caller_program caller = Some p"
      "i = for_public_pda sha256 p seed" "assert_family_binding (es_family_binding es) p seed i = Some fam"
      "es' = es\<lparr>es_family_binding := fam\<rparr>"
  | (regular) "\<not> masked"
      "es' = (if auth then es\<lparr>es_globally_authorized := insert i (es_globally_authorized es)\<rparr> else es)"
proof (cases "match_caller_seed_as_public_pda sha256 caller seeds i")
  case None
  with assms regular show thesis by (simp add: authorize_first_sight_without_pda_witness_def)
next
  case (Some m)
  obtain seed p where m: "m = (seed, p)" by (cases m)
  from assms Some show thesis
    using match_public_Some [OF Some [unfolded m]] public_pda
    by (auto simp: authorize_first_sight_without_pda_witness_def panic_simps m)
qed

lemma first_sight_bound:
  assumes "authorize_first_sight_without_pda_witness sha256 es caller seeds i auth = Some (es', masked)"
    and "bound_inv sha256 ids es"
  shows "bound_inv sha256 ids es'"
  using assms(1)
proof (cases rule: first_sight_cases)
  case (public_pda p seed fam)
  show ?thesis by (rule bound_inv_family [OF assms(2) public_pda(5)]) (simp_all add: public_pda)
next
  case regular
  with assms(2) show ?thesis by (simp add: bound_inv_def)
qed

lemma bind_external_seed_bound:
  assumes "external_seed sha256 identities pos i = Some ext" "bind_external_seed es pos i ext = Some es'"
    and "es_pda_by_position es = pda_positions sha256 identities"
    and "bound_inv sha256 ids es" "pos < length ids" "ids ! pos = i"
  shows "bound_inv sha256 ids es'"
proof (cases ext)
  case None
  with assms show ?thesis by (simp add: bind_external_seed_def)
next
  case (Some x)
  obtain p seed where x: "x = (p, seed)" by (cases x)
  obtain w where w: "list_get identities pos = Some (PrivateIdentity w)" "wit_kind w = PdaWitness (Some (p, seed))"
      "for_private_pda sha256 p seed (witness_npk sha256 (wit_nullifier w)) (wit_vpk w) (wit_identifier w) = Some i"
    using assms(1) Some x
    by (auto simp: external_seed_def panic_simps split: option.splits input_account_identity.splits
        witness_kind.splits)
  then have pda: "es_pda_by_position es pos
      = Some (witness_npk sha256 (wit_nullifier w), wit_vpk w, wit_identifier w)"
    using assms(3) by (simp add: pda_positions_def npk_vpk_if_private_pda_def)
  obtain bound fam where es': "bind_private_pda_position (es_bound_positions es) pos p seed = Some bound"
      "assert_family_binding (es_family_binding es) p seed i = Some fam"
      "es' = es\<lparr>es_bound_positions := bound, es_family_binding := fam\<rparr>"
    using assms(2) Some x by (auto simp: bind_external_seed_def bind_eq_Some_conv)
  show ?thesis
    by (rule bound_inv_bind [OF assms(4) es'(2,1) assms(5,6) pda w(3)]) (simp_all add: es')
qed

definition binding_inv :: "hasher \<Rightarrow> input_account_identity list \<Rightarrow> execution_state \<Rightarrow> bool" where
  "binding_inv sha256 identities es \<longleftrightarrow> accounts_inv es \<and>
    es_pda_by_position es = pda_positions sha256 identities \<and>
    bound_inv sha256 (map account_id (es_pre_states es)) es"

lemma sync_pre_bound:
  assumes "sync_pre sha256 identities caller seeds es pre = Some es'"
    and "es_pda_by_position es = pda_positions sha256 identities"
    and "bound_inv sha256 (map account_id (es_pre_states es)) es"
  shows "bound_inv sha256 (map account_id (es_pre_states es')) es'"
  using assms(1)
proof (cases rule: sync_pre_cases)
  case (known pos)
  have "pos < length (es_pre_states es)" "account_id (es_pre_states es ! pos) = account_id pre"
    using position_Some [OF known(2)] by simp_all
  with record_bindings_bound [OF known(3) assms(3)] record_bindings_frame [OF known(3)]
  show ?thesis by (simp add: same_accounts_def)
next
  case (witness ext es1 es2)
  let ?ids = "map account_id (es_pre_states es) @ [account_id pre]"
  have "bound_inv sha256 ?ids es1"
    by (rule bind_external_seed_bound [OF witness(2,3) assms(2) bound_inv_append [OF assms(3)]])
      (simp_all add: nth_append)
  then have "bound_inv sha256 ?ids es2"
    by (rule record_bindings_bound [OF witness(4)]) (simp_all add: nth_append)
  then show ?thesis
    using bind_external_seed_frame [OF witness(3)] record_bindings_frame [OF witness(4)] witness(5)
    by (simp add: same_accounts_def bound_inv_def)
next
  case (first_sight ext es1 es2 masked)
  let ?ids = "map account_id (es_pre_states es) @ [account_id pre]"
  have es1: "bound_inv sha256 ?ids es1"
    by (rule bind_external_seed_bound [OF first_sight(2,3) assms(2) bound_inv_append [OF assms(3)]])
      (simp_all add: nth_append)
  have "bound_inv sha256 ?ids es2" using first_sight(5) es1 by (rule first_sight_bound)
  then show ?thesis
    using bind_external_seed_frame [OF first_sight(3)] first_sight_frame [OF first_sight(5)] first_sight(6)
    by (simp add: same_accounts_def bound_inv_def)
qed

lemma sync_claim_bound:
  assumes "sync_claim sha256 identities p es pre post = Some (es', a)"
    and "bound_inv sha256 (map account_id (es_pre_states es)) es"
  shows "bound_inv sha256 (map account_id (es_pre_states es')) es'"
proof (cases "post_claim post")
  case None
  with assms show ?thesis by (simp add: sync_claim_def)
next
  case (Some c)
  obtain pos identity where pos: "position (\<lambda>a. account_id a = account_id pre) (es_pre_states es) = Some pos"
      "list_get identities pos = Some identity"
    using assms(1) Some by (auto simp: sync_claim_def bind_eq_Some_conv)
  note at = position_Some [OF pos(1)]
  show ?thesis
  proof (cases c)
    case ClaimAuthorized
    then have "es' = es" using assms(1) Some pos by (auto simp: sync_claim_def panic_simps split: if_splits)
    with assms(2) show ?thesis by simp
  next
    case (ClaimPda seed)
    note facts = assms(1) Some pos ClaimPda
    show ?thesis
    proof (cases "is_public identity")
      case True
      then obtain fam where fam: "assert_family_binding (es_family_binding es) p seed (account_id pre) = Some fam"
          "es' = es\<lparr>es_family_binding := fam\<rparr>"
        using facts by (auto simp: sync_claim_def panic_simps)
      show ?thesis using bound_inv_family [OF assms(2) fam(1)] by (simp add: fam(2))
    next
      case False
      then obtain npk vpk idf bound fam where
          b: "es_pda_by_position es pos = Some (npk, vpk, idf)"
          "for_private_pda sha256 p seed npk vpk idf = Some (account_id pre)"
          "bind_private_pda_position (es_bound_positions es) pos p seed = Some bound"
          "assert_family_binding (es_family_binding es) p seed (account_id pre) = Some fam"
          "es' = es\<lparr>es_bound_positions := bound, es_family_binding := fam\<rparr>"
        using facts by (auto simp: sync_claim_def panic_simps)
      show ?thesis
        using bound_inv_bind [OF assms(2) b(4,3) _ _ b(1,2)] at by (simp add: b(5))
    qed
  qed
qed

lemma sync_account_binding:
  assumes "sync_account sha256 identities p caller seeds es pre post = Some es'"
    and "binding_inv sha256 identities es"
  shows "binding_inv sha256 identities es'"
proof -
  obtain es1 es2 a where steps: "sync_pre sha256 identities caller seeds es pre = Some es1"
      "sync_claim sha256 identities p es1 pre post = Some (es2, a)"
      and es': "es' = es2\<lparr>es_post_states := (es_post_states es2)(account_id pre \<mapsto> a)\<rparr>"
    using assms(1) by (auto simp: sync_account_def bind_eq_Some_conv)
  have "bound_inv sha256 (map account_id (es_pre_states es2)) es2"
    using sync_claim_bound [OF steps(2) sync_pre_bound [OF steps(1)]] assms(2)
    by (simp add: binding_inv_def)
  moreover have "accounts_inv es'" using sync_account_inv [OF assms(1)] assms(2) by (simp add: binding_inv_def)
  moreover have "es_pda_by_position es' = pda_positions sha256 identities"
    using assms(2) sync_pre_frame [OF steps(1)] sync_claim_frame [OF steps(2)] es'
    by (simp add: binding_inv_def same_accounts_def)
  ultimately show ?thesis
    using bound_inv_cong [of es' es2] es' by (simp add: binding_inv_def)
qed

lemma sync_accounts_binding:
  "sync_accounts sha256 identities p caller seeds es xs = Some es' \<Longrightarrow> binding_inv sha256 identities es \<Longrightarrow>
    binding_inv sha256 identities es'"
  by (induction sha256 identities p caller seeds es xs rule: sync_accounts.induct)
    (auto simp: bind_eq_Some_conv intro: sync_account_binding)

interpretation binding_chain: output_chain G identities
    "\<lambda>es queue outs. binding_inv (env_sha256 G) identities es" for G identities
  by unfold_locales (auto simp: output_accepted_def validate_and_sync_states_def bind_eq_Some_conv
      intro: sync_accounts_binding)

subsection \<open>Authorization\<close>

text \<open>
  An authorized account is backed when it is flagged in the journal at a position without
  a private derived witness, or when a program with a verified output derives it.
\<close>

definition flagged :: "execution_state \<Rightarrow> account_id \<Rightarrow> bool" where
  "flagged es i \<longleftrightarrow> (\<exists>pos < length (es_pre_states es). account_id (es_pre_states es ! pos) = i \<and>
    is_authorized (es_pre_states es ! pos) \<and> es_pda_by_position es pos = None)"

definition derived_account :: "guest_env \<Rightarrow> account_id \<Rightarrow> bool" where
  "derived_account G i \<longleftrightarrow> (\<exists>p out seed. env_verify G p out \<and>
    (i = for_public_pda (env_sha256 G) p seed \<or>
     (\<exists>npk vpk idf. for_private_pda (env_sha256 G) p seed npk vpk idf = Some i)))"

definition backed :: "guest_env \<Rightarrow> execution_state \<Rightarrow> account_id \<Rightarrow> bool" where
  "backed G es i \<longleftrightarrow> flagged es i \<or> derived_account G i"

definition extends :: "execution_state \<Rightarrow> execution_state \<Rightarrow> bool" where
  "extends es es' \<longleftrightarrow> (\<exists>xs. es_pre_states es' = es_pre_states es @ xs) \<and>
    es_pda_by_position es' = es_pda_by_position es"

definition global_ok :: "execution_state \<Rightarrow> bool" where
  "global_ok es \<longleftrightarrow> (\<forall>i \<in> es_globally_authorized es. flagged es i)"

definition caller_ok :: "guest_env \<Rightarrow> execution_state \<Rightarrow> caller_data \<Rightarrow> bool" where
  "caller_ok G es caller \<longleftrightarrow> (\<forall>i \<in> authorized_accounts caller. backed G es i) \<and>
    (\<forall>p. caller_program caller = Some p \<longrightarrow> (\<exists>out. env_verify G p out))"

lemma flagged_extends: "flagged es i \<Longrightarrow> extends es es' \<Longrightarrow> flagged es' i"
  unfolding flagged_def extends_def by (elim exE conjE) (rule_tac x = pos in exI, simp add: nth_append)

lemma backed_extends: "backed G es i \<Longrightarrow> extends es es' \<Longrightarrow> backed G es' i"
  using flagged_extends by (auto simp: backed_def)

lemma caller_ok_extends: "caller_ok G es caller \<Longrightarrow> extends es es' \<Longrightarrow> caller_ok G es' caller"
  using backed_extends by (auto simp: caller_ok_def)

lemma extends_trans [trans]: "extends es es' \<Longrightarrow> extends es' es'' \<Longrightarrow> extends es es''"
  by (auto simp: extends_def)

lemma global_ok_extends:
  "global_ok es \<Longrightarrow> extends es es' \<Longrightarrow> es_globally_authorized es' = es_globally_authorized es \<Longrightarrow> global_ok es'"
  using flagged_extends by (auto simp: global_ok_def)

lemma same_accounts_extends: "same_accounts es es' \<Longrightarrow> extends es es'"
  by (simp add: same_accounts_def extends_def)

lemma derived_public:
  "caller_ok G es caller \<Longrightarrow> caller_program caller = Some p \<Longrightarrow>
    derived_account G (for_public_pda (env_sha256 G) p seed)"
  by (auto simp: caller_ok_def derived_account_def)

lemma derived_private:
  assumes "caller_ok G es caller" "caller_program caller = Some p"
    and "for_private_pda (env_sha256 G) p seed npk vpk idf = Some i"
  shows "derived_account G i"
proof -
  obtain out where "env_verify G p out" using assms(1,2) by (auto simp: caller_ok_def)
  with assms(3) show ?thesis unfolding derived_account_def by blast
qed

lemma record_bindings_backed:
  assumes "assert_authorization_and_record_bindings (env_sha256 G) es caller seeds i pos auth = Some es'"
    and "global_ok es" "caller_ok G es caller" auth
  shows "backed G es i"
  using assms(1)
proof (cases rule: record_bindings_cases)
  case unmatched
  with assms(2-4) show ?thesis by (auto simp: global_ok_def caller_ok_def backed_def)
next
  case (public_pda p seed fam)
  with derived_public [OF assms(3) public_pda(2)] show ?thesis by (simp add: backed_def)
next
  case (private_pda p seed fam bound npk vpk idf)
  with derived_private [OF assms(3) private_pda(2)] show ?thesis by (simp add: backed_def)
qed

lemma sync_pre_backed:
  assumes "sync_pre (env_sha256 G) identities caller seeds es pre = Some es'"
    and "global_ok es" "caller_ok G es caller"
  shows "extends es es' \<and> global_ok es' \<and> (is_authorized pre \<longrightarrow> backed G es' (account_id pre))"
  using assms(1)
proof (cases rule: sync_pre_cases)
  case (known pos)
  from record_bindings_frame [OF known(3)] have ext: "extends es es'"
      and glob: "es_globally_authorized es' = es_globally_authorized es"
    by (simp_all add: same_accounts_extends)
  with record_bindings_backed [OF known(3) assms(2,3)] global_ok_extends [OF assms(2) ext glob]
  show ?thesis using backed_extends by blast
next
  case (witness ext es1 es2)
  have es1: "extends es es1" "es_globally_authorized es1 = es_globally_authorized es"
    using bind_external_seed_frame [OF witness(3)] by (simp_all add: same_accounts_extends)
  have es2: "extends es1 es2" "es_globally_authorized es2 = es_globally_authorized es1"
    using record_bindings_frame [OF witness(4)] by (simp_all add: same_accounts_extends)
  have "extends es2 es'" "es_globally_authorized es' = es_globally_authorized es2"
    by (simp_all add: witness(5) extends_def)
  with es1 es2 have ext: "extends es es'" "es_globally_authorized es' = es_globally_authorized es"
      and from1: "extends es1 es'"
    by (auto intro: extends_trans)
  have "is_authorized pre \<Longrightarrow> backed G es1 (account_id pre)"
    using record_bindings_backed [OF witness(4) global_ok_extends [OF assms(2) es1] caller_ok_extends [OF assms(3) es1(1)]]
    by simp
  with ext from1 global_ok_extends [OF assms(2) ext] show ?thesis using backed_extends by blast
next
  case (first_sight ext es1 es2 masked)
  have es1: "extends es es1" "es_globally_authorized es1 = es_globally_authorized es"
      "es_pre_states es1 = es_pre_states es" "es_pda_by_position es1 = es_pda_by_position es"
    using bind_external_seed_frame [OF first_sight(3)]
    by (simp_all add: same_accounts_extends) (simp_all add: same_accounts_def)
  have es2: "es_pre_states es2 = es_pre_states es1" "es_pda_by_position es2 = es_pda_by_position es1"
    using first_sight_frame [OF first_sight(5)] by (simp_all add: same_accounts_def)
  then have ext: "extends es es'" using es1 by (simp add: first_sight(6) extends_def)
  show ?thesis using first_sight(5)
  proof (cases rule: first_sight_cases)
    case (public_pda p seed fam)
    then have "es_globally_authorized es' = es_globally_authorized es"
      by (simp add: first_sight(6) es1)
    with ext global_ok_extends [OF assms(2) ext] derived_public [OF assms(3) public_pda(3)] public_pda(4)
    show ?thesis by (simp add: backed_def)
  next
    case regular
    then have es': "es_pre_states es' = es_pre_states es @ [pre]"
        "es_pda_by_position es' = es_pda_by_position es"
        "es_globally_authorized es' = (if is_authorized pre then insert (account_id pre) (es_globally_authorized es)
           else es_globally_authorized es)"
      by (simp_all add: first_sight(6) es1 es2)
    have "is_authorized pre \<Longrightarrow> flagged es' (account_id pre)"
      using first_sight(4) unfolding flagged_def
      by (intro exI [of _ "length (es_pre_states es)"]) (simp add: es')
    then show ?thesis
      using ext assms(2) flagged_extends [OF _ ext] by (auto simp: global_ok_def backed_def es')
  qed
qed

lemma sync_account_backed:
  assumes "sync_account (env_sha256 G) identities p caller seeds es pre post = Some es'"
    and "global_ok es" "caller_ok G es caller"
  shows "extends es es' \<and> global_ok es' \<and> (is_authorized pre \<longrightarrow> backed G es' (account_id pre))"
proof -
  obtain es1 es2 a where steps: "sync_pre (env_sha256 G) identities caller seeds es pre = Some es1"
      "sync_claim (env_sha256 G) identities p es1 pre post = Some (es2, a)"
      and es': "es' = es2\<lparr>es_post_states := (es_post_states es2)(account_id pre \<mapsto> a)\<rparr>"
    using assms(1) by (auto simp: sync_account_def bind_eq_Some_conv)
  have "extends es1 es'" "es_globally_authorized es' = es_globally_authorized es1"
    using sync_claim_frame [OF steps(2)] es' by (simp_all add: same_accounts_def extends_def)
  with sync_pre_backed [OF steps(1) assms(2,3)] show ?thesis
    using global_ok_extends [of es1 es'] backed_extends [of G es1 _ es'] extends_trans [of es es1 es'] by blast
qed

lemma sync_accounts_backed:
  "sync_accounts (env_sha256 G) identities p caller seeds es xs = Some es' \<Longrightarrow> global_ok es \<Longrightarrow> caller_ok G es caller \<Longrightarrow>
    extends es es' \<and> global_ok es' \<and> (\<forall>(pre, post) \<in> set xs. is_authorized pre \<longrightarrow> backed G es' (account_id pre))"
proof (induction xs arbitrary: es)
  case Nil
  then show ?case by (simp add: extends_def)
next
  case (Cons x xs)
  obtain pre post where x: "x = (pre, post)" by (cases x)
  obtain es1 where es1: "sync_account (env_sha256 G) identities p caller seeds es pre post = Some es1"
      "sync_accounts (env_sha256 G) identities p caller seeds es1 xs = Some es'"
    using Cons.prems(1) by (auto simp: x bind_eq_Some_conv)
  note step = sync_account_backed [OF es1(1) Cons.prems(2,3)]
  have IH: "extends es1 es' \<and> global_ok es' \<and>
      (\<forall>(pre, post) \<in> set xs. is_authorized pre \<longrightarrow> backed G es' (account_id pre))"
    using Cons.IH [OF es1(2)] step caller_ok_extends [OF Cons.prems(3)] by blast
  with step show ?case
    using extends_trans [of es es1 es'] backed_extends [of G es1 _ es'] by (auto simp: x)
qed

definition authorization_inv ::
  "guest_env \<Rightarrow> execution_state \<Rightarrow> (chained_call \<times> caller_data) list \<Rightarrow> program_output list \<Rightarrow> bool" where
  "authorization_inv G es queue outs \<longleftrightarrow> global_ok es \<and> (\<forall>(call, caller) \<in> set queue. caller_ok G es caller) \<and>
    (\<forall>out \<in> set outs. \<forall>pre \<in> set (pre_states out). is_authorized pre \<longrightarrow> backed G es (account_id pre))"

lemma output_accepted_authorization:
  assumes "authorization_inv G es ((call, caller) # queue) outs"
    and acc: "output_accepted G identities es call caller out es' authorized"
  shows "authorization_inv G es' (pushed_calls call authorized out @ queue) (outs @ [out])"
proof -
  have inv: "global_ok es" "caller_ok G es caller" "\<forall>(call, caller) \<in> set queue. caller_ok G es caller"
      "\<forall>out \<in> set outs. \<forall>pre \<in> set (pre_states out). is_authorized pre \<longrightarrow> backed G es (account_id pre)"
    using assms(1) by (simp_all add: authorization_inv_def)
  have sync: "sync_accounts (env_sha256 G) identities (call_program_id call) caller (call_pda_seeds call) es
        (zip (pre_states out) (post_states out)) = Some es'"
      and auth: "authorized = authorized_accounts caller \<union> set (map account_id (filter is_authorized
        (map fst (zip (pre_states out) (post_states out)))))"
      and verified: "env_verify G (call_program_id call) out"
      and len: "length (pre_states out) = length (post_states out)"
    using acc by (auto simp: output_accepted_def validate_and_sync_states_def bind_eq_Some_conv
        validate_execution_Inr list_all2_lengthD)
  have step: "extends es es'" "global_ok es'"
      "\<forall>(pre, post) \<in> set (zip (pre_states out) (post_states out)). is_authorized pre \<longrightarrow> backed G es' (account_id pre)"
    using sync_accounts_backed [OF sync inv(1,2)] by auto
  have outs: "\<forall>pre \<in> set (pre_states out). is_authorized pre \<longrightarrow> backed G es' (account_id pre)"
    using step(3) in_set_impl_in_set_zip1 [OF len] by fastforce
  then have "caller_ok G es' \<lparr>caller_program = Some (call_program_id call), authorized_accounts = authorized\<rparr>"
    using caller_ok_extends [OF inv(2) step(1)] verified len by (auto simp: caller_ok_def auth)
  then show ?thesis
    using step inv(3,4) outs caller_ok_extends [OF _ step(1)] backed_extends [OF _ step(1)]
    by (auto simp: authorization_inv_def pushed_calls_def)
qed

interpretation authorization_chain: output_chain G identities "authorization_inv G" for G identities
  by unfold_locales (rule output_accepted_authorization)

lemma sync_account_windows:
  "sync_account sha256 identities p caller seeds es pre post = Some es' \<Longrightarrow>
    es_block_window es' = es_block_window es \<and> es_timestamp_window es' = es_timestamp_window es"
  by (auto simp: sync_account_def bind_eq_Some_conv same_accounts_def
      dest!: sync_pre_frame sync_claim_frame)

lemma sync_accounts_windows:
  "sync_accounts sha256 identities p caller seeds es xs = Some es' \<Longrightarrow>
    es_block_window es' = es_block_window es \<and> es_timestamp_window es' = es_timestamp_window es"
  by (induction sha256 identities p caller seeds es xs rule: sync_accounts.induct)
    (auto simp: bind_eq_Some_conv dest: sync_account_windows)

interpretation window_chain: output_chain G identities
    "\<lambda>es queue outs. es_block_window es = bw \<and> es_timestamp_window es = tw" for G identities bw tw
  by unfold_locales (auto simp: output_accepted_def validate_and_sync_states_def bind_eq_Some_conv
      dest: sync_accounts_windows)

subsection \<open>The derived state\<close>

lemma derive_from_outputs_run:
  assumes "derive_from_outputs G identities p outs = Some es"
  obtains es0 call where "run_outputs G identities es0 [(call, \<lparr>caller_program = None, authorized_accounts = {}\<rparr>)] 0 outs = Some es"
    and "es_pre_states es0 = []" "es_post_states es0 = Map.empty" "es_bound_positions es0 = Map.empty"
      "es_pda_by_position es0 = pda_positions (env_sha256 G) identities" "es_globally_authorized es0 = {}"
      "intersect_windows (map block_validity_window outs) = Some (es_block_window es0)"
      "intersect_windows (map timestamp_validity_window outs) = Some (es_timestamp_window es0)"
    and "\<forall>pos < length identities. is_private_pda (identities ! pos) \<longrightarrow> es_bound_positions es pos \<noteq> None"
proof -
  obtain bw tw where windows: "intersect_windows (map block_validity_window outs) = Some bw"
      "intersect_windows (map timestamp_validity_window outs) = Some tw"
    and run: "run_outputs G identities
      \<lparr>es_pre_states = [], es_post_states = Map.empty, es_block_window = bw, es_timestamp_window = tw,
       es_bound_positions = Map.empty, es_family_binding = Map.empty,
       es_pda_by_position = pda_positions (env_sha256 G) identities, es_globally_authorized = {}\<rparr>
      [circuit_initial_call p (outs ! 0)] 0 outs = Some es"
    and all: "list_all (\<lambda>(pos, identity). is_private_pda identity \<longrightarrow> es_bound_positions es pos \<noteq> None)
      (zip [0..<length identities] identities)"
    using assms unfolding derive_from_outputs_def panic_simps by blast
  from all have "\<forall>pos < length identities. is_private_pda (identities ! pos) \<longrightarrow> es_bound_positions es pos \<noteq> None"
    by (simp add: list_all_length)
  with windows show thesis by (intro that [OF run [unfolded circuit_initial_call_def]]) simp_all
qed

lemma derive_from_outputs_inv:
  assumes "derive_from_outputs G identities p outs = Some es"
  shows "accounts_inv es \<and> post_total es = pre_total es"
    and "binding_inv (env_sha256 G) identities es"
    and "authorization_inv G es [] outs"
    and "\<forall>pos < length identities. is_private_pda (identities ! pos) \<longrightarrow> es_bound_positions es pos \<noteq> None"
proof -
  obtain es0 call where run: "run_outputs G identities es0 [(call, \<lparr>caller_program = None, authorized_accounts = {}\<rparr>)] 0 outs = Some es"
      and es0: "es_pre_states es0 = []" "es_post_states es0 = Map.empty" "es_bound_positions es0 = Map.empty"
        "es_pda_by_position es0 = pda_positions (env_sha256 G) identities" "es_globally_authorized es0 = {}"
      and bound: "\<forall>pos < length identities. is_private_pda (identities ! pos) \<longrightarrow> es_bound_positions es pos \<noteq> None"
    by (rule derive_from_outputs_run [OF assms])
  have base: "accounts_inv es0" "post_total es0 = pre_total es0"
    by (simp_all add: accounts_inv_def post_total_def pre_total_def total_balance_def es0)
  show "accounts_inv es \<and> post_total es = pre_total es"
    using balance_chain.run_inv [OF run] base by simp
  show "binding_inv (env_sha256 G) identities es"
    by (rule binding_chain.run_inv [OF run])
      (simp add: binding_inv_def base es0 bound_inv_def)
  show "authorization_inv G es [] outs"
    using authorization_chain.run_inv [OF run, of "[]"]
    by (simp add: authorization_inv_def global_ok_def caller_ok_def es0)
qed (rule derive_from_outputs_run [OF assms])

lemma derive_from_outputs_windows:
  assumes "derive_from_outputs G identities p outs = Some es"
  shows "intersect_windows (map block_validity_window outs) = Some (es_block_window es)"
    and "intersect_windows (map timestamp_validity_window outs) = Some (es_timestamp_window es)"
proof -
  obtain es0 call where "run_outputs G identities es0 [(call, \<lparr>caller_program = None, authorized_accounts = {}\<rparr>)] 0 outs = Some es"
      and windows: "intersect_windows (map block_validity_window outs) = Some (es_block_window es0)"
      "intersect_windows (map timestamp_validity_window outs) = Some (es_timestamp_window es0)"
    by (rule derive_from_outputs_run [OF assms])
  from window_chain.run_inv [OF this(1), of "es_block_window es0" "es_timestamp_window es0"] windows
  show "intersect_windows (map block_validity_window outs) = Some (es_block_window es)"
    "intersect_windows (map timestamp_validity_window outs) = Some (es_timestamp_window es)"
    by simp_all
qed

lemma max_opt_bound:
  fixes xs :: "'a::linorder list"
  shows "(case max_opt xs of None \<Rightarrow> True | Some m \<Rightarrow> m \<le> v) \<longleftrightarrow> (\<forall>x \<in> set xs. x \<le> v)"
  by (simp add: max_opt_def)

lemma min_opt_bound:
  fixes xs :: "'a::linorder list"
  shows "(case min_opt xs of None \<Rightarrow> True | Some m \<Rightarrow> v < m) \<longleftrightarrow> (\<forall>x \<in> set xs. v < x)"
  by (simp add: min_opt_def)

lemma intersect_windows_valid:
  assumes "intersect_windows ws = Some w"
  shows "is_valid_for w v \<longleftrightarrow> (\<forall>u \<in> set ws. is_valid_for u v)"
proof -
  have "w = \<lparr>window_from = max_opt (List.map_filter window_from ws), window_to = min_opt (List.map_filter window_to ws)\<rparr>"
    using assms by (auto simp: intersect_windows_def window_try_from_iff split: sum.splits)
  moreover have "(\<forall>x \<in> set (List.map_filter f ws). P x)
      \<longleftrightarrow> (\<forall>u \<in> set ws. case f u of None \<Rightarrow> True | Some x \<Rightarrow> P x)" for f :: "_ \<Rightarrow> 'a option" and P
    by (induction ws) (auto simp: map_filter_simps split: option.splits)
  ultimately show ?thesis
    by (simp add: is_valid_for_def max_opt_bound min_opt_bound ball_conj_distrib)
qed

end
