(* ===== verification/PrivateLedger.thy ===== *)
theory PrivateLedger
  imports CircuitSafety "HOL-Library.Multiset"
begin

text \<open>
  What the circuit publishes, and what a verified proof of it gives the ledger: the value
  that leaves the public accounts is the value that enters private notes, authorization is
  backed by keys, and the private actions of a message are those of the accounts in an order
  that does not reveal them.
\<close>

subsection \<open>Emission of the actions\<close>

text \<open>A note is an account id with the account before and after the transaction.\<close>

type_synonym private_note = "account_id \<times> account \<times> account"

definition note_spent :: "hasher \<Rightarrow> account_id \<Rightarrow> account \<Rightarrow> nullifier \<Rightarrow> commitment_set_digest \<Rightarrow> bool" where
  "note_spent sha256 i pre n root \<longleftrightarrow>
    pre = default_account \<and> n = for_account_initialization sha256 i \<or>
    (\<exists>nsk proof. n = for_account_update sha256 (commitment_new sha256 i pre) nsk \<and>
      root = compute_digest_for_path sha256 (commitment_new sha256 i pre) proof)"

definition note_action :: "hasher \<Rightarrow> private_note \<Rightarrow> private_action \<Rightarrow> bool" where
  "note_action sha256 x action \<longleftrightarrow>
    (case x of (i, pre, post) \<Rightarrow> action_commitment action = commitment_new sha256 i post \<and>
      note_spent sha256 i pre (action_nullifier action) (action_root action))"

lemma witness_account_id_Some: "witness_account_id sha256 w pre = Some i \<Longrightarrow> i = account_id pre"
  by (auto simp: witness_account_id_def panic_simps split: witness_kind.splits)

lemma witness_nullifier_spent:
  "witness_nullifier sha256 w pre i = Some ((n, root), new_nonce, view_tag) \<Longrightarrow> note_spent sha256 i (account pre) n root"
  by (auto simp: witness_nullifier_def note_spent_def panic_simps Let_def
      compute_update_nullifier_and_set_digest_def split: nullifier_witness.splits)

lemma private_output_note:
  assumes "private_output G bound pos w pre post = Some action"
  shows "\<exists>new_nonce. note_action (env_sha256 G) (account_id pre, account pre, post\<lparr>nonce := new_nonce\<rparr>) action"
proof -
  obtain i n root new_nonce view_tag kind where i: "witness_account_id (env_sha256 G) w pre = Some i"
      and n: "witness_nullifier (env_sha256 G) w pre i = Some ((n, root), new_nonce, view_tag)"
      and emit: "emit_private_output G post i kind view_tag (wit_vpk w) (wit_random_seed w) (n, root) new_nonce = Some action"
    using assms by (auto simp: private_output_def bind_eq_Some_conv)
  from emit have "action_commitment action = commitment_new (env_sha256 G) i (post\<lparr>nonce := new_nonce\<rparr>)"
      "action_nullifier action = n" "action_root action = root"
    by (auto simp: emit_private_output_def Let_def bind_eq_Some_conv)
  with witness_account_id_Some [OF i] witness_nullifier_spent [OF n] show ?thesis
    by (auto simp: note_action_def)
qed

definition is_private_entry :: "input_account_identity \<times> account_with_metadata \<times> account \<Rightarrow> bool" where
  "is_private_entry x \<longleftrightarrow> \<not> is_public (fst x)"

lemma is_private_entry_simps [simp]:
  "\<not> is_private_entry (PublicIdentity, y)" "is_private_entry (PrivateIdentity w, y)"
  by (simp_all add: is_private_entry_def is_public_def)

definition entry_action ::
  "guest_env \<Rightarrow> bound_positions \<Rightarrow> input_account_identity \<times> account_with_metadata \<times> account
    \<Rightarrow> private_action \<Rightarrow> bool" where
  "entry_action G bound x action \<longleftrightarrow>
    (\<exists>w pos. fst x = PrivateIdentity w \<and> private_output G bound pos w (fst (snd x)) (snd (snd x)) = Some action)"

lemma emit_outputs_spec:
  assumes "emit_outputs G bound pos xs out = Some out'"
  shows "\<exists>acts. list_all2 (entry_action G bound) (filter is_private_entry xs) acts \<and>
    out' = out\<lparr>out_public_actions := out_public_actions out @
        map (\<lambda>(_, pre, post). \<lparr>action_pre = pre, action_post = post\<rparr>) (filter (\<lambda>x. \<not> is_private_entry x) xs),
      out_private_actions := out_private_actions out @ acts\<rparr>"
  using assms
proof (induction xs arbitrary: pos out)
  case (Cons x xs)
  obtain identity pre post where x: "x = (identity, pre, post)" by (cases x)
  show ?case
  proof (cases identity)
    case PublicIdentity
    then have "emit_outputs G bound (pos + 1) xs (out\<lparr>out_public_actions := out_public_actions out @
        [\<lparr>action_pre = pre, action_post = post\<rparr>]\<rparr>) = Some out'"
      using Cons.prems by (simp add: x)
    from Cons.IH [OF this] PublicIdentity show ?thesis by (auto simp: x)
  next
    case (PrivateIdentity w)
    then obtain action where action: "private_output G bound pos w pre post = Some action"
        "emit_outputs G bound (pos + 1) xs (out\<lparr>out_private_actions := out_private_actions out @ [action]\<rparr>) = Some out'"
      using Cons.prems by (auto simp: x bind_eq_Some_conv)
    from Cons.IH [OF action(2)] obtain acts where "list_all2 (entry_action G bound) (filter is_private_entry xs) acts"
        "out' = out\<lparr>out_public_actions := out_public_actions out @
            map (\<lambda>(_, pre, post). \<lparr>action_pre = pre, action_post = post\<rparr>) (filter (\<lambda>x. \<not> is_private_entry x) xs),
          out_private_actions := out_private_actions out @ action # acts\<rparr>"
      by auto
    moreover have "entry_action G bound x action" using action(1) PrivateIdentity by (auto simp: x entry_action_def)
    ultimately show ?thesis using PrivateIdentity
      by (intro exI [of _ "action # acts"]) (simp add: x)
  qed
qed simp

lemma take_states_spec:
  "take_states posts pres = Some states \<Longrightarrow>
    map fst states = pres \<and> (\<forall>(pre, post) \<in> set states. posts (account_id pre) = Some post)"
proof (induction pres arbitrary: posts states)
  case (Cons pre pres)
  then obtain post rest where rest: "posts (account_id pre) = Some post"
      "take_states (posts(account_id pre := None)) pres = Some rest" "states = (pre, post) # rest"
    by (auto simp: bind_eq_Some_conv)
  have "posts (account_id a) = Some b" if "(posts(account_id pre := None)) (account_id a) = Some b" for a b
    using that by (simp split: if_splits)
  with Cons.IH [OF rest(2)] rest(1,3) show ?case by fastforce
qed simp

lemma take_states_total:
  assumes "take_states posts pres = Some states" and "distinct (map account_id pres)"
    and "dom posts = account_id ` set pres"
  shows "(\<Sum>(pre, post)\<leftarrow>states. unat (balance post)) = total_balance posts"
proof -
  note spec = take_states_spec [OF assms(1)]
  have "(\<Sum>(pre, post)\<leftarrow>states. unat (balance post))
      = (\<Sum>(pre, post)\<leftarrow>states. unat (balance (account_or_default posts (account_id pre))))"
    using spec by (intro arg_cong [where f = sum_list] map_cong) (auto simp: account_or_default_def)
  also have "\<dots> = (\<Sum>i\<leftarrow>map account_id (map fst states). unat (balance (account_or_default posts i)))"
    by (simp add: comp_def split_def)
  also have "\<dots> = (\<Sum>i \<in> set (map account_id pres). unat (balance (account_or_default posts i)))"
    using spec assms(2) by (simp only: sum_list_distinct_conv_sum_set)
  finally show ?thesis using assms(3) by (simp add: total_balance_def)
qed

subsection \<open>The order of the private actions\<close>

definition spend_of :: "private_action \<Rightarrow> nullifier \<times> commitment_set_digest \<times> encrypted_account_data" where
  "spend_of a = (action_nullifier a, action_root a, action_note a)"

lemma map_zip_commitments:
  assumes "length actions = length cs"
  shows "map action_commitment (map (\<lambda>(a, c). a\<lparr>action_commitment := c\<rparr>) (zip actions cs)) = cs"
    and "map spend_of (map (\<lambda>(a, c). a\<lparr>action_commitment := c\<rparr>) (zip actions cs)) = map spend_of actions"
  using assms by (induction rule: list_induct2) (simp_all add: spend_of_def)

lemma obfuscate_maps:
  "map action_commitment (obfuscate_output_ordering acts) = sort (map action_commitment acts)"
  "map spend_of (obfuscate_output_ordering acts) = map spend_of (sort_key action_nullifier acts)"
  using map_zip_commitments [of "sort_key action_nullifier acts" "sort (map action_commitment acts)"]
  by (simp_all add: obfuscate_output_ordering_def Let_def)

text \<open>
  C21: The circuit publishes its private actions in an order that carries no information:
  the commitments are sorted, the nullifiers are sorted, each nullifier keeps its root and
  its encrypted note, and as multisets both are what the accounts produced.
\<close>

theorem obfuscate_output_ordering_correct:
  "sorted (map action_commitment (obfuscate_output_ordering acts)) \<and>
    sorted (map action_nullifier (obfuscate_output_ordering acts)) \<and>
    mset (map action_commitment (obfuscate_output_ordering acts)) = mset (map action_commitment acts) \<and>
    mset (map spend_of (obfuscate_output_ordering acts)) = mset (map spend_of acts)"
proof -
  have "map action_nullifier xs = map fst (map spend_of xs)" for xs by (simp add: spend_of_def comp_def)
  then have "map action_nullifier (obfuscate_output_ordering acts)
      = map action_nullifier (sort_key action_nullifier acts)"
    by (simp only: obfuscate_maps)
  then show ?thesis by (simp only: obfuscate_maps) simp
qed

subsection \<open>The output of a run\<close>

lemma circuit_main_cases:
  assumes "circuit_main G inp = Some out"
  obtains es states acts where
    "derive_from_outputs G (in_account_identities inp) (in_program_id inp) (in_program_outputs inp) = Some es"
    "length (in_account_identities inp) = length (es_pre_states es)"
    "take_states (es_post_states es) (es_pre_states es) = Some states" "length states = length (es_pre_states es)"
    "list_all2 (entry_action G (es_bound_positions es))
      (filter is_private_entry (zip (in_account_identities inp) states)) acts"
    "out_public_actions out = map (\<lambda>(_, pre, post). \<lparr>action_pre = pre, action_post = post\<rparr>)
      (filter (\<lambda>x. \<not> is_private_entry x) (zip (in_account_identities inp) states))"
    "out_private_actions out = obfuscate_output_ordering
      (acts @ map (emit_dummy_output (env_sha256 G)) (in_dummy_inputs inp))"
    "out_block_window out = es_block_window es" "out_timestamp_window out = es_timestamp_window es"
proof -
  obtain es states out1 where steps:
      "derive_from_outputs G (in_account_identities inp) (in_program_id inp) (in_program_outputs inp) = Some es"
      "length (in_account_identities inp) = length (es_pre_states es)"
      "take_states (es_post_states es) (es_pre_states es) = Some states"
      and emit: "emit_outputs G (es_bound_positions es) 0 (zip (in_account_identities inp) states)
        \<lparr>out_public_actions = [], out_private_actions = [], out_block_window = es_block_window es,
         out_timestamp_window = es_timestamp_window es\<rparr> = Some out1"
      and out: "out = out1\<lparr>out_private_actions := obfuscate_output_ordering
        (out_private_actions out1 @ map (emit_dummy_output (env_sha256 G)) (in_dummy_inputs inp))\<rparr>"
    using assms unfolding circuit_main_def compute_circuit_output_def panic_simps by blast
  have "length states = length (es_pre_states es)"
    using arg_cong [OF conjunct1 [OF take_states_spec [OF steps(3)]], of length] by simp
  with steps emit_outputs_spec [OF emit] out show thesis by (auto intro!: that)
qed

lemma sum_list_partition:
  "sum_list (map f xs) = sum_list (map f (filter P xs)) + sum_list (map f (filter (\<lambda>x. \<not> P x) xs))"
  for f :: "'a \<Rightarrow> nat"
  by (induction xs) auto

lemma entry_actions_notes:
  "list_all2 (entry_action G bound) xs acts \<Longrightarrow>
    \<exists>ns. list_all2 (note_action (env_sha256 G)) ns acts \<and>
      map fst ns = map (\<lambda>x. account_id (fst (snd x))) xs \<and>
      (\<Sum>(i, pre, post)\<leftarrow>ns. unat (balance pre)) = (\<Sum>(_, pre, post)\<leftarrow>xs. unat (balance (account pre))) \<and>
      (\<Sum>(i, pre, post)\<leftarrow>ns. unat (balance post)) = (\<Sum>(_, pre, post)\<leftarrow>xs. unat (balance post))"
proof (induction rule: list_all2_induct)
  case (Cons x xs act acts)
  then obtain ns where ns: "list_all2 (note_action (env_sha256 G)) ns acts"
      "map fst ns = map (\<lambda>x. account_id (fst (snd x))) xs"
      "(\<Sum>(i, pre, post)\<leftarrow>ns. unat (balance pre)) = (\<Sum>(_, pre, post)\<leftarrow>xs. unat (balance (account pre)))"
      "(\<Sum>(i, pre, post)\<leftarrow>ns. unat (balance post)) = (\<Sum>(_, pre, post)\<leftarrow>xs. unat (balance post))"
    by blast
  obtain identity pre post where x: "x = (identity, pre, post)" by (cases x)
  obtain n where "note_action (env_sha256 G) (account_id pre, account pre, post\<lparr>nonce := n\<rparr>) act"
    using Cons.hyps(1) private_output_note by (fastforce simp: x entry_action_def)
  with ns show ?case
    by (intro exI [of _ "(account_id pre, account pre, post\<lparr>nonce := n\<rparr>) # ns"]) (simp add: x)
qed (rule exI [of _ "[]"], simp)

subsection \<open>Value\<close>

lemma zip_states_total:
  assumes "take_states posts pres = Some states" and "length ids = length states"
    and "distinct (map account_id pres)" "dom posts = account_id ` set pres"
  shows "(\<Sum>x\<leftarrow>zip ids states. unat (balance (account (fst (snd x))))) = (\<Sum>pre\<leftarrow>pres. unat (balance (account pre)))"
    and "(\<Sum>x\<leftarrow>zip ids states. unat (balance (snd (snd x)))) = total_balance posts"
proof -
  have snd: "(\<Sum>x\<leftarrow>zip ids states. f (snd x)) = sum_list (map f states)" for f :: "_ \<Rightarrow> nat"
    using arg_cong [OF map_snd_zip [OF assms(2)], of "\<lambda>xs. sum_list (map f xs)"] by (simp add: comp_def)
  have "map fst states = pres" using take_states_spec [OF assms(1)] by simp
  then show "(\<Sum>x\<leftarrow>zip ids states. unat (balance (account (fst (snd x))))) = (\<Sum>pre\<leftarrow>pres. unat (balance (account pre)))"
    by (subst snd) (auto simp: comp_def)
  show "(\<Sum>x\<leftarrow>zip ids states. unat (balance (snd (snd x)))) = total_balance posts"
    using take_states_total [OF assms(1,3,4)] by (subst snd) (simp add: split_def)
qed

lemma zip_states_ids:
  assumes "take_states posts pres = Some states" and "length ids = length states"
  shows "map (\<lambda>x. account_id (fst (snd x))) (zip ids states) = map account_id pres"
proof -
  have "map (\<lambda>x. account_id (fst (snd x))) (zip ids states) = map (account_id \<circ> fst) (map snd (zip ids states))"
    by (simp add: comp_def)
  also have "\<dots> = map account_id (map fst states)" by (simp add: assms(2))
  finally show ?thesis using take_states_spec [OF assms(1)] by simp
qed

lemma circuit_value:
  assumes "circuit_main G inp = Some out"
  shows "\<exists>ns acts. list_all2 (note_action (env_sha256 G)) ns acts \<and> distinct (map fst ns) \<and>
    out_private_actions out = obfuscate_output_ordering
      (acts @ map (emit_dummy_output (env_sha256 G)) (in_dummy_inputs inp)) \<and>
    (\<Sum>a\<leftarrow>out_public_actions out. unat (balance (account (action_pre a)))) + (\<Sum>(i, pre, post)\<leftarrow>ns. unat (balance pre))
      = (\<Sum>a\<leftarrow>out_public_actions out. unat (balance (action_post a))) + (\<Sum>(i, pre, post)\<leftarrow>ns. unat (balance post))"
proof -
  let ?ids = "in_account_identities inp"
  obtain es states acts where
      es: "derive_from_outputs G ?ids (in_program_id inp) (in_program_outputs inp) = Some es"
      and len: "length ?ids = length (es_pre_states es)" "length states = length (es_pre_states es)"
      and states: "take_states (es_post_states es) (es_pre_states es) = Some states"
      and acts: "list_all2 (entry_action G (es_bound_positions es)) (filter is_private_entry (zip ?ids states)) acts"
      and out: "out_public_actions out = map (\<lambda>(_, pre, post). \<lparr>action_pre = pre, action_post = post\<rparr>)
          (filter (\<lambda>x. \<not> is_private_entry x) (zip ?ids states))"
        "out_private_actions out = obfuscate_output_ordering
          (acts @ map (emit_dummy_output (env_sha256 G)) (in_dummy_inputs inp))"
    by (rule circuit_main_cases [OF assms])
  note inv = derive_from_outputs_inv(1) [OF es]
  have total: "(\<Sum>x\<leftarrow>zip ?ids states. unat (balance (account (fst (snd x)))))
      = (\<Sum>x\<leftarrow>zip ?ids states. unat (balance (snd (snd x))))"
    using zip_states_total [OF states, of ?ids] inv len by (simp add: accounts_inv_def pre_total_def post_total_def)
  obtain ns where ns: "list_all2 (note_action (env_sha256 G)) ns acts"
      "map fst ns = map (\<lambda>x. account_id (fst (snd x))) (filter is_private_entry (zip ?ids states))"
      "(\<Sum>(i, pre, post)\<leftarrow>ns. unat (balance pre))
        = (\<Sum>(_, pre, post)\<leftarrow>filter is_private_entry (zip ?ids states). unat (balance (account pre)))"
      "(\<Sum>(i, pre, post)\<leftarrow>ns. unat (balance post))
        = (\<Sum>(_, pre, post)\<leftarrow>filter is_private_entry (zip ?ids states). unat (balance post))"
    using entry_actions_notes [OF acts] by blast
  have "(\<Sum>a\<leftarrow>out_public_actions out. unat (balance (account (action_pre a))))
      = (\<Sum>x\<leftarrow>filter (\<lambda>x. \<not> is_private_entry x) (zip ?ids states). unat (balance (account (fst (snd x)))))"
      "(\<Sum>a\<leftarrow>out_public_actions out. unat (balance (action_post a)))
      = (\<Sum>x\<leftarrow>filter (\<lambda>x. \<not> is_private_entry x) (zip ?ids states). unat (balance (snd (snd x))))"
    by (simp_all add: out(1) comp_def split_def)
  with total ns(3,4) have "(\<Sum>a\<leftarrow>out_public_actions out. unat (balance (account (action_pre a)))) + (\<Sum>(i, pre, post)\<leftarrow>ns. unat (balance pre))
      = (\<Sum>a\<leftarrow>out_public_actions out. unat (balance (action_post a))) + (\<Sum>(i, pre, post)\<leftarrow>ns. unat (balance post))"
    using sum_list_partition [of "\<lambda>x. unat (balance (account (fst (snd x))))" "zip ?ids states" is_private_entry]
      sum_list_partition [of "\<lambda>x. unat (balance (snd (snd x)))" "zip ?ids states" is_private_entry]
    unfolding split_def by linarith
  moreover have "distinct (map fst ns)"
    unfolding ns(2) using zip_states_ids [OF states, of ?ids] inv len
    by (intro distinct_map_filter) (simp add: accounts_inv_def)
  ultimately show ?thesis using ns(1) out(2) by blast
qed

text \<open>
  C3: A run of the privacy circuit neither creates nor destroys value. There are notes whose
  commitments and spent nullifiers, together with those of the dummy inputs, are exactly the
  published ones, and the public balances plus the balances of the notes are the same before
  and after.
\<close>

theorem circuit_conserves_value:
  assumes "circuit_main G inp = Some out"
  shows "\<exists>ns acts. list_all2 (note_action (env_sha256 G)) ns acts \<and>
    mset (map action_commitment (out_private_actions out))
      = mset (map action_commitment (acts @ map (emit_dummy_output (env_sha256 G)) (in_dummy_inputs inp))) \<and>
    mset (map action_nullifier (out_private_actions out))
      = mset (map action_nullifier (acts @ map (emit_dummy_output (env_sha256 G)) (in_dummy_inputs inp))) \<and>
    (\<Sum>a\<leftarrow>out_public_actions out. unat (balance (account (action_pre a)))) + (\<Sum>(i, pre, post)\<leftarrow>ns. unat (balance pre))
      = (\<Sum>a\<leftarrow>out_public_actions out. unat (balance (action_post a))) + (\<Sum>(i, pre, post)\<leftarrow>ns. unat (balance post))"
proof -
  have "mset (map action_nullifier xs) = image_mset fst (mset (map spend_of xs))" for xs
    by (simp add: spend_of_def image_mset.compositionality comp_def)
  then have "mset (map action_commitment (obfuscate_output_ordering xs)) = mset (map action_commitment xs)"
      "mset (map action_nullifier (obfuscate_output_ordering xs)) = mset (map action_nullifier xs)" for xs
    by (simp_all only: obfuscate_maps) simp_all
  with circuit_value [OF assms] show ?thesis by metis
qed

subsection \<open>Credentials\<close>

lemma regular_credential:
  assumes "private_output G bound pos w pre post = Some action" and "wit_kind w = RegularWitness ask_opt"
    and "is_authorized pre"
  shows "\<exists>ask. ask_opt = Some ask \<and> for_regular_private_account (env_sha256 G)
    (npk_of_nsk (env_sha256 G) (nsk_of_ask (env_sha256 G) ask)) (wit_vpk w) (wit_identifier w) = Some (account_id pre)"
proof -
  have cred: "witness_account_id (env_sha256 G) w pre \<noteq> None" "check_credential (env_sha256 G) w pre = Some ()"
    using assms(1) by (auto simp: private_output_def bind_eq_Some_conv)
  from cred(2) assms(2,3) obtain ask where ask: "ask_opt = Some ask"
      "witness_npk (env_sha256 G) (wit_nullifier w) = npk_of_nsk (env_sha256 G) (nsk_of_ask (env_sha256 G) ask)"
    by (auto simp: check_credential_def panic_simps split: option.splits nullifier_witness.splits)
  moreover have "for_regular_private_account (env_sha256 G) (witness_npk (env_sha256 G) (wit_nullifier w))
      (wit_vpk w) (wit_identifier w) = Some (account_id pre)"
    using cred(1) assms(2) by (auto simp: witness_account_id_def panic_simps)
  ultimately show ?thesis by simp
qed

definition owner_key_supplied :: "hasher \<Rightarrow> input_account_identity list \<Rightarrow> account_id \<Rightarrow> bool" where
  "owner_key_supplied sha256 identities i \<longleftrightarrow> (\<exists>w ask. PrivateIdentity w \<in> set identities \<and>
    wit_kind w = RegularWitness (Some ask) \<and>
    for_regular_private_account sha256 (npk_of_nsk sha256 (nsk_of_ask sha256 ask)) (wit_vpk w) (wit_identifier w) = Some i)"

lemma no_pda_witness:
  assumes "pda_positions sha256 identities pos = None" and "pos < length identities"
    and "identities ! pos = PrivateIdentity w"
  shows "\<exists>ask_opt. wit_kind w = RegularWitness ask_opt"
  using assms by (cases "wit_kind w") (auto simp: pda_positions_def list_get_def npk_vpk_if_private_pda_def)

text \<open>
  C4: Authorization in the privacy circuit is never free. An account that any program of the
  chain sees as authorized is a public account flagged in the published actions (the ledger
  then requires its signature), a private account whose owner's secret key was supplied, or
  an account derived from a program whose output was verified.
\<close>

theorem circuit_authorization:
  assumes "circuit_main G inp = Some out" and "call_out \<in> set (in_program_outputs inp)"
    and "pre \<in> set (pre_states call_out)" and "is_authorized pre"
  shows "(\<exists>a \<in> set (out_public_actions out). account_id (action_pre a) = account_id pre \<and> is_authorized (action_pre a))
    \<or> owner_key_supplied (env_sha256 G) (in_account_identities inp) (account_id pre)
    \<or> derived_account G (account_id pre)"
proof -
  let ?ids = "in_account_identities inp"
  obtain es states acts where es: "derive_from_outputs G ?ids (in_program_id inp) (in_program_outputs inp) = Some es"
      and len: "length ?ids = length (es_pre_states es)" "length states = length (es_pre_states es)"
      and states: "take_states (es_post_states es) (es_pre_states es) = Some states"
      and acts: "list_all2 (entry_action G (es_bound_positions es)) (filter is_private_entry (zip ?ids states)) acts"
      and out: "out_public_actions out = map (\<lambda>(_, pre, post). \<lparr>action_pre = pre, action_post = post\<rparr>)
          (filter (\<lambda>x. \<not> is_private_entry x) (zip ?ids states))"
    by (rule circuit_main_cases [OF assms(1)])
  have "backed G es (account_id pre)"
    using derive_from_outputs_inv(3) [OF es] assms(2-4) by (auto simp: authorization_inv_def)
  then consider "derived_account G (account_id pre)"
    | pos where "pos < length (es_pre_states es)" "account_id (es_pre_states es ! pos) = account_id pre"
      "is_authorized (es_pre_states es ! pos)" "es_pda_by_position es pos = None"
    unfolding backed_def flagged_def by blast
  then show ?thesis
  proof cases
    case (2 pos)
    obtain post where "states ! pos = (es_pre_states es ! pos, post)"
      using take_states_spec [OF states] 2(1) len by (metis nth_map prod.collapse)
    then have entry: "(?ids ! pos, es_pre_states es ! pos, post) \<in> set (zip ?ids states)"
      using 2(1) len by (auto simp: set_zip intro!: exI [of _ pos])
    show ?thesis
    proof (cases "?ids ! pos")
      case PublicIdentity
      with entry 2(2,3) show ?thesis by (force simp: out)
    next
      case (PrivateIdentity w)
      obtain ask_opt where kind: "wit_kind w = RegularWitness ask_opt"
        using no_pda_witness [of "env_sha256 G" ?ids pos w] PrivateIdentity 2(1,4) len
          derive_from_outputs_inv(2) [OF es] by (auto simp: binding_inv_def)
      obtain k action where "private_output G (es_bound_positions es) k w (es_pre_states es ! pos) post = Some action"
        using list_all2_mem [OF acts, of "(?ids ! pos, es_pre_states es ! pos, post)"] entry PrivateIdentity
        by (auto simp: entry_action_def)
      from regular_credential [OF this kind 2(3)] kind PrivateIdentity 2(1,2) len show ?thesis
        by (metis nth_mem owner_key_supplied_def)
    qed
  qed simp
qed

text \<open>
  C5: Every private program-derived account that the circuit accepts is bound: a program and
  a seed are recorded for its position, the account id is derived from them and from the
  keys of the witness, and no other position is bound to the same program and seed.
\<close>

theorem circuit_private_pda_binding:
  assumes "derive_from_outputs G identities p outs = Some es" and "pos < length identities"
    and "is_private_pda (identities ! pos)"
  shows "\<exists>q seed npk vpk idf. es_bound_positions es pos = Some (q, seed) \<and>
    npk_vpk_if_private_pda (env_sha256 G) (identities ! pos) = Some (npk, vpk, idf) \<and>
    for_private_pda (env_sha256 G) q seed npk vpk idf = Some (account_id (es_pre_states es ! pos)) \<and>
    (\<forall>pos'. es_bound_positions es pos' = Some (q, seed) \<longrightarrow> pos' = pos)"
proof -
  let ?ids = "map account_id (es_pre_states es)"
  have inv: "distinct ?ids" "es_pda_by_position es = pda_positions (env_sha256 G) identities"
      "bound_inv (env_sha256 G) ?ids es"
    using derive_from_outputs_inv(2) [OF assms(1)] by (simp_all add: binding_inv_def accounts_inv_def)
  obtain q seed where bound: "es_bound_positions es pos = Some (q, seed)"
    using derive_from_outputs_inv(4) [OF assms(1)] assms(2,3) by fastforce
  have at: "k < length ?ids \<and> es_family_binding es (q, seed) = Some (?ids ! k)"
    if "es_bound_positions es k = Some (q, seed)" for k
    using inv(3) that by (simp add: bound_inv_def)
  then have uniq: "\<forall>pos'. es_bound_positions es pos' = Some (q, seed) \<longrightarrow> pos' = pos"
    using at [OF bound] inv(1) by (metis nth_eq_iff_index_eq option.inject)
  obtain npk vpk idf where keys: "es_pda_by_position es pos = Some (npk, vpk, idf)"
      "for_private_pda (env_sha256 G) q seed npk vpk idf = Some (?ids ! pos)"
    using inv(3) bound unfolding bound_inv_def by blast
  have "pda_positions (env_sha256 G) identities pos = npk_vpk_if_private_pda (env_sha256 G) (identities ! pos)"
    using assms(2) by (simp add: pda_positions_def list_get_def)
  then have "npk_vpk_if_private_pda (env_sha256 G) (identities ! pos) = Some (npk, vpk, idf)"
    using keys(1) inv(2) by simp
  moreover have "for_private_pda (env_sha256 G) q seed npk vpk idf = Some (account_id (es_pre_states es ! pos))"
    using keys(2) at [OF bound] by simp
  ultimately show ?thesis using bound uniq by blast
qed

text \<open>
  C20: A proof is valid for a block and a time exactly when every program output in the chain
  is: the published windows are the intersection of the windows of the outputs.
\<close>

theorem circuit_windows:
  assumes "circuit_main G inp = Some out"
  shows "(is_valid_for (out_block_window out) b
      \<longleftrightarrow> (\<forall>x \<in> set (in_program_outputs inp). is_valid_for (block_validity_window x) b)) \<and>
    (is_valid_for (out_timestamp_window out) t
      \<longleftrightarrow> (\<forall>x \<in> set (in_program_outputs inp). is_valid_for (timestamp_validity_window x) t))"
proof -
  obtain es where es: "derive_from_outputs G (in_account_identities inp) (in_program_id inp) (in_program_outputs inp) = Some es"
      "out_block_window out = es_block_window es" "out_timestamp_window out = es_timestamp_window es"
    by (rule circuit_main_cases [OF assms])
  from intersect_windows_valid [OF derive_from_outputs_windows(1) [OF es(1)], of b]
    intersect_windows_valid [OF derive_from_outputs_windows(2) [OF es(1)], of t] es(2,3)
  show ?thesis by simp
qed

subsection \<open>Privacy-preserving transactions\<close>

lemma total_balance_write_sum:
  "finite (dom m) \<Longrightarrow> distinct (map fst xs) \<Longrightarrow>
    total_balance (write_accounts m xs) + (\<Sum>x\<leftarrow>xs. unat (balance (account_or_default m (fst x))))
      = total_balance m + (\<Sum>x\<leftarrow>xs. unat (balance (snd x)))"
proof (induction xs arbitrary: m)
  case (Cons x xs)
  obtain i a where x: "x = (i, a)" by (cases x)
  have "account_or_default (m(i \<mapsto> a)) (fst y) = account_or_default m (fst y)" if "y \<in> set xs" for y
    using Cons.prems(2) that by (auto simp: x account_or_default_def)
  then have "(\<Sum>y\<leftarrow>xs. unat (balance (account_or_default (m(i \<mapsto> a)) (fst y))))
      = (\<Sum>y\<leftarrow>xs. unat (balance (account_or_default m (fst y))))"
    by (intro arg_cong [where f = sum_list] map_cong) simp_all
  moreover have "total_balance (write_accounts (m(i \<mapsto> a)) xs)
      + (\<Sum>y\<leftarrow>xs. unat (balance (account_or_default (m(i \<mapsto> a)) (fst y))))
      = total_balance (m(i \<mapsto> a)) + (\<Sum>y\<leftarrow>xs. unat (balance (snd y)))"
    using Cons.prems by (intro Cons.IH) (simp_all del: fun_upd_apply)
  ultimately show ?case
    using total_balance_upd [OF Cons.prems(1), of i a]
    by (simp only: x write_accounts.simps list.map sum_list.Cons fst_conv snd_conv)
qed simp

lemma finite_dom_write_accounts: "finite (dom m) \<Longrightarrow> finite (dom (write_accounts m xs))"
  by (induction m xs rule: write_accounts.induct) (simp_all del: fun_upd_apply)

lemma zip_map_self: "zip (map f xs) xs = map (\<lambda>x. (f x, x)) xs"
  by (induction xs) simp_all

definition verified_output :: "externals \<Rightarrow> v03_state \<Rightarrow> privacy_transaction \<Rightarrow> circuit_output" where
  "verified_output E s tx =
    (let message = priv_message tx in
     \<lparr>out_public_actions = map (\<lambda>a. \<lparr>action_pre = \<lparr>account = get_account_by_id s (action_account_id a),
          is_authorized = (action_account_id a \<in> set (signer_account_ids E (priv_signatures tx))),
          account_id = action_account_id a\<rparr>, action_post = action_post_state a\<rparr>) (priv_public_actions message),
      out_private_actions = priv_private_actions message, out_block_window = priv_block_window message,
      out_timestamp_window = priv_timestamp_window message\<rparr>)"

lemma privacy_proof_checked:
  assumes "from_privacy_preserving_transaction E tx s block_id ts = Inr diff"
  shows "ext_receipt_verifies E (priv_proof tx) (verified_output E s tx) (ext_circuit_id E)"
  using assms
  by (auto simp: from_privacy_preserving_transaction_def from_privacy_preserving_transaction_with_circuit_id_def
      check_privacy_preserving_circuit_proof_is_valid_def verified_output_def proof_is_valid_for_def
      proof_is_valid_for_circuit_def message_public_account_ids_def zip_map_self comp_def Let_def result_simps
      split: if_splits)

text \<open>
  The soundness of the proof system: a receipt that verifies for the circuit comes from a
  run of it.
\<close>

definition receipts_sound :: "externals \<Rightarrow> guest_env \<Rightarrow> bool" where
  "receipts_sound E G \<longleftrightarrow> env_sha256 G = ext_sha256 E \<and>
    (\<forall>proof out. ext_receipt_verifies E proof out (ext_circuit_id E) \<longrightarrow> (\<exists>inp. circuit_main G inp = Some out))"

text \<open>
  The notes of the circuit's actions against the message: each has its own commitment and its
  own nullifier there, as many times as it occurs among the notes.
\<close>

lemma note_actions_published:
  assumes "list_all2 (note_action sha256) ns acts"
    and "priv_private_actions message = obfuscate_output_ordering (acts @ dummies)"
  shows "mset (map (\<lambda>(i, pre, post). commitment_new sha256 i post) ns) \<subseteq># mset (message_commitments message)"
    and "list_all2 (\<lambda>(i, pre, post) (n, root). note_spent sha256 i pre n root) ns
      (map (\<lambda>a. (action_nullifier a, action_root a)) acts)"
    and "mset (map (\<lambda>a. (action_nullifier a, action_root a)) acts) \<subseteq># mset (message_nullifiers message)"
proof -
  have commitments: "map (\<lambda>(i, pre, post). commitment_new sha256 i post) ns = map action_commitment acts"
    using assms(1) by (induction rule: list_all2_induct) (auto simp: note_action_def)
  have "mset (map action_commitment (priv_private_actions message))
      = mset (map action_commitment (acts @ dummies))"
    unfolding assms(2) by (simp only: obfuscate_maps) simp
  then show "mset (map (\<lambda>(i, pre, post). commitment_new sha256 i post) ns) \<subseteq># mset (message_commitments message)"
    unfolding commitments message_commitments_def by simp
  show "list_all2 (\<lambda>(i, pre, post) (n, root). note_spent sha256 i pre n root) ns
      (map (\<lambda>a. (action_nullifier a, action_root a)) acts)"
    using assms(1) by (induction rule: list_all2_induct) (auto simp: note_action_def)
  have pair: "map (\<lambda>a. (action_nullifier a, action_root a)) xs = map (\<lambda>(n, r, c). (n, r)) (map spend_of xs)" for xs
    by (simp add: spend_of_def)
  have "mset (map spend_of (priv_private_actions message)) = mset (map spend_of (acts @ dummies))"
    unfolding assms(2) by (simp only: obfuscate_maps) simp
  then have "image_mset (\<lambda>(n, r, c). (n, r)) (mset (map spend_of (priv_private_actions message)))
      = image_mset (\<lambda>(n, r, c). (n, r)) (mset (map spend_of (acts @ dummies)))" by simp
  then have "mset (map (\<lambda>a. (action_nullifier a, action_root a)) (priv_private_actions message))
      = mset (map (\<lambda>a. (action_nullifier a, action_root a)) (acts @ dummies))"
    by (simp only: pair mset_map)
  then show "mset (map (\<lambda>a. (action_nullifier a, action_root a)) acts) \<subseteq># mset (message_nullifiers message)"
    unfolding message_nullifiers_def by simp
qed

text \<open>
  C2: A privacy-preserving transaction moves value between public accounts and private notes
  and creates none. When receipts are sound, there are notes of pairwise distinct accounts,
  with one spend each, such that the public total plus the value of the created notes equals
  the public total before plus the value of the spent ones. Every created note takes up a
  commitment of the message of its own, and these are pairwise distinct and new to the set.
  Every spent note takes up a nullifier of the message of its own, and these are pairwise
  distinct, unspent before, spent afterwards, and refer to accepted roots.
\<close>

theorem privacy_transaction_conserves_value:
  assumes "receipts_sound E G" and "finite (dom (public_state s))"
    and "transition_from_privacy_preserving_transaction E s tx block_id ts = Inr s'"
  shows "\<exists>ns spends. distinct (map fst ns) \<and>
    mset (map (\<lambda>(i, pre, post). commitment_new (ext_sha256 E) i post) ns)
      \<subseteq># mset (message_commitments (priv_message tx)) \<and>
    distinct (message_commitments (priv_message tx)) \<and>
    (\<forall>c \<in> set (message_commitments (priv_message tx)). \<not> contains_commitment (private_commitments s) c) \<and>
    list_all2 (\<lambda>(i, pre, post) (n, root). note_spent (ext_sha256 E) i pre n root) ns spends \<and>
    mset spends \<subseteq># mset (message_nullifiers (priv_message tx)) \<and>
    distinct (map fst (message_nullifiers (priv_message tx))) \<and>
    (\<forall>(n, root) \<in> set (message_nullifiers (priv_message tx)). n \<notin> private_nullifiers s \<and>
      n \<in> private_nullifiers s' \<and> root \<in> set_root_history (private_commitments s)) \<and>
    total_balance (public_state s') + (\<Sum>(i, pre, post)\<leftarrow>ns. unat (balance post))
      = total_balance (public_state s) + (\<Sum>(i, pre, post)\<leftarrow>ns. unat (balance pre))"
proof -
  let ?actions = "priv_public_actions (priv_message tx)"
  let ?writes = "map (\<lambda>a. (action_account_id a, action_post_state a)) ?actions"
  obtain diff where diff: "from_privacy_preserving_transaction E tx s block_id ts = Inr diff"
      "apply_state_diff (ext_sha256 E) s diff = Some s'"
    by (rule privacy_transition_cases [OF assms(3)])
  note cases = from_privacy_cases [OF diff(1)]
  obtain inp where inp: "circuit_main G inp = Some (verified_output E s tx)"
    using assms(1) privacy_proof_checked [OF diff(1)] by (auto simp: receipts_sound_def)
  have sha: "env_sha256 G = ext_sha256 E" using assms(1) by (simp add: receipts_sound_def)
  obtain ns acts where ns: "list_all2 (note_action (ext_sha256 E)) ns acts" "distinct (map fst ns)"
      "priv_private_actions (priv_message tx) = obfuscate_output_ordering
        (acts @ map (emit_dummy_output (ext_sha256 E)) (in_dummy_inputs inp))"
      and conserved: "(\<Sum>a\<leftarrow>?actions. unat (balance (get_account_by_id s (action_account_id a)))) + (\<Sum>(i, pre, post)\<leftarrow>ns. unat (balance pre))
        = (\<Sum>a\<leftarrow>?actions. unat (balance (action_post_state a))) + (\<Sum>(i, pre, post)\<leftarrow>ns. unat (balance post))"
    using circuit_value [OF inp] by (auto simp: verified_output_def Let_def sha comp_def)
  have "increment_nonces (write_accounts (public_state s) ?writes) (diff_signers diff) = Some (public_state s')"
    by (rule apply_state_diff_parts [OF diff(2)]) (simp add: cases(1))
  moreover have "distinct (map fst ?writes)" using cases(5) by (simp add: message_public_account_ids_def comp_def)
  ultimately have "total_balance (public_state s')
      + (\<Sum>a\<leftarrow>?actions. unat (balance (get_account_by_id s (action_account_id a))))
      = total_balance (public_state s) + (\<Sum>a\<leftarrow>?actions. unat (balance (action_post_state a)))"
    using total_balance_increment [of "write_accounts (public_state s) ?writes" "diff_signers diff" "public_state s'"]
      total_balance_write_sum [OF assms(2), of ?writes] assms(2)
    by (simp add: comp_def get_account_by_id_def finite_dom_write_accounts)
  with conserved have "total_balance (public_state s') + (\<Sum>(i, pre, post)\<leftarrow>ns. unat (balance post))
      = total_balance (public_state s) + (\<Sum>(i, pre, post)\<leftarrow>ns. unat (balance pre))"
    by linarith
  moreover have "private_nullifiers s' = private_nullifiers s \<union> set (diff_nullifiers diff)"
    using diff(2) by (rule apply_state_diff_parts)
  ultimately show ?thesis
    using note_actions_published [OF ns(1,3)] ns(2) cases(3,4)
      cases(6) [unfolded check_commitments_are_new_iff] cases(7) [unfolded check_nullifiers_are_valid_iff]
    by (intro exI [of _ ns] exI [of _ "map (\<lambda>a. (action_nullifier a, action_root a)) acts"])
      (force simp: cases(1))
qed

end
