(* ===== verification/LedgerExamples.thy ===== *)
theory LedgerExamples
  imports Ledger
begin

text \<open>
  Concrete runs of the ledger: a transfer between two accounts, a program that calls itself
  for ever, a privacy-preserving transaction and a deployment, each applied to a small state.
  The external code is instantiated by computable functions: the hash keeps the last 32
  bytes of its input, every signature and proof verifies, and two programs are known by
  their bytecode. The runs show that the hypotheses of the theorems on transitions can hold.
\<close>

subsection \<open>External code\<close>

definition demo_sha256 :: hasher where
  "demo_sha256 bs = of_array32 (drop (length bs - 32) bs)"

definition transfer_program :: program_id where
  "transfer_program = program_of_account (AccountId 9)"

definition loop_program :: program_id where
  "loop_program = program_of_account (AccountId 10)"

definition demo_transfer ::
  "program_id \<Rightarrow> program_id option \<Rightarrow> account_with_metadata list \<Rightarrow> instruction_data \<Rightarrow> program_output" where
  "demo_transfer self caller pre instr =
    (case (pre, instr) of
       ([sender, recipient], [amount]) \<Rightarrow>
         program_output_new self caller instr pre
           [post_new ((account sender)\<lparr>balance := balance (account sender) - ucast amount\<rparr>),
            post_new ((account recipient)\<lparr>balance := balance (account recipient) + ucast amount\<rparr>)]
     | _ \<Rightarrow> program_output_new self caller instr [] [])"

definition demo_loop :: "program_id \<Rightarrow> program_id option \<Rightarrow> instruction_data \<Rightarrow> program_output" where
  "demo_loop self caller instr =
    with_chained_calls (program_output_new self caller instr [] [])
      [\<lparr>call_program_id = self, call_pre_states = [], call_instruction_data = instr, call_pda_seeds = []\<rparr>]"

definition demo_externals :: externals where
  "demo_externals =
    \<lparr>ext_sha256 = demo_sha256, ext_public_message_bytes = (\<lambda>_. []), ext_privacy_message_bytes = (\<lambda>_. []),
     ext_verify_prehash = (\<lambda>_ _ _. True),
     ext_image_id = (\<lambda>elf. Inr (program_of_account (AccountId (20 + ucast (hd elf))))),
     ext_execute = (\<lambda>elf self caller pre instr.
       Inr (if elf = [1] then demo_transfer self caller pre instr else demo_loop self caller instr)),
     ext_receipt_verifies = (\<lambda>_ _ _. True), ext_circuit_id = ProgramId 0\<rparr>"

lemma demo_externals_sha256 [simp]: "ext_sha256 demo_externals = demo_sha256"
  by (simp add: demo_externals_def)

lemma demo_sha256_append [simp]: "demo_sha256 (p @ array32 w) = w"
  by (simp add: demo_sha256_def)

subsection \<open>A state\<close>

definition demo_genesis :: v03_state where
  "demo_genesis = the (v03_default demo_sha256)"

definition demo_account :: "u128 \<Rightarrow> account" where
  "demo_account b = default_account\<lparr>program_owner := AccountId 9, balance := b\<rparr>"

definition demo_code :: "u8 \<Rightarrow> account" where
  "demo_code b = default_account\<lparr>program_owner := PROGRAM_STORAGE_OWNER, data := Data [b]\<rparr>"

definition demo_state :: v03_state where
  "demo_state = demo_genesis\<lparr>public_state := [AccountId 1 \<mapsto> demo_account 100,
     AccountId 2 \<mapsto> demo_account 5, AccountId 9 \<mapsto> demo_code 1, AccountId 10 \<mapsto> demo_code 2]\<rparr>"

definition demo_tx :: public_transaction where
  "demo_tx = \<lparr>pub_message = \<lparr>msg_program_id = transfer_program,
      msg_account_ids = [AccountId 1, AccountId 2], msg_nonces = [Nonce 0], msg_instruction_data = [7]\<rparr>,
     pub_witness_set = [(Signature 0, PublicKey 1)]\<rparr>"

lemmas demo_simps = demo_externals_def demo_tx_def demo_state_def demo_account_def demo_code_def
  transfer_program_def loop_program_def account_or_default_def default_account_def

lemma demo_genesis_inv: "v03_default demo_sha256 = Some demo_genesis"
    "state_inv demo_sha256 demo_genesis [DUMMY_COMMITMENT]"
  using v03_default_inv [of demo_sha256] by (auto simp: demo_genesis_def)

lemma demo_state_inv: "state_inv demo_sha256 demo_state [DUMMY_COMMITMENT]"
  using demo_genesis_inv(2) by (simp add: state_inv_def demo_state_def)

lemma demo_state_finite: "finite (dom (public_state demo_state))"
  by (simp add: demo_state_def)

lemma demo_signers: "signer_account_ids demo_externals [(Signature 0, PublicKey k)] = [AccountId k]"
proof -
  have "demo_sha256 ((ascii ''/LEE/v0.3/AccountId/Public/'' @ replicate 5 0) @ array32 k) = k"
    by (rule demo_sha256_append)
  then show ?thesis by (simp add: signer_account_ids_def public_account_id_def demo_externals_def)
qed

lemma demo_authenticate: "authenticate_public_transaction_signers demo_externals demo_tx demo_state = Inr [AccountId 1]"
proof -
  have "nonce (get_account_by_id demo_state (AccountId 1)) = Nonce 0"
    by (simp add: demo_simps get_account_by_id_def)
  then show ?thesis
    using demo_signers [of 1]
    by (simp add: authenticate_signers_iff demo_tx_def witness_set_is_valid_for_def
        signature_is_valid_for_def demo_externals_def)
qed

definition demo_pres :: "account_with_metadata list" where
  "demo_pres = [\<lparr>account = demo_account 100, is_authorized = True, account_id = AccountId 1\<rparr>,
    \<lparr>account = demo_account 5, is_authorized = False, account_id = AccountId 2\<rparr>]"

definition demo_posts :: "account_post_state list" where
  "demo_posts = [post_new (demo_account 93), post_new (demo_account 12)]"

definition demo_output :: program_output where
  "demo_output = program_output_new transfer_program None [7] demo_pres demo_posts"

definition demo_call :: chained_call where
  "demo_call = \<lparr>call_program_id = transfer_program, call_pre_states = demo_pres,
    call_instruction_data = [7], call_pda_seeds = []\<rparr>"

definition demo_caller :: caller_data where
  "demo_caller = \<lparr>caller_program = None, authorized_accounts = {AccountId 1}\<rparr>"

lemma demo_initial_call:
  "initial_call demo_state (pub_message demo_tx) [AccountId 1] = (demo_call, demo_caller)"
  by (simp add: initial_call_def demo_call_def demo_caller_def demo_pres_def demo_simps get_account_by_id_def)

lemma demo_get_program:
  "get_program demo_state transfer_program = Some (demo_code 1)"
  "get_program demo_state loop_program = Some (demo_code 2)"
  by (simp_all add: get_program_def demo_simps)

lemma demo_execute:
  "execute demo_externals \<lparr>prog_id = transfer_program, prog_elf = into_inner (data (demo_code 1))\<rparr>
    None demo_pres [7] = Inr demo_output"
  by (simp add: execute_def demo_externals_def demo_code_def demo_transfer_def demo_pres_def
      demo_posts_def demo_output_def demo_account_def)

lemma demo_validate: "validate_execution demo_pres demo_posts transfer_program = Inr ()"
  by (simp add: validate_execution_Inr demo_pres_def demo_posts_def well_behaved_def post_new_def
      transfer_program_def demo_account_def DEFAULT_PROGRAM_OWNER_def)

lemma demo_check_pre_states:
  "check_pre_states demo_state [] (call_is_authorized demo_sha256 demo_call demo_caller) demo_pres = Inr ()"
  by (simp add: check_pre_states_iff demo_pres_def expected_pre_def get_account_by_id_def demo_simps
      call_is_authorized_def demo_caller_def demo_call_def compute_public_authorized_pdas_def)

lemma demo_execute_call:
  "execute_call demo_externals demo_state b t demo_call demo_caller []
    = Inr ([(AccountId 1, demo_account 93), (AccountId 2, demo_account 12)], [])"
proof -
  have call: "call_program_id demo_call = transfer_program" "call_pre_states demo_call = demo_pres"
      "call_instruction_data demo_call = [7]" "caller_program demo_caller = None"
    by (simp_all add: demo_call_def demo_caller_def)
  have out: "pre_states demo_output = demo_pres" "post_states demo_output = demo_posts"
      "self_program_id demo_output = transfer_program" "caller_program_id demo_output = None"
      "chained_calls demo_output = []" "is_valid_for (block_validity_window demo_output) b"
      "is_valid_for (timestamp_validity_window demo_output) t"
    by (simp_all add: demo_output_def program_output_new_def new_unbounded_def is_valid_for_def)
  have claims: "check_claims demo_sha256 transfer_program demo_pres demo_posts = Inr demo_posts"
    by (simp add: demo_pres_def demo_posts_def check_claim_def post_new_def)
  have "update_diff [] (zip demo_pres demo_posts)
      = [(AccountId 1, demo_account 93), (AccountId 2, demo_account 12)]"
    by (simp add: demo_pres_def demo_posts_def post_new_def)
  then show ?thesis
    by (simp add: execute_call_def call out claims demo_get_program demo_execute demo_validate
        demo_check_pre_states ensure_def)
qed

lemma demo_run_calls:
  "run_calls demo_externals demo_state b t [(demo_call, demo_caller)] 0 []
    = Inr [(AccountId 1, demo_account 93), (AccountId 2, demo_account 12)]"
  by (simp add: demo_execute_call ensure_def)

lemma demo_from_public_transaction:
  "from_public_transaction demo_externals demo_tx demo_state b t =
    Inr \<lparr>diff_signers = [AccountId 1],
      diff_public = [(AccountId 1, demo_account 93), (AccountId 2, demo_account 12)],
      diff_commitments = [], diff_nullifiers = [], diff_program = None\<rparr>"
proof -
  have ids: "msg_account_ids (pub_message demo_tx) = [AccountId 1, AccountId 2]"
    by (simp add: demo_tx_def)
  have "check_modified_default_accounts demo_state
      [(AccountId 1, demo_account 93), (AccountId 2, demo_account 12)] = Inr ()"
    by (simp add: check_modified_default_accounts_iff get_account_by_id_def demo_simps
        DEFAULT_PROGRAM_OWNER_def)
  then show ?thesis
    by (simp add: from_public_transaction_def demo_authenticate demo_initial_call demo_run_calls ids
        ensure_def del: run_calls.simps)
qed

lemma demo_transition:
  "\<exists>s'. transition_from_public_transaction demo_externals demo_state demo_tx b t = Inr s' \<and>
    balance (get_account_by_id s' (AccountId 2)) = 12"
proof -
  obtain cs where "extend_commitments demo_sha256 (private_commitments demo_state) [] = Some cs"
    using extend_commitments_inv [of demo_sha256 "private_commitments demo_state" "[DUMMY_COMMITMENT]" "[]"]
      demo_state_inv by (auto simp: state_inv_def)
  then show ?thesis
    by (simp add: transition_from_public_transaction_def apply_validated_def demo_from_public_transaction
        apply_state_diff_def account_or_default_def get_account_by_id_def
        public_account_nonce_increment_def checked_add_def expect_some_def demo_account_def default_account_def)
qed

text \<open>Witness: the transfer of 7 units is applied and conserves the balance.\<close>

theorem public_transaction_conserves_balance_witness:
  "\<exists>s'. transition_from_public_transaction demo_externals demo_state demo_tx 0 0 = Inr s' \<and>
    balance (get_account_by_id s' (AccountId 2)) = 12 \<and>
    total_balance (public_state s') = total_balance (public_state demo_state)"
proof -
  obtain s' where "transition_from_public_transaction demo_externals demo_state demo_tx 0 0 = Inr s'"
      "balance (get_account_by_id s' (AccountId 2)) = 12"
    using demo_transition by blast
  with public_transaction_conserves_balance [OF this(1) demo_state_finite] show ?thesis by blast
qed

text \<open>Witness: in the same transfer the signer's nonce becomes 1.\<close>

theorem public_transaction_isolation_witness:
  "\<exists>s'. transition_from_public_transaction demo_externals demo_state demo_tx 0 0 = Inr s' \<and>
    unat (nonce_value (nonce (get_account_by_id s' (AccountId 1)))) = 1"
proof -
  obtain s' where s': "transition_from_public_transaction demo_externals demo_state demo_tx 0 0 = Inr s'"
    using demo_transition by blast
  have "get_account_by_id demo_state (AccountId 1) = demo_account 100"
    by (simp add: get_account_by_id_def demo_simps)
  moreover have "pub_witness_set demo_tx = [(Signature 0, PublicKey 1)]" by (simp add: demo_tx_def)
  ultimately have "unat (nonce_value (nonce (get_account_by_id s' (AccountId 1)))) = 1"
    using public_transaction_isolation [OF s' demo_state_finite, of "AccountId 1"] demo_signers [of 1]
    by (simp add: Let_def demo_account_def default_account_def)
  with s' show ?thesis by blast
qed

text \<open>Witness: the transfer is rejected when it is submitted again, in a later block.\<close>

theorem public_transaction_no_replay_witness:
  "\<exists>s'. transition_from_public_transaction demo_externals demo_state demo_tx 0 0 = Inr s' \<and>
    transition_from_public_transaction demo_externals s' demo_tx 1 60
      = Inl (Rejected (InvalidInput ''Nonce mismatch''))"
proof -
  obtain s' where s': "transition_from_public_transaction demo_externals demo_state demo_tx 0 0 = Inr s'"
    using demo_transition by blast
  have "pub_witness_set demo_tx \<noteq> []" by (simp add: demo_tx_def)
  from s' public_transaction_no_replay [OF s' demo_state_finite this] show ?thesis by blast
qed

text \<open>Witness: the sender of the transfer is authorized, and it is the signer.\<close>

theorem chained_calls_authorization_witness:
  "account_id (hd demo_pres) \<in> {AccountId 1} \<or> (\<exists>p seed. get_program demo_state p \<noteq> None \<and>
    account_id (hd demo_pres) = for_public_pda demo_sha256 p seed)"
  using chained_calls_authorization [OF demo_state_finite, where E = demo_externals and block_id = 0
      and ts = 0 and message = "pub_message demo_tx" and signers = "[AccountId 1]" and call = demo_call
      and caller = demo_caller and queue = "[]" and n = 0 and diff = "[]" and out = demo_output
      and program = "demo_code 1" and pre = "hd demo_pres", OF _ demo_execute_call]
    demo_execute demo_get_program(1)
  by (simp add: demo_initial_call)
    (simp add: demo_call_def demo_caller_def demo_output_def program_output_new_def demo_pres_def)

subsection \<open>A program that calls itself\<close>

definition loop_call :: chained_call where
  "loop_call = \<lparr>call_program_id = loop_program, call_pre_states = [], call_instruction_data = [],
    call_pda_seeds = []\<rparr>"

definition loop_caller :: "program_id option \<Rightarrow> caller_data" where
  "loop_caller p = \<lparr>caller_program = p, authorized_accounts = {}\<rparr>"

definition loop_message :: public_message where
  "loop_message = \<lparr>msg_program_id = loop_program, msg_account_ids = [], msg_nonces = [],
    msg_instruction_data = []\<rparr>"

lemma loop_initial_call: "initial_call demo_state loop_message [] = (loop_call, loop_caller None)"
  by (simp add: initial_call_def loop_message_def loop_call_def loop_caller_def)

lemma loop_execute_call:
  "execute_call demo_externals demo_state b t loop_call (loop_caller p) []
    = Inr ([], [(loop_call, loop_caller (Some loop_program))])"
proof -
  have "execute demo_externals \<lparr>prog_id = loop_program, prog_elf = into_inner (data (demo_code 2))\<rparr> p [] []
      = Inr (demo_loop loop_program p [])"
    by (simp add: execute_def demo_externals_def demo_code_def)
  moreover have "validate_execution [] [] loop_program = Inr ()"
    by (simp add: validate_execution_Inr)
  ultimately show ?thesis
    by (simp add: execute_call_def loop_call_def loop_caller_def demo_get_program demo_loop_def
        program_output_new_def with_chained_calls_def new_unbounded_def is_valid_for_def
        next_caller_def ensure_def)
qed

lemma loop_step:
  "n \<le> 10 \<Longrightarrow> chain_step demo_externals demo_state b t ([(loop_call, loop_caller p)], n, [])
    ([(loop_call, loop_caller (Some loop_program))], Suc n, [])"
  using chain_step.call [OF _ loop_execute_call, of n b t p "[]"]
  by (simp add: MAX_NUMBER_CHAINED_CALLS_def)

lemma loop_steps:
  "n \<le> 10 \<Longrightarrow> (chain_step demo_externals demo_state b t ^^ Suc n) ([(loop_call, loop_caller None)], 0, [])
    ([(loop_call, loop_caller (Some loop_program))], Suc n, [])"
proof (induction n)
  case 0
  then show ?case using loop_step [of 0 b t None] by (auto simp: OO_def)
next
  case (Suc n)
  then have "chain_step demo_externals demo_state b t ([(loop_call, loop_caller (Some loop_program))], Suc n, [])
      ([(loop_call, loop_caller (Some loop_program))], Suc (Suc n), [])"
    by (intro loop_step) simp
  with Suc show ?case by (intro relpowp_Suc_I [of "Suc n"]) simp_all
qed

text \<open>Witness: a program that calls itself runs eleven times, then the transaction is rejected.\<close>

theorem chained_calls_bounded_witness:
  "run_calls demo_externals demo_state 0 0 [initial_call demo_state loop_message []] 0 []
    = Inl MaxChainedCallsDepthExceeded"
  using chained_calls_bounded [where k = 11 and message = loop_message and signers = "[]"
      and E = demo_externals and s = demo_state and block_id = 0 and ts = 0,
      unfolded loop_initial_call, of "[(loop_call, loop_caller (Some loop_program))]" 11 "[]"]
    loop_steps [of 10 0 0]
  by (simp add: loop_initial_call del: relpowp.simps)

subsection \<open>A private transaction and a deployment\<close>

definition demo_root :: commitment_set_digest where
  "demo_root = root_of demo_sha256 [DUMMY_COMMITMENT]"

definition demo_private_tx :: privacy_transaction where
  "demo_private_tx = \<lparr>priv_message = \<lparr>priv_public_actions = [], priv_nonces = [],
      priv_private_actions = [\<lparr>action_nullifier = Nullifier 1, action_root = demo_root,
        action_commitment = Commitment 5,
        action_note = \<lparr>note_ciphertext = Ciphertext [], note_epk = [], note_view_tag = 0\<rparr>\<rparr>],
      priv_block_window = new_unbounded, priv_timestamp_window = new_unbounded\<rparr>,
    priv_signatures = [], priv_proof = []\<rparr>"

definition demo_deploy :: deployment_transaction where
  "demo_deploy = \<lparr>dep_bytecode = [3]\<rparr>"

lemma demo_private_transition:
  "\<exists>s'. transition_from_privacy_preserving_transaction demo_externals demo_state demo_private_tx 0 0 = Inr s' \<and>
    public_state s' = public_state demo_state"
proof -
  have inv: "commitment_set_inv demo_sha256 (private_commitments demo_state) [DUMMY_COMMITMENT]"
      "demo_root \<in> set_root_history (private_commitments demo_state)"
    using demo_state_inv by (simp_all add: state_inv_def demo_root_def)
  then obtain cs where cs: "extend_commitments demo_sha256 (private_commitments demo_state) [Commitment 5] = Some cs"
    using extend_commitments_inv [OF inv(1), of "[Commitment 5]"] by auto
  have "Commitment 5 \<noteq> DUMMY_COMMITMENT" by code_simp
  then have "\<not> contains_commitment (private_commitments demo_state) (Commitment 5)"
    using contains_commitment_iff [OF inv(1)] by simp
  moreover have "private_nullifiers demo_state = {}"
    using arg_cong [OF demo_genesis_inv(1), of "map_option private_nullifiers"]
    by (auto simp: demo_state_def v03_default_def split: bind_splits)
  ultimately show ?thesis
    using cs inv(2)
    by (simp add: transition_from_privacy_preserving_transaction_def apply_validated_def
        from_privacy_preserving_transaction_def from_privacy_preserving_transaction_with_circuit_id_def
        demo_private_tx_def message_commitments_def message_nullifiers_def message_public_account_ids_def
        n_unique_def signatures_are_valid_for_def signer_account_ids_def new_unbounded_def is_valid_for_def
        check_privacy_preserving_circuit_proof_is_valid_def proof_is_valid_for_def
        proof_is_valid_for_circuit_def apply_state_diff_def demo_externals_def ensure_def Let_def)
qed

lemma demo_deploy_transition:
  assumes "state_inv demo_sha256 s vs" and "public_state s (AccountId 23) = None"
  shows "\<exists>s'. transition_from_program_deployment_transaction demo_externals s demo_deploy = Inr s' \<and>
    public_state s' (AccountId 23) \<noteq> None"
proof -
  obtain cs where "extend_commitments demo_sha256 (private_commitments s) [] = Some cs"
    using extend_with_nothing [OF assms(1)] by blast
  moreover have "get_program s (program_of_account (AccountId 23)) = None"
    using assms(2) by (simp add: get_program_def)
  moreover have "data_try_from [3] = Inr (Data [3])"
    by (simp add: data_try_from_def DATA_MAX_LENGTH_def)
  ultimately show ?thesis
    by (simp add: transition_from_program_deployment_transaction_def apply_validated_def
        from_program_deployment_transaction_def program_new_def demo_deploy_def demo_externals_def
        apply_state_diff_def insert_program_def)
qed

text \<open>Witness: after the private transaction and a deployment, the private transaction is rejected.\<close>

theorem nullifier_spent_once_witness:
  "\<exists>s1 s2. transition_from_privacy_preserving_transaction demo_externals demo_state demo_private_tx 0 0 = Inr s1 \<and>
    (ledger_step demo_externals)\<^sup>*\<^sup>* s1 s2 \<and> s1 \<noteq> s2 \<and>
    (\<exists>e. transition_from_privacy_preserving_transaction demo_externals s2 demo_private_tx 7 7 = Inl (Rejected e))"
proof -
  obtain s1 where s1: "transition_from_privacy_preserving_transaction demo_externals demo_state demo_private_tx 0 0 = Inr s1"
      "public_state s1 = public_state demo_state"
    using demo_private_transition by blast
  have "ledger_inv demo_externals demo_state [DUMMY_COMMITMENT] []"
    using demo_state_inv by (simp add: ledger_inv_def)
  from ledger_step_inv [OF ledger_step.private_tx [OF s1(1)] this]
  obtain new where "state_inv demo_sha256 s1 ([DUMMY_COMMITMENT] @ new)" by (auto simp: ledger_inv_def)
  moreover have none: "public_state s1 (AccountId 23) = None" by (simp add: s1(2) demo_state_def)
  ultimately obtain s2 where s2: "transition_from_program_deployment_transaction demo_externals s1 demo_deploy = Inr s2"
      "public_state s2 (AccountId 23) \<noteq> None"
    using demo_deploy_transition by blast
  then have steps: "(ledger_step demo_externals)\<^sup>*\<^sup>* s1 s2" by (blast intro: ledger_step.deploy_tx)
  have mem: "Nullifier 1 \<in> fst ` set (message_nullifiers (priv_message demo_private_tx))"
    by (simp add: message_nullifiers_def demo_private_tx_def)
  from nullifier_spent_once [OF s1(1) steps mem mem, of 7 7] none s1(1) s2 steps show ?thesis by auto
qed


text \<open>Witness: the code of the transfer program survives the transfer.\<close>

theorem deployed_code_immutable_witness:
  "\<exists>s' a'. transition_from_public_transaction demo_externals demo_state demo_tx 0 0 = Inr s' \<and>
    get_program s' transfer_program = Some a' \<and> data a' = data (demo_code 1)"
proof -
  obtain s' where s': "transition_from_public_transaction demo_externals demo_state demo_tx 0 0 = Inr s'"
    using demo_transition by blast
  have "PROGRAM_STORAGE_OWNER \<notin> {AccountId 1, AccountId 2, AccountId 9, AccountId 10}"
    by code_simp
  then have "\<not> deployed_owner demo_state PROGRAM_STORAGE_OWNER"
    by (auto simp: deployed_owner_def get_program_def demo_state_def)
  from deployed_code_immutable [OF demo_state_finite this demo_get_program(1) disjI1 [OF s']] s'
  show ?thesis by blast
qed

end
