(* ===== verification/PrivateExamples.thy ===== *)
theory PrivateExamples
  imports PrivateLedger LedgerExamples
begin

text \<open>
  A concrete run of the privacy circuit: a signed public account shields seven units into a
  new private account, and the ledger applies the transaction. The encapsulation and the
  keystream are instantiated by constant functions, and the only receipt that verifies is
  the one for this run.
\<close>

definition demo_vpk :: viewing_public_key where
  "demo_vpk = MlKem768EncapsulationKey (replicate 1184 0)"

definition demo_npk :: nullifier_public_key where
  "demo_npk = NullifierPublicKey 4"

definition shielded_id :: account_id where
  "shielded_id = AccountId (demo_sha256 (regular_private_preimage demo_npk demo_vpk 3))"

definition shield_pres :: "account_with_metadata list" where
  "shield_pres = [\<lparr>account = demo_account 100, is_authorized = True, account_id = AccountId 1\<rparr>,
    \<lparr>account = default_account, is_authorized = False, account_id = shielded_id\<rparr>]"

definition shield_posts :: "account_post_state list" where
  "shield_posts = [post_new (demo_account 93), new_claimed (default_account\<lparr>balance := 7\<rparr>) ClaimAuthorized]"

definition shield_call :: program_output where
  "shield_call = program_output_new transfer_program None [7] shield_pres shield_posts"

definition shield_witness :: private_witness where
  "shield_witness = \<lparr>wit_vpk = demo_vpk, wit_random_seed = 0, wit_identifier = 3,
    wit_kind = RegularWitness None, wit_nullifier = InitWitness demo_npk demo_root\<rparr>"

definition shield_identities :: "input_account_identity list" where
  "shield_identities = [PublicIdentity, PrivateIdentity shield_witness]"

definition shield_input :: circuit_input where
  "shield_input = \<lparr>in_program_outputs = [shield_call], in_account_identities = shield_identities,
    in_program_id = transfer_program, in_dummy_inputs = []\<rparr>"

definition demo_guest :: guest_env where
  "demo_guest = \<lparr>env_sha256 = demo_sha256, env_verify = (\<lambda>p out. p = transfer_program \<and> out = shield_call),
    env_encapsulate = (\<lambda>_ _. Some (0, [])), env_serialize_kind = (\<lambda>_. []),
    env_apply_keystream = (\<lambda>_ buffer. buffer)\<rparr>"

lemma shielded_id_neq [simp]: "shielded_id \<noteq> AccountId 1" "AccountId 1 \<noteq> shielded_id"
proof -
  have "regular_private_preimage demo_npk demo_vpk 3
      = (ascii ''/LEE/v0.3/AccountId/Private/'' @ replicate 4 0 @ array32 4 @ replicate 1168 0)
        @ (replicate 16 0 @ u128_to_le_bytes 3)"
    by (simp add: regular_private_preimage_def demo_npk_def demo_vpk_def flip: replicate_add)
  then have "demo_sha256 (regular_private_preimage demo_npk demo_vpk 3)
      = of_array32 (replicate 16 0 @ u128_to_le_bytes 3)"
    by (simp add: demo_sha256_def)
  moreover have "of_array32 (replicate 16 0 @ u128_to_le_bytes 3) \<noteq> 1" by code_simp
  ultimately show "shielded_id \<noteq> AccountId 1" "AccountId 1 \<noteq> shielded_id"
    by (auto simp: shielded_id_def)
qed

lemma shield_validate: "validate_execution shield_pres shield_posts transfer_program = Inr ()"
  by (simp add: validate_execution_Inr shield_pres_def shield_posts_def well_behaved_def post_new_def
      new_claimed_def transfer_program_def demo_account_def DEFAULT_PROGRAM_OWNER_def default_account_def)

definition shield_state :: execution_state where
  "shield_state = \<lparr>es_pre_states = shield_pres,
    es_post_states = [AccountId 1 \<mapsto> demo_account 93,
      shielded_id \<mapsto> default_account\<lparr>balance := 7, program_owner := AccountId 9\<rparr>],
    es_block_window = new_unbounded, es_timestamp_window = new_unbounded, es_bound_positions = Map.empty,
    es_family_binding = Map.empty, es_pda_by_position = Map.empty,
    es_globally_authorized = {AccountId 1}\<rparr>"

lemma shield_positions: "pda_positions demo_sha256 shield_identities = Map.empty"
  by (rule ext) (auto simp: pda_positions_def list_get_def shield_identities_def npk_vpk_if_private_pda_def
      shield_witness_def less_Suc_eq)

lemma shield_identities_get:
  "list_get shield_identities 0 = Some PublicIdentity"
  "list_get shield_identities (Suc 0) = Some (PrivateIdentity shield_witness)"
  "wit_kind shield_witness = RegularWitness None"
  by (simp_all add: list_get_def shield_identities_def shield_witness_def)

lemma shield_sync:
  "validate_and_sync_states demo_sha256 shield_identities
    (shield_state\<lparr>es_pre_states := [], es_post_states := Map.empty, es_globally_authorized := {}\<rparr>)
    transfer_program \<lparr>caller_program = None, authorized_accounts = {}\<rparr> [] shield_pres shield_posts
    = Some (shield_state, {AccountId 1})"
  by (simp add: validate_and_sync_states_def shield_pres_def shield_posts_def sync_account_def sync_pre_def
      sync_claim_def external_seed_def bind_external_seed_def shield_state_def shield_identities_get Let_def
      authorize_first_sight_without_pda_witness_def match_caller_seed_as_public_pda_def
      post_new_def new_claimed_def default_account_def DEFAULT_PROGRAM_OWNER_def is_public_def transfer_program_def demo_account_def)

lemma shield_derive:
  "derive_from_outputs demo_guest shield_identities transfer_program [shield_call] = Some shield_state"
proof -
  let ?es0 = "shield_state\<lparr>es_pre_states := [], es_post_states := Map.empty, es_globally_authorized := {}\<rparr>"
  have out: "pre_states shield_call = shield_pres" "post_states shield_call = shield_posts"
      "self_program_id shield_call = transfer_program" "caller_program_id shield_call = None"
      "chained_calls shield_call = []" "instruction_data shield_call = [7]"
      "block_validity_window shield_call = new_unbounded" "timestamp_validity_window shield_call = new_unbounded"
    by (simp_all add: shield_call_def program_output_new_def)
  have windows: "intersect_windows [new_unbounded :: u64 validity_window] = Some new_unbounded"
    by (simp add: intersect_windows_def map_filter_simps new_unbounded_def max_opt_def min_opt_def
        window_try_from_def check_window_def)
  have "run_outputs demo_guest shield_identities ?es0
      [circuit_initial_call transfer_program shield_call] 0 [shield_call] = Some shield_state"
    using shield_sync shield_validate by (simp add: circuit_initial_call_def out demo_guest_def)
  moreover have "?es0 = \<lparr>es_pre_states = [], es_post_states = Map.empty, es_block_window = new_unbounded,
      es_timestamp_window = new_unbounded, es_bound_positions = Map.empty, es_family_binding = Map.empty,
      es_pda_by_position = pda_positions (env_sha256 demo_guest) shield_identities,
      es_globally_authorized = {}\<rparr>"
    by (simp add: shield_state_def demo_guest_def shield_positions)
  moreover have "modified_default_accounts_claimed shield_state"
    by (simp add: modified_default_accounts_claimed_def shield_state_def shield_pres_def
        demo_account_def DEFAULT_PROGRAM_OWNER_def)
  moreover have "list_all (\<lambda>(pos, identity). is_private_pda identity \<longrightarrow> es_bound_positions shield_state pos \<noteq> None)
      (zip [0..<length shield_identities] shield_identities)"
    by (simp add: shield_identities_def is_private_pda_def shield_witness_def upt_rec)
  ultimately show ?thesis
    by (simp add: derive_from_outputs_def out windows list_get_def)
qed

definition shield_post :: account where
  "shield_post = default_account\<lparr>balance := 7, program_owner := AccountId 9,
    nonce := private_account_nonce_init demo_sha256 shielded_id\<rparr>"

definition shield_action :: private_action where
  "shield_action =
    (let n = for_account_initialization demo_sha256 shielded_id in
     \<lparr>action_nullifier = n, action_root = demo_root,
      action_commitment = commitment_new demo_sha256 shielded_id shield_post,
      action_note = \<lparr>note_ciphertext = the (encrypt demo_sha256 (\<lambda>_. []) (\<lambda>_ buffer. buffer) shield_post
          (Regular 3) 0 n), note_epk = [], note_view_tag = the (compute_view_tag demo_sha256 demo_npk demo_vpk)\<rparr>\<rparr>)"

definition shield_output :: circuit_output where
  "shield_output = \<lparr>out_public_actions = [\<lparr>action_pre = hd shield_pres, action_post = demo_account 93\<rparr>],
    out_private_actions = [shield_action], out_block_window = new_unbounded,
    out_timestamp_window = new_unbounded\<rparr>"

lemma shield_private_output:
  "private_output demo_guest bound pos shield_witness
    \<lparr>account = default_account, is_authorized = False, account_id = shielded_id\<rparr>
    (default_account\<lparr>balance := 7, program_owner := AccountId 9\<rparr>) = Some shield_action"
proof -
  have "length (vpk_bytes demo_vpk) = VIEWING_PUBLIC_KEY_LEN"
    by (simp add: demo_vpk_def VIEWING_PUBLIC_KEY_LEN_def)
  then have "witness_account_id demo_sha256 shield_witness
      \<lparr>account = default_account, is_authorized = False, account_id = shielded_id\<rparr> = Some shielded_id"
      "compute_view_tag demo_sha256 demo_npk demo_vpk \<noteq> None"
    by (simp_all add: witness_account_id_def shield_witness_def for_regular_private_account_def shielded_id_def
        compute_view_tag_def)
  moreover have "encrypt demo_sha256 (\<lambda>_. []) (\<lambda>_ buffer. buffer) shield_post (Regular 3) 0
      (for_account_initialization demo_sha256 shielded_id) \<noteq> None"
    by (simp add: encrypt_def to_header_bytes_def HEADER_LEN_def account_to_bytes_def shield_post_def
        default_account_def)
  ultimately show ?thesis
    by (auto simp: private_output_def check_credential_def witness_nullifier_def witness_account_kind_def
        emit_private_output_def shield_witness_def demo_guest_def shield_action_def Let_def
        simp flip: shield_post_def)
qed

lemma shield_circuit: "circuit_main demo_guest shield_input = Some shield_output"
proof -
  let ?post = "default_account\<lparr>balance := 7, program_owner := AccountId 9\<rparr>"
  let ?pre = "\<lparr>account = default_account, is_authorized = False, account_id = shielded_id\<rparr>"
  have states: "take_states (es_post_states shield_state) (es_pre_states shield_state)
      = Some [(hd shield_pres, demo_account 93), (?pre, ?post)]"
      "length shield_identities = length (es_pre_states shield_state)"
      "zip shield_identities [x, y] = [(PublicIdentity, x), (PrivateIdentity shield_witness, y)]"
      "es_block_window shield_state = new_unbounded" "es_timestamp_window shield_state = new_unbounded" for x y
    by (simp_all add: shield_state_def shield_pres_def shield_identities_def)
  have inp: "in_account_identities shield_input = shield_identities" "in_program_id shield_input = transfer_program"
      "in_program_outputs shield_input = [shield_call]" "in_dummy_inputs shield_input = []"
    by (simp_all add: shield_input_def)
  have "obfuscate_output_ordering [shield_action] = [shield_action]"
    by (simp add: obfuscate_output_ordering_def)
  then show ?thesis
    by (simp add: circuit_main_def inp shield_derive compute_circuit_output_def states shield_private_output
        shield_output_def)
qed

text \<open>Witness: the run shields seven units.\<close>

theorem circuit_conserves_value_witness:
  "\<exists>ns acts. list_all2 (note_action demo_sha256) ns acts \<and>
    mset (map action_commitment (out_private_actions shield_output)) = mset (map action_commitment acts) \<and>
    100 + (\<Sum>(i, pre, post)\<leftarrow>ns. unat (balance pre)) = 93 + (\<Sum>(i, pre, post)\<leftarrow>ns. unat (balance post))"
  using circuit_conserves_value [OF shield_circuit]
  by (auto simp: demo_guest_def shield_input_def shield_output_def shield_pres_def demo_account_def)

text \<open>Witness: the sender is authorized, and flagged in the public actions.\<close>

theorem circuit_authorization_witness:
  "(\<exists>a \<in> set (out_public_actions shield_output). account_id (action_pre a) = AccountId 1 \<and> is_authorized (action_pre a))
    \<or> owner_key_supplied demo_sha256 shield_identities (AccountId 1) \<or> derived_account demo_guest (AccountId 1)"
  using circuit_authorization [OF shield_circuit, of shield_call "hd shield_pres"]
  by (simp add: shield_input_def shield_call_def program_output_new_def shield_pres_def demo_guest_def)

text \<open>Witness: the windows of the run are unbounded, and so is every output's.\<close>

theorem circuit_windows_witness:
  "is_valid_for (out_block_window shield_output) 5 \<longleftrightarrow> is_valid_for (block_validity_window shield_call) 5"
  using circuit_windows [OF shield_circuit, of 5 0] by (simp add: shield_input_def)

subsection \<open>The ledger applies the run\<close>

definition shield_externals :: externals where
  "shield_externals = demo_externals\<lparr>ext_receipt_verifies := (\<lambda>proof out circuit. out = shield_output)\<rparr>"

definition shield_tx :: privacy_transaction where
  "shield_tx = \<lparr>priv_message = message_from_circuit_output [Nonce 0] shield_output,
    priv_signatures = [(Signature 0, PublicKey 1)], priv_proof = []\<rparr>"

lemma shield_sound: "receipts_sound shield_externals demo_guest"
  using shield_circuit by (auto simp: receipts_sound_def shield_externals_def demo_guest_def)

lemma shield_signers: "signer_account_ids shield_externals (priv_signatures shield_tx) = [AccountId 1]"
  using demo_signers [of 1] by (simp add: shield_tx_def shield_externals_def signer_account_ids_def)

lemma shield_verified: "verified_output shield_externals demo_state shield_tx = shield_output"
proof -
  have "get_account_by_id demo_state (AccountId 1) = demo_account 100"
    by (simp add: get_account_by_id_def demo_simps)
  then show ?thesis
    using shield_signers
    by (simp add: verified_output_def shield_tx_def message_from_circuit_output_def shield_output_def shield_pres_def)
qed

lemma shield_commitment_new: "\<not> contains_commitment (private_commitments demo_state) (action_commitment shield_action)"
proof -
  have "demo_sha256 [] = 0" by (simp add: demo_sha256_def of_array32_def)
  then have "commitment_new demo_sha256 shielded_id shield_post = Commitment 0"
    using demo_sha256_append [of "ascii ''/LEE/v0.3/Commitment/'' @ replicate 11 0 @ array32 (id_value shielded_id)
      @ array32 (id_value (program_owner shield_post)) @ u128_to_le_bytes (balance shield_post)
      @ u128_to_le_bytes (nonce_value (nonce shield_post))" "demo_sha256 (into_inner (data shield_post))"]
    by (simp add: commitment_new_def commitment_preimage_def shield_post_def default_account_def)
  moreover have "Commitment 0 \<noteq> DUMMY_COMMITMENT" by code_simp
  ultimately have "action_commitment shield_action \<noteq> DUMMY_COMMITMENT" by (simp add: shield_action_def Let_def)
  then show ?thesis
    using contains_commitment_iff [of demo_sha256 "private_commitments demo_state" "[DUMMY_COMMITMENT]"]
      demo_state_inv by (simp add: state_inv_def)
qed

lemma shield_from_privacy:
  "\<exists>diff. from_privacy_preserving_transaction shield_externals shield_tx demo_state 0 0 = Inr diff \<and>
    diff_public diff = [(AccountId 1, demo_account 93)] \<and> diff_signers diff = [AccountId 1] \<and>
    diff_commitments diff = [action_commitment shield_action] \<and> diff_program diff = None"
proof -
  have message: "priv_message shield_tx = \<lparr>priv_public_actions = [\<lparr>action_account_id = AccountId 1,
      action_post_state = demo_account 93\<rparr>], priv_nonces = [Nonce 0], priv_private_actions = [shield_action],
      priv_block_window = new_unbounded, priv_timestamp_window = new_unbounded\<rparr>"
      "length (priv_signatures shield_tx) = 1"
    by (simp_all add: shield_tx_def message_from_circuit_output_def shield_output_def shield_pres_def)
  have account: "get_account_by_id demo_state (AccountId 1) = demo_account 100" "nonce (demo_account 100) = Nonce 0"
    by (simp_all add: get_account_by_id_def demo_simps)
  have "signatures_are_valid_for shield_externals (priv_signatures shield_tx) m" for m
    by (simp add: signatures_are_valid_for_def shield_tx_def signature_is_valid_for_def shield_externals_def
        demo_externals_def)
  moreover have "private_nullifiers demo_state = {}"
    using arg_cong [OF demo_genesis_inv(1), of "map_option private_nullifiers"]
    by (auto simp: demo_state_def v03_default_def split: bind_splits)
  moreover have "action_root shield_action \<in> set_root_history (private_commitments demo_state)"
    using demo_state_inv by (simp add: state_inv_def shield_action_def Let_def demo_root_def)
  moreover have "check_privacy_preserving_circuit_proof_is_valid shield_externals (priv_proof shield_tx)
      [\<lparr>account = demo_account 100, is_authorized = True, account_id = AccountId 1\<rparr>] (priv_message shield_tx)
      (ext_circuit_id shield_externals) = Inr ()"
    by (simp add: check_privacy_preserving_circuit_proof_is_valid_def message shield_output_def shield_pres_def
        proof_is_valid_for_def proof_is_valid_for_circuit_def shield_externals_def)
  ultimately show ?thesis
    using shield_commitment_new account
    by (simp add: from_privacy_preserving_transaction_def from_privacy_preserving_transaction_with_circuit_id_def
        message message_commitments_def message_nullifiers_def message_public_account_ids_def n_unique_def
        shield_signers new_unbounded_def is_valid_for_def Let_def)
qed

lemma shield_transition:
  "\<exists>s'. transition_from_privacy_preserving_transaction shield_externals demo_state shield_tx 0 0 = Inr s' \<and>
    balance (get_account_by_id s' (AccountId 1)) = 93"
proof -
  obtain diff where diff: "from_privacy_preserving_transaction shield_externals shield_tx demo_state 0 0 = Inr diff"
      "diff_public diff = [(AccountId 1, demo_account 93)]" "diff_signers diff = [AccountId 1]"
      "diff_commitments diff = [action_commitment shield_action]" "diff_program diff = None"
    using shield_from_privacy by blast
  obtain cs where "extend_commitments demo_sha256 (private_commitments demo_state) [action_commitment shield_action] = Some cs"
    using extend_commitments_inv [of demo_sha256 "private_commitments demo_state" "[DUMMY_COMMITMENT]"
        "[action_commitment shield_action]"] demo_state_inv by (auto simp: state_inv_def)
  moreover have "ext_sha256 shield_externals = demo_sha256" by (simp add: shield_externals_def)
  ultimately show ?thesis
    by (simp add: transition_from_privacy_preserving_transaction_def apply_validated_def diff apply_state_diff_def
        account_or_default_def get_account_by_id_def public_account_nonce_increment_def checked_add_def expect_some_def
        demo_account_def default_account_def)
qed

text \<open>Witness: seven units leave the public account 1 and enter notes with their own commitments and nullifiers.\<close>

theorem privacy_transaction_conserves_value_witness:
  "\<exists>s' ns spends. transition_from_privacy_preserving_transaction shield_externals demo_state shield_tx 0 0 = Inr s' \<and>
    balance (get_account_by_id s' (AccountId 1)) = 93 \<and> distinct (map fst ns) \<and>
    mset (map (\<lambda>(i, pre, post). commitment_new demo_sha256 i post) ns)
      \<subseteq># mset (message_commitments (priv_message shield_tx)) \<and>
    mset spends \<subseteq># mset (message_nullifiers (priv_message shield_tx)) \<and>
    list_all2 (\<lambda>(i, pre, post) (n, root). note_spent demo_sha256 i pre n root) ns spends \<and>
    total_balance (public_state s') + (\<Sum>(i, pre, post)\<leftarrow>ns. unat (balance post))
      = total_balance (public_state demo_state) + (\<Sum>(i, pre, post)\<leftarrow>ns. unat (balance pre))"
proof -
  obtain s' where s': "transition_from_privacy_preserving_transaction shield_externals demo_state shield_tx 0 0 = Inr s'"
      "balance (get_account_by_id s' (AccountId 1)) = 93"
    using shield_transition by blast
  have sha: "ext_sha256 shield_externals = demo_sha256" by (simp add: shield_externals_def)
  from privacy_transaction_conserves_value [OF shield_sound demo_state_finite s'(1), unfolded sha] s'
  show ?thesis by blast
qed

subsection \<open>A private derived account\<close>

definition vault_id :: account_id where
  "vault_id = AccountId (demo_sha256 (private_pda_preimage transfer_program (PdaSeed 5) demo_npk demo_vpk 3))"

definition vault_witness :: private_witness where
  "vault_witness = shield_witness\<lparr>wit_kind := PdaWitness (Some (transfer_program, PdaSeed 5))\<rparr>"

definition vault_pres :: "account_with_metadata list" where
  "vault_pres = [\<lparr>account = default_account, is_authorized = False, account_id = vault_id\<rparr>]"

definition vault_call :: program_output where
  "vault_call = program_output_new transfer_program None [] vault_pres [post_new default_account]"

definition vault_guest :: guest_env where
  "vault_guest = demo_guest\<lparr>env_verify := (\<lambda>p out. p = transfer_program \<and> out = vault_call)\<rparr>"

lemma vault_derive:
  "\<exists>es. derive_from_outputs vault_guest [PrivateIdentity vault_witness] transfer_program [vault_call] = Some es \<and>
    es_pre_states es = vault_pres"
proof -
  have pda: "for_private_pda demo_sha256 transfer_program (PdaSeed 5) demo_npk demo_vpk 3 = Some vault_id"
    by (simp add: for_private_pda_def demo_vpk_def VIEWING_PUBLIC_KEY_LEN_def vault_id_def)
  have w: "wit_kind vault_witness = PdaWitness (Some (transfer_program, PdaSeed 5))" "wit_vpk vault_witness = demo_vpk"
      "wit_identifier vault_witness = 3" "wit_nullifier vault_witness = InitWitness demo_npk demo_root"
    by (simp_all add: vault_witness_def shield_witness_def)
  have out: "pre_states vault_call = vault_pres" "post_states vault_call = [post_new default_account]"
      "self_program_id vault_call = transfer_program" "caller_program_id vault_call = None"
      "chained_calls vault_call = []" "instruction_data vault_call = []"
      "block_validity_window vault_call = new_unbounded" "timestamp_validity_window vault_call = new_unbounded"
    by (simp_all add: vault_call_def program_output_new_def)
  have windows: "intersect_windows [new_unbounded :: u64 validity_window] = Some new_unbounded"
    by (simp add: intersect_windows_def map_filter_simps new_unbounded_def max_opt_def min_opt_def
        window_try_from_def check_window_def)
  have valid: "validate_execution vault_pres [post_new default_account] transfer_program = Inr ()"
    by (simp add: validate_execution_Inr vault_pres_def well_behaved_def post_new_def default_account_def)
  have guest: "env_sha256 vault_guest = demo_sha256" "env_verify vault_guest transfer_program vault_call"
    by (simp_all add: vault_guest_def demo_guest_def)
  have get: "pda_positions demo_sha256 [PrivateIdentity vault_witness] 0 = Some (demo_npk, demo_vpk, 3)"
      "external_seed demo_sha256 [PrivateIdentity vault_witness] 0 vault_id = Some (Some (transfer_program, PdaSeed 5))"
    by (simp_all add: pda_positions_def list_get_def npk_vpk_if_private_pda_def external_seed_def w pda)
  show ?thesis
    using valid unfolding vault_pres_def post_new_def
    by (simp add: derive_from_outputs_def list_get_def out windows circuit_initial_call_def guest
        validate_and_sync_states_def sync_account_def sync_pre_def Let_def get bind_external_seed_def
        bind_private_pda_position_def assert_family_binding_def assert_authorization_and_record_bindings_def
        match_caller_seed_as_public_pda_def match_caller_seed_as_private_pda_def sync_claim_def
        modified_default_accounts_claimed_def vault_pres_def post_new_def)
qed

text \<open>Witness: the vault is bound to its program and seed.\<close>

theorem circuit_private_pda_binding_witness:
  "\<exists>es q seed npk vpk idf.
    derive_from_outputs vault_guest [PrivateIdentity vault_witness] transfer_program [vault_call] = Some es \<and>
    es_bound_positions es 0 = Some (q, seed) \<and>
    for_private_pda (env_sha256 vault_guest) q seed npk vpk idf = Some vault_id"
proof -
  obtain es where es: "derive_from_outputs vault_guest [PrivateIdentity vault_witness] transfer_program [vault_call] = Some es"
      "es_pre_states es = vault_pres"
    using vault_derive by blast
  have "is_private_pda ([PrivateIdentity vault_witness] ! 0)" by (simp add: is_private_pda_def vault_witness_def)
  from circuit_private_pda_binding [OF es(1) _ this] obtain q seed npk vpk idf where
      "es_bound_positions es 0 = Some (q, seed)"
      "for_private_pda (env_sha256 vault_guest) q seed npk vpk idf = Some (account_id (es_pre_states es ! 0))"
    by auto
  with es show ?thesis unfolding vault_pres_def by (auto intro!: exI)
qed

end
