(* ===== verification/Guests.thy ===== *)
theory Guests
  imports Execution "HOL-Library.Monad_Syntax"
begin

text \<open>
  The system programs that run inside the zkVM (\<open>lez/programs\<close>): clock, authenticated
  transfer, vault, faucet, bridge and pinata.

  A guest is a function from the inputs it reads to the output it commits; \<open>None\<close> is a run that
  panics or ends without committing an output, which the executor reports as a failure.
  The zkVM serializer of instructions and the Borsh encoding of account data belong to other
  crates; they are the fields of \<open>guest_codecs\<close>.
\<close>

subsection \<open>Inputs of a guest\<close>

record 'i program_input =
  input_self :: program_id
  input_caller :: "program_id option"
  input_pre_states :: "account_with_metadata list"
  input_instruction :: 'i

type_synonym 'i guest = "'i program_input \<Rightarrow> instruction_data \<Rightarrow> program_output option"

definition read_lee_inputs ::
  "(u32 list \<Rightarrow> 'i option) \<Rightarrow> program_id \<Rightarrow> program_id option \<Rightarrow> account_with_metadata list \<Rightarrow> instruction_data
    \<Rightarrow> ('i program_input \<times> instruction_data) option" where
  "read_lee_inputs deserialize self caller pre words = do {
    instruction \<leftarrow> deserialize words;
    Some (\<lparr>input_self = self, input_caller = caller, input_pre_states = pre,
      input_instruction = instruction\<rparr>, words)
  }"

definition guest_output :: "'i program_input \<Rightarrow> instruction_data \<Rightarrow> account_post_state list \<Rightarrow> program_output" where
  "guest_output inp words posts =
    program_output_new (input_self inp) (input_caller inp) words (input_pre_states inp) posts"

definition unchanged_post_states :: "account_with_metadata list \<Rightarrow> account_post_state list" where
  "unchanged_post_states pres = map (\<lambda>pre. post_new (account pre)) pres"

subsection \<open>Instructions\<close>

datatype auth_transfer_instruction =
    AuthTransfer u128
  | AuthInitialize

datatype vault_instruction =
    VaultTransfer account_id u128
  | VaultClaim u128

datatype faucet_instruction =
    GenesisTransferVault program_id account_id u128
  | GenesisTransferDirect u128

datatype bridge_instruction =
    BridgeDeposit array32 program_id account_id u64
  | BridgeWithdraw u64 array32

type_synonym clock_instruction = timestamp

type_synonym pinata_instruction = u128

record clock_account_data =
  clock_block_id :: u64
  clock_timestamp :: timestamp

record guest_codecs =
  gc_sha256 :: hasher
  gc_clock_bytes :: "clock_account_data \<Rightarrow> bytes"
  gc_clock_of_bytes :: "bytes \<Rightarrow> clock_account_data option"
  gc_auth_transfer_words :: "auth_transfer_instruction \<Rightarrow> u32 list"
  gc_vault_words :: "vault_instruction \<Rightarrow> u32 list"

subsection \<open>Clock\<close>

definition CLOCK_01_PROGRAM_ACCOUNT_ID :: account_id where
  "CLOCK_01_PROGRAM_ACCOUNT_ID = AccountId (of_array32 (ascii ''/LEZ/ClockProgramAccount/0000001''))"

definition CLOCK_10_PROGRAM_ACCOUNT_ID :: account_id where
  "CLOCK_10_PROGRAM_ACCOUNT_ID = AccountId (of_array32 (ascii ''/LEZ/ClockProgramAccount/0000010''))"

definition CLOCK_50_PROGRAM_ACCOUNT_ID :: account_id where
  "CLOCK_50_PROGRAM_ACCOUNT_ID = AccountId (of_array32 (ascii ''/LEZ/ClockProgramAccount/0000050''))"

definition CLOCK_PROGRAM_ACCOUNT_IDS :: "account_id list" where
  "CLOCK_PROGRAM_ACCOUNT_IDS =
    [CLOCK_01_PROGRAM_ACCOUNT_ID, CLOCK_10_PROGRAM_ACCOUNT_ID, CLOCK_50_PROGRAM_ACCOUNT_ID]"

definition data_of_bytes :: "bytes \<Rightarrow> account_data option" where
  "data_of_bytes bs = (case data_try_from bs of Inl _ \<Rightarrow> None | Inr d \<Rightarrow> Some d)"

definition update_if_multiple ::
  "account_with_metadata \<Rightarrow> u64 \<Rightarrow> u64 \<Rightarrow> bytes \<Rightarrow> (account_with_metadata \<times> account_post_state) option" where
  "update_if_multiple pre divisor current_block_id updated =
    (if current_block_id mod divisor = 0 then do {
       d \<leftarrow> data_of_bytes updated;
       Some (pre, post_new ((account pre)\<lparr>data := d\<rparr>))
     } else Some (pre, post_new (account pre)))"

definition clock_main :: "guest_codecs \<Rightarrow> clock_instruction guest" where
  "clock_main G inp words =
    (case input_pre_states inp of
       [pre_01, pre_10, pre_50] \<Rightarrow> do {
         assert_that (account_id pre_01 = CLOCK_01_PROGRAM_ACCOUNT_ID \<and>
           account_id pre_10 = CLOCK_10_PROGRAM_ACCOUNT_ID \<and>
           account_id pre_50 = CLOCK_50_PROGRAM_ACCOUNT_ID);
         let self = account_of_program (input_self inp);
         assert_that (program_owner (account pre_01) = self \<and>
           program_owner (account pre_10) = self \<and> program_owner (account pre_50) = self);
         prev \<leftarrow> gc_clock_of_bytes G (into_inner (data (account pre_01)));
         current \<leftarrow> checked_add (clock_block_id prev) 1;
         let updated = gc_clock_bytes G \<lparr>clock_block_id = current, clock_timestamp = input_instruction inp\<rparr>;
         (pre_01, post_01) \<leftarrow> update_if_multiple pre_01 1 current updated;
         (pre_10, post_10) \<leftarrow> update_if_multiple pre_10 10 current updated;
         (pre_50, post_50) \<leftarrow> update_if_multiple pre_50 50 current updated;
         Some (program_output_new (input_self inp) (input_caller inp) words
           [pre_01, pre_10, pre_50] [post_01, post_10, post_50])
       }
     | _ \<Rightarrow> None)"

subsection \<open>Authenticated transfer\<close>

definition initialize_account :: "account_with_metadata \<Rightarrow> account_post_state option" where
  "initialize_account pre = do {
    let account_to_claim = new_claimed (account pre) ClaimAuthorized;
    assert_that (post_account account_to_claim = default_account);
    Some account_to_claim
  }"

definition transfer ::
  "account_with_metadata \<Rightarrow> account_with_metadata \<Rightarrow> u128 \<Rightarrow> account_post_state list option" where
  "transfer sender recipient balance_to_move = do {
    assert_that (is_authorized sender);
    sender_balance \<leftarrow> checked_sub (balance (account sender)) balance_to_move;
    let sender_post = post_new ((account sender)\<lparr>balance := sender_balance\<rparr>);
    recipient_balance \<leftarrow> checked_add (balance (account recipient)) balance_to_move;
    let recipient_account = (account recipient)\<lparr>balance := recipient_balance\<rparr>;
    let recipient_post = (if program_owner recipient_account = DEFAULT_PROGRAM_OWNER
      then new_claimed recipient_account ClaimAuthorized else post_new recipient_account);
    Some [sender_post, recipient_post]
  }"

definition auth_transfer_main :: "auth_transfer_instruction guest" where
  "auth_transfer_main inp words = do {
    posts \<leftarrow> (case input_instruction inp of
        AuthInitialize \<Rightarrow> (case input_pre_states inp of
            [account_to_claim] \<Rightarrow> map_option (\<lambda>p. [p]) (initialize_account account_to_claim)
          | _ \<Rightarrow> None)
      | AuthTransfer balance_to_move \<Rightarrow> (case input_pre_states inp of
            [sender, recipient] \<Rightarrow> transfer sender recipient balance_to_move
          | _ \<Rightarrow> None));
    Some (guest_output inp words posts)
  }"

subsection \<open>Vault\<close>

definition compute_vault_seed :: "hasher \<Rightarrow> account_id \<Rightarrow> pda_seed" where
  "compute_vault_seed sha256 owner_id =
    PdaSeed (sha256 (ascii ''/LEZ/v0.3/VaultSeed/00000000000/'' @ array32 (id_value owner_id)))"

definition compute_vault_account_id :: "hasher \<Rightarrow> program_id \<Rightarrow> account_id \<Rightarrow> account_id" where
  "compute_vault_account_id sha256 vault_program_id owner_id =
    for_public_pda sha256 vault_program_id (compute_vault_seed sha256 owner_id)"

definition authorized_for_callee :: "account_with_metadata \<Rightarrow> account_with_metadata" where
  "authorized_for_callee a = a\<lparr>is_authorized := True\<rparr>"

definition vault_main :: "guest_codecs \<Rightarrow> vault_instruction guest" where
  "vault_main G inp words = do {
    let post_states = unchanged_post_states (input_pre_states inp);
    calls \<leftarrow> (case input_instruction inp of
        VaultTransfer recipient_id amount \<Rightarrow> (case input_pre_states inp of
            [sender, recipient_vault] \<Rightarrow> do {
              let seed = compute_vault_seed (gc_sha256 G) recipient_id;
              Some [with_pda_seeds (chained_call_new (gc_auth_transfer_words G)
                (program_of_account (program_owner (account sender)))
                [sender, authorized_for_callee recipient_vault] (AuthTransfer amount)) [seed]]
            }
          | _ \<Rightarrow> None)
      | VaultClaim amount \<Rightarrow> (case input_pre_states inp of
            [owner, owner_vault] \<Rightarrow> do {
              assert_that (is_authorized owner);
              let seed = compute_vault_seed (gc_sha256 G) (account_id owner);
              Some [with_pda_seeds (chained_call_new (gc_auth_transfer_words G)
                (program_of_account (program_owner (account owner_vault)))
                [authorized_for_callee owner_vault, owner] (AuthTransfer amount)) [seed]]
            }
          | _ \<Rightarrow> None));
    Some (with_chained_calls (guest_output inp words post_states) calls)
  }"

subsection \<open>Faucet\<close>

definition compute_faucet_seed :: pda_seed where
  "compute_faucet_seed = PdaSeed (of_array32 (ascii ''/LEZ/v0.3/FaucetSeed/0000000000/''))"

definition compute_faucet_account_id :: "hasher \<Rightarrow> program_id \<Rightarrow> account_id" where
  "compute_faucet_account_id sha256 faucet_program_id = for_public_pda sha256 faucet_program_id compute_faucet_seed"

definition faucet_main :: "guest_codecs \<Rightarrow> faucet_instruction guest" where
  "faucet_main G inp words = do {
    assert_that (input_caller inp = None);
    let post_states = unchanged_post_states (input_pre_states inp);
    calls \<leftarrow> (case input_instruction inp of
        GenesisTransferVault vault_program_id recipient_id amount \<Rightarrow> (case input_pre_states inp of
            [faucet, recipient_vault] \<Rightarrow> do {
              assert_that (account_id faucet = compute_faucet_account_id (gc_sha256 G) (input_self inp));
              Some [with_pda_seeds (chained_call_new (gc_vault_words G) vault_program_id
                [authorized_for_callee faucet, recipient_vault] (VaultTransfer recipient_id amount))
                [compute_faucet_seed]]
            }
          | _ \<Rightarrow> None)
      | GenesisTransferDirect amount \<Rightarrow> (case input_pre_states inp of
            [faucet, recipient] \<Rightarrow> do {
              assert_that (account_id faucet = compute_faucet_account_id (gc_sha256 G) (input_self inp));
              Some [with_pda_seeds (chained_call_new (gc_auth_transfer_words G)
                (program_of_account (program_owner (account faucet)))
                [authorized_for_callee faucet, recipient] (AuthTransfer amount))
                [compute_faucet_seed]]
            }
          | _ \<Rightarrow> None));
    Some (with_chained_calls (guest_output inp words post_states) calls)
  }"

subsection \<open>Bridge\<close>

definition compute_bridge_seed :: pda_seed where
  "compute_bridge_seed = PdaSeed (of_array32 (ascii ''/LEZ/v0.3/BridgeSeed/0000000000/''))"

definition compute_bridge_account_id :: "hasher \<Rightarrow> program_id \<Rightarrow> account_id" where
  "compute_bridge_account_id sha256 bridge_program_id = for_public_pda sha256 bridge_program_id compute_bridge_seed"

definition deposit_receipt_seed :: "hasher \<Rightarrow> array32 \<Rightarrow> pda_seed" where
  "deposit_receipt_seed sha256 op_id =
    PdaSeed (sha256 (ascii ''/LEZ/v0.3/BridgeDepositReceipt/0'' @ array32 op_id))"

definition deposit_receipt_account_id :: "hasher \<Rightarrow> program_id \<Rightarrow> array32 \<Rightarrow> account_id" where
  "deposit_receipt_account_id sha256 bridge_program_id op_id =
    for_public_pda sha256 bridge_program_id (deposit_receipt_seed sha256 op_id)"

definition bridge_deposit ::
  "guest_codecs \<Rightarrow> program_id \<Rightarrow> account_with_metadata list \<Rightarrow> array32 \<Rightarrow> program_id \<Rightarrow> account_id \<Rightarrow> u64
    \<Rightarrow> (account_post_state list \<times> chained_call list) option" where
  "bridge_deposit G self pres op_id vault_program_id recipient_id amount =
    (case pres of
       [bridge, recipient_vault, receipt] \<Rightarrow> do {
         assert_that (account_id bridge = compute_bridge_account_id (gc_sha256 G) self);
         assert_that (account_id recipient_vault
           = compute_vault_account_id (gc_sha256 G) vault_program_id recipient_id);
         assert_that (account_id receipt = deposit_receipt_account_id (gc_sha256 G) self op_id);
         if account receipt \<noteq> default_account then Some (unchanged_post_states pres, [])
         else Some (
           [post_new (account bridge), post_new (account recipient_vault),
            new_claimed_if_default (account receipt) (ClaimPda (deposit_receipt_seed (gc_sha256 G) op_id))],
           [with_pda_seeds (chained_call_new (gc_vault_words G) vault_program_id
             [authorized_for_callee bridge, recipient_vault] (VaultTransfer recipient_id (ucast amount)))
             [compute_bridge_seed]])
       }
     | _ \<Rightarrow> None)"

definition bridge_main :: "guest_codecs \<Rightarrow> bridge_instruction guest" where
  "bridge_main G inp words = do {
    assert_that (input_caller inp = None);
    (posts, calls) \<leftarrow> (case input_instruction inp of
        BridgeDeposit op_id vault_program_id recipient_id amount \<Rightarrow>
          bridge_deposit G (input_self inp) (input_pre_states inp) op_id vault_program_id recipient_id amount
      | BridgeWithdraw _ _ \<Rightarrow> None);
    Some (with_chained_calls (guest_output inp words posts) calls)
  }"

subsection \<open>Pinata\<close>

definition PRIZE :: u128 where
  "PRIZE = 150"

record challenge =
  difficulty :: u8
  challenge_seed :: array32

definition challenge_new :: "bytes \<Rightarrow> challenge option" where
  "challenge_new bs = do {
    assert_that (length bs = 33);
    assert_that (bs ! 0 \<le> 32);
    Some \<lparr>difficulty = bs ! 0, challenge_seed = of_array32 (drop 1 bs)\<rparr>
  }"

definition validate_solution :: "hasher \<Rightarrow> challenge \<Rightarrow> pinata_instruction \<Rightarrow> bool" where
  "validate_solution sha256 c solution =
    (let digest = array32 (sha256 (array32 (challenge_seed c) @ u128_to_le_bytes solution)) in
     \<forall>b \<in> set (take (unat (difficulty c)) digest). b = 0)"

definition next_data :: "hasher \<Rightarrow> challenge \<Rightarrow> bytes" where
  "next_data sha256 c = difficulty c # array32 (sha256 (array32 (challenge_seed c)))"

definition pinata_main :: "hasher \<Rightarrow> pinata_instruction guest" where
  "pinata_main sha256 inp words =
    (case input_pre_states inp of
       [pinata, winner] \<Rightarrow> do {
         c \<leftarrow> challenge_new (into_inner (data (account pinata)));
         if \<not> validate_solution sha256 c (input_instruction inp) then None else do {
           pinata_balance \<leftarrow> checked_sub (balance (account pinata)) PRIZE;
           d \<leftarrow> data_of_bytes (next_data sha256 c);
           let pinata_post = (account pinata)\<lparr>balance := pinata_balance, data := d\<rparr>;
           winner_balance \<leftarrow> checked_add (balance (account winner)) PRIZE;
           let winner_post = (account winner)\<lparr>balance := winner_balance\<rparr>;
           Some (program_output_new (input_self inp) (input_caller inp) words [pinata, winner]
             [new_claimed_if_default pinata_post ClaimAuthorized, post_new winner_post])
         }
       }
     | _ \<Rightarrow> None)"

end
