(* ===== verification/Blocks.thy ===== *)
theory Blocks
  imports Ledger Guests
begin

text \<open>
  Transactions and blocks of the zone (\<open>lez/common\<close>, \<open>lez/system_accounts\<close>) and the function
  that validates and applies a block (\<open>lez/chain_state/src/apply.rs\<close>).

  \<open>zone_env\<close> holds what the zone takes from other crates and from the build: the code behind the
  ledger, the Borsh encoding of block contents, the zkVM serializer of a timestamp, and the
  image ids of the built-in programs. The default build is modelled, not the \<open>testnet\<close>
  feature. Where the sources store an error as text, the model keeps the error.
\<close>

subsection \<open>Transactions and blocks\<close>

datatype lee_transaction =
    PublicTx public_transaction
  | PrivacyPreservingTx privacy_transaction
  | ProgramDeploymentTx deployment_transaction

datatype tx_kind = PublicKind | PrivacyPreservingKind | ProgramDeploymentKind

datatype transaction_malformation_error =
    InvalidSignatureError
  | FailedToDecode array32
  | TransactionTooLarge nat nat

type_synonym block_hash = array32

record block_header =
  header_block_id :: block_id
  header_prev_hash :: block_hash
  header_hash :: block_hash
  header_timestamp :: timestamp
  header_signature :: signature

record block_body =
  body_transactions :: "lee_transaction list"

datatype bedrock_status = Pending | Safe | Finalized

record block =
  block_header :: block_header
  block_body :: block_body
  bedrock_status :: bedrock_status

record hashable_block_data =
  hashable_block_id :: block_id
  hashable_prev_hash :: block_hash
  hashable_timestamp :: timestamp
  hashable_transactions :: "lee_transaction list"

record zone_env =
  zone_externals :: externals
  zone_clock_id :: program_id
  zone_faucet_id :: program_id
  zone_bridge_id :: program_id
  zone_block_bytes :: "hashable_block_data \<Rightarrow> bytes"
  zone_timestamp_words :: "timestamp \<Rightarrow> u32 list"

subsection \<open>System accounts\<close>

definition faucet_account_id :: "zone_env \<Rightarrow> account_id" where
  "faucet_account_id Z = compute_faucet_account_id (ext_sha256 (zone_externals Z)) (zone_faucet_id Z)"

definition bridge_account_id :: "zone_env \<Rightarrow> account_id" where
  "bridge_account_id Z = compute_bridge_account_id (ext_sha256 (zone_externals Z)) (zone_bridge_id Z)"

definition clock_account_ids :: "account_id list" where
  "clock_account_ids = CLOCK_PROGRAM_ACCOUNT_IDS"

subsection \<open>Transactions of the zone\<close>

fun kind :: "lee_transaction \<Rightarrow> tx_kind" where
  "kind (PublicTx _) = PublicKind"
| "kind (PrivacyPreservingTx _) = PrivacyPreservingKind"
| "kind (ProgramDeploymentTx _) = ProgramDeploymentKind"

fun tx_affected_public_account_ids :: "externals \<Rightarrow> lee_transaction \<Rightarrow> account_id set" where
  "tx_affected_public_account_ids E (ProgramDeploymentTx tx) = {}"
| "tx_affected_public_account_ids E (PublicTx tx) = affected_public_account_ids E tx"
| "tx_affected_public_account_ids E (PrivacyPreservingTx tx) = affected_public_account_ids_private E tx"

fun transaction_stateless_check ::
  "externals \<Rightarrow> lee_transaction \<Rightarrow> transaction_malformation_error + lee_transaction" where
  "transaction_stateless_check E (PublicTx tx) =
    (if witness_set_is_valid_for E (pub_witness_set tx) (pub_message tx) then Inr (PublicTx tx)
     else Inl InvalidSignatureError)"
| "transaction_stateless_check E (PrivacyPreservingTx tx) =
    (if signatures_are_valid_for E (priv_signatures tx) (priv_message tx) then Inr (PrivacyPreservingTx tx)
     else Inl InvalidSignatureError)"
| "transaction_stateless_check E (ProgramDeploymentTx tx) = Inr (ProgramDeploymentTx tx)"

fun compute_state_diff ::
  "externals \<Rightarrow> lee_transaction \<Rightarrow> v03_state \<Rightarrow> block_id \<Rightarrow> timestamp \<Rightarrow> lee_error + state_diff" where
  "compute_state_diff E (PublicTx tx) s block_id ts = from_public_transaction E tx s block_id ts"
| "compute_state_diff E (PrivacyPreservingTx tx) s block_id ts =
    from_privacy_preserving_transaction E tx s block_id ts"
| "compute_state_diff E (ProgramDeploymentTx tx) s block_id ts = from_program_deployment_transaction E tx s"

definition validate_doesnt_modify_account :: "v03_state \<Rightarrow> state_diff \<Rightarrow> account_id \<Rightarrow> lee_error + unit" where
  "validate_doesnt_modify_account s diff i =
    (case map_of (diff_public diff) i of
       Some post \<Rightarrow> if post \<noteq> get_account_by_id s i
         then Inl (InvalidInput ''Transaction modifies restricted system account'') else Inr ()
     | None \<Rightarrow> Inr ())"

definition validate_bridge_account_modification ::
  "zone_env \<Rightarrow> lee_transaction \<Rightarrow> v03_state \<Rightarrow> state_diff \<Rightarrow> lee_error + unit" where
  "validate_bridge_account_modification Z tx s diff =
    (let bridge = bridge_account_id Z; pre = get_account_by_id s bridge in
     case map_of (diff_public diff) bridge of
       None \<Rightarrow> Inr ()
     | Some post \<Rightarrow>
       if kind tx \<noteq> PublicKind
       then Inl (InvalidInput ''Non-public transaction cannot modify system bridge account'')
       else let expected_pre = post\<lparr>balance := balance pre\<rparr> in
         if expected_pre = pre \<and> balance pre < balance post then Inr ()
         else Inl (InvalidInput ''Transaction modifies restricted system bridge account''))"

definition validate_on_state ::
  "zone_env \<Rightarrow> lee_transaction \<Rightarrow> v03_state \<Rightarrow> block_id \<Rightarrow> timestamp \<Rightarrow> lee_error + state_diff" where
  "validate_on_state Z tx s block_id ts =
    and_then (compute_state_diff (zone_externals Z) tx s block_id ts) (\<lambda>diff.
    and_then (try_fold (\<lambda>_ i. validate_doesnt_modify_account s diff i) ()
      (clock_account_ids @ [faucet_account_id Z])) (\<lambda>_.
    and_then (validate_bridge_account_modification Z tx s diff) (\<lambda>_.
    Inr diff)))"

definition execute_check_on_state ::
  "zone_env \<Rightarrow> v03_state \<Rightarrow> lee_transaction \<Rightarrow> block_id \<Rightarrow> timestamp \<Rightarrow> transition_error + v03_state" where
  "execute_check_on_state Z s tx block_id ts =
    apply_validated (zone_externals Z) s (validate_on_state Z tx s block_id ts)"

definition execute_on_state ::
  "externals \<Rightarrow> v03_state \<Rightarrow> lee_transaction \<Rightarrow> block_id \<Rightarrow> timestamp \<Rightarrow> transition_error + v03_state" where
  "execute_on_state E s tx block_id ts = apply_validated E s (compute_state_diff E tx s block_id ts)"

definition clock_invocation :: "zone_env \<Rightarrow> timestamp \<Rightarrow> public_transaction" where
  "clock_invocation Z ts =
    \<lparr>pub_message = \<lparr>msg_program_id = zone_clock_id Z, msg_account_ids = CLOCK_PROGRAM_ACCOUNT_IDS,
       msg_nonces = [], msg_instruction_data = zone_timestamp_words Z ts\<rparr>,
     pub_witness_set = []\<rparr>"

subsection \<open>Hashing and signing blocks\<close>

definition compute_hash :: "zone_env \<Rightarrow> hashable_block_data \<Rightarrow> block_hash" where
  "compute_hash Z d =
    ext_sha256 (zone_externals Z) (ascii ''/LEE/v0.3/Message/Block/'' @ replicate 8 0 @ zone_block_bytes Z d)"

definition hashable_of_block :: "block \<Rightarrow> hashable_block_data" where
  "hashable_of_block b =
    \<lparr>hashable_block_id = header_block_id (block_header b), hashable_prev_hash = header_prev_hash (block_header b),
     hashable_timestamp = header_timestamp (block_header b),
     hashable_transactions = body_transactions (block_body b)\<rparr>"

definition recompute_hash :: "zone_env \<Rightarrow> block \<Rightarrow> block_hash" where
  "recompute_hash Z b = compute_hash Z (hashable_of_block b)"

definition is_signed_by :: "zone_env \<Rightarrow> block \<Rightarrow> public_key \<Rightarrow> bool" where
  "is_signed_by Z b key =
    signature_is_valid_for (zone_externals Z) (header_signature (block_header b))
      (compute_hash Z (hashable_of_block b)) key"

text \<open>\<open>sign\<close> is \<open>Signature::new\<close> with the signing key: BIP-340 signing of a digest.\<close>

definition into_pending_block ::
  "zone_env \<Rightarrow> (array32 \<Rightarrow> signature) \<Rightarrow> hashable_block_data \<Rightarrow> block" where
  "into_pending_block Z sign d =
    (let hash = compute_hash Z d in
     \<lparr>block_header = \<lparr>header_block_id = hashable_block_id d, header_prev_hash = hashable_prev_hash d,
        header_hash = hash, header_timestamp = hashable_timestamp d, header_signature = sign hash\<rparr>,
      block_body = \<lparr>body_transactions = hashable_transactions d\<rparr>, bedrock_status = Pending\<rparr>)"

subsection \<open>Applying a block\<close>

definition GENESIS_BLOCK_ID :: block_id where
  "GENESIS_BLOCK_ID = 1"

datatype block_ingest_error =
    DeserializeError string
  | UnexpectedBlockId block_id block_id
  | BrokenChainLink block_hash block_hash
  | HashMismatch block_hash block_hash
  | EmptyBlock
  | InvalidClockTransaction
  | NonPublicGenesisTransaction
  | StateTransition u64 lee_error

fun is_retryable :: "block_ingest_error \<Rightarrow> bool" where
  "is_retryable (StateTransition _ _) = True"
| "is_retryable _ = False"

text \<open>A block that is not applied is refused with an error, or its application panics.\<close>

datatype block_failure = Ingest block_ingest_error | BlockPanicked

record tip =
  tip_block_id :: block_id
  tip_hash :: block_hash

definition tip_of_block :: "block \<Rightarrow> tip" where
  "tip_of_block b = \<lparr>tip_block_id = header_block_id (block_header b), tip_hash = header_hash (block_header b)\<rparr>"

definition validate_against_tip ::
  "zone_env \<Rightarrow> tip option \<Rightarrow> block \<Rightarrow> block_failure + unit" where
  "validate_against_tip Z tip b =
    (let computed = recompute_hash Z b; h = block_header b in
     ensure (computed = header_hash h) (Ingest (HashMismatch computed (header_hash h))) (
     case tip of
       None \<Rightarrow> ensure (header_block_id h = GENESIS_BLOCK_ID)
         (Ingest (UnexpectedBlockId GENESIS_BLOCK_ID (header_block_id h))) (Inr ())
     | Some t \<Rightarrow>
       expect_some (checked_add (tip_block_id t) 1) BlockPanicked (\<lambda>expected.
       ensure (header_block_id h = expected) (Ingest (UnexpectedBlockId expected (header_block_id h))) (
       ensure (header_prev_hash h = tip_hash t) (Ingest (BrokenChainLink (tip_hash t) (header_prev_hash h))) (
       Inr ())))))"

text \<open>A failing transition is refused with the index of its transaction; a panic propagates.\<close>

fun block_failure_at :: "nat \<Rightarrow> transition_error \<Rightarrow> block_failure" where
  "block_failure_at n (Rejected e) = Ingest (StateTransition (of_nat n) e)"
| "block_failure_at n Panicked = BlockPanicked"

definition apply_user_transaction ::
  "zone_env \<Rightarrow> block_header \<Rightarrow> v03_state \<Rightarrow> nat \<times> lee_transaction \<Rightarrow> block_failure + v03_state" where
  "apply_user_transaction Z h s = (\<lambda>(tx_index, transaction).
    if header_block_id h = GENESIS_BLOCK_ID
    then (case transaction of
        PublicTx public_tx \<Rightarrow> map_err (block_failure_at tx_index)
          (transition_from_public_transaction (zone_externals Z) s public_tx (header_block_id h) (header_timestamp h))
      | _ \<Rightarrow> Inl (Ingest NonPublicGenesisTransaction))
    else map_err (block_failure_at tx_index)
      (execute_on_state (zone_externals Z) s transaction (header_block_id h) (header_timestamp h)))"

definition apply_block_to_state :: "zone_env \<Rightarrow> block \<Rightarrow> v03_state \<Rightarrow> block_failure + v03_state" where
  "apply_block_to_state Z b s =
    (let h = block_header b; txs = body_transactions (block_body b) in
     if txs = [] then Inl (Ingest EmptyBlock)
     else case last txs of
       PublicTx clock_tx \<Rightarrow>
         ensure (clock_tx = clock_invocation Z (header_timestamp h)) (Ingest InvalidClockTransaction) (
         and_then (try_fold (apply_user_transaction Z h) s (List.enumerate 0 (butlast txs))) (\<lambda>s'.
         map_err (block_failure_at (length (butlast txs)))
           (transition_from_public_transaction (zone_externals Z) s' clock_tx (header_block_id h) (header_timestamp h))))
     | _ \<Rightarrow> Inl (Ingest InvalidClockTransaction))"

definition apply_block ::
  "zone_env \<Rightarrow> tip option \<Rightarrow> block \<Rightarrow> v03_state \<Rightarrow> block_failure + v03_state" where
  "apply_block Z tip b s =
    and_then (validate_against_tip Z tip b) (\<lambda>_. apply_block_to_state Z b s)"

end
