(* ===== verification/BlockSafety.thy ===== *)
theory BlockSafety
  imports Blocks
begin

text \<open>
  What applying blocks guarantees: every block is a sequence of ledger transitions, system
  accounts are out of reach of user transactions that pass \<open>validate_on_state\<close>, a block advances
  the clock accounts, and block hashes bind the contents.
\<close>

subsection \<open>Blocks are sequences of transitions\<close>

lemma execute_on_state_step: "execute_on_state E s tx block_id ts = Inr s' \<Longrightarrow> ledger_step E s s'"
  by (cases tx)
    (auto simp: execute_on_state_def
      intro: ledger_step.intros
      simp flip: transition_from_public_transaction_def transition_from_privacy_preserving_transaction_def
        transition_from_program_deployment_transaction_def)

lemma apply_user_transaction_step:
  "apply_user_transaction Z h s x = Inr s' \<Longrightarrow> ledger_step (zone_externals Z) s s'"
  by (auto simp: apply_user_transaction_def result_simps split: prod.splits if_splits lee_transaction.splits
      intro: execute_on_state_step ledger_step.public_tx)

interpretation block_steps: invariant_step
  "\<lambda>s. (ledger_step (zone_externals Z))\<^sup>*\<^sup>* s0 s" "apply_user_transaction Z h" for Z s0 h
  by unfold_locales (blast intro: rtranclp.rtrancl_into_rtrancl apply_user_transaction_step)

lemma apply_block_to_state_cases:
  assumes "apply_block_to_state Z b s = Inr s'"
  obtains s1 where
    "body_transactions (block_body b) \<noteq> []"
    "last (body_transactions (block_body b)) = PublicTx (clock_invocation Z (header_timestamp (block_header b)))"
    "try_fold (apply_user_transaction Z (block_header b)) s
      (List.enumerate 0 (butlast (body_transactions (block_body b)))) = Inr s1"
    "transition_from_public_transaction (zone_externals Z) s1
      (clock_invocation Z (header_timestamp (block_header b)))
      (header_block_id (block_header b)) (header_timestamp (block_header b)) = Inr s'"
  using assms
  by (auto simp: apply_block_to_state_def Let_def result_simps split: if_splits lee_transaction.splits)

lemma apply_block_to_state_steps:
  assumes "apply_block_to_state Z b s = Inr s'"
  shows "(ledger_step (zone_externals Z))\<^sup>*\<^sup>* s s'"
proof -
  obtain s1 where "try_fold (apply_user_transaction Z (block_header b)) s
      (List.enumerate 0 (butlast (body_transactions (block_body b)))) = Inr s1"
      "ledger_step (zone_externals Z) s1 s'"
    by (rule apply_block_to_state_cases [OF assms]) (blast intro: ledger_step.public_tx)
  with block_steps.try_fold_inv [of Z s s] show ?thesis
    by (blast intro: rtranclp.rtrancl_into_rtrancl)
qed

lemma apply_block_cases:
  assumes "apply_block Z tip b s = Inr s'"
  shows "recompute_hash Z b = header_hash (block_header b)"
    and "case tip of None \<Rightarrow> header_block_id (block_header b) = GENESIS_BLOCK_ID
      | Some t \<Rightarrow> unat (header_block_id (block_header b)) = unat (tip_block_id t) + 1
          \<and> header_prev_hash (block_header b) = tip_hash t"
    and "apply_block_to_state Z b s = Inr s'"
  using assms
  by (auto simp: apply_block_def validate_against_tip_def Let_def result_simps checked_simps split: option.splits)

lemma apply_block_steps: "apply_block Z tip b s = Inr s' \<Longrightarrow> (ledger_step (zone_externals Z))\<^sup>*\<^sup>* s s'"
  using apply_block_cases(3) apply_block_to_state_steps by blast

lemma reachable_steps: "(ledger_step E)\<^sup>*\<^sup>* s s' \<Longrightarrow> reachable E s \<Longrightarrow> reachable E s'"
  by (induction rule: rtranclp_induct) (auto intro: reachable.step)

subsection \<open>System accounts\<close>

lemma compute_state_diff_distinct:
  assumes "compute_state_diff E tx s block_id ts = Inr diff" and "finite (dom (public_state s))"
  shows "distinct (map fst (diff_public diff))"
proof (cases tx)
  case (PublicTx ptx)
  obtain signers d where d: "run_calls E s block_id ts [initial_call s (pub_message ptx) signers] 0 [] = Inr d"
      "diff_public diff = d"
    using assms(1) PublicTx by (auto elim!: from_public_transaction_cases)
  obtain m where "(chain_step E s block_id ts)\<^sup>*\<^sup>*
      ([initial_call s (pub_message ptx) signers], 0, []) ([], m, d)"
    using run_calls_steps [OF d(1)] by blast
  from chain_steps_inv [OF this initial_call_inv [OF assms(2) refl]] d(2) show ?thesis
    by (simp add: chain_inv_def)
next
  case (PrivacyPreservingTx ptx)
  with assms(1) from_privacy_cases(1,5) [of E ptx s block_id ts diff] show ?thesis
    by (simp add: message_public_account_ids_def comp_def)
next
  case (ProgramDeploymentTx dtx)
  with assms(1) show ?thesis
    by (auto simp: from_program_deployment_transaction_def result_simps split: if_splits)
qed

lemma validate_on_state_cases:
  assumes "validate_on_state Z tx s block_id ts = Inr diff"
  shows "compute_state_diff (zone_externals Z) tx s block_id ts = Inr diff"
    and "i \<in> set clock_account_ids \<union> {faucet_account_id Z} \<Longrightarrow>
      map_of (diff_public diff) i \<in> {None, Some (get_account_by_id s i)}"
    and "case map_of (diff_public diff) (bridge_account_id Z) of None \<Rightarrow> True
      | Some post \<Rightarrow> (let pre = get_account_by_id s (bridge_account_id Z) in
          post\<lparr>balance := balance pre\<rparr> = pre \<and> balance pre < balance post)"
proof -
  have guard: "\<forall>i \<in> set is. validate_doesnt_modify_account s diff i = Inr ()"
    if "try_fold (\<lambda>_ i. validate_doesnt_modify_account s diff i) () is = Inr ()" for "is"
    using that by (induction "is") (auto simp: result_simps)
  show "compute_state_diff (zone_externals Z) tx s block_id ts = Inr diff"
    using assms by (auto simp: validate_on_state_def result_simps)
  show "map_of (diff_public diff) i \<in> {None, Some (get_account_by_id s i)}"
    if "i \<in> set clock_account_ids \<union> {faucet_account_id Z}"
  proof -
    have "validate_doesnt_modify_account s diff i = Inr ()"
      using assms that guard [of "clock_account_ids @ [faucet_account_id Z]"]
      by (auto simp: validate_on_state_def result_simps)
    then show ?thesis
      by (cases "map_of (diff_public diff) i") (auto simp: validate_doesnt_modify_account_def split: if_splits)
  qed
  show "case map_of (diff_public diff) (bridge_account_id Z) of None \<Rightarrow> True
      | Some post \<Rightarrow> (let pre = get_account_by_id s (bridge_account_id Z) in
          post\<lparr>balance := balance pre\<rparr> = pre \<and> balance pre < balance post)"
    using assms
    by (auto simp: validate_on_state_def validate_bridge_account_modification_def Let_def result_simps
        split: option.splits if_splits)
qed

lemma balance_update_fields:
  assumes "(post :: account)\<lparr>balance := x\<rparr> = pre"
  shows "program_owner post = program_owner pre" and "data post = data pre"
  using assms by (auto dest: arg_cong [where f = program_owner] arg_cong [where f = data])

definition deploys_at :: "externals \<Rightarrow> lee_transaction \<Rightarrow> account_id \<Rightarrow> bool" where
  "deploys_at E tx i \<longleftrightarrow> (\<exists>d p. tx = ProgramDeploymentTx d \<and> program_new E (dep_bytecode d) = Inr p \<and>
    account_of_program (prog_id p) = i)"

lemma compute_state_diff_program:
  "compute_state_diff E tx s block_id ts = Inr diff \<Longrightarrow> diff_program diff = Some p \<Longrightarrow>
    deploys_at E tx (account_of_program (prog_id p))"
  by (cases tx) (auto simp: deploys_at_def from_program_deployment_transaction_def result_simps
      dest: from_privacy_cases(1) elim!: from_public_transaction_cases split: if_splits)

lemma account_after_diff:
  assumes "apply_state_diff sha256 s diff = Some s'" and "distinct (map fst (diff_public diff))"
    and "\<And>p. diff_program diff = Some p \<Longrightarrow> account_of_program (prog_id p) \<noteq> i"
  defines "a \<equiv> (case map_of (diff_public diff) i of None \<Rightarrow> get_account_by_id s i | Some a \<Rightarrow> a)"
  shows "balance (get_account_by_id s' i) = balance a" and "data (get_account_by_id s' i) = data a"
    and "program_owner (get_account_by_id s' i) = program_owner a"
proof -
  obtain accounts where acc:
      "increment_nonces (write_accounts (public_state s) (diff_public diff)) (diff_signers diff) = Some accounts"
      "public_state s' i = accounts i"
    using assms(1,3) by (elim apply_state_diff_parts) (cases "diff_program diff"; fastforce)
  have "account_or_default (write_accounts (public_state s) (diff_public diff)) i = a"
    using account_or_default_write [OF assms(2)] unfolding a_def get_account_by_id_def .
  moreover have "get_account_by_id s' i = account_or_default accounts i"
    using acc(2) by (simp add: get_account_by_id_def account_or_default_def)
  ultimately show "balance (get_account_by_id s' i) = balance a" "data (get_account_by_id s' i) = data a"
      "program_owner (get_account_by_id s' i) = program_owner a"
    using increment_nonces_frame(2-4) [OF acc(1), of i] by simp_all
qed

text \<open>
  C28: A user transaction that passes \<open>execute_check_on_state\<close> leaves the system accounts alone:
  the clock and faucet accounts keep owner, data and balance, and the bridge account keeps
  owner and data and never loses balance. The guards look at the accounts that programs
  write; a deployment whose program id is the id of the account is excluded by hypothesis.
\<close>

theorem user_transaction_keeps_system_accounts:
  assumes "execute_check_on_state Z s tx block_id ts = Inr s'" and "finite (dom (public_state s))"
    and "i \<in> set clock_account_ids \<union> {faucet_account_id Z, bridge_account_id Z}"
    and "\<not> deploys_at (zone_externals Z) tx i"
  shows "program_owner (get_account_by_id s' i) = program_owner (get_account_by_id s i) \<and>
    data (get_account_by_id s' i) = data (get_account_by_id s i) \<and>
    balance (get_account_by_id s i) \<le> balance (get_account_by_id s' i) \<and>
    (i \<noteq> bridge_account_id Z \<longrightarrow> balance (get_account_by_id s' i) = balance (get_account_by_id s i))"
proof -
  obtain diff where diff: "validate_on_state Z tx s block_id ts = Inr diff"
      "apply_state_diff (ext_sha256 (zone_externals Z)) s diff = Some s'"
    using assms(1) by (auto simp: execute_check_on_state_def apply_validated_def result_simps)
  note valid = validate_on_state_cases [OF diff(1)]
  note post = account_after_diff [OF diff(2) compute_state_diff_distinct [OF valid(1) assms(2)], of i]
  have np: "account_of_program (prog_id p) \<noteq> i" if "diff_program diff = Some p" for p
    using compute_state_diff_program [OF valid(1) that] assms(4) by auto
  show ?thesis
  proof (cases "map_of (diff_public diff) i")
    case None
    then show ?thesis using post [OF np] by simp
  next
    case (Some a)
    show ?thesis
    proof (cases "i = bridge_account_id Z")
      case True
      then have "a\<lparr>balance := balance (get_account_by_id s i)\<rparr> = get_account_by_id s i"
          "balance (get_account_by_id s i) < balance a"
        using valid(3) Some by (simp_all add: Let_def)
      with balance_update_fields [OF this(1)] post [OF np] Some True show ?thesis by simp
    next
      case False
      then have "a = get_account_by_id s i" using valid(2) [of i] assms(3) Some by auto
      with post [OF np] Some show ?thesis by simp
    qed
  qed
qed

subsection \<open>The clock\<close>

text \<open>
  The executor runs the clock program: asked for the clock's program id, with a serialized
  timestamp, it returns what the guest commits, and an error when the guest panics.
\<close>

fun guest_result :: "program_output option \<Rightarrow> string + program_output" where
  "guest_result None = Inl ''Guest panicked''"
| "guest_result (Some out) = Inr out"

lemma guest_result_Inr [simp]: "guest_result r = Inr out \<longleftrightarrow> r = Some out"
  by (cases r) auto

definition executes_clock :: "guest_codecs \<Rightarrow> zone_env \<Rightarrow> bool" where
  "executes_clock G Z \<longleftrightarrow> (\<forall>elf caller pre ts.
    ext_execute (zone_externals Z) elf (zone_clock_id Z) caller pre (zone_timestamp_words Z ts)
      = guest_result (clock_main G \<lparr>input_self = zone_clock_id Z, input_caller = caller,
          input_pre_states = pre, input_instruction = ts\<rparr> (zone_timestamp_words Z ts)))"

definition clock_post :: "guest_codecs \<Rightarrow> u64 \<Rightarrow> clock_account_data \<Rightarrow> account_data \<Rightarrow> account_data" where
  "clock_post G divisor now old = (if clock_block_id now mod divisor = 0 then Data (gc_clock_bytes G now) else old)"

lemma update_if_multiple_cases:
  assumes "update_if_multiple pre n (clock_block_id now) (gc_clock_bytes G now) = Some (pre', post)"
  shows "pre' = pre" and "post = post_new ((account pre)\<lparr>data := clock_post G n now (data (account pre))\<rparr>)"
  using assms
  by (auto simp: update_if_multiple_def clock_post_def panic_simps data_of_bytes_def data_try_from_def ensure_def
      split: if_splits)

lemma clock_main_cases:
  assumes "clock_main G inp words = Some out"
  obtains a b c prev now where
    "pre_states out = [a, b, c]" "map account_id [a, b, c] = CLOCK_PROGRAM_ACCOUNT_IDS"
    "gc_clock_of_bytes G (into_inner (data (account a))) = Some prev"
    "now = \<lparr>clock_block_id = clock_block_id prev + 1, clock_timestamp = input_instruction inp\<rparr>"
    "unat (clock_block_id now) = unat (clock_block_id prev) + 1"
    "post_states out = [post_new ((account a)\<lparr>data := clock_post G 1 now (data (account a))\<rparr>),
      post_new ((account b)\<lparr>data := clock_post G 10 now (data (account b))\<rparr>),
      post_new ((account c)\<lparr>data := clock_post G 50 now (data (account c))\<rparr>)]"
    "chained_calls out = []"
proof -
  obtain a b c where abc: "input_pre_states inp = [a, b, c]"
    using assms by (auto simp: clock_main_def split: list.splits)
  obtain prev cur where run: "map account_id [a, b, c] = CLOCK_PROGRAM_ACCOUNT_IDS"
      "gc_clock_of_bytes G (into_inner (data (account a))) = Some prev"
      "checked_add (clock_block_id prev) 1 = Some cur"
    using assms abc by (auto simp: clock_main_def panic_simps CLOCK_PROGRAM_ACCOUNT_IDS_def Let_def)
  define now where "now = \<lparr>clock_block_id = cur, clock_timestamp = input_instruction inp\<rparr>"
  obtain a' b' c' x y z where upd:
      "update_if_multiple a 1 (clock_block_id now) (gc_clock_bytes G now) = Some (a', x)"
      "update_if_multiple b 10 (clock_block_id now) (gc_clock_bytes G now) = Some (b', y)"
      "update_if_multiple c 50 (clock_block_id now) (gc_clock_bytes G now) = Some (c', z)"
      "out = program_output_new (input_self inp) (input_caller inp) words [a', b', c'] [x, y, z]"
    using assms abc run(2,3) by (auto simp: clock_main_def panic_simps Let_def now_def split: prod.splits)
  have "cur = clock_block_id prev + 1" using run(3) by (auto simp: checked_add_def split: if_splits)
  moreover have "unat cur = unat (clock_block_id prev) + 1" using run(3) by (simp add: checked_add_Some)
  ultimately show thesis
    using run upd(4) update_if_multiple_cases [OF upd(1)] update_if_multiple_cases [OF upd(2)]
    update_if_multiple_cases [OF upd(3)]
    by (intro that [of a b c prev now]) (simp_all add: now_def program_output_new_def)
qed

lemma check_claims_none:
  "\<forall>post \<in> set posts. post_claim post = None \<Longrightarrow> length pres = length posts \<Longrightarrow>
    check_claims sha256 p pres posts = Inr posts"
  by (induction sha256 p pres posts rule: check_claims.induct) (auto simp: check_claim_def)

lemma clock_transition:
  assumes "executes_clock G Z"
    and "transition_from_public_transaction (zone_externals Z) s (clock_invocation Z ts) block_id ts' = Inr s'"
  obtains a b c prev now where
    "[a, b, c] = map (get_account_by_id s) CLOCK_PROGRAM_ACCOUNT_IDS"
    "gc_clock_of_bytes G (into_inner (data a)) = Some prev"
    "now = \<lparr>clock_block_id = clock_block_id prev + 1, clock_timestamp = ts\<rparr>"
    "unat (clock_block_id now) = unat (clock_block_id prev) + 1"
    "public_state s' = write_accounts (public_state s) (zip CLOCK_PROGRAM_ACCOUNT_IDS
      [a\<lparr>data := clock_post G 1 now (data a)\<rparr>, b\<lparr>data := clock_post G 10 now (data b)\<rparr>,
       c\<lparr>data := clock_post G 50 now (data c)\<rparr>])"
    "distinct CLOCK_PROGRAM_ACCOUNT_IDS"
proof -
  let ?E = "zone_externals Z" and ?tx = "clock_invocation Z ts"
  obtain diff where diff: "from_public_transaction ?E ?tx s block_id ts' = Inr diff"
      "apply_state_diff (ext_sha256 ?E) s diff = Some s'"
    using assms(2) by (auto simp: transition_from_public_transaction_def apply_validated_def result_simps)
  have dist: "distinct CLOCK_PROGRAM_ACCOUNT_IDS"
    using diff(1) distinct_card_iff [of CLOCK_PROGRAM_ACCOUNT_IDS]
    by (auto simp: from_public_transaction_def clock_invocation_def Let_def result_simps)
  obtain d where d: "run_calls ?E s block_id ts' [initial_call s (pub_message ?tx) []] 0 [] = Inr d"
      "diff = \<lparr>diff_signers = [], diff_public = d, diff_commitments = [], diff_nullifiers = [], diff_program = None\<rparr>"
    by (rule from_public_transaction_cases [OF diff(1)])
      (auto simp: authenticate_signers_iff clock_invocation_def signer_account_ids_def)
  obtain call caller where init: "initial_call s (pub_message ?tx) [] = (call, caller)" by fastforce
  then have call: "call_program_id call = zone_clock_id Z"
      "call_instruction_data call = zone_timestamp_words Z ts"
    by (auto simp: initial_call_def clock_invocation_def)
  obtain d1 calls where ex: "execute_call ?E s block_id ts' call caller [] = Inr (d1, calls)"
      "run_calls ?E s block_id ts' (calls @ []) 1 d1 = Inr d"
    using d(1) init by (auto simp: result_simps)
  obtain out posts where out: "clock_main G \<lparr>input_self = zone_clock_id Z, input_caller = caller_program caller,
        input_pre_states = call_pre_states call, input_instruction = ts\<rparr> (zone_timestamp_words Z ts) = Some out"
      "check_pre_states s [] (call_is_authorized (ext_sha256 ?E) call caller) (pre_states out) = Inr ()"
      "check_claims (ext_sha256 ?E) (zone_clock_id Z) (pre_states out) (post_states out) = Inr posts"
      "d1 = update_diff [] (zip (pre_states out) posts)"
      "calls = map (\<lambda>c. (c, next_caller (zone_clock_id Z) caller (pre_states out))) (chained_calls out)"
    using ex(1) assms(1) call
    by (auto simp: execute_call_def execute_def executes_clock_def Let_def result_simps)
  obtain a b c prev now where run: "pre_states out = [a, b, c]" "map account_id [a, b, c] = CLOCK_PROGRAM_ACCOUNT_IDS"
      "gc_clock_of_bytes G (into_inner (data (account a))) = Some prev"
      "now = \<lparr>clock_block_id = clock_block_id prev + 1, clock_timestamp = ts\<rparr>"
      "unat (clock_block_id now) = unat (clock_block_id prev) + 1"
      "post_states out = [post_new ((account a)\<lparr>data := clock_post G 1 now (data (account a))\<rparr>),
        post_new ((account b)\<lparr>data := clock_post G 10 now (data (account b))\<rparr>),
        post_new ((account c)\<lparr>data := clock_post G 50 now (data (account c))\<rparr>)]"
      "chained_calls out = []"
    by (rule clock_main_cases [OF out(1)]) simp
  have posts: "posts = post_states out"
    using out(3) run(1,6) check_claims_none [of "post_states out" "pre_states out"] by (simp add: post_new_def)
  have d1: "d = d1" using ex(2) out(5) run(7) by simp
  have ids: "account_id a \<noteq> account_id b" "account_id a \<noteq> account_id c" "account_id b \<noteq> account_id c"
    using dist run(2) by auto (metis distinct_length_2_or_more list.simps)+
  have "\<forall>x \<in> set (pre_states out). account x = get_account_by_id s (account_id x)"
    using out(2) by (simp add: check_pre_states_iff expected_pre_def)
  then have pre: "[account a, account b, account c] = map (get_account_by_id s) (map account_id [a, b, c])"
    by (simp add: run(1))
  have "d = zip CLOCK_PROGRAM_ACCOUNT_IDS (map post_account (post_states out))"
    using ids unfolding d1 out(4) posts run(1,6) by (simp add: run(2) [symmetric] post_new_def)
  moreover have "public_state s' = write_accounts (public_state s) d"
    using diff(2) by (rule apply_state_diff_parts) (simp add: d(2))
  ultimately have state: "public_state s' = write_accounts (public_state s) (zip CLOCK_PROGRAM_ACCOUNT_IDS
      [(account a)\<lparr>data := clock_post G 1 now (data (account a))\<rparr>, (account b)\<lparr>data := clock_post G 10 now (data (account b))\<rparr>,
       (account c)\<lparr>data := clock_post G 50 now (data (account c))\<rparr>])"
    by (simp add: run(6) post_new_def)
  from that [OF pre [unfolded run(2)] run(3-5) state dist] show thesis .
qed

text \<open>
  C29: A block advances the clock. When the executor runs the clock program, applying a block
  with timestamp \<open>ts\<close> ends by raising the block counter in the first clock account by one,
  without overflow, and storing \<open>ts\<close> there; the accounts for ten and fifty blocks follow at
  their multiples and keep their data otherwise, and no other account changes in that step.
\<close>

theorem block_advances_clock:
  assumes "executes_clock G Z" and "apply_block_to_state Z b s = Inr s'"
  shows "\<exists>s1 prev now.
    try_fold (apply_user_transaction Z (block_header b)) s
      (List.enumerate 0 (butlast (body_transactions (block_body b)))) = Inr s1 \<and>
    gc_clock_of_bytes G (into_inner (data (get_account_by_id s1 CLOCK_01_PROGRAM_ACCOUNT_ID))) = Some prev \<and>
    clock_timestamp now = header_timestamp (block_header b) \<and>
    unat (clock_block_id now) = unat (clock_block_id prev) + 1 \<and>
    data (get_account_by_id s' CLOCK_01_PROGRAM_ACCOUNT_ID) = Data (gc_clock_bytes G now) \<and>
    data (get_account_by_id s' CLOCK_10_PROGRAM_ACCOUNT_ID)
      = clock_post G 10 now (data (get_account_by_id s1 CLOCK_10_PROGRAM_ACCOUNT_ID)) \<and>
    data (get_account_by_id s' CLOCK_50_PROGRAM_ACCOUNT_ID)
      = clock_post G 50 now (data (get_account_by_id s1 CLOCK_50_PROGRAM_ACCOUNT_ID)) \<and>
    (\<forall>i. i \<notin> set clock_account_ids \<longrightarrow> get_account_by_id s' i = get_account_by_id s1 i)"
proof -
  obtain s1 where s1: "try_fold (apply_user_transaction Z (block_header b)) s
      (List.enumerate 0 (butlast (body_transactions (block_body b)))) = Inr s1"
      "transition_from_public_transaction (zone_externals Z) s1
        (clock_invocation Z (header_timestamp (block_header b)))
        (header_block_id (block_header b)) (header_timestamp (block_header b)) = Inr s'"
    by (rule apply_block_to_state_cases [OF assms(2)])
  obtain x y z prev now where run: "[x, y, z] = map (get_account_by_id s1) CLOCK_PROGRAM_ACCOUNT_IDS"
      "gc_clock_of_bytes G (into_inner (data x)) = Some prev"
      "now = \<lparr>clock_block_id = clock_block_id prev + 1, clock_timestamp = header_timestamp (block_header b)\<rparr>"
      "unat (clock_block_id now) = unat (clock_block_id prev) + 1"
      "public_state s' = write_accounts (public_state s1) (zip CLOCK_PROGRAM_ACCOUNT_IDS
        [x\<lparr>data := clock_post G 1 now (data x)\<rparr>, y\<lparr>data := clock_post G 10 now (data y)\<rparr>,
         z\<lparr>data := clock_post G 50 now (data z)\<rparr>])"
      "distinct CLOCK_PROGRAM_ACCOUNT_IDS"
    by (rule clock_transition [OF assms(1) s1(2)])
  have one: "clock_post G 1 now (data x) = Data (gc_clock_bytes G now)" by (simp add: clock_post_def)
  show ?thesis
    using run s1(1) one
    by (intro exI [of _ s1] exI [of _ prev] exI [of _ now])
      (auto simp: CLOCK_PROGRAM_ACCOUNT_IDS_def clock_account_ids_def get_account_by_id_def account_or_default_def)
qed

subsection \<open>Empty blocks\<close>

text \<open>
  The clock is ready: its program is deployed, it owns the three clock accounts, and the stored
  block counter can still be raised.
\<close>

definition clock_ready :: "guest_codecs \<Rightarrow> zone_env \<Rightarrow> v03_state \<Rightarrow> bool" where
  "clock_ready G Z s \<longleftrightarrow> get_program s (zone_clock_id Z) \<noteq> None \<and>
    account_of_program (zone_clock_id Z) \<noteq> DEFAULT_PROGRAM_OWNER \<and>
    (\<forall>i \<in> set clock_account_ids. program_owner (get_account_by_id s i) = account_of_program (zone_clock_id Z)) \<and>
    (\<exists>prev. gc_clock_of_bytes G (into_inner (data (get_account_by_id s CLOCK_01_PROGRAM_ACCOUNT_ID))) = Some prev \<and>
      unat (clock_block_id prev) + 1 < 2 ^ 64)"

definition clock_data_fits :: "guest_codecs \<Rightarrow> bool" where
  "clock_data_fits G \<longleftrightarrow> (\<forall>d. length (gc_clock_bytes G d) \<le> DATA_MAX_LENGTH)"

definition clock_pres :: "v03_state \<Rightarrow> account_with_metadata list" where
  "clock_pres s = map (\<lambda>i. \<lparr>account = get_account_by_id s i, is_authorized = False, account_id = i\<rparr>) clock_account_ids"

lemma update_if_multiple_fits:
  "clock_data_fits G \<Longrightarrow> update_if_multiple pre n (clock_block_id now) (gc_clock_bytes G now)
    = Some (pre, post_new ((account pre)\<lparr>data := clock_post G n now (data (account pre))\<rparr>))"
  by (auto simp: update_if_multiple_def clock_post_def clock_data_fits_def data_of_bytes_def data_try_from_def)

lemma clock_main_runs:
  assumes ready: "clock_ready G Z s" and fits: "clock_data_fits G"
  obtains posts where "clock_main G \<lparr>input_self = zone_clock_id Z, input_caller = None,
      input_pre_states = clock_pres s, input_instruction = ts\<rparr> words
      = Some (program_output_new (zone_clock_id Z) None words (clock_pres s) posts)"
    "list_all2 (\<lambda>pre post. \<exists>d. post = post_new ((account pre)\<lparr>data := d\<rparr>)) (clock_pres s) posts"
proof -
  obtain prev where prev: "gc_clock_of_bytes G (into_inner (data (get_account_by_id s CLOCK_01_PROGRAM_ACCOUNT_ID))) = Some prev"
      "checked_add (clock_block_id prev) 1 = Some (clock_block_id prev + 1)"
    using ready by (auto simp: clock_ready_def checked_add_def)
  define now where "now = \<lparr>clock_block_id = clock_block_id prev + 1, clock_timestamp = ts\<rparr>"
  have now: "clock_block_id prev + 1 = clock_block_id now" "\<lparr>clock_block_id = clock_block_id now, clock_timestamp = ts\<rparr> = now"
    by (simp_all add: now_def)
  show thesis
    by (rule that [of "map (\<lambda>(pre, n). post_new ((account pre)\<lparr>data := clock_post G n now (data (account pre))\<rparr>))
        (zip (clock_pres s) [1, 10, 50])"])
      (use ready prev in \<open>auto simp: clock_main_def clock_pres_def clock_account_ids_def CLOCK_PROGRAM_ACCOUNT_IDS_def
        clock_ready_def Let_def now update_if_multiple_fits [OF fits]\<close>)
qed

lemma clock_output_valid:
  assumes ready: "clock_ready G Z s" and dist: "distinct clock_account_ids"
    and posts: "list_all2 (\<lambda>pre post. \<exists>d. post = post_new ((account pre)\<lparr>data := d\<rparr>)) (clock_pres s) posts"
  shows "validate_execution (clock_pres s) posts (zone_clock_id Z) = Inr ()"
proof -
  have owned: "program_owner (account pre) = account_of_program (zone_clock_id Z)" if "pre \<in> set (clock_pres s)" for pre
    using ready that by (auto simp: clock_pres_def clock_ready_def)
  have "list_all2 (well_behaved (zone_clock_id Z)) (clock_pres s) posts"
    using posts ready owned
    by (auto simp: list_all2_conv_all_nth well_behaved_def post_new_def clock_ready_def)
  moreover have "(\<Sum>a\<leftarrow>clock_pres s. unat (balance (account a))) = (\<Sum>b\<leftarrow>posts. unat (balance (post_account b)))"
    using posts by (intro sum_list_map_of_nat_cong) (auto simp: list_all2_conv_all_nth post_new_def)
  moreover have "(\<Sum>a\<leftarrow>clock_pres s. unat (balance (account a))) < 2 ^ 256"
  proof -
    have "unat (balance (account a)) < 2 ^ 128" for a :: account_with_metadata
      using unsigned_less [of "balance (account a)", where 'a = nat] by simp
    from this [of "clock_pres s ! 0"] this [of "clock_pres s ! 1"] this [of "clock_pres s ! 2"]
    show ?thesis by (simp add: clock_pres_def clock_account_ids_def CLOCK_PROGRAM_ACCOUNT_IDS_def)
  qed
  ultimately show ?thesis using dist by (simp add: validate_execution_Inr clock_pres_def comp_def)
qed

lemma update_new: "i \<notin> fst ` set d \<Longrightarrow> AList.update i v d = d @ [(i, v)]"
  by (induction d) auto

lemma update_diff_fresh:
  "distinct (map fst d @ map (account_id \<circ> fst) xs) \<Longrightarrow>
    update_diff d xs = d @ map (\<lambda>(pre, post). (account_id pre, post_account post)) xs"
proof (induction d xs rule: update_diff.induct)
  case (2 d pre post rest)
  have "AList.update (account_id pre) (post_account post) d = d @ [(account_id pre, post_account post)]"
    using "2.prems" by (intro update_new) auto
  with 2 show ?case by simp
qed simp

lemma clock_call_applies:
  assumes ex: "executes_clock G Z" and ready: "clock_ready G Z s" and fits: "clock_data_fits G"
    and dist: "distinct clock_account_ids"
  obtains d where
    "run_calls (zone_externals Z) s block_id ts' [initial_call s (pub_message (clock_invocation Z ts)) []] 0 [] = Inr d"
    "map fst d = clock_account_ids"
    "\<forall>(i, a) \<in> set d. program_owner a = account_of_program (zone_clock_id Z) \<and> i \<in> set clock_account_ids"
proof -
  let ?E = "zone_externals Z" and ?words = "zone_timestamp_words Z ts" and ?p = "zone_clock_id Z"
  obtain posts where out: "clock_main G \<lparr>input_self = ?p, input_caller = None,
        input_pre_states = clock_pres s, input_instruction = ts\<rparr> ?words
        = Some (program_output_new ?p None ?words (clock_pres s) posts)"
      "list_all2 (\<lambda>pre post. \<exists>d. post = post_new ((account pre)\<lparr>data := d\<rparr>)) (clock_pres s) posts"
    by (rule clock_main_runs [OF ready fits])
  obtain code where code: "get_program s ?p = Some code" using ready by (auto simp: clock_ready_def)
  define call where "call = \<lparr>call_program_id = ?p, call_pre_states = clock_pres s,
    call_instruction_data = ?words, call_pda_seeds = []\<rparr>"
  define caller where "caller = \<lparr>caller_program = None, authorized_accounts = {}\<rparr>"
  have init: "initial_call s (pub_message (clock_invocation Z ts)) [] = (call, caller)"
    by (simp add: initial_call_def clock_invocation_def call_def caller_def clock_pres_def clock_account_ids_def)
  have pres: "check_pre_states s [] (call_is_authorized (ext_sha256 ?E) call caller) (clock_pres s) = Inr ()"
    by (auto simp: check_pre_states_iff expected_pre_def clock_pres_def call_is_authorized_def call_def caller_def
        compute_public_authorized_pdas_def)
  have owned: "program_owner (account pre) = account_of_program ?p" if "pre \<in> set (clock_pres s)" for pre
    using ready that by (auto simp: clock_pres_def clock_ready_def)
  have valid: "validate_execution (clock_pres s) posts ?p = Inr ()"
    by (rule clock_output_valid [OF ready dist out(2)])
  have len: "length (clock_pres s) = length posts" using out(2) by (rule list_all2_lengthD)
  have claims: "check_claims (ext_sha256 ?E) ?p (clock_pres s) posts = Inr posts"
    using out(2) len by (intro check_claims_none) (force simp: list_all2_conv_all_nth in_set_conv_nth post_new_def)+
  have "execute_call ?E s block_id ts' call caller [] = Inr (update_diff [] (zip (clock_pres s) posts), [])"
    using code ex out(1) pres valid claims
    by (simp add: execute_call_def execute_def executes_clock_def call_def [THEN arg_cong, of call_program_id]
        call_def [THEN arg_cong, of call_instruction_data] call_def [THEN arg_cong, of call_pre_states]
        caller_def [THEN arg_cong, of caller_program] program_output_new_def new_unbounded_def is_valid_for_def)
  moreover have "update_diff [] (zip (clock_pres s) posts) = zip clock_account_ids (map post_account posts)"
  proof -
    have "map (account_id \<circ> fst) (zip (clock_pres s) posts) = clock_account_ids"
      using len by (simp flip: map_map) (simp add: clock_pres_def comp_def)
    with dist have "update_diff [] (zip (clock_pres s) posts)
        = map (\<lambda>(pre, post). (account_id pre, post_account post)) (zip (clock_pres s) posts)"
      using update_diff_fresh [of "[]" "zip (clock_pres s) posts"] by simp
    also have "\<dots> = zip (map account_id (clock_pres s)) (map post_account posts)" by (simp add: zip_map_map)
    finally show ?thesis by (simp add: clock_pres_def comp_def)
  qed
  ultimately have "run_calls ?E s block_id ts' [initial_call s (pub_message (clock_invocation Z ts)) []] 0 []
      = Inr (zip clock_account_ids (map post_account posts))"
    unfolding init by simp
  then show thesis
  proof (rule that)
    show "map fst (zip clock_account_ids (map post_account posts)) = clock_account_ids"
      using len by (simp add: clock_pres_def)
    show "\<forall>(i, a) \<in> set (zip clock_account_ids (map post_account posts)).
        program_owner a = account_of_program ?p \<and> i \<in> set clock_account_ids"
      using out(2) owned by (force simp: list_all2_conv_all_nth in_set_zip post_new_def dest: set_zip_leftD)
  qed
qed

lemma clock_only_block_applies:
  assumes "executes_clock G Z" and "clock_ready G Z s" and "clock_data_fits G" and "distinct clock_account_ids"
    and "state_inv (ext_sha256 (zone_externals Z)) s vs" and "validate_against_tip Z tip b = Inr ()"
    and "body_transactions (block_body b) = [PublicTx (clock_invocation Z (header_timestamp (block_header b)))]"
  shows "\<exists>s'. apply_block Z tip b s = Inr s' \<and>
    (\<forall>i \<in> set clock_account_ids. program_owner (get_account_by_id s' i) = account_of_program (zone_clock_id Z))"
proof -
  let ?E = "zone_externals Z" and ?tx = "clock_invocation Z (header_timestamp (block_header b))"
  let ?id = "header_block_id (block_header b)" and ?ts = "header_timestamp (block_header b)"
  obtain d where d: "run_calls ?E s ?id ?ts [initial_call s (pub_message ?tx) []] 0 [] = Inr d"
      "map fst d = clock_account_ids"
      "\<forall>(i, a) \<in> set d. program_owner a = account_of_program (zone_clock_id Z) \<and> i \<in> set clock_account_ids"
    by (rule clock_call_applies [OF assms(1-4)])
  have keys: "fst ` set d = set clock_account_ids" using d(2) by (metis set_map)
  have "check_modified_default_accounts s d = Inr ()"
    using d(3) assms(2) by (auto simp: check_modified_default_accounts_iff clock_ready_def)
  moreover have "check_declared_accounts d clock_account_ids = Inr ()"
    using keys by (simp add: check_declared_accounts_iff)
  moreover have "authenticate_public_transaction_signers ?E ?tx s = Inr []"
    by (simp add: authenticate_signers_iff clock_invocation_def witness_set_is_valid_for_def signer_account_ids_def)
  moreover have "card (set clock_account_ids) = length clock_account_ids" using assms(4) by (rule distinct_card)
  moreover have "msg_account_ids (pub_message ?tx) = clock_account_ids" "clock_account_ids \<noteq> []"
    by (simp_all add: clock_invocation_def clock_account_ids_def CLOCK_PROGRAM_ACCOUNT_IDS_def)
  ultimately have diff: "from_public_transaction ?E ?tx s ?id ?ts = Inr \<lparr>diff_signers = [], diff_public = d,
      diff_commitments = [], diff_nullifiers = [], diff_program = None\<rparr>"
    using d(1) by (simp add: from_public_transaction_def del: run_calls.simps)
  obtain cs where "extend_commitments (ext_sha256 ?E) (private_commitments s) [] = Some cs"
    using extend_with_nothing [OF assms(5)] by blast
  then obtain s' where s': "transition_from_public_transaction ?E s ?tx ?id ?ts = Inr s'"
      "public_state s' = write_accounts (public_state s) d"
    by (simp add: transition_from_public_transaction_def apply_validated_def diff apply_state_diff_def)
  have "program_owner (get_account_by_id s' i) = account_of_program (zone_clock_id Z)"
    if i: "i \<in> set clock_account_ids" for i
  proof -
    have dd: "distinct (map fst d)" using d(2) assms(4) by simp
    obtain a where a: "map_of d i = Some a" using i keys by (metis map_of_eq_None_iff not_Some_eq)
    then show ?thesis
      using d(3) by (auto simp: get_account_by_id_def s'(2) account_or_default_write [OF dd] dest: map_of_SomeD)
  qed
  moreover have "apply_block Z tip b s = Inr s'"
    using s'(1) assms(6,7) by (simp add: apply_block_def apply_block_to_state_def)
  ultimately show ?thesis by blast
qed

text \<open>
  C30: An empty block can always be appended. When the clock is ready and the block is a valid
  continuation of the tip that carries only the clock invocation for its timestamp, it is
  applied, with neither an error nor a panic, and the clock still belongs to its program.
\<close>

theorem empty_block_applies:
  assumes "executes_clock G Z" and "clock_ready G Z s" and "clock_data_fits G" and "distinct clock_account_ids"
    and "state_inv (ext_sha256 (zone_externals Z)) s vs" and "validate_against_tip Z tip b = Inr ()"
    and "body_transactions (block_body b) = [PublicTx (clock_invocation Z (header_timestamp (block_header b)))]"
  shows "\<exists>s'. apply_block Z tip b s = Inr s' \<and>
    (\<forall>i \<in> set clock_account_ids. program_owner (get_account_by_id s' i) = account_of_program (zone_clock_id Z))"
  by (rule clock_only_block_applies [OF assms])

end
