(* ===== verification/ChainState.thy ===== *)
theory ChainState
  imports BlockSafety "HOL-Library.Monad_Syntax"
begin

text \<open>
  The two-tier chain state (\<open>lez/chain_state/src/chain.rs\<close>): a head that can be reorganized over
  an irreversible final tier. Operations that can panic, through an \<open>expect\<close> or while a block
  is applied, return an option and \<open>None\<close> is the panic.
\<close>

subsection \<open>Data\<close>

type_synonym msg_id = array32
type_synonym slot = u64

record stall_reason =
  stall_block_id :: "block_id option"
  stall_block_hash :: "block_hash option"
  stall_prev_hash :: "block_hash option"
  stall_l1_slot :: slot
  stall_error :: block_ingest_error
  stall_first_seen :: "timestamp option"
  stall_orphans_since :: u64

definition stall_reason_new :: "block_header option \<Rightarrow> slot \<Rightarrow> block_ingest_error \<Rightarrow> stall_reason" where
  "stall_reason_new header l1_slot e =
    \<lparr>stall_block_id = map_option header_block_id header, stall_block_hash = map_option header_hash header,
     stall_prev_hash = map_option header_prev_hash header, stall_l1_slot = l1_slot, stall_error = e,
     stall_first_seen = map_option header_timestamp header, stall_orphans_since = 0\<rparr>"

definition escalate :: "stall_reason \<Rightarrow> stall_reason" where
  "escalate r = r\<lparr>stall_orphans_since := saturating_add (stall_orphans_since r) 1\<rparr>"

datatype accept_outcome =
    Applied
  | AlreadyApplied
  | Parked block_ingest_error
  | RetryableFailure block_ingest_error

record head_entry =
  entry_msg :: msg_id
  entry_block :: block

record chain_state =
  final_state :: v03_state
  final_tip :: "tip option"
  final_stall :: "stall_reason option"
  head_state :: v03_state
  head_blocks :: "head_entry list"

definition from_final :: "v03_state \<Rightarrow> tip option \<Rightarrow> chain_state" where
  "from_final s t = \<lparr>final_state = s, final_tip = t, final_stall = None, head_state = s, head_blocks = []\<rparr>"

definition chain_state_new :: "v03_state \<Rightarrow> chain_state" where
  "chain_state_new initial_state = from_final initial_state None"

definition head_tip :: "chain_state \<Rightarrow> tip option" where
  "head_tip cs = (if head_blocks cs = [] then final_tip cs
    else Some (tip_of_block (entry_block (last (head_blocks cs)))))"

definition head_position_of :: "chain_state \<Rightarrow> msg_id \<Rightarrow> block \<Rightarrow> nat option" where
  "head_position_of cs this_msg b = position (\<lambda>entry.
    header_block_id (block_header (entry_block entry)) = header_block_id (block_header b) \<and>
    (entry_msg entry = this_msg \<or> header_hash (block_header (entry_block entry)) = header_hash (block_header b)))
    (head_blocks cs)"

subsection \<open>Replaying head blocks\<close>

fun replay_blocks :: "zone_env \<Rightarrow> v03_state \<Rightarrow> tip option \<Rightarrow> block list \<Rightarrow> (v03_state \<times> tip option) option" where
  "replay_blocks Z s t [] = Some (s, t)"
| "replay_blocks Z s t (b # bs) =
    (case apply_block Z t b s of Inl _ \<Rightarrow> None | Inr s' \<Rightarrow> replay_blocks Z s' (Some (tip_of_block b)) bs)"

definition replay_head_prefix :: "zone_env \<Rightarrow> chain_state \<Rightarrow> nat \<Rightarrow> (v03_state \<times> tip option) option" where
  "replay_head_prefix Z cs count = do {
    assert_that (count \<le> length (head_blocks cs));
    replay_blocks Z (final_state cs) (final_tip cs) (map entry_block (take count (head_blocks cs)))
  }"

definition rederive_head :: "zone_env \<Rightarrow> chain_state \<Rightarrow> chain_state option" where
  "rederive_head Z cs = do {
    (s, _) \<leftarrow> replay_head_prefix Z cs (length (head_blocks cs));
    Some (cs\<lparr>head_state := s\<rparr>)
  }"

subsection \<open>The head\<close>

definition before_final :: "chain_state \<Rightarrow> block \<Rightarrow> bool" where
  "before_final cs b = (case final_tip cs of None \<Rightarrow> False
    | Some t \<Rightarrow> header_block_id (block_header b) \<le> tip_block_id t)"

definition apply_adopted :: "zone_env \<Rightarrow> chain_state \<Rightarrow> msg_id \<Rightarrow> block \<Rightarrow> (accept_outcome \<times> chain_state) option" where
  "apply_adopted Z cs this_msg b =
    (if head_position_of cs this_msg b \<noteq> None then Some (AlreadyApplied, cs)
     else if before_final cs b then Some (AlreadyApplied, cs)
     else do {
       let reorg_at = position (\<lambda>entry.
         header_block_id (block_header (entry_block entry)) \<ge> header_block_id (block_header b)) (head_blocks cs);
       (scratch, tip) \<leftarrow> (case reorg_at of
           None \<Rightarrow> Some (head_state cs, head_tip cs)
         | Some idx \<Rightarrow> replay_head_prefix Z cs idx);
       case apply_block Z tip b scratch of
         Inr scratch' \<Rightarrow>
           let kept = (case reorg_at of None \<Rightarrow> head_blocks cs | Some idx \<Rightarrow> take idx (head_blocks cs)) in
           Some (Applied, cs\<lparr>head_state := scratch',
             head_blocks := kept @ [\<lparr>entry_msg = this_msg, entry_block = b\<rparr>]\<rparr>)
       | Inl (Ingest e) \<Rightarrow> Some (Parked e, cs)
       | Inl BlockPanicked \<Rightarrow> None
     })"

definition apply_produced :: "zone_env \<Rightarrow> chain_state \<Rightarrow> msg_id \<Rightarrow> block \<Rightarrow> (accept_outcome \<times> chain_state) option" where
  "apply_produced Z cs this_msg b =
    (if (case head_tip cs of None \<Rightarrow> False | Some t \<Rightarrow> header_block_id (block_header b) \<le> tip_block_id t)
     then Some (AlreadyApplied, cs) else apply_adopted Z cs this_msg b)"

definition revert_orphan :: "zone_env \<Rightarrow> chain_state \<Rightarrow> msg_id \<Rightarrow> block \<Rightarrow> chain_state option" where
  "revert_orphan Z cs this_msg b =
    (case head_position_of cs this_msg b of
       None \<Rightarrow> Some cs
     | Some idx \<Rightarrow> rederive_head Z (cs\<lparr>head_blocks := take idx (head_blocks cs)\<rparr>))"

fun apply_all_adopted ::
  "zone_env \<Rightarrow> chain_state \<Rightarrow> (msg_id \<times> block) list \<Rightarrow> (accept_outcome list \<times> chain_state) option" where
  "apply_all_adopted Z cs [] = Some ([], cs)"
| "apply_all_adopted Z cs ((msg, b) # rest) = do {
    (outcome, cs') \<leftarrow> apply_adopted Z cs msg b;
    (outcomes, cs'') \<leftarrow> apply_all_adopted Z cs' rest;
    Some (outcome # outcomes, cs'')
  }"

definition min_position :: "nat list \<Rightarrow> nat option" where
  "min_position xs = (if xs = [] then None else Some (Min (set xs)))"

definition apply_channel_update ::
  "zone_env \<Rightarrow> chain_state \<Rightarrow> (msg_id \<times> block) list \<Rightarrow> (msg_id \<times> block) list
    \<Rightarrow> (accept_outcome list \<times> chain_state) option" where
  "apply_channel_update Z cs orphaned adopted = do {
    let earliest = min_position (List.map_filter (\<lambda>(msg, b). head_position_of cs msg b) orphaned);
    cs' \<leftarrow> (case earliest of
        None \<Rightarrow> Some cs
      | Some idx \<Rightarrow> rederive_head Z (cs\<lparr>head_blocks := take idx (head_blocks cs)\<rparr>));
    apply_all_adopted Z cs' adopted
  }"

text \<open>
  A persisted block is applied to the head in place; the caller treats an error as fatal, so
  only the success returns a state. The message id of the entry is a sentinel.
\<close>

definition restore_head_block :: "zone_env \<Rightarrow> chain_state \<Rightarrow> block \<Rightarrow> block_failure + chain_state" where
  "restore_head_block Z cs b =
    and_then (apply_block Z (head_tip cs) b (head_state cs)) (\<lambda>s.
    Inr (cs\<lparr>head_state := s, head_blocks := head_blocks cs @
      [\<lparr>entry_msg = header_hash (block_header b), entry_block = b\<rparr>]\<rparr>))"

subsection \<open>The final tier\<close>

definition finalize_through :: "zone_env \<Rightarrow> chain_state \<Rightarrow> nat \<Rightarrow> chain_state option" where
  "finalize_through Z cs idx = do {
    assert_that (idx < length (head_blocks cs));
    (s, t) \<leftarrow> replay_blocks Z (final_state cs) (final_tip cs)
      (map entry_block (take (Suc idx) (head_blocks cs)));
    Some (cs\<lparr>final_state := s, final_tip := t, final_stall := None,
      head_blocks := drop (Suc idx) (head_blocks cs)\<rparr>)
  }"

definition record_final_stall :: "chain_state \<Rightarrow> block \<Rightarrow> slot \<Rightarrow> block_ingest_error \<Rightarrow> chain_state" where
  "record_final_stall cs b l1_slot e =
    cs\<lparr>final_stall := Some (case final_stall cs of
        None \<Rightarrow> stall_reason_new (Some (block_header b)) l1_slot e
      | Some r \<Rightarrow> escalate r)\<rparr>"

definition finalized_redelivery :: "chain_state \<Rightarrow> block \<Rightarrow> bool" where
  "finalized_redelivery cs b = (case final_tip cs of None \<Rightarrow> False
    | Some t \<Rightarrow> header_block_id (block_header b) < tip_block_id t \<or>
        (header_block_id (block_header b) = tip_block_id t \<and> header_hash (block_header b) = tip_hash t))"

definition apply_finalized_direct ::
  "zone_env \<Rightarrow> chain_state \<Rightarrow> block \<Rightarrow> slot \<Rightarrow> (accept_outcome \<times> chain_state) option" where
  "apply_finalized_direct Z cs b l1_slot =
    (if finalized_redelivery cs b then Some (AlreadyApplied, cs)
     else case apply_block Z (final_tip cs) b (final_state cs) of
       Inr scratch \<Rightarrow> Some (Applied, cs\<lparr>final_state := scratch, final_tip := Some (tip_of_block b),
         final_stall := None, head_blocks := [], head_state := scratch\<rparr>)
     | Inl (Ingest e) \<Rightarrow> Some (Parked e, record_final_stall cs b l1_slot e)
     | Inl BlockPanicked \<Rightarrow> None)"

definition apply_finalized ::
  "zone_env \<Rightarrow> chain_state \<Rightarrow> msg_id \<Rightarrow> block \<Rightarrow> slot \<Rightarrow> (accept_outcome \<times> chain_state) option" where
  "apply_finalized Z cs this_msg b l1_slot =
    (case head_position_of cs this_msg b of
       Some idx \<Rightarrow> map_option (\<lambda>cs'. (Applied, cs')) (finalize_through Z cs idx)
     | None \<Rightarrow> do {
         cs' \<leftarrow> (case position (\<lambda>entry. header_hash (block_header (entry_block entry))
               = header_prev_hash (block_header b)) (head_blocks cs) of
             Some idx \<Rightarrow> finalize_through Z cs idx
           | None \<Rightarrow> Some cs);
         apply_finalized_direct Z cs' b l1_slot
       })"

end
