(* ===== verification/ChainSafety.thy ===== *)
theory ChainSafety
  imports ChainState
begin

text \<open>
  The chain state refines a linear chain of validated blocks: the final tier is the replay of a
  list of blocks that only grows, and the head is the replay of a list that extends it.
\<close>

subsection \<open>Replay\<close>

lemma replay_append:
  "replay_blocks Z s t (xs @ ys) = Option.bind (replay_blocks Z s t xs) (\<lambda>(s', t'). replay_blocks Z s' t' ys)"
  by (induction xs arbitrary: s t) (auto split: sum.splits)

lemma replay_tip:
  "replay_blocks Z s t bs = Some (s', t') \<Longrightarrow> t' = (if bs = [] then t else Some (tip_of_block (last bs)))"
  by (induction bs arbitrary: s t) (auto split: sum.splits if_splits)

lemma replay_steps:
  "replay_blocks Z s t bs = Some (s', t') \<Longrightarrow> (ledger_step (zone_externals Z))\<^sup>*\<^sup>* s s'"
  by (induction bs arbitrary: s t) (auto split: sum.splits dest: apply_block_steps intro: rtranclp_trans)

lemma replay_prefix:
  assumes "replay_blocks Z s t bs = Some r"
  obtains s' t' where "replay_blocks Z s t (take n bs) = Some (s', t')" "replay_blocks Z s' t' (drop n bs) = Some r"
  using assms replay_append [of Z s t "take n bs" "drop n bs"] by (auto split: bind_splits prod.splits)

text \<open>The documented relation between the tiers, and the chain behind the final tier.\<close>

definition chain_ok :: "zone_env \<Rightarrow> chain_state \<Rightarrow> bool" where
  "chain_ok Z cs \<longleftrightarrow> replay_blocks Z (final_state cs) (final_tip cs) (map entry_block (head_blocks cs))
    = Some (head_state cs, head_tip cs)"

lemma chain_okI:
  "replay_blocks Z (final_state cs) (final_tip cs) (map entry_block (head_blocks cs)) = Some (head_state cs, t)
    \<Longrightarrow> chain_ok Z cs"
  using replay_tip [of Z "final_state cs" "final_tip cs" "map entry_block (head_blocks cs)" "head_state cs" t]
  by (auto simp: chain_ok_def head_tip_def last_map)

lemma from_final_ok: "chain_ok Z (from_final s t)"
  by (simp add: chain_ok_def from_final_def head_tip_def)

lemma replay_head_prefix_ok:
  assumes "chain_ok Z cs" and "n \<le> length (head_blocks cs)"
  obtains s t where "replay_head_prefix Z cs n = Some (s, t)"
    "replay_blocks Z (final_state cs) (final_tip cs) (map entry_block (take n (head_blocks cs))) = Some (s, t)"
proof -
  from assms(1) obtain s t where "replay_blocks Z (final_state cs) (final_tip cs)
      (take n (map entry_block (head_blocks cs))) = Some (s, t)"
    unfolding chain_ok_def by (rule replay_prefix)
  with assms(2) that show thesis by (simp add: replay_head_prefix_def take_map)
qed

lemma truncate_head_ok:
  assumes "chain_ok Z cs"
  obtains cs' where "rederive_head Z (cs\<lparr>head_blocks := take n (head_blocks cs)\<rparr>) = Some cs'" "chain_ok Z cs'"
    "final_state cs' = final_state cs" "final_tip cs' = final_tip cs" "final_stall cs' = final_stall cs"
    "head_blocks cs' = take n (head_blocks cs)"
proof -
  let ?k = "min n (length (head_blocks cs))"
  obtain s t where st: "replay_blocks Z (final_state cs) (final_tip cs)
      (map entry_block (take ?k (head_blocks cs))) = Some (s, t)"
    by (rule replay_head_prefix_ok [OF assms, of ?k]) simp
  have "take ?k (head_blocks cs) = take n (head_blocks cs)" by (simp add: min_def)
  with st have run: "replay_blocks Z (final_state cs) (final_tip cs)
      (map entry_block (take n (head_blocks cs))) = Some (s, t)" by simp
  let ?cs' = "cs\<lparr>head_blocks := take n (head_blocks cs), head_state := s\<rparr>"
  have "rederive_head Z (cs\<lparr>head_blocks := take n (head_blocks cs)\<rparr>) = Some ?cs'"
    using run by (cases "length (head_blocks cs) \<le> n") (simp_all add: rederive_head_def replay_head_prefix_def)
  moreover have "chain_ok Z ?cs'" using run by (intro chain_okI [of _ _ t]) simp
  ultimately show thesis by (rule that) simp_all
qed

subsection \<open>Operations on the head\<close>

lemma position_less: "position P xs = Some n \<Longrightarrow> n < length xs"
  using position_Some by blast

text \<open>
  How many head blocks stay under an adopted block, and how many become final under a finalized
  block that is not in the head.
\<close>

definition kept_under :: "chain_state \<Rightarrow> block \<Rightarrow> nat" where
  "kept_under cs b =
    (case position (\<lambda>entry. header_block_id (block_header (entry_block entry)) \<ge> header_block_id (block_header b))
        (head_blocks cs) of
       None \<Rightarrow> length (head_blocks cs)
     | Some idx \<Rightarrow> idx)"

definition final_under :: "chain_state \<Rightarrow> block \<Rightarrow> nat" where
  "final_under cs b =
    (case position (\<lambda>entry. header_hash (block_header (entry_block entry)) = header_prev_hash (block_header b))
        (head_blocks cs) of
       None \<Rightarrow> 0
     | Some idx \<Rightarrow> Suc idx)"

definition head_prefix :: "chain_state \<Rightarrow> nat \<Rightarrow> block list" where
  "head_prefix cs n = map entry_block (take n (head_blocks cs))"

lemma under_length: "kept_under cs b \<le> length (head_blocks cs)" "final_under cs b \<le> length (head_blocks cs)"
  by (auto simp: kept_under_def final_under_def Suc_le_eq split: option.splits dest!: position_less)

lemma head_prefix_replays:
  assumes "chain_ok Z cs" and "n \<le> length (head_blocks cs)"
  shows "\<exists>s t. replay_blocks Z (final_state cs) (final_tip cs) (head_prefix cs n) = Some (s, t)"
  by (rule replay_head_prefix_ok [OF assms]) (simp add: head_prefix_def)

lemma apply_adopted_eq:
  assumes ok: "chain_ok Z cs" and new: "head_position_of cs msg b = None" "\<not> before_final cs b"
    and st: "replay_blocks Z (final_state cs) (final_tip cs) (head_prefix cs (kept_under cs b)) = Some (s, t)"
  shows "apply_adopted Z cs msg b = (case apply_block Z t b s of
        Inr scratch' \<Rightarrow> Some (Applied, cs\<lparr>head_state := scratch',
          head_blocks := take (kept_under cs b) (head_blocks cs) @ [\<lparr>entry_msg = msg, entry_block = b\<rparr>]\<rparr>)
      | Inl (Ingest e) \<Rightarrow> Some (Parked e, cs) | Inl BlockPanicked \<Rightarrow> None)"
proof -
  define at where "at = position (\<lambda>entry.
    header_block_id (block_header (entry_block entry)) \<ge> header_block_id (block_header b)) (head_blocks cs)"
  have n: "kept_under cs b = (case at of None \<Rightarrow> length (head_blocks cs) | Some i \<Rightarrow> i)"
    by (simp add: kept_under_def at_def)
  have "replay_head_prefix Z cs (kept_under cs b) = Some (s, t)"
    by (rule replay_head_prefix_ok [OF ok under_length(1), of b]) (use st in \<open>simp add: head_prefix_def\<close>)
  then have base: "(case at of None \<Rightarrow> Some (head_state cs, head_tip cs) | Some idx \<Rightarrow> replay_head_prefix Z cs idx) = Some (s, t)"
    using st ok by (cases at) (simp_all add: n head_prefix_def chain_ok_def)
  have kept: "(case at of None \<Rightarrow> head_blocks cs | Some idx \<Rightarrow> take idx (head_blocks cs)) = take (kept_under cs b) (head_blocks cs)"
    by (cases at) (simp_all add: n)
  show ?thesis
    using new base by (cases "apply_block Z t b s") (simp_all add: apply_adopted_def Let_def kept flip: at_def)
qed

lemma apply_adopted_known:
  "head_position_of cs msg b \<noteq> None \<or> before_final cs b \<Longrightarrow> apply_adopted Z cs msg b = Some (AlreadyApplied, cs)"
  by (cases "head_position_of cs msg b") (auto simp: apply_adopted_def)

lemma apply_adopted_cases:
  assumes ok: "chain_ok Z cs" and run: "apply_adopted Z cs msg b = Some (outcome, cs')"
  obtains (same) "cs' = cs" "outcome \<noteq> Applied"
  | (applied) n s t where "outcome = Applied" "head_position_of cs msg b = None" "\<not> before_final cs b"
      "apply_block Z t b s = Inr (head_state cs')"
      "replay_blocks Z (final_state cs) (final_tip cs) (map entry_block (take n (head_blocks cs))) = Some (s, t)"
      "head_blocks cs' = take n (head_blocks cs) @ [\<lparr>entry_msg = msg, entry_block = b\<rparr>]"
      "final_state cs' = final_state cs" "final_tip cs' = final_tip cs" "final_stall cs' = final_stall cs"
proof (cases "head_position_of cs msg b \<noteq> None \<or> before_final cs b")
  case True
  with run apply_adopted_known show thesis by (intro same) simp_all
next
  case False
  then have new: "head_position_of cs msg b = None" "\<not> before_final cs b" by simp_all
  obtain s t where st: "replay_blocks Z (final_state cs) (final_tip cs) (head_prefix cs (kept_under cs b)) = Some (s, t)"
    using head_prefix_replays [OF ok under_length(1)] by blast
  show thesis
    using run new st [unfolded head_prefix_def]
    by (auto simp: apply_adopted_eq [OF ok new st] split: sum.splits block_failure.splits intro: same applied)
qed

lemma apply_adopted_ok:
  assumes ok: "chain_ok Z cs" and run: "apply_adopted Z cs msg b = Some (outcome, cs')"
  shows "chain_ok Z cs' \<and> final_state cs' = final_state cs \<and> final_tip cs' = final_tip cs"
  using assms
proof (cases rule: apply_adopted_cases)
  case same
  with ok show ?thesis by simp
next
  case (applied n s t)
  then have "chain_ok Z cs'"
    by (intro chain_okI [of _ _ "Some (tip_of_block b)"]) (simp add: replay_append)
  with applied show ?thesis by simp
qed

lemma apply_adopted_panic:
  assumes ok: "chain_ok Z cs" and run: "apply_adopted Z cs msg b = None"
    and st: "replay_blocks Z (final_state cs) (final_tip cs) (head_prefix cs (kept_under cs b)) = Some (s, t)"
  shows "apply_block Z t b s = Inl BlockPanicked"
proof -
  have "\<not> (head_position_of cs msg b \<noteq> None \<or> before_final cs b)"
  proof
    assume "head_position_of cs msg b \<noteq> None \<or> before_final cs b"
    from apply_adopted_known [OF this, of Z] run show False by simp
  qed
  then have new: "head_position_of cs msg b = None" "\<not> before_final cs b" by simp_all
  from apply_adopted_eq [OF ok new st] run show ?thesis by (auto split: sum.splits block_failure.splits)
qed

lemma apply_all_adopted_ok:
  "chain_ok Z cs \<Longrightarrow> apply_all_adopted Z cs xs = Some (outcomes, cs') \<Longrightarrow>
    chain_ok Z cs' \<and> final_state cs' = final_state cs \<and> final_tip cs' = final_tip cs"
proof (induction Z cs xs arbitrary: outcomes rule: apply_all_adopted.induct)
  case (2 Z cs msg b rest)
  then obtain o1 cs1 outcomes' where "apply_adopted Z cs msg b = Some (o1, cs1)"
      "apply_all_adopted Z cs1 rest = Some (outcomes', cs')"
    by (auto simp: panic_simps)
  with "2.IH" [of "(o1, cs1)" o1 cs1] apply_adopted_ok [OF "2.prems"(1)] show ?case by auto
qed simp

lemma revert_orphan_ok:
  assumes "chain_ok Z cs"
  obtains cs' where "revert_orphan Z cs msg b = Some cs'" "chain_ok Z cs'"
    "final_state cs' = final_state cs" "final_tip cs' = final_tip cs"
proof (cases "head_position_of cs msg b")
  case None
  with assms show thesis by (intro that [of cs]) (simp_all add: revert_orphan_def)
next
  case (Some n)
  obtain cs' where "rederive_head Z (cs\<lparr>head_blocks := take n (head_blocks cs)\<rparr>) = Some cs'" "chain_ok Z cs'"
      "final_state cs' = final_state cs" "final_tip cs' = final_tip cs"
    by (rule truncate_head_ok [OF assms])
  with Some show thesis by (intro that [of cs']) (simp_all add: revert_orphan_def)
qed

lemma apply_channel_update_ok:
  assumes ok: "chain_ok Z cs" and run: "apply_channel_update Z cs orphaned adopted = Some (outcomes, cs')"
  shows "chain_ok Z cs' \<and> final_state cs' = final_state cs \<and> final_tip cs' = final_tip cs"
proof -
  define e where "e = min_position (List.map_filter (\<lambda>(msg, b). head_position_of cs msg b) orphaned)"
  obtain cs1 where cs1: "(case e of None \<Rightarrow> Some cs
      | Some idx \<Rightarrow> rederive_head Z (cs\<lparr>head_blocks := take idx (head_blocks cs)\<rparr>)) = Some cs1"
      "apply_all_adopted Z cs1 adopted = Some (outcomes, cs')"
    using run by (auto simp: apply_channel_update_def e_def panic_simps Let_def)
  have "chain_ok Z cs1 \<and> final_state cs1 = final_state cs \<and> final_tip cs1 = final_tip cs"
  proof (cases e)
    case None
    with cs1(1) ok show ?thesis by simp
  next
    case (Some n)
    show ?thesis by (rule truncate_head_ok [OF ok, of n]) (use cs1(1) Some in simp)
  qed
  with apply_all_adopted_ok [OF _ cs1(2)] show ?thesis by simp
qed

lemma restore_head_block_ok:
  assumes "chain_ok Z cs" and "restore_head_block Z cs b = Inr cs'"
  shows "chain_ok Z cs' \<and> final_state cs' = final_state cs \<and> final_tip cs' = final_tip cs"
  using assms
  by (auto simp: restore_head_block_def result_simps replay_append chain_ok_def [of Z cs]
      intro!: chain_okI [of _ _ "Some (tip_of_block b)"])

subsection \<open>The final tier\<close>

lemma finalize_through_ok:
  assumes ok: "chain_ok Z cs" and n: "n < length (head_blocks cs)"
  obtains cs' where "finalize_through Z cs n = Some cs'" "chain_ok Z cs'"
    "replay_blocks Z (final_state cs) (final_tip cs) (map entry_block (take (Suc n) (head_blocks cs)))
      = Some (final_state cs', final_tip cs')"
    "head_blocks cs' = drop (Suc n) (head_blocks cs)" "head_state cs' = head_state cs" "final_stall cs' = None"
proof -
  from ok obtain s t where run: "replay_blocks Z (final_state cs) (final_tip cs)
        (take (Suc n) (map entry_block (head_blocks cs))) = Some (s, t)"
      "replay_blocks Z s t (drop (Suc n) (map entry_block (head_blocks cs))) = Some (head_state cs, head_tip cs)"
    unfolding chain_ok_def by (rule replay_prefix)
  let ?cs' = "cs\<lparr>final_state := s, final_tip := t, final_stall := None, head_blocks := drop (Suc n) (head_blocks cs)\<rparr>"
  have "finalize_through Z cs n = Some ?cs'"
    using run(1) n by (simp add: finalize_through_def take_map)
  moreover have "chain_ok Z ?cs'"
    using run(2) by (intro chain_okI [of _ _ "head_tip cs"]) (simp add: drop_map)
  ultimately show thesis using run(1) by (intro that [of ?cs']) (simp_all add: take_map)
qed

lemma apply_finalized_direct_ok:
  assumes ok: "chain_ok Z cs" and run: "apply_finalized_direct Z cs b slot = Some (outcome, cs')"
  shows "chain_ok Z cs' \<and> (\<exists>bs. replay_blocks Z (final_state cs) (final_tip cs) bs = Some (final_state cs', final_tip cs'))"
proof -
  have kept: "chain_ok Z (record_final_stall cs b slot e)" for e
    using ok by (simp add: chain_ok_def record_final_stall_def head_tip_def)
  have "replay_blocks Z (final_state cs) (final_tip cs) [] = Some (final_state cs, final_tip cs)" by simp
  with run ok kept show ?thesis
    by (auto simp: apply_finalized_direct_def record_final_stall_def
        split: if_splits sum.splits block_failure.splits
        intro: chain_okI exI [of _ "[b]"] exI [of _ "[]"])
qed

lemma apply_finalized_cases:
  assumes ok: "chain_ok Z cs"
  obtains (known) cs' where "apply_finalized Z cs msg b slot = Some (Applied, cs')" "chain_ok Z cs'"
      "\<exists>bs. replay_blocks Z (final_state cs) (final_tip cs) bs = Some (final_state cs', final_tip cs')"
  | (direct) cs1 where "apply_finalized Z cs msg b slot = apply_finalized_direct Z cs1 b slot" "chain_ok Z cs1"
      "\<exists>bs. replay_blocks Z (final_state cs) (final_tip cs) bs = Some (final_state cs1, final_tip cs1)"
proof (cases "head_position_of cs msg b")
  case (Some n)
  then have "n < length (head_blocks cs)" unfolding head_position_of_def by (rule position_less)
  then obtain cs' where "finalize_through Z cs n = Some cs'" "chain_ok Z cs'"
      "replay_blocks Z (final_state cs) (final_tip cs) (map entry_block (take (Suc n) (head_blocks cs)))
        = Some (final_state cs', final_tip cs')"
    by (rule finalize_through_ok [OF ok])
  with Some show thesis by (intro known [of cs']) (auto simp: apply_finalized_def)
next
  case unknown: None
  define at where "at = position (\<lambda>entry. header_hash (block_header (entry_block entry))
    = header_prev_hash (block_header b)) (head_blocks cs)"
  show thesis
  proof (cases at)
    case None
    have "replay_blocks Z (final_state cs) (final_tip cs) [] = Some (final_state cs, final_tip cs)" by simp
    with None unknown ok show thesis
      by (intro direct [of cs] exI [of _ "[]"]) (simp_all add: apply_finalized_def flip: at_def)
  next
    case (Some n)
    then have "n < length (head_blocks cs)" unfolding at_def by (rule position_less)
    then obtain cs1 where "finalize_through Z cs n = Some cs1" "chain_ok Z cs1"
        "replay_blocks Z (final_state cs) (final_tip cs) (map entry_block (take (Suc n) (head_blocks cs)))
          = Some (final_state cs1, final_tip cs1)"
      by (rule finalize_through_ok [OF ok])
    with Some unknown show thesis
      by (intro direct [of cs1]) (auto simp: apply_finalized_def simp flip: at_def)
  qed
qed

lemma apply_finalized_ok:
  assumes ok: "chain_ok Z cs" and run: "apply_finalized Z cs msg b slot = Some (outcome, cs')"
  shows "chain_ok Z cs' \<and> (\<exists>bs. replay_blocks Z (final_state cs) (final_tip cs) bs = Some (final_state cs', final_tip cs'))"
proof (rule apply_finalized_cases [OF ok, of msg b slot])
  fix cs2
  assume "apply_finalized Z cs msg b slot = Some (Applied, cs2)" "chain_ok Z cs2"
    "\<exists>bs. replay_blocks Z (final_state cs) (final_tip cs) bs = Some (final_state cs2, final_tip cs2)"
  with run show ?thesis by simp
next
  fix cs1
  assume direct: "apply_finalized Z cs msg b slot = apply_finalized_direct Z cs1 b slot" "chain_ok Z cs1"
    "\<exists>bs. replay_blocks Z (final_state cs) (final_tip cs) bs = Some (final_state cs1, final_tip cs1)"
  then obtain bs where bs: "replay_blocks Z (final_state cs) (final_tip cs) bs = Some (final_state cs1, final_tip cs1)"
    by blast
  have "chain_ok Z cs' \<and> (\<exists>bs. replay_blocks Z (final_state cs1) (final_tip cs1) bs = Some (final_state cs', final_tip cs'))"
    using apply_finalized_direct_ok [OF direct(2)] run direct(1) by simp
  then obtain ds where "chain_ok Z cs'"
      "replay_blocks Z (final_state cs1) (final_tip cs1) ds = Some (final_state cs', final_tip cs')"
    by blast
  with bs show ?thesis by (intro conjI exI [of _ "bs @ ds"]) (simp_all add: replay_append)
qed

lemma apply_finalized_panic:
  assumes ok: "chain_ok Z cs" and run: "apply_finalized Z cs msg b slot = None"
    and st: "replay_blocks Z (final_state cs) (final_tip cs) (head_prefix cs (final_under cs b)) = Some (s, t)"
  shows "apply_block Z t b s = Inl BlockPanicked"
proof -
  have through: "finalize_through Z cs n \<noteq> None" if "n < length (head_blocks cs)" for n
    by (rule finalize_through_ok [OF ok that]) simp
  have unknown: "head_position_of cs msg b = None"
  proof (rule ccontr)
    assume "head_position_of cs msg b \<noteq> None"
    then obtain n where n: "head_position_of cs msg b = Some n" by auto
    then have "n < length (head_blocks cs)" unfolding head_position_of_def by (rule position_less)
    with through [of n] n run show False by (auto simp: apply_finalized_def)
  qed
  define at where "at = position (\<lambda>entry. header_hash (block_header (entry_block entry))
    = header_prev_hash (block_header b)) (head_blocks cs)"
  obtain cs1 where cs1: "apply_finalized_direct Z cs1 b slot = None" "final_state cs1 = s" "final_tip cs1 = t"
  proof (cases at)
    case None
    then show thesis using unknown run st
      by (intro that [of cs]) (simp_all add: apply_finalized_def final_under_def head_prefix_def flip: at_def)
  next
    case (Some n)
    then have "n < length (head_blocks cs)" unfolding at_def by (rule position_less)
    then obtain cs1 where "finalize_through Z cs n = Some cs1"
        "replay_blocks Z (final_state cs) (final_tip cs) (map entry_block (take (Suc n) (head_blocks cs)))
          = Some (final_state cs1, final_tip cs1)"
      by (rule finalize_through_ok [OF ok])
    with Some unknown run st show thesis
      by (intro that [of cs1]) (simp_all add: apply_finalized_def final_under_def head_prefix_def flip: at_def)
  qed
  then show ?thesis
    by (auto simp: apply_finalized_direct_def split: if_splits sum.splits block_failure.splits)
qed

subsection \<open>Following the channel\<close>

text \<open>What can happen to a chain state: the operations of the sequencer and the indexer.\<close>

inductive follow :: "zone_env \<Rightarrow> chain_state \<Rightarrow> chain_state \<Rightarrow> bool" for Z where
  adopted: "apply_adopted Z cs msg b = Some (outcome, cs') \<Longrightarrow> follow Z cs cs'"
| produced: "apply_produced Z cs msg b = Some (outcome, cs') \<Longrightarrow> follow Z cs cs'"
| orphaned: "revert_orphan Z cs msg b = Some cs' \<Longrightarrow> follow Z cs cs'"
| updated: "apply_channel_update Z cs orphans adoptions = Some (outcomes, cs') \<Longrightarrow> follow Z cs cs'"
| restored: "restore_head_block Z cs b = Inr cs' \<Longrightarrow> follow Z cs cs'"
| finalized: "apply_finalized Z cs msg b slot = Some (outcome, cs') \<Longrightarrow> follow Z cs cs'"

lemma follow_ok:
  assumes "follow Z cs cs'" and ok: "chain_ok Z cs"
  shows "chain_ok Z cs' \<and> (\<exists>bs. replay_blocks Z (final_state cs) (final_tip cs) bs = Some (final_state cs', final_tip cs'))"
proof -
  have kept: ?thesis if "chain_ok Z cs' \<and> final_state cs' = final_state cs \<and> final_tip cs' = final_tip cs"
    using that by (intro conjI exI [of _ "[]"]) simp_all
  from assms(1) show ?thesis
  proof cases
    case (adopted msg b outcome)
    then show ?thesis by (intro kept apply_adopted_ok [OF ok])
  next
    case (produced msg b outcome)
    then have "cs' = cs \<or> apply_adopted Z cs msg b = Some (outcome, cs')"
      by (auto simp: apply_produced_def split: if_splits)
    then show ?thesis using ok by (auto intro!: kept dest: apply_adopted_ok [OF ok])
  next
    case (orphaned msg b)
    show ?thesis by (rule revert_orphan_ok [OF ok, of msg b]) (rule kept, use orphaned in simp)
  next
    case (updated orphans adoptions outcomes)
    then show ?thesis by (intro kept apply_channel_update_ok [OF ok])
  next
    case (restored b)
    then show ?thesis by (intro kept restore_head_block_ok [OF ok])
  next
    case (finalized msg b slot outcome)
    then show ?thesis by (rule apply_finalized_ok [OF ok])
  qed
qed

lemma follows_ok:
  "(follow Z)\<^sup>*\<^sup>* cs cs' \<Longrightarrow> chain_ok Z cs \<Longrightarrow> chain_ok Z cs' \<and>
    (\<exists>bs. replay_blocks Z (final_state cs) (final_tip cs) bs = Some (final_state cs', final_tip cs'))"
proof (induction rule: rtranclp_induct)
  case base
  then show ?case by (intro conjI exI [of _ "[]"]) simp_all
next
  case (step cs1 cs2)
  then obtain bs where "chain_ok Z cs1"
      "replay_blocks Z (final_state cs) (final_tip cs) bs = Some (final_state cs1, final_tip cs1)" by blast
  moreover from follow_ok [OF step(2) this(1)] obtain ds where "chain_ok Z cs2"
      "replay_blocks Z (final_state cs1) (final_tip cs1) ds = Some (final_state cs2, final_tip cs2)" by blast
  ultimately show ?case by (intro conjI exI [of _ "bs @ ds"]) (simp_all add: replay_append)
qed

text \<open>
  C22: The chain state refines a linear chain. After any sequence of adoptions, own blocks,
  orphans, channel updates, restorations and finalizations from the initial state, there is a
  list of blocks whose replay from that state is the final tier, and replaying it followed by
  the head blocks gives the head state and the head tip; both are reached by ledger
  transitions only.
\<close>

theorem chain_state_refines_linear_chain:
  assumes "(follow Z)\<^sup>*\<^sup>* (chain_state_new s0) cs"
  shows "\<exists>bs. replay_blocks Z s0 None bs = Some (final_state cs, final_tip cs) \<and>
    replay_blocks Z s0 None (bs @ map entry_block (head_blocks cs)) = Some (head_state cs, head_tip cs) \<and>
    (ledger_step (zone_externals Z))\<^sup>*\<^sup>* s0 (final_state cs) \<and>
    (ledger_step (zone_externals Z))\<^sup>*\<^sup>* (final_state cs) (head_state cs)"
proof -
  obtain bs where bs: "chain_ok Z cs" "replay_blocks Z s0 None bs = Some (final_state cs, final_tip cs)"
    using follows_ok [OF assms] from_final_ok by (auto simp: chain_state_new_def from_final_def)
  then have "replay_blocks Z s0 None (bs @ map entry_block (head_blocks cs)) = Some (head_state cs, head_tip cs)"
    by (simp add: replay_append chain_ok_def)
  with bs show ?thesis by (auto simp: chain_ok_def intro: replay_steps)
qed

text \<open>
  C23: The final tier is irreversible: whatever happens after a point, the chain behind the final
  tier at that point is a prefix of the chain behind every later final tier.
\<close>

theorem final_tier_irreversible:
  assumes "(follow Z)\<^sup>*\<^sup>* (chain_state_new s0) cs" and "(follow Z)\<^sup>*\<^sup>* cs cs'"
  shows "\<exists>bs more. replay_blocks Z s0 None bs = Some (final_state cs, final_tip cs) \<and>
    replay_blocks Z s0 None (bs @ more) = Some (final_state cs', final_tip cs')"
proof -
  obtain bs where bs: "chain_ok Z cs" "replay_blocks Z s0 None bs = Some (final_state cs, final_tip cs)"
    using follows_ok [OF assms(1)] from_final_ok by (auto simp: chain_state_new_def from_final_def)
  from follows_ok [OF assms(2) bs(1)] obtain more where
      "replay_blocks Z (final_state cs) (final_tip cs) more = Some (final_state cs', final_tip cs')" by blast
  with bs(2) show ?thesis by (intro exI [of _ bs] exI [of _ more]) (simp add: replay_append)
qed

text \<open>
  C25: The \<open>expect\<close>s on already validated blocks never fire. Reverting an orphan and a channel
  update without adoptions always return. Adopting a block replays the head blocks below it,
  which always succeeds, and panics only if applying the block on top of that very replay does;
  finalizing a block replays the head up to its parent (nothing, when the parent is not in the
  head), which always succeeds, and panics only if applying the block on top of that does.
\<close>

theorem chain_state_expects_hold:
  assumes "(follow Z)\<^sup>*\<^sup>* (from_final s0 t0) cs"
  shows "revert_orphan Z cs msg b \<noteq> None \<and> apply_channel_update Z cs orphaned [] \<noteq> None \<and>
    (\<exists>s t. replay_blocks Z (final_state cs) (final_tip cs) (head_prefix cs (kept_under cs b)) = Some (s, t) \<and>
      (apply_adopted Z cs msg b = None \<longrightarrow> apply_block Z t b s = Inl BlockPanicked)) \<and>
    (\<exists>s t. replay_blocks Z (final_state cs) (final_tip cs) (head_prefix cs (final_under cs b)) = Some (s, t) \<and>
      (apply_finalized Z cs msg b slot = None \<longrightarrow> apply_block Z t b s = Inl BlockPanicked))"
proof -
  have ok: "chain_ok Z cs" using follows_ok [OF assms from_final_ok] by simp
  have "rederive_head Z (cs\<lparr>head_blocks := take n (head_blocks cs)\<rparr>) \<noteq> None" for n
    by (rule truncate_head_ok [OF ok, of n]) simp
  then have "apply_channel_update Z cs orphaned [] \<noteq> None"
    by (auto simp: apply_channel_update_def Let_def bind_eq_None_conv split: option.splits)
  moreover have "revert_orphan Z cs msg b \<noteq> None" by (rule revert_orphan_ok [OF ok, of msg b]) simp
  ultimately show ?thesis
    using head_prefix_replays [OF ok under_length(1), of b] head_prefix_replays [OF ok under_length(2), of b]
      apply_adopted_panic [OF ok] apply_finalized_panic [OF ok] by blast
qed

lemma position_append_last: "position P xs = None \<Longrightarrow> P x \<Longrightarrow> position P (xs @ [x]) = Some (length xs)"
  by (induction xs) (auto split: if_splits)

lemma position_take_None: "position P xs = None \<Longrightarrow> position P (take n xs) = None"
proof (induction xs arbitrary: n)
  case (Cons x xs)
  then show ?case by (cases n) (auto split: if_splits)
qed simp

lemma adopted_finalizes:
  assumes "(follow Z)\<^sup>*\<^sup>* (from_final s0 t0) cs" and "apply_adopted Z cs msg b = Some (Applied, cs1)"
  shows "\<exists>cs2. apply_finalized Z cs1 msg b slot = Some (Applied, cs2) \<and>
    final_tip cs2 = Some (tip_of_block b) \<and> final_state cs2 = head_state cs1 \<and>
    head_state cs2 = head_state cs1 \<and> head_blocks cs2 = [] \<and> final_stall cs2 = None"
proof -
  have ok: "chain_ok Z cs" using follows_ok [OF assms(1) from_final_ok] by simp
  have ok1: "chain_ok Z cs1" using apply_adopted_ok [OF ok assms(2)] by simp
  obtain n where n: "head_position_of cs msg b = None"
      "head_blocks cs1 = take n (head_blocks cs) @ [\<lparr>entry_msg = msg, entry_block = b\<rparr>]"
    by (rule apply_adopted_cases [OF ok assms(2)]) auto
  let ?k = "length (take n (head_blocks cs))"
  have pos: "head_position_of cs1 msg b = Some ?k"
    using n unfolding head_position_of_def
    by (auto intro!: position_append_last position_take_None simp del: length_take)
  have "?k < length (head_blocks cs1)" using n(2) by simp
  then obtain cs2 where cs2: "finalize_through Z cs1 ?k = Some cs2"
      "replay_blocks Z (final_state cs1) (final_tip cs1) (map entry_block (take (Suc ?k) (head_blocks cs1)))
        = Some (final_state cs2, final_tip cs2)"
      "head_blocks cs2 = drop (Suc ?k) (head_blocks cs1)" "head_state cs2 = head_state cs1" "final_stall cs2 = None"
    by (rule finalize_through_ok [OF ok1])
  have "length (head_blocks cs1) = Suc ?k" using n(2) by simp
  then have all: "take (Suc ?k) (head_blocks cs1) = head_blocks cs1" "drop (Suc ?k) (head_blocks cs1) = []"
    by (metis order_refl take_all, metis order_refl drop_all)
  have "head_tip cs1 = Some (tip_of_block b)" using n(2) by (simp add: head_tip_def)
  then have "final_state cs2 = head_state cs1" "final_tip cs2 = Some (tip_of_block b)"
    using cs2(2) ok1 all(1) by (simp_all add: chain_ok_def)
  with cs2 pos all show ?thesis by (intro exI [of _ cs2]) (simp add: apply_finalized_def)
qed

text \<open>
  C26: A block that was adopted becomes final: when its finalization arrives next, the final tier
  reaches exactly the head state, its tip is that block, the head is empty and any stall is
  cleared.
\<close>

theorem adopted_block_finalizes:
  assumes "(follow Z)\<^sup>*\<^sup>* (from_final s0 t0) cs" and "apply_adopted Z cs msg b = Some (Applied, cs1)"
  shows "\<exists>cs2. apply_finalized Z cs1 msg b slot = Some (Applied, cs2) \<and>
    final_tip cs2 = Some (tip_of_block b) \<and> final_state cs2 = head_state cs1 \<and>
    head_state cs2 = head_state cs1 \<and> head_blocks cs2 = [] \<and> final_stall cs2 = None"
  by (rule adopted_finalizes [OF assms])

subsection \<open>The tip commits to the chain\<close>

definition block_preimage :: "zone_env \<Rightarrow> hashable_block_data \<Rightarrow> bytes" where
  "block_preimage Z d = ascii ''/LEE/v0.3/Message/Block/'' @ replicate 8 0 @ zone_block_bytes Z d"

text \<open>The hash inputs of a block of the one chain and of a block of the other collide.\<close>

definition blocks_collide :: "zone_env \<Rightarrow> block list \<Rightarrow> block list \<Rightarrow> bool" where
  "blocks_collide Z bs bs' \<longleftrightarrow> (\<exists>b \<in> set bs. \<exists>b' \<in> set bs'. collision (ext_sha256 (zone_externals Z))
    (block_preimage Z (hashable_of_block b)) (block_preimage Z (hashable_of_block b')))"

lemma blocks_collide_append: "blocks_collide Z bs bs' \<Longrightarrow> blocks_collide Z (bs @ ds) (bs' @ ds')"
  by (auto simp: blocks_collide_def)

lemma compute_hash_binding:
  assumes "inj_on (zone_block_bytes Z) S" and "d \<in> S" and "d' \<in> S" and "compute_hash Z d = compute_hash Z d'"
  shows "d = d' \<or> collision (ext_sha256 (zone_externals Z)) (block_preimage Z d) (block_preimage Z d')"
  using assms by (auto simp: compute_hash_def block_preimage_def collision_def inj_on_def)

lemma replay_last:
  assumes "replay_blocks Z s t (bs @ [b]) = Some (s', t')"
  obtains s1 t1 where "replay_blocks Z s t bs = Some (s1, t1)" "apply_block Z t1 b s1 = Inr s'"
    "t' = Some (tip_of_block b)"
proof -
  obtain s1 t1 where run: "replay_blocks Z s t bs = Some (s1, t1)" "replay_blocks Z s1 t1 [b] = Some (s', t')"
    using assms by (auto simp: replay_append panic_simps)
  then show thesis by (cases "apply_block Z t1 b s1") (auto intro: that)
qed

lemma replay_height:
  "replay_blocks Z s None bs = Some (s', t) \<Longrightarrow>
    (case t of None \<Rightarrow> bs = [] | Some x \<Rightarrow> bs \<noteq> [] \<and> unat (tip_block_id x) = length bs)"
proof (induction bs arbitrary: s' t rule: rev_induct)
  case (snoc b bs)
  obtain s1 t1 where run: "replay_blocks Z s None bs = Some (s1, t1)" "apply_block Z t1 b s1 = Inr s'"
      "t = Some (tip_of_block b)"
    by (rule replay_last [OF snoc.prems])
  from apply_block_cases(2) [OF run(2)] snoc.IH [OF run(1)] run(3) show ?case
    by (auto simp: tip_of_block_def GENESIS_BLOCK_ID_def split: option.splits)
qed simp

lemma apply_block_to_state_cong:
  assumes "hashable_of_block b = hashable_of_block b'"
  shows "apply_block_to_state Z b s = apply_block_to_state Z b' s"
proof -
  have eq: "header_block_id (block_header b) = header_block_id (block_header b')"
      "header_timestamp (block_header b) = header_timestamp (block_header b')"
      "body_transactions (block_body b) = body_transactions (block_body b')"
    using assms by (simp_all add: hashable_of_block_def)
  have step: "apply_user_transaction Z (block_header b) = apply_user_transaction Z (block_header b')"
    unfolding apply_user_transaction_def eq by (rule refl)
  show ?thesis unfolding apply_block_to_state_def Let_def eq step by (rule refl)
qed

text \<open>
  C27: The hash of the tip commits to the whole chain. When two chains are replayed from the same
  initial state and end in tips with the same hash, they have the same contents block by
  block and the same state, unless the hash inputs of a block of the one and a block of the other
  are an explicit SHA-256 collision. The encoding of block contents is
  assumed to tell the blocks of the two chains apart.
\<close>

theorem tip_hash_commits_to_chain:
  assumes "inj_on (zone_block_bytes Z) (hashable_of_block ` (set bs \<union> set bs'))"
    and "replay_blocks Z s0 None bs = Some (s, Some t)" and "replay_blocks Z s0 None bs' = Some (s', Some t')"
    and "tip_hash t = tip_hash t'"
  shows "map hashable_of_block bs = map hashable_of_block bs' \<and> s = s' \<or> blocks_collide Z bs bs'"
  using assms
proof (induction bs arbitrary: bs' s s' t t' rule: rev_induct)
  case Nil
  then show ?case by simp
next
  case (snoc b bs)
  obtain b' ds where bs': "bs' = ds @ [b']"
    using snoc.prems(3) by (cases bs' rule: rev_cases) auto
  obtain s1 t1 where run: "replay_blocks Z s0 None bs = Some (s1, t1)" "apply_block Z t1 b s1 = Inr s"
      "t = tip_of_block b"
    by (rule replay_last [OF snoc.prems(2)]) auto
  obtain s2 t2 where run': "replay_blocks Z s0 None ds = Some (s2, t2)" "apply_block Z t2 b' s2 = Inr s'"
      "t' = tip_of_block b'"
    by (rule replay_last [OF snoc.prems(3) [unfolded bs']]) auto
  have "compute_hash Z (hashable_of_block b) = compute_hash Z (hashable_of_block b')"
    using apply_block_cases(1) [OF run(2)] apply_block_cases(1) [OF run'(2)] snoc.prems(4) run(3) run'(3)
    by (simp add: recompute_hash_def tip_of_block_def)
  from compute_hash_binding [OF snoc.prems(1) _ _ this] have "hashable_of_block b = hashable_of_block b' \<or> blocks_collide Z (bs @ [b]) bs'"
    by (auto simp: bs' blocks_collide_def)
  then show ?case
  proof
    assume eq: "hashable_of_block b = hashable_of_block b'"
    then have id: "header_block_id (block_header b) = header_block_id (block_header b')"
        "header_prev_hash (block_header b) = header_prev_hash (block_header b')"
      by (simp_all add: hashable_of_block_def)
    have "length (bs @ [b]) = length (ds @ [b'])"
      using replay_height [OF snoc.prems(2)] replay_height [OF snoc.prems(3) [unfolded bs']] run(3) run'(3) id(1)
      by (simp add: tip_of_block_def)
    then have len: "length bs = length ds" by simp
    have "map hashable_of_block bs = map hashable_of_block ds \<and> s1 = s2 \<or> blocks_collide Z bs ds"
    proof (cases t1)
      case None
      then have "bs = []" "ds = []" using replay_height [OF run(1)] len by auto
      then show ?thesis using run(1) run'(1) by simp
    next
      case (Some x)
      then have "ds \<noteq> []" using replay_height [OF run(1)] len by auto
      then obtain y where y: "t2 = Some y" using replay_height [OF run'(1)] by (auto split: option.splits)
      have "tip_hash x = tip_hash y"
        using apply_block_cases(2) [OF run(2)] apply_block_cases(2) [OF run'(2)] Some y id(2) by simp
      moreover have "inj_on (zone_block_bytes Z) (hashable_of_block ` (set bs \<union> set ds))"
        using snoc.prems(1) by (rule inj_on_subset) (auto simp: bs')
      ultimately show ?thesis using snoc.IH [of ds s1 x s2 y] run(1) run'(1) Some y by simp
    qed
    moreover have "s = s'" if "s1 = s2"
      using apply_block_cases(3) [OF run(2)] apply_block_cases(3) [OF run'(2)]
        apply_block_to_state_cong [OF eq] that by simp
    ultimately show ?case using eq bs' blocks_collide_append by auto
  qed simp
qed

end
