(* ===== verification/ZoneExamples.thy ===== *)
theory ZoneExamples
  imports ChainSafety LedgerExamples
begin

text \<open>
  A zone whose executor runs the clock program: its genesis block and a chain state that adopts
  and finalizes it. The runs show that the hypotheses of the theorems on blocks and chains
  can hold.
\<close>

subsection \<open>The zone\<close>

definition clock_program :: program_id where
  "clock_program = program_of_account (AccountId 11)"

definition zone_codecs :: guest_codecs where
  "zone_codecs = \<lparr>gc_sha256 = demo_sha256,
    gc_clock_bytes = (\<lambda>d. u64_to_le_bytes (clock_block_id d) @ u64_to_le_bytes (clock_timestamp d)),
    gc_clock_of_bytes = (\<lambda>bs. if length bs = 16
      then Some \<lparr>clock_block_id = le_join (take 8 bs), clock_timestamp = le_join (drop 8 bs)\<rparr> else None),
    gc_auth_transfer_words = (\<lambda>_. []), gc_vault_words = (\<lambda>_. [])\<rparr>"

definition zone_execute :: "bytes \<Rightarrow> program_id \<Rightarrow> program_id option \<Rightarrow> account_with_metadata list
    \<Rightarrow> instruction_data \<Rightarrow> string + program_output" where
  "zone_execute elf self caller pre instr =
    (if self = clock_program
     then guest_result (clock_main zone_codecs \<lparr>input_self = self, input_caller = caller,
       input_pre_states = pre, input_instruction = le_join instr\<rparr> instr)
     else Inr (demo_transfer self caller pre instr))"

definition demo_zone :: zone_env where
  "demo_zone = \<lparr>zone_externals = demo_externals\<lparr>ext_execute := zone_execute\<rparr>,
    zone_clock_id = clock_program, zone_faucet_id = ProgramId 3, zone_bridge_id = ProgramId 4,
    zone_block_bytes = (\<lambda>d. u64_to_le_bytes (hashable_block_id d)), zone_timestamp_words = le_split 2\<rparr>"

lemma clock_ids_distinct: "distinct clock_account_ids"
  by code_simp

lemma demo_zone_simps [simp]:
  "zone_clock_id demo_zone = clock_program" "ext_sha256 (zone_externals demo_zone) = demo_sha256"
  by (simp_all add: demo_zone_def)

lemma demo_zone_executes_clock: "executes_clock zone_codecs demo_zone"
  by (simp add: executes_clock_def demo_zone_def zone_execute_def codec_simps)

definition clock_account :: account where
  "clock_account = default_account\<lparr>program_owner := AccountId 11, data := Data (replicate 16 0)\<rparr>"

definition zone_state :: v03_state where
  "zone_state = demo_genesis\<lparr>public_state := [AccountId 11 \<mapsto> demo_code 3,
     CLOCK_01_PROGRAM_ACCOUNT_ID \<mapsto> clock_account, CLOCK_10_PROGRAM_ACCOUNT_ID \<mapsto> clock_account,
     CLOCK_50_PROGRAM_ACCOUNT_ID \<mapsto> clock_account]\<rparr>"

lemma zone_state_inv: "state_inv demo_sha256 zone_state [DUMMY_COMMITMENT]"
  using demo_genesis_inv(2) by (simp add: state_inv_def zone_state_def)

lemma clock_ids_not_11: "AccountId 11 \<notin> set clock_account_ids"
  by code_simp

lemma zone_clock_account: "i \<in> set clock_account_ids \<Longrightarrow> get_account_by_id zone_state i = clock_account"
  using clock_ids_not_11
  by (auto simp: zone_state_def get_account_by_id_def account_or_default_def clock_account_ids_def
      CLOCK_PROGRAM_ACCOUNT_IDS_def)

lemma zone_clock_ready: "clock_ready zone_codecs demo_zone zone_state"
proof -
  have "get_program zone_state clock_program = Some (demo_code 3)"
    using clock_ids_not_11
    by (auto simp: get_program_def zone_state_def clock_program_def demo_code_def clock_account_ids_def
        CLOCK_PROGRAM_ACCOUNT_IDS_def)
  moreover have "get_account_by_id zone_state CLOCK_01_PROGRAM_ACCOUNT_ID = clock_account"
    by (rule zone_clock_account) (simp add: clock_account_ids_def CLOCK_PROGRAM_ACCOUNT_IDS_def)
  moreover have "le_join (replicate 8 (0 :: u8)) = (0 :: u64)" by code_simp
  ultimately show ?thesis
    using zone_clock_account
    by (simp add: clock_ready_def clock_account_def zone_codecs_def clock_program_def DEFAULT_PROGRAM_OWNER_def
        take_replicate drop_replicate)
qed

lemma zone_data_fits: "clock_data_fits zone_codecs"
  by (simp add: clock_data_fits_def zone_codecs_def u64_to_le_bytes_def DATA_MAX_LENGTH_def)

subsection \<open>The genesis block\<close>

definition genesis_block :: "signature \<Rightarrow> block" where
  "genesis_block sig = into_pending_block demo_zone (\<lambda>_. sig)
    \<lparr>hashable_block_id = GENESIS_BLOCK_ID, hashable_prev_hash = 0, hashable_timestamp = 77,
     hashable_transactions = [PublicTx (clock_invocation demo_zone 77)]\<rparr>"

lemma genesis_block_simps [simp]:
  "header_block_id (block_header (genesis_block sig)) = GENESIS_BLOCK_ID"
  "header_timestamp (block_header (genesis_block sig)) = 77"
  "body_transactions (block_body (genesis_block sig)) = [PublicTx (clock_invocation demo_zone 77)]"
  "recompute_hash demo_zone (genesis_block sig) = header_hash (block_header (genesis_block sig))"
  by (simp_all add: genesis_block_def into_pending_block_def Let_def recompute_hash_def hashable_of_block_def)

lemma genesis_valid: "validate_against_tip demo_zone None (genesis_block sig) = Inr ()"
  by (simp add: validate_against_tip_def Let_def)

lemma genesis_applies: "\<exists>s'. apply_block demo_zone None (genesis_block sig) zone_state = Inr s'"
  using clock_only_block_applies [OF demo_zone_executes_clock zone_clock_ready zone_data_fits clock_ids_distinct,
      of "[DUMMY_COMMITMENT]" None "genesis_block sig"] zone_state_inv genesis_valid
  by auto

text \<open>Witness: the genesis block of the zone applies to its initial state.\<close>

theorem empty_block_applies_witness:
  "\<exists>s'. apply_block demo_zone None (genesis_block (Signature 5)) zone_state = Inr s' \<and>
    (\<forall>i \<in> set clock_account_ids. program_owner (get_account_by_id s' i) = account_of_program clock_program)"
  using empty_block_applies [OF demo_zone_executes_clock zone_clock_ready zone_data_fits clock_ids_distinct,
      of "[DUMMY_COMMITMENT]" None "genesis_block (Signature 5)"] zone_state_inv genesis_valid
  by simp

text \<open>Its clock reads block 1 and the timestamp of the block.\<close>

theorem block_advances_clock_witness:
  "\<exists>s'. apply_block_to_state demo_zone (genesis_block (Signature 5)) zone_state = Inr s' \<and>
    data (get_account_by_id s' CLOCK_01_PROGRAM_ACCOUNT_ID)
      = Data (u64_to_le_bytes 1 @ u64_to_le_bytes 77) \<and>
    data (get_account_by_id s' CLOCK_10_PROGRAM_ACCOUNT_ID) = Data (replicate 16 0)"
proof -
  obtain s' where run: "apply_block_to_state demo_zone (genesis_block (Signature 5)) zone_state = Inr s'"
    using genesis_applies [of "Signature 5"] genesis_valid [of "Signature 5"] by (auto simp: apply_block_def)
  have clock: "data (get_account_by_id zone_state i) = Data (replicate 16 0)" if "i \<in> set clock_account_ids" for i
    using zone_clock_account [OF that] by (simp add: clock_account_def)
  have ids: "CLOCK_01_PROGRAM_ACCOUNT_ID \<in> set clock_account_ids" "CLOCK_10_PROGRAM_ACCOUNT_ID \<in> set clock_account_ids"
    by (simp_all add: clock_account_ids_def CLOCK_PROGRAM_ACCOUNT_IDS_def)
  have zero: "le_join (replicate 8 (0 :: u8)) = (0 :: u64)" by code_simp
  from block_advances_clock [OF demo_zone_executes_clock run] obtain now :: clock_account_data where now:
      "clock_timestamp now = 77" "unat (clock_block_id now) = 1"
      "data (get_account_by_id s' CLOCK_01_PROGRAM_ACCOUNT_ID) = Data (gc_clock_bytes zone_codecs now)"
      "data (get_account_by_id s' CLOCK_10_PROGRAM_ACCOUNT_ID) = clock_post zone_codecs 10 now (Data (replicate 16 0))"
    by (auto simp: clock ids zone_codecs_def zero)
  have one: "clock_block_id now = 1" using now(2) by (metis unat_1 word_unat_eq_iff)
  show ?thesis
    using run now(1,3,4) one by (auto simp: zone_codecs_def clock_post_def)
qed

subsection \<open>Following the chain\<close>

definition zone_chain :: chain_state where
  "zone_chain = chain_state_new zone_state"

lemma zone_chain_adopts:
  "\<exists>cs. apply_adopted demo_zone zone_chain 8 (genesis_block sig) = Some (Applied, cs) \<and>
    head_blocks cs = [\<lparr>entry_msg = 8, entry_block = genesis_block sig\<rparr>] \<and> final_tip cs = None"
  using genesis_applies [of sig]
  by (auto simp: apply_adopted_def zone_chain_def chain_state_new_def from_final_def head_position_of_def
      before_final_def head_tip_def)

lemma zone_chain_follow:
  "apply_adopted demo_zone zone_chain 8 (genesis_block sig) = Some (Applied, cs) \<Longrightarrow>
    (follow demo_zone)\<^sup>*\<^sup>* (chain_state_new zone_state) cs"
  by (auto simp: zone_chain_def [symmetric] intro: follow.adopted)

text \<open>Witness: a chain state that has adopted the genesis block.\<close>

theorem chain_state_refines_linear_chain_witness:
  "\<exists>cs bs. length (head_blocks cs) = 1 \<and> replay_blocks demo_zone zone_state None bs = Some (final_state cs, None) \<and>
    replay_blocks demo_zone zone_state None (bs @ [genesis_block (Signature 5)]) = Some (head_state cs, head_tip cs) \<and>
    (ledger_step (zone_externals demo_zone))\<^sup>*\<^sup>* (final_state cs) (head_state cs)"
proof -
  obtain cs where cs: "apply_adopted demo_zone zone_chain 8 (genesis_block (Signature 5)) = Some (Applied, cs)"
      "head_blocks cs = [\<lparr>entry_msg = 8, entry_block = genesis_block (Signature 5)\<rparr>]" "final_tip cs = None"
    using zone_chain_adopts by blast
  from chain_state_refines_linear_chain [OF zone_chain_follow [OF cs(1)]] show ?thesis
    using cs(2,3) by - (rule exI [of _ cs], auto)
qed

text \<open>Witness: the final tier before and after the genesis block is adopted and finalized.\<close>

theorem final_tier_irreversible_witness:
  "\<exists>(cs :: chain_state) bs more. final_tip cs = Some (tip_of_block (genesis_block (Signature 5))) \<and>
    replay_blocks demo_zone zone_state None bs = Some (final_state zone_chain, None) \<and>
    replay_blocks demo_zone zone_state None (bs @ more) = Some (final_state cs, final_tip cs)"
proof -
  obtain cs1 where cs1: "apply_adopted demo_zone zone_chain 8 (genesis_block (Signature 5)) = Some (Applied, cs1)"
    using zone_chain_adopts by blast
  have start: "(follow demo_zone)\<^sup>*\<^sup>* (from_final zone_state None) zone_chain"
    by (simp add: zone_chain_def chain_state_new_def)
  from adopted_finalizes [OF start cs1, of 3] obtain cs2 where
    cs2: "apply_finalized demo_zone cs1 8 (genesis_block (Signature 5)) 3 = Some (Applied, cs2)"
      "final_tip cs2 = Some (tip_of_block (genesis_block (Signature 5)))" by blast
  have steps: "(follow demo_zone)\<^sup>*\<^sup>* (chain_state_new zone_state) cs2"
    using zone_chain_follow [OF cs1] follow.finalized [OF cs2(1)] by (rule rtranclp.rtrancl_into_rtrancl)
  from final_tier_irreversible [OF rtranclp.rtrancl_refl this] obtain bs more where
      "replay_blocks demo_zone zone_state None bs = Some (final_state zone_chain, final_tip zone_chain)"
      "replay_blocks demo_zone zone_state None (bs @ more) = Some (final_state cs2, final_tip cs2)"
    unfolding zone_chain_def by blast
  moreover have "final_tip zone_chain = None" by (simp add: zone_chain_def chain_state_new_def from_final_def)
  ultimately show ?thesis using cs2(2) by - (rule exI [of _ cs2], rule exI [of _ bs], rule exI [of _ more], simp)
qed

definition child_block :: block where
  "child_block = into_pending_block demo_zone (\<lambda>_. Signature 6)
    \<lparr>hashable_block_id = 2, hashable_prev_hash = header_hash (block_header (genesis_block (Signature 5))),
     hashable_timestamp = 78, hashable_transactions = [PublicTx (clock_invocation demo_zone 78)]\<rparr>"

lemma child_block_simps [simp]:
  "header_block_id (block_header child_block) = 2"
  "header_prev_hash (block_header child_block) = header_hash (block_header (genesis_block (Signature 5)))"
  by (simp_all add: child_block_def into_pending_block_def Let_def)

text \<open>
  Witness: with the genesis block in the head, reverting it returns; and for a child of the genesis
  block both adoption and finalization start from the replay of the genesis block, which succeeds.
\<close>

theorem chain_state_expects_hold_witness:
  "\<exists>cs s t. apply_adopted demo_zone zone_chain 8 (genesis_block (Signature 5)) = Some (Applied, cs) \<and>
    revert_orphan demo_zone cs 8 (genesis_block (Signature 5)) \<noteq> None \<and>
    replay_blocks demo_zone zone_state None [genesis_block (Signature 5)] = Some (s, t) \<and>
    (apply_adopted demo_zone cs 9 child_block = None \<longrightarrow> apply_block demo_zone t child_block s = Inl BlockPanicked) \<and>
    (apply_finalized demo_zone cs 9 child_block 3 = None \<longrightarrow> apply_block demo_zone t child_block s = Inl BlockPanicked)"
proof -
  obtain cs where cs: "apply_adopted demo_zone zone_chain 8 (genesis_block (Signature 5)) = Some (Applied, cs)"
      "head_blocks cs = [\<lparr>entry_msg = 8, entry_block = genesis_block (Signature 5)\<rparr>]" "final_tip cs = None"
    using zone_chain_adopts by blast
  have final: "final_state cs = zone_state"
    using apply_adopted_ok [OF _ cs(1)] from_final_ok by (simp add: zone_chain_def chain_state_new_def from_final_def)
  have "\<not> (2 :: u64) \<le> 1" by code_simp
  then have under: "head_prefix cs (kept_under cs child_block) = [genesis_block (Signature 5)]"
      "head_prefix cs (final_under cs child_block) = [genesis_block (Signature 5)]"
    by (simp_all add: head_prefix_def kept_under_def final_under_def cs(2) GENESIS_BLOCK_ID_def)
  have "(follow demo_zone)\<^sup>*\<^sup>* (from_final zone_state None) cs"
    using zone_chain_follow [OF cs(1)] by (simp add: chain_state_new_def)
  note hold = chain_state_expects_hold [OF this, where slot = 3]
  have "revert_orphan demo_zone cs 8 (genesis_block (Signature 5)) \<noteq> None" using hold by blast
  moreover obtain s t where st: "replay_blocks demo_zone zone_state None [genesis_block (Signature 5)] = Some (s, t)"
      "apply_adopted demo_zone cs 9 child_block = None \<longrightarrow> apply_block demo_zone t child_block s = Inl BlockPanicked"
    using hold [where msg = 9 and b = child_block, unfolded under final cs(3)] by blast
  moreover have "apply_finalized demo_zone cs 9 child_block 3 = None \<longrightarrow> apply_block demo_zone t child_block s = Inl BlockPanicked"
    using hold [where msg = 9 and b = child_block, unfolded under final cs(3) st(1)] by blast
  ultimately show ?thesis using cs(1) by (intro exI [of _ cs] exI [of _ s] exI [of _ t] conjI)
qed

theorem adopted_block_finalizes_witness:
  "\<exists>cs1 cs2. apply_adopted demo_zone zone_chain 8 (genesis_block (Signature 5)) = Some (Applied, cs1) \<and>
    apply_finalized demo_zone cs1 8 (genesis_block (Signature 5)) 3 = Some (Applied, cs2) \<and>
    final_tip cs2 = Some (tip_of_block (genesis_block (Signature 5))) \<and> final_state cs2 = head_state cs1"
proof -
  obtain cs1 where cs1: "apply_adopted demo_zone zone_chain 8 (genesis_block (Signature 5)) = Some (Applied, cs1)"
    using zone_chain_adopts by blast
  have "(follow demo_zone)\<^sup>*\<^sup>* (from_final zone_state None) zone_chain"
    by (simp add: zone_chain_def chain_state_new_def)
  from adopted_block_finalizes [OF this cs1] cs1 show ?thesis by blast
qed

text \<open>Witness: two genesis blocks that differ in their signature have the same hash and contents.\<close>

lemma genesis_replay:
  "\<exists>s. replay_blocks demo_zone zone_state None [genesis_block sig] = Some (s, Some (tip_of_block (genesis_block sig)))"
  using genesis_applies [of sig] by auto

theorem tip_hash_commits_to_chain_witness:
  "genesis_block (Signature 5) \<noteq> genesis_block (Signature 6) \<and>
    (hashable_of_block (genesis_block (Signature 5)) = hashable_of_block (genesis_block (Signature 6)) \<or>
     blocks_collide demo_zone [genesis_block (Signature 5)] [genesis_block (Signature 6)])"
proof -
  obtain s s' where "replay_blocks demo_zone zone_state None [genesis_block (Signature 5)]
        = Some (s, Some (tip_of_block (genesis_block (Signature 5))))"
      "replay_blocks demo_zone zone_state None [genesis_block (Signature 6)]
        = Some (s', Some (tip_of_block (genesis_block (Signature 6))))"
    using genesis_replay by blast
  moreover have eq: "hashable_of_block (genesis_block (Signature 5)) = hashable_of_block (genesis_block (Signature 6))"
      "tip_of_block (genesis_block (Signature 5)) = tip_of_block (genesis_block (Signature 6))"
    by (simp_all add: genesis_block_def into_pending_block_def Let_def hashable_of_block_def tip_of_block_def)
  ultimately have "hashable_of_block (genesis_block (Signature 5)) = hashable_of_block (genesis_block (Signature 6)) \<or>
      blocks_collide demo_zone [genesis_block (Signature 5)] [genesis_block (Signature 6)]"
    using tip_hash_commits_to_chain [of demo_zone "[genesis_block (Signature 5)]" "[genesis_block (Signature 6)]"]
    by (simp add: eq)
  moreover have "genesis_block (Signature 5) \<noteq> genesis_block (Signature 6)"
    by (simp add: genesis_block_def into_pending_block_def Let_def)
  ultimately show ?thesis by blast
qed

subsection \<open>A user transaction\<close>

text \<open>The zone with the executor of the ledger examples.\<close>

definition ledger_zone :: zone_env where
  "ledger_zone = demo_zone\<lparr>zone_externals := demo_externals\<rparr>"

lemma demo_public_pda: "for_public_pda demo_sha256 p seed = AccountId (seed_bytes seed)"
  unfolding for_public_pda_def public_pda_preimage_def append_assoc [symmetric] demo_sha256_append by (rule refl)

lemma system_seeds: "of_array32 (ascii ''/LEZ/v0.3/FaucetSeed/0000000000/'') \<notin> {1, 2}"
    "of_array32 (ascii ''/LEZ/v0.3/BridgeSeed/0000000000/'') \<notin> {1, 2}"
  by code_simp+

lemma clock_ids_not_demo: "AccountId 1 \<notin> set clock_account_ids" "AccountId 2 \<notin> set clock_account_ids"
  by code_simp+

lemma ledger_zone_accounts:
  "i \<in> set (clock_account_ids @ [faucet_account_id ledger_zone, bridge_account_id ledger_zone]) \<Longrightarrow>
    i \<noteq> AccountId 1 \<and> i \<noteq> AccountId 2"
  using system_seeds clock_ids_not_demo
  by (auto simp: faucet_account_id_def bridge_account_id_def ledger_zone_def compute_faucet_account_id_def
      compute_bridge_account_id_def compute_faucet_seed_def compute_bridge_seed_def demo_public_pda)

lemma ledger_zone_executes:
  "\<exists>s'. execute_check_on_state ledger_zone demo_state (PublicTx demo_tx) 3 5 = Inr s'"
proof -
  let ?d = "\<lparr>diff_signers = [AccountId 1], diff_public = [(AccountId 1, demo_account 93), (AccountId 2, demo_account 12)],
    diff_commitments = [], diff_nullifiers = [], diff_program = None\<rparr>"
  have "validate_doesnt_modify_account demo_state ?d i = Inr ()"
    if "i \<in> set (clock_account_ids @ [faucet_account_id ledger_zone])" for i
    using ledger_zone_accounts [of i] that
    by (auto simp: validate_doesnt_modify_account_def)
  then have "try_fold (\<lambda>_ i. validate_doesnt_modify_account demo_state ?d i) ()
      (clock_account_ids @ [faucet_account_id ledger_zone]) = Inr ()"
    by (simp add: try_fold_unit)
  moreover have "validate_bridge_account_modification ledger_zone (PublicTx demo_tx) demo_state ?d = Inr ()"
    using ledger_zone_accounts [of "bridge_account_id ledger_zone"]
    by (simp add: validate_bridge_account_modification_def Let_def)
  ultimately have "validate_on_state ledger_zone (PublicTx demo_tx) demo_state 3 5 = Inr ?d"
    by (simp add: validate_on_state_def ledger_zone_def demo_from_public_transaction)
  moreover obtain s' where "transition_from_public_transaction demo_externals demo_state demo_tx 3 5 = Inr s'"
    using demo_transition by blast
  ultimately show ?thesis
    by (simp add: execute_check_on_state_def transition_from_public_transaction_def
        demo_from_public_transaction ledger_zone_def)
qed

text \<open>Witness: a transfer is executed and the first clock account stays as it is.\<close>

theorem user_transaction_keeps_system_accounts_witness:
  "\<exists>s'. execute_check_on_state ledger_zone demo_state (PublicTx demo_tx) 3 5 = Inr s' \<and>
    data (get_account_by_id s' CLOCK_01_PROGRAM_ACCOUNT_ID) = data (get_account_by_id demo_state CLOCK_01_PROGRAM_ACCOUNT_ID)"
proof -
  obtain s' where run: "execute_check_on_state ledger_zone demo_state (PublicTx demo_tx) 3 5 = Inr s'"
    using ledger_zone_executes by blast
  have "CLOCK_01_PROGRAM_ACCOUNT_ID \<in> set clock_account_ids"
    by (simp add: clock_account_ids_def CLOCK_PROGRAM_ACCOUNT_IDS_def)
  with user_transaction_keeps_system_accounts [OF run demo_state_finite, of CLOCK_01_PROGRAM_ACCOUNT_ID] run
  show ?thesis by (auto simp: deploys_at_def)
qed

end
