(* ===== verification/Tokens.thy ===== *)
theory Tokens
  imports Guests
begin

text \<open>
  The token program (\<open>lez/programs/token\<close>): fungible tokens and NFTs with their definitions,
  holdings and metadata. The Borsh encodings of the three account layouts are the fields of
  \<open>token_codecs\<close>; \<open>token_codecs_faithful\<close> states that decoding reads back what was encoded.
\<close>

subsection \<open>Accounts and instructions\<close>

datatype metadata_standard = MetadataSimple | MetadataExpanded

datatype new_token_definition =
    NewFungible string u128
  | NewNonFungible string u128

record new_token_metadata =
  new_standard :: metadata_standard
  new_uri :: string
  new_creators :: string

datatype token_instruction =
    TokenTransfer u128
  | NewFungibleDefinition string u128
  | NewDefinitionWithMetadata new_token_definition new_token_metadata
  | TokenInitializeAccount
  | TokenBurn u128
  | TokenMint u128
  | PrintNft

datatype token_definition =
    FungibleDefinition (token_name: string) (token_supply: u128) "account_id option"
  | NonFungibleDefinition (token_name: string) (token_supply: u128) account_id

datatype token_holding =
    FungibleHolding account_id u128
  | NftMaster account_id u128
  | NftPrintedCopy account_id bool

record token_metadata =
  meta_definition_id :: account_id
  meta_standard :: metadata_standard
  meta_uri :: string
  meta_creators :: string
  meta_primary_sale_date :: u64

fun zeroized_clone_from :: "token_holding \<Rightarrow> token_holding" where
  "zeroized_clone_from (FungibleHolding d _) = FungibleHolding d 0"
| "zeroized_clone_from (NftMaster d _) = NftMaster d 0"
| "zeroized_clone_from (NftPrintedCopy d _) = NftPrintedCopy d False"

fun zeroized_from_definition :: "account_id \<Rightarrow> token_definition \<Rightarrow> token_holding" where
  "zeroized_from_definition d (FungibleDefinition _ _ _) = FungibleHolding d 0"
| "zeroized_from_definition d (NonFungibleDefinition _ _ _) = NftPrintedCopy d False"

fun definition_id :: "token_holding \<Rightarrow> account_id" where
  "definition_id (FungibleHolding d _) = d"
| "definition_id (NftMaster d _) = d"
| "definition_id (NftPrintedCopy d _) = d"

record token_codecs =
  tc_definition_bytes :: "token_definition \<Rightarrow> bytes"
  tc_definition_of_bytes :: "bytes \<Rightarrow> token_definition option"
  tc_holding_bytes :: "token_holding \<Rightarrow> bytes"
  tc_holding_of_bytes :: "bytes \<Rightarrow> token_holding option"
  tc_metadata_bytes :: "token_metadata \<Rightarrow> bytes"

definition definition_of_data :: "token_codecs \<Rightarrow> account_data \<Rightarrow> token_definition option" where
  "definition_of_data T d = tc_definition_of_bytes T (into_inner d)"

definition holding_of_data :: "token_codecs \<Rightarrow> account_data \<Rightarrow> token_holding option" where
  "holding_of_data T d = tc_holding_of_bytes T (into_inner d)"

definition data_of_definition :: "token_codecs \<Rightarrow> token_definition \<Rightarrow> account_data option" where
  "data_of_definition T x = data_of_bytes (tc_definition_bytes T x)"

definition data_of_holding :: "token_codecs \<Rightarrow> token_holding \<Rightarrow> account_data option" where
  "data_of_holding T x = data_of_bytes (tc_holding_bytes T x)"

definition data_of_metadata :: "token_codecs \<Rightarrow> token_metadata \<Rightarrow> account_data option" where
  "data_of_metadata T x = data_of_bytes (tc_metadata_bytes T x)"

subsection \<open>Transfer\<close>

fun move_units :: "token_holding \<Rightarrow> token_holding \<Rightarrow> u128 \<Rightarrow> (token_holding \<times> token_holding) option" where
  "move_units (FungibleHolding d1 sender_balance) (FungibleHolding d2 recipient_balance) amount = do {
    s \<leftarrow> checked_sub sender_balance amount;
    r \<leftarrow> checked_add recipient_balance amount;
    Some (FungibleHolding d1 s, FungibleHolding d2 r)
  }"
| "move_units (NftMaster d1 sender_print_balance) (NftMaster d2 recipient_print_balance) amount = do {
    assert_that (recipient_print_balance = 0);
    assert_that (sender_print_balance = amount);
    Some (NftMaster d1 recipient_print_balance, NftMaster d2 sender_print_balance)
  }"
| "move_units (NftPrintedCopy d1 sender_owned) (NftPrintedCopy d2 recipient_owned) amount = do {
    assert_that (amount = 1);
    assert_that sender_owned;
    assert_that (\<not> recipient_owned);
    Some (NftPrintedCopy d1 False, NftPrintedCopy d2 True)
  }"
| "move_units _ _ _ = None"

definition token_transfer ::
  "token_codecs \<Rightarrow> account_with_metadata \<Rightarrow> account_with_metadata \<Rightarrow> u128 \<Rightarrow> account_post_state list option" where
  "token_transfer T sender recipient balance_to_move = do {
    assert_that (is_authorized sender);
    sender_holding \<leftarrow> holding_of_data T (data (account sender));
    recipient_holding \<leftarrow> (if account recipient = default_account
      then Some (zeroized_clone_from sender_holding)
      else holding_of_data T (data (account recipient)));
    assert_that (definition_id sender_holding = definition_id recipient_holding);
    (sender_holding, recipient_holding) \<leftarrow> move_units sender_holding recipient_holding balance_to_move;
    sender_data \<leftarrow> data_of_holding T sender_holding;
    recipient_data \<leftarrow> data_of_holding T recipient_holding;
    Some [post_new ((account sender)\<lparr>data := sender_data\<rparr>),
      new_claimed_if_default ((account recipient)\<lparr>data := recipient_data\<rparr>) ClaimAuthorized]
  }"

subsection \<open>Burn and mint\<close>

fun burn_units :: "token_definition \<Rightarrow> token_holding \<Rightarrow> u128 \<Rightarrow> (token_definition \<times> token_holding) option" where
  "burn_units (FungibleDefinition name total_supply meta) (FungibleHolding d b) amount = do {
    b' \<leftarrow> checked_sub b amount;
    total_supply' \<leftarrow> checked_sub total_supply amount;
    Some (FungibleDefinition name total_supply' meta, FungibleHolding d b')
  }"
| "burn_units (NonFungibleDefinition name printable_supply meta) (NftMaster d print_balance) amount = do {
    printable_supply' \<leftarrow> checked_sub printable_supply amount;
    print_balance' \<leftarrow> checked_sub print_balance amount;
    Some (NonFungibleDefinition name printable_supply' meta, NftMaster d print_balance')
  }"
| "burn_units (NonFungibleDefinition name printable_supply meta) (NftPrintedCopy d owned) amount = do {
    assert_that (amount = 1);
    assert_that owned;
    printable_supply' \<leftarrow> checked_sub printable_supply 1;
    Some (NonFungibleDefinition name printable_supply' meta, NftPrintedCopy d False)
  }"
| "burn_units _ _ _ = None"

definition burn ::
  "token_codecs \<Rightarrow> account_with_metadata \<Rightarrow> account_with_metadata \<Rightarrow> u128 \<Rightarrow> account_post_state list option" where
  "burn T definition_account user_holding_account amount_to_burn = do {
    assert_that (is_authorized user_holding_account);
    defn \<leftarrow> definition_of_data T (data (account definition_account));
    holding \<leftarrow> holding_of_data T (data (account user_holding_account));
    assert_that (account_id definition_account = definition_id holding);
    (defn, holding) \<leftarrow> burn_units defn holding amount_to_burn;
    definition_data \<leftarrow> data_of_definition T defn;
    holding_data \<leftarrow> data_of_holding T holding;
    Some [post_new ((account definition_account)\<lparr>data := definition_data\<rparr>),
      post_new ((account user_holding_account)\<lparr>data := holding_data\<rparr>)]
  }"

fun mint_units :: "token_definition \<Rightarrow> token_holding \<Rightarrow> u128 \<Rightarrow> (token_definition \<times> token_holding) option" where
  "mint_units (FungibleDefinition name total_supply meta) (FungibleHolding d b) amount = do {
    b' \<leftarrow> checked_add b amount;
    total_supply' \<leftarrow> checked_add total_supply amount;
    Some (FungibleDefinition name total_supply' meta, FungibleHolding d b')
  }"
| "mint_units _ _ _ = None"

definition mint ::
  "token_codecs \<Rightarrow> account_with_metadata \<Rightarrow> account_with_metadata \<Rightarrow> u128 \<Rightarrow> account_post_state list option" where
  "mint T definition_account user_holding_account amount_to_mint = do {
    assert_that (is_authorized definition_account);
    defn \<leftarrow> definition_of_data T (data (account definition_account));
    holding \<leftarrow> (if account user_holding_account = default_account
      then Some (zeroized_from_definition (account_id definition_account) defn)
      else holding_of_data T (data (account user_holding_account)));
    assert_that (account_id definition_account = definition_id holding);
    (defn, holding) \<leftarrow> mint_units defn holding amount_to_mint;
    definition_data \<leftarrow> data_of_definition T defn;
    holding_data \<leftarrow> data_of_holding T holding;
    Some [post_new ((account definition_account)\<lparr>data := definition_data\<rparr>),
      new_claimed_if_default ((account user_holding_account)\<lparr>data := holding_data\<rparr>) ClaimAuthorized]
  }"

subsection \<open>New definitions, holdings and prints\<close>

definition new_fungible_definition ::
  "token_codecs \<Rightarrow> account_with_metadata \<Rightarrow> account_with_metadata \<Rightarrow> string \<Rightarrow> u128 \<Rightarrow> account_post_state list option" where
  "new_fungible_definition T definition_target holding_target name total_supply = do {
    assert_that (account definition_target = default_account);
    assert_that (account holding_target = default_account);
    definition_data \<leftarrow> data_of_definition T (FungibleDefinition name total_supply None);
    holding_data \<leftarrow> data_of_holding T (FungibleHolding (account_id definition_target) total_supply);
    Some [new_claimed ((account definition_target)\<lparr>data := definition_data\<rparr>) ClaimAuthorized,
      new_claimed ((account holding_target)\<lparr>data := holding_data\<rparr>) ClaimAuthorized]
  }"

fun defined_token :: "account_id \<Rightarrow> account_id \<Rightarrow> new_token_definition \<Rightarrow> token_definition \<times> token_holding" where
  "defined_token d meta (NewFungible name total_supply) =
    (FungibleDefinition name total_supply (Some meta), FungibleHolding d total_supply)"
| "defined_token d meta (NewNonFungible name printable_supply) =
    (NonFungibleDefinition name printable_supply meta, NftMaster d printable_supply)"

definition new_definition_with_metadata ::
  "token_codecs \<Rightarrow> account_with_metadata \<Rightarrow> account_with_metadata \<Rightarrow> account_with_metadata
    \<Rightarrow> new_token_definition \<Rightarrow> new_token_metadata \<Rightarrow> account_post_state list option" where
  "new_definition_with_metadata T definition_target holding_target metadata_target new_definition metadata = do {
    assert_that (account definition_target = default_account);
    assert_that (account holding_target = default_account);
    assert_that (account metadata_target = default_account);
    let (defn, holding) = defined_token (account_id definition_target) (account_id metadata_target) new_definition;
    let token_metadata = \<lparr>meta_definition_id = account_id definition_target,
      meta_standard = new_standard metadata, meta_uri = new_uri metadata,
      meta_creators = new_creators metadata, meta_primary_sale_date = 0\<rparr>;
    definition_data \<leftarrow> data_of_definition T defn;
    holding_data \<leftarrow> data_of_holding T holding;
    metadata_data \<leftarrow> data_of_metadata T token_metadata;
    Some [new_claimed ((account definition_target)\<lparr>data := definition_data\<rparr>) ClaimAuthorized,
      new_claimed ((account holding_target)\<lparr>data := holding_data\<rparr>) ClaimAuthorized,
      new_claimed ((account metadata_target)\<lparr>data := metadata_data\<rparr>) ClaimAuthorized]
  }"

definition token_initialize_account ::
  "token_codecs \<Rightarrow> account_with_metadata \<Rightarrow> account_with_metadata \<Rightarrow> account_post_state list option" where
  "token_initialize_account T definition_account account_to_initialize = do {
    assert_that (account account_to_initialize = default_account);
    defn \<leftarrow> definition_of_data T (data (account definition_account));
    let holding = zeroized_from_definition (account_id definition_account) defn;
    holding_data \<leftarrow> data_of_holding T holding;
    Some [post_new (account definition_account),
      new_claimed ((account account_to_initialize)\<lparr>data := holding_data\<rparr>) ClaimAuthorized]
  }"

definition print_nft ::
  "token_codecs \<Rightarrow> account_with_metadata \<Rightarrow> account_with_metadata \<Rightarrow> account_post_state list option" where
  "print_nft T master_account printed_account = do {
    assert_that (is_authorized master_account);
    assert_that (account printed_account = default_account);
    master \<leftarrow> holding_of_data T (data (account master_account));
    (d, print_balance) \<leftarrow> (case master of NftMaster d print_balance \<Rightarrow> Some (d, print_balance) | _ \<Rightarrow> None);
    assert_that (print_balance > 1);
    print_balance \<leftarrow> checked_sub print_balance 1;
    master_data \<leftarrow> data_of_holding T (NftMaster d print_balance);
    printed_data \<leftarrow> data_of_holding T (NftPrintedCopy d True);
    Some [post_new ((account master_account)\<lparr>data := master_data\<rparr>),
      new_claimed ((account printed_account)\<lparr>data := printed_data\<rparr>) ClaimAuthorized]
  }"

definition token_main :: "token_codecs \<Rightarrow> token_instruction guest" where
  "token_main T inp words = do {
    posts \<leftarrow> (case (input_instruction inp, input_pre_states inp) of
        (TokenTransfer amount, [sender, recipient]) \<Rightarrow> token_transfer T sender recipient amount
      | (NewFungibleDefinition name supply, [definition_account, holding_account]) \<Rightarrow>
          new_fungible_definition T definition_account holding_account name supply
      | (NewDefinitionWithMetadata new_definition metadata, [definition_account, holding_account, metadata_account]) \<Rightarrow>
          new_definition_with_metadata T definition_account holding_account metadata_account new_definition metadata
      | (TokenInitializeAccount, [definition_account, account_to_initialize]) \<Rightarrow>
          token_initialize_account T definition_account account_to_initialize
      | (TokenBurn amount, [definition_account, user_holding_account]) \<Rightarrow>
          burn T definition_account user_holding_account amount
      | (TokenMint amount, [definition_account, user_holding_account]) \<Rightarrow>
          mint T definition_account user_holding_account amount
      | (PrintNft, [master_account, printed_account]) \<Rightarrow> print_nft T master_account printed_account
      | _ \<Rightarrow> None);
    Some (guest_output inp words posts)
  }"

subsection \<open>Supply and units\<close>

text \<open>
  The units of a holding: tokens, prints left on a master copy, or one for an owned copy. An
  account that holds nothing, such as a default account, has none. \<open>token_roles\<close> says which
  accounts of an instruction are read as a definition and which as holdings.
\<close>

fun holding_units :: "token_holding \<Rightarrow> nat" where
  "holding_units (FungibleHolding _ b) = unat b"
| "holding_units (NftMaster _ p) = unat p"
| "holding_units (NftPrintedCopy _ owned) = of_bool owned"

definition account_units :: "token_codecs \<Rightarrow> account \<Rightarrow> nat" where
  "account_units T a = (if a = default_account then 0
    else case holding_of_data T (data a) of None \<Rightarrow> 0 | Some h \<Rightarrow> holding_units h)"

definition account_supply :: "token_codecs \<Rightarrow> account \<Rightarrow> nat" where
  "account_supply T a = (if a = default_account then 0
    else case definition_of_data T (data a) of None \<Rightarrow> 0 | Some d \<Rightarrow> unat (token_supply d))"

fun token_roles :: "token_instruction \<Rightarrow> 'a list \<Rightarrow> 'a list \<times> 'a list" where
  "token_roles (TokenTransfer _) xs = ([], xs)"
| "token_roles PrintNft xs = ([], xs)"
| "token_roles (NewDefinitionWithMetadata _ _) xs = (take 1 xs, take 1 (drop 1 xs))"
| "token_roles _ xs = (take 1 xs, drop 1 xs)"

definition token_codecs_faithful :: "token_codecs \<Rightarrow> bool" where
  "token_codecs_faithful T \<longleftrightarrow>
    (\<forall>x. tc_definition_of_bytes T (tc_definition_bytes T x) = Some x) \<and> tc_definition_of_bytes T [] = None \<and>
    (\<forall>x. tc_holding_of_bytes T (tc_holding_bytes T x) = Some x) \<and> tc_holding_of_bytes T [] = None"

lemma data_of_bytes_Some: "data_of_bytes bs = Some d \<longleftrightarrow> d = Data bs \<and> length bs \<le> DATA_MAX_LENGTH"
  by (auto simp: data_of_bytes_def data_try_from_def ensure_def split: sum.splits if_splits)

lemma data_update_not_default: "into_inner d \<noteq> [] \<Longrightarrow> a\<lparr>data := d\<rparr> \<noteq> default_account"
  by (auto simp: default_account_def account.defs dest: arg_cong [where f = data])

named_theorems token_simps \<open>units and supply of the accounts an instruction reads and writes\<close>

lemma account_units_written [token_simps]:
  assumes "token_codecs_faithful T" and "data_of_holding T h = Some d"
  shows "account_units T (a\<lparr>data := d\<rparr>) = holding_units h"
proof -
  have "into_inner d \<noteq> []" "holding_of_data T d = Some h"
    using assms by (auto simp: token_codecs_faithful_def data_of_holding_def holding_of_data_def data_of_bytes_Some)
      (metis option.distinct(1))
  then show ?thesis by (simp add: account_units_def data_update_not_default)
qed

lemma account_supply_written [token_simps]:
  assumes "token_codecs_faithful T" and "data_of_definition T x = Some d"
  shows "account_supply T (a\<lparr>data := d\<rparr>) = unat (token_supply x)"
proof -
  have "into_inner d \<noteq> []" "definition_of_data T d = Some x"
    using assms by (auto simp: token_codecs_faithful_def data_of_definition_def definition_of_data_def data_of_bytes_Some)
      (metis option.distinct(1))
  then show ?thesis by (simp add: account_supply_def data_update_not_default)
qed

lemma account_units_read [token_simps]:
  "token_codecs_faithful T \<Longrightarrow> holding_of_data T (data a) = Some h \<Longrightarrow> account_units T a = holding_units h"
  by (auto simp: account_units_def token_codecs_faithful_def holding_of_data_def default_account_def)

lemma account_supply_read [token_simps]:
  "token_codecs_faithful T \<Longrightarrow> definition_of_data T (data a) = Some x \<Longrightarrow> account_supply T a = unat (token_supply x)"
  by (auto simp: account_supply_def token_codecs_faithful_def definition_of_data_def default_account_def)

lemma default_account_units [token_simps]:
  "account_units T default_account = 0" "account_supply T default_account = 0"
  by (simp_all add: account_units_def account_supply_def)

lemma zeroized_units [simp]:
  "holding_units (zeroized_clone_from h) = 0" "holding_units (zeroized_from_definition d x) = 0"
  by (cases h; simp) (cases x; simp)

lemma move_units_conserves:
  "move_units s r amount = Some (s', r') \<Longrightarrow>
    holding_units s' + holding_units r' = holding_units s + holding_units r \<and> holding_units r \<le> holding_units r'"
  by (induction s r amount rule: move_units.induct) (auto simp: panic_simps checked_simps)

lemma burn_units_conserves:
  "burn_units d h amount = Some (d', h') \<Longrightarrow>
    unat (token_supply d) + holding_units h' = unat (token_supply d') + holding_units h \<and>
    unat (token_supply d') \<le> unat (token_supply d)"
  by (induction d h amount rule: burn_units.induct) (auto simp: panic_simps checked_simps)

lemma mint_units_conserves:
  "mint_units d h amount = Some (d', h') \<Longrightarrow>
    unat (token_supply d) + holding_units h' = unat (token_supply d') + holding_units h \<and>
    holding_units h \<le> holding_units h'"
  by (induction d h amount rule: mint_units.induct) (auto simp: panic_simps checked_simps)

lemma defined_token_units:
  "defined_token d meta new = (x, h) \<Longrightarrow> unat (token_supply x) = holding_units h"
  by (cases new) auto

lemma post_account_simps [simp]:
  "post_account (post_new a) = a" "post_account (new_claimed a c) = a"
  "post_account (new_claimed_if_default a c) = a"
  by (simp_all add: post_new_def new_claimed_def new_claimed_if_default_def)

lemma token_transfer_units:
  assumes T: "token_codecs_faithful T" and "token_transfer T sender recipient n = Some posts"
  shows "\<exists>a b. map post_account posts = [a, b] \<and>
    account_units T a + account_units T b = account_units T (account sender) + account_units T (account recipient) \<and>
    account_units T (account recipient) \<le> account_units T b \<and> is_authorized sender"
proof -
  obtain s r s' r' d1 d2 where run: "is_authorized sender" "holding_of_data T (data (account sender)) = Some s"
      "(if account recipient = default_account then Some (zeroized_clone_from s)
        else holding_of_data T (data (account recipient))) = Some r"
      "move_units s r n = Some (s', r')" "data_of_holding T s' = Some d1" "data_of_holding T r' = Some d2"
      "map post_account posts = [(account sender)\<lparr>data := d1\<rparr>, (account recipient)\<lparr>data := d2\<rparr>]"
    using assms(2) by (auto simp: token_transfer_def panic_simps Let_def)
  have "account_units T (account recipient) = holding_units r"
    using run(3) T by (auto simp: token_simps split: if_splits)
  then show ?thesis
    using run move_units_conserves [OF run(4)] T by (auto simp: token_simps)
qed

lemma burn_supply:
  assumes T: "token_codecs_faithful T" and "burn T definition_account holder n = Some posts"
  shows "\<exists>a b. map post_account posts = [a, b] \<and>
    account_supply T (account definition_account) + account_units T b
      = account_supply T a + account_units T (account holder) \<and>
    account_supply T a \<le> account_supply T (account definition_account) \<and> is_authorized holder"
proof -
  obtain x h x' h' d1 d2 where run: "is_authorized holder"
      "definition_of_data T (data (account definition_account)) = Some x"
      "holding_of_data T (data (account holder)) = Some h"
      "burn_units x h n = Some (x', h')" "data_of_definition T x' = Some d1" "data_of_holding T h' = Some d2"
      "map post_account posts = [(account definition_account)\<lparr>data := d1\<rparr>, (account holder)\<lparr>data := d2\<rparr>]"
    using assms(2) by (auto simp: burn_def panic_simps Let_def)
  then show ?thesis
    using burn_units_conserves [OF run(4)] T by (auto simp: token_simps)
qed

lemma mint_supply:
  assumes T: "token_codecs_faithful T" and "mint T definition_account holder n = Some posts"
  shows "\<exists>a b. map post_account posts = [a, b] \<and>
    account_supply T (account definition_account) + account_units T b
      = account_supply T a + account_units T (account holder) \<and>
    account_units T (account holder) \<le> account_units T b \<and> is_authorized definition_account"
proof -
  obtain x h x' h' d1 d2 where run: "is_authorized definition_account"
      "definition_of_data T (data (account definition_account)) = Some x"
      "(if account holder = default_account then Some (zeroized_from_definition (account_id definition_account) x)
        else holding_of_data T (data (account holder))) = Some h"
      "mint_units x h n = Some (x', h')" "data_of_definition T x' = Some d1" "data_of_holding T h' = Some d2"
      "map post_account posts = [(account definition_account)\<lparr>data := d1\<rparr>, (account holder)\<lparr>data := d2\<rparr>]"
    using assms(2) by (auto simp: mint_def panic_simps Let_def)
  have "account_units T (account holder) = holding_units h"
    using run(3) T by (auto simp: token_simps split: if_splits)
  then show ?thesis
    using run mint_units_conserves [OF run(4)] T by (auto simp: token_simps)
qed

lemma new_fungible_supply:
  assumes T: "token_codecs_faithful T"
    and "new_fungible_definition T definition_target holding_target name amount = Some posts"
  shows "\<exists>a b. map post_account posts = [a, b] \<and> account_supply T a = account_units T b \<and>
    account definition_target = default_account \<and> account holding_target = default_account"
  using assms(2) T by (auto simp: new_fungible_definition_def panic_simps token_simps)

lemma new_metadata_supply:
  assumes T: "token_codecs_faithful T"
    and "new_definition_with_metadata T definition_target holding_target meta_target new meta = Some posts"
  shows "\<exists>a b c. map post_account posts = [a, b, c] \<and> account_supply T a = account_units T b \<and>
    account definition_target = default_account \<and> account holding_target = default_account"
  using assms(2) T
  by (auto simp: new_definition_with_metadata_def panic_simps Let_def token_simps defined_token_units
      split: prod.splits)

lemma initialize_supply:
  assumes T: "token_codecs_faithful T"
    and "token_initialize_account T definition_account target = Some posts"
  shows "\<exists>b. map post_account posts = [account definition_account, b] \<and> account_units T b = 0 \<and>
    account target = default_account"
  using assms(2) T
  by (auto simp: token_initialize_account_def panic_simps Let_def token_simps)

lemma print_nft_units:
  assumes T: "token_codecs_faithful T" and "print_nft T master printed = Some posts"
  shows "\<exists>a b. map post_account posts = [a, b] \<and>
    account_units T a + account_units T b = account_units T (account master) + account_units T (account printed) \<and>
    account printed = default_account \<and> is_authorized master"
proof -
  obtain m where m: "holding_of_data T (data (account master)) = Some m"
    using assms(2) by (auto simp: print_nft_def panic_simps)
  then obtain d p where "m = NftMaster d p"
    using assms(2) by (cases m) (auto simp: print_nft_def panic_simps)
  with m show ?thesis
    using assms(2) T by (auto simp: print_nft_def panic_simps checked_simps Let_def token_simps)
qed

lemma token_main_cases:
  assumes "token_main T inp words = Some out"
  obtains (transfer) n s r where "input_instruction inp = TokenTransfer n" "pre_states out = [s, r]"
      "token_transfer T s r n = Some (post_states out)"
  | (fungible) name amount d h where "input_instruction inp = NewFungibleDefinition name amount"
      "pre_states out = [d, h]" "new_fungible_definition T d h name amount = Some (post_states out)"
  | (metadata) new meta d h m where "input_instruction inp = NewDefinitionWithMetadata new meta"
      "pre_states out = [d, h, m]" "new_definition_with_metadata T d h m new meta = Some (post_states out)"
  | (initialize) d h where "input_instruction inp = TokenInitializeAccount" "pre_states out = [d, h]"
      "token_initialize_account T d h = Some (post_states out)"
  | (burn) n d h where "input_instruction inp = TokenBurn n" "pre_states out = [d, h]"
      "burn T d h n = Some (post_states out)"
  | (mint) n d h where "input_instruction inp = TokenMint n" "pre_states out = [d, h]"
      "mint T d h n = Some (post_states out)"
  | (print) m p where "input_instruction inp = PrintNft" "pre_states out = [m, p]"
      "print_nft T m p = Some (post_states out)"
  using assms
  by (auto simp: token_main_def panic_simps guest_output_def program_output_new_def
      split: token_instruction.splits list.splits)

text \<open>
  C31: The token program conserves units: whatever the instruction, the change of the supply
  recorded in the definition equals the change of the units in the holdings it touches, for
  fungible tokens and for NFTs.
\<close>

theorem token_conserves_units:
  assumes T: "token_codecs_faithful T" and "token_main T inp words = Some out"
  shows "let (ds, hs) = token_roles (input_instruction inp) (map account (pre_states out));
      (ds', hs') = token_roles (input_instruction inp) (map post_account (post_states out)) in
    (\<Sum>d\<leftarrow>ds. account_supply T d) + (\<Sum>h\<leftarrow>hs'. account_units T h)
      = (\<Sum>d\<leftarrow>ds'. account_supply T d) + (\<Sum>h\<leftarrow>hs. account_units T h)"
  using assms(2)
proof (cases rule: token_main_cases)
  case transfer
  then show ?thesis using token_transfer_units [OF T transfer(3)] by auto
next
  case fungible
  then show ?thesis using new_fungible_supply [OF T fungible(3)] by (auto simp: token_simps)
next
  case metadata
  then show ?thesis using new_metadata_supply [OF T metadata(3)] by (auto simp: token_simps)
next
  case initialize
  then show ?thesis using initialize_supply [OF T initialize(3)] by (auto simp: token_simps)
next
  case burn
  then show ?thesis using burn_supply [OF T burn(3)] by auto
next
  case mint
  then show ?thesis using mint_supply [OF T mint(3)] by auto
next
  case print
  then show ?thesis using print_nft_units [OF T print(3)] by auto
qed


text \<open>
  C32: Only the holder can lose units and only the authority of a definition can inflate it: a
  holding whose units fall was authorized, and a supply rises only for an authorized or newly
  created definition.
\<close>

theorem token_authorization:
  assumes T: "token_codecs_faithful T" and "token_main T inp words = Some out"
  shows "let (ds, hs) = token_roles (input_instruction inp) (pre_states out);
      (ds', hs') = token_roles (input_instruction inp) (map post_account (post_states out)) in
    list_all2 (\<lambda>pre post. is_authorized pre \<or> account_units T (account pre) \<le> account_units T post) hs hs' \<and>
    list_all2 (\<lambda>pre post. is_authorized pre \<or> account pre = default_account
      \<or> account_supply T post \<le> account_supply T (account pre)) ds ds'"
  using assms(2)
proof (cases rule: token_main_cases)
  case transfer
  then show ?thesis using token_transfer_units [OF T transfer(3)] by auto
next
  case fungible
  then show ?thesis using new_fungible_supply [OF T fungible(3)] by (auto simp: token_simps)
next
  case metadata
  then show ?thesis using new_metadata_supply [OF T metadata(3)] by (auto simp: token_simps)
next
  case initialize
  then show ?thesis using initialize_supply [OF T initialize(3)] by (auto simp: token_simps)
next
  case burn
  then show ?thesis using burn_supply [OF T burn(3)] by auto
next
  case mint
  then show ?thesis using mint_supply [OF T mint(3)] by auto
next
  case print
  then show ?thesis using print_nft_units [OF T print(3)] by (auto simp: token_simps)
qed

end
