(* ===== verification/Amm.thy ===== *)
theory Amm
  imports Tokens
begin

text \<open>
  The automated market maker (\<open>lez/programs/amm\<close>): pools of two fungible tokens with their
  vaults and a liquidity token. The guests are built in release mode, where \<open>+\<close>, \<open>-\<close> and \<open>*\<close> on
  \<open>u128\<close> wrap; the model uses the wrapping operations of \<open>128 word\<close> in the same places and the
  checked ones where the source does. The Borsh layout of a pool and the zkVM serializer of
  token instructions are fields of \<open>amm_codecs\<close>.
\<close>

subsection \<open>Pools and instructions\<close>

datatype amm_instruction =
    AmmNewDefinition u128 u128 program_id
  | AddLiquidity u128 u128 u128
  | RemoveLiquidity u128 u128 u128
  | SwapExactInput u128 u128 account_id
  | SwapExactOutput u128 u128 account_id

record pool_definition =
  definition_token_a_id :: account_id
  definition_token_b_id :: account_id
  vault_a_id :: account_id
  vault_b_id :: account_id
  liquidity_pool_id :: account_id
  liquidity_pool_supply :: u128
  reserve_a :: u128
  reserve_b :: u128
  fees :: u128
  active :: bool

definition default_pool :: pool_definition where
  "default_pool = \<lparr>definition_token_a_id = AccountId 0, definition_token_b_id = AccountId 0,
    vault_a_id = AccountId 0, vault_b_id = AccountId 0, liquidity_pool_id = AccountId 0,
    liquidity_pool_supply = 0, reserve_a = 0, reserve_b = 0, fees = 0, active = False\<rparr>"

record amm_codecs =
  ac_sha256 :: hasher
  ac_tokens :: token_codecs
  ac_token_words :: "token_instruction \<Rightarrow> u32 list"
  ac_pool_bytes :: "pool_definition \<Rightarrow> bytes"
  ac_pool_of_bytes :: "bytes \<Rightarrow> pool_definition option"

definition pool_of_data :: "amm_codecs \<Rightarrow> account_data \<Rightarrow> pool_definition option" where
  "pool_of_data A d = ac_pool_of_bytes A (into_inner d)"

definition data_of_pool :: "amm_codecs \<Rightarrow> pool_definition \<Rightarrow> account_data option" where
  "data_of_pool A p = data_of_bytes (ac_pool_bytes A p)"

definition compute_pool_pda_seed :: "hasher \<Rightarrow> account_id \<Rightarrow> account_id \<Rightarrow> pda_seed option" where
  "compute_pool_pda_seed sha256 a b =
    (if a < b then Some (PdaSeed (sha256 (array32 (id_value b) @ array32 (id_value a))))
     else if b < a then Some (PdaSeed (sha256 (array32 (id_value a) @ array32 (id_value b))))
     else None)"

definition compute_pool_pda :: "hasher \<Rightarrow> program_id \<Rightarrow> account_id \<Rightarrow> account_id \<Rightarrow> account_id option" where
  "compute_pool_pda sha256 amm a b =
    map_option (for_public_pda sha256 amm) (compute_pool_pda_seed sha256 a b)"

definition compute_vault_pda_seed :: "hasher \<Rightarrow> account_id \<Rightarrow> account_id \<Rightarrow> pda_seed" where
  "compute_vault_pda_seed sha256 pool_id token_id =
    PdaSeed (sha256 (array32 (id_value pool_id) @ array32 (id_value token_id)))"

definition compute_vault_pda :: "hasher \<Rightarrow> program_id \<Rightarrow> account_id \<Rightarrow> account_id \<Rightarrow> account_id" where
  "compute_vault_pda sha256 amm pool_id token_id =
    for_public_pda sha256 amm (compute_vault_pda_seed sha256 pool_id token_id)"

definition compute_liquidity_token_pda_seed :: "hasher \<Rightarrow> account_id \<Rightarrow> pda_seed" where
  "compute_liquidity_token_pda_seed sha256 pool_id =
    PdaSeed (sha256 (array32 (id_value pool_id) @ replicate 32 0))"

definition compute_liquidity_token_pda :: "hasher \<Rightarrow> program_id \<Rightarrow> account_id \<Rightarrow> account_id" where
  "compute_liquidity_token_pda sha256 amm pool_id =
    for_public_pda sha256 amm (compute_liquidity_token_pda_seed sha256 pool_id)"

text \<open>The balance of a fungible holding; other holdings are refused.\<close>

fun fungible_balance :: "token_holding \<Rightarrow> u128 option" where
  "fungible_balance (FungibleHolding _ b) = Some b"
| "fungible_balance _ = None"

definition vault_balance :: "amm_codecs \<Rightarrow> account_with_metadata \<Rightarrow> u128 option" where
  "vault_balance A vault = Option.bind (holding_of_data (ac_tokens A) (data (account vault))) fungible_balance"

subsection \<open>Swaps\<close>

definition validate_swap_setup ::
  "amm_codecs \<Rightarrow> account_with_metadata \<Rightarrow> account_with_metadata \<Rightarrow> account_with_metadata \<Rightarrow> pool_definition option" where
  "validate_swap_setup A pool vault_a vault_b = do {
    pool_def \<leftarrow> pool_of_data A (data (account pool));
    assert_that (active pool_def);
    assert_that (account_id vault_a = vault_a_id pool_def);
    assert_that (account_id vault_b = vault_b_id pool_def);
    vault_a_balance \<leftarrow> vault_balance A vault_a;
    assert_that (vault_a_balance \<ge> reserve_a pool_def);
    vault_b_balance \<leftarrow> vault_balance A vault_b;
    assert_that (vault_b_balance \<ge> reserve_b pool_def);
    Some pool_def
  }"

definition create_swap_post_states ::
  "amm_codecs \<Rightarrow> account_with_metadata \<Rightarrow> pool_definition \<Rightarrow> account_with_metadata list
    \<Rightarrow> u128 \<Rightarrow> u128 \<Rightarrow> u128 \<Rightarrow> u128 \<Rightarrow> account_post_state list option" where
  "create_swap_post_states A pool pool_def others deposit_a withdraw_a deposit_b withdraw_b = do {
    let pool_post_def = pool_def\<lparr>reserve_a := reserve_a pool_def + deposit_a - withdraw_a,
      reserve_b := reserve_b pool_def + deposit_b - withdraw_b\<rparr>;
    d \<leftarrow> data_of_pool A pool_post_def;
    Some (post_new ((account pool)\<lparr>data := d\<rparr>) # unchanged_post_states others)
  }"

definition swap_calls ::
  "amm_codecs \<Rightarrow> account_with_metadata \<Rightarrow> account_with_metadata \<Rightarrow> account_with_metadata \<Rightarrow> account_with_metadata
    \<Rightarrow> u128 \<Rightarrow> u128 \<Rightarrow> account_id \<Rightarrow> chained_call list option" where
  "swap_calls A user_deposit vault_deposit vault_withdraw user_withdraw deposit_amount withdraw_amount pool_id = do {
    let token_program_id = program_of_account (program_owner (account user_deposit));
    withdrawn \<leftarrow> holding_of_data (ac_tokens A) (data (account vault_withdraw));
    let pda_seed = compute_vault_pda_seed (ac_sha256 A) pool_id (definition_id withdrawn);
    Some [chained_call_new (ac_token_words A) token_program_id [user_deposit, vault_deposit]
        (TokenTransfer deposit_amount),
      with_pda_seeds (chained_call_new (ac_token_words A) token_program_id
        [authorized_for_callee vault_withdraw, user_withdraw] (TokenTransfer withdraw_amount)) [pda_seed]]
  }"

definition swap_logic ::
  "amm_codecs \<Rightarrow> account_with_metadata \<Rightarrow> account_with_metadata \<Rightarrow> account_with_metadata \<Rightarrow> account_with_metadata
    \<Rightarrow> u128 \<Rightarrow> u128 \<Rightarrow> u128 \<Rightarrow> u128 \<Rightarrow> account_id \<Rightarrow> (chained_call list \<times> u128 \<times> u128) option" where
  "swap_logic A user_deposit vault_deposit vault_withdraw user_withdraw swap_amount_in min_amount_out
      reserve_deposit reserve_withdraw pool_id = do {
    product \<leftarrow> checked_mul reserve_withdraw swap_amount_in;
    withdraw_amount \<leftarrow> checked_div product (reserve_deposit + swap_amount_in);
    assert_that (min_amount_out \<le> withdraw_amount);
    assert_that (withdraw_amount \<noteq> 0);
    calls \<leftarrow> swap_calls A user_deposit vault_deposit vault_withdraw user_withdraw
      swap_amount_in withdraw_amount pool_id;
    Some (calls, swap_amount_in, withdraw_amount)
  }"

definition div_ceil :: "u128 \<Rightarrow> u128 \<Rightarrow> u128" where
  "div_ceil a b = (if a mod b > 0 then a div b + 1 else a div b)"

definition exact_output_swap_logic ::
  "amm_codecs \<Rightarrow> account_with_metadata \<Rightarrow> account_with_metadata \<Rightarrow> account_with_metadata \<Rightarrow> account_with_metadata
    \<Rightarrow> u128 \<Rightarrow> u128 \<Rightarrow> u128 \<Rightarrow> u128 \<Rightarrow> account_id \<Rightarrow> (chained_call list \<times> u128 \<times> u128) option" where
  "exact_output_swap_logic A user_deposit vault_deposit vault_withdraw user_withdraw exact_amount_out max_amount_in
      reserve_deposit reserve_withdraw pool_id = do {
    assert_that (exact_amount_out \<noteq> 0);
    assert_that (exact_amount_out < reserve_withdraw);
    product \<leftarrow> checked_mul reserve_deposit exact_amount_out;
    let deposit_amount = div_ceil product (reserve_withdraw - exact_amount_out);
    assert_that (deposit_amount \<le> max_amount_in);
    calls \<leftarrow> swap_calls A user_deposit vault_deposit vault_withdraw user_withdraw
      deposit_amount exact_amount_out pool_id;
    Some (calls, deposit_amount, exact_amount_out)
  }"

text \<open>
  The two swaps differ only in the logic that computes the amounts; \<open>swap_with\<close> is the code
  they share: the choice of the direction and the update of the pool.
\<close>

definition swap_with ::
  "amm_codecs \<Rightarrow> (account_with_metadata \<Rightarrow> account_with_metadata \<Rightarrow> account_with_metadata \<Rightarrow> account_with_metadata
      \<Rightarrow> u128 \<Rightarrow> u128 \<Rightarrow> account_id \<Rightarrow> (chained_call list \<times> u128 \<times> u128) option)
    \<Rightarrow> account_with_metadata \<Rightarrow> account_with_metadata \<Rightarrow> account_with_metadata \<Rightarrow> account_with_metadata
    \<Rightarrow> account_with_metadata \<Rightarrow> account_id \<Rightarrow> (account_post_state list \<times> chained_call list) option" where
  "swap_with A logic pool vault_a vault_b user_holding_a user_holding_b token_in_id = do {
    pool_def \<leftarrow> validate_swap_setup A pool vault_a vault_b;
    (calls, (deposit_a, withdraw_a), (deposit_b, withdraw_b)) \<leftarrow>
      (if token_in_id = definition_token_a_id pool_def then do {
         (calls, deposit_a, withdraw_b) \<leftarrow> logic user_holding_a vault_a vault_b user_holding_b
           (reserve_a pool_def) (reserve_b pool_def) (account_id pool);
         Some (calls, (deposit_a, 0), (0, withdraw_b))
       } else if token_in_id = definition_token_b_id pool_def then do {
         (calls, deposit_b, withdraw_a) \<leftarrow> logic user_holding_b vault_b vault_a user_holding_a
           (reserve_b pool_def) (reserve_a pool_def) (account_id pool);
         Some (calls, (0, withdraw_a), (deposit_b, 0))
       } else None);
    posts \<leftarrow> create_swap_post_states A pool pool_def [vault_a, vault_b, user_holding_a, user_holding_b]
      deposit_a withdraw_a deposit_b withdraw_b;
    Some (posts, calls)
  }"

definition swap_exact_input ::
  "amm_codecs \<Rightarrow> account_with_metadata \<Rightarrow> account_with_metadata \<Rightarrow> account_with_metadata \<Rightarrow> account_with_metadata
    \<Rightarrow> account_with_metadata \<Rightarrow> u128 \<Rightarrow> u128 \<Rightarrow> account_id \<Rightarrow> (account_post_state list \<times> chained_call list) option" where
  "swap_exact_input A pool vault_a vault_b user_holding_a user_holding_b swap_amount_in min_amount_out token_in_id =
    swap_with A (\<lambda>user_deposit vault_deposit vault_withdraw user_withdraw.
        swap_logic A user_deposit vault_deposit vault_withdraw user_withdraw swap_amount_in min_amount_out)
      pool vault_a vault_b user_holding_a user_holding_b token_in_id"

definition swap_exact_output ::
  "amm_codecs \<Rightarrow> account_with_metadata \<Rightarrow> account_with_metadata \<Rightarrow> account_with_metadata \<Rightarrow> account_with_metadata
    \<Rightarrow> account_with_metadata \<Rightarrow> u128 \<Rightarrow> u128 \<Rightarrow> account_id \<Rightarrow> (account_post_state list \<times> chained_call list) option" where
  "swap_exact_output A pool vault_a vault_b user_holding_a user_holding_b exact_amount_out max_amount_in token_in_id =
    swap_with A (\<lambda>user_deposit vault_deposit vault_withdraw user_withdraw.
        exact_output_swap_logic A user_deposit vault_deposit vault_withdraw user_withdraw exact_amount_out max_amount_in)
      pool vault_a vault_b user_holding_a user_holding_b token_in_id"

subsection \<open>Liquidity\<close>

definition add_liquidity ::
  "amm_codecs \<Rightarrow> account_with_metadata \<Rightarrow> account_with_metadata \<Rightarrow> account_with_metadata \<Rightarrow> account_with_metadata
    \<Rightarrow> account_with_metadata \<Rightarrow> account_with_metadata \<Rightarrow> account_with_metadata \<Rightarrow> u128 \<Rightarrow> u128 \<Rightarrow> u128
    \<Rightarrow> (account_post_state list \<times> chained_call list) option" where
  "add_liquidity A pool vault_a vault_b pool_definition_lp user_holding_a user_holding_b user_holding_lp
      min_amount_liquidity max_a max_b = do {
    pool_def \<leftarrow> pool_of_data A (data (account pool));
    assert_that (account_id vault_a = vault_a_id pool_def);
    assert_that (liquidity_pool_id pool_def = account_id pool_definition_lp);
    assert_that (account_id vault_b = vault_b_id pool_def);
    assert_that (max_a \<noteq> 0 \<and> max_b \<noteq> 0);
    vault_b_balance \<leftarrow> vault_balance A vault_b;
    vault_a_balance \<leftarrow> vault_balance A vault_a;
    assert_that (reserve_a pool_def \<noteq> 0);
    assert_that (reserve_b pool_def \<noteq> 0);
    assert_that (vault_a_balance \<ge> reserve_a pool_def);
    assert_that (vault_b_balance \<ge> reserve_b pool_def);
    let ideal_a = (reserve_a pool_def * max_b) div reserve_b pool_def;
    let ideal_b = (reserve_b pool_def * max_a) div reserve_a pool_def;
    let actual_a = (if ideal_a > max_a then max_a else ideal_a);
    let actual_b = (if ideal_b > max_b then max_b else ideal_b);
    assert_that (max_a \<ge> actual_a);
    assert_that (max_b \<ge> actual_b);
    assert_that (actual_a \<noteq> 0);
    assert_that (actual_b \<noteq> 0);
    let delta_lp = min (liquidity_pool_supply pool_def * actual_a div reserve_a pool_def)
      (liquidity_pool_supply pool_def * actual_b div reserve_b pool_def);
    assert_that (delta_lp \<noteq> 0);
    assert_that (delta_lp \<ge> min_amount_liquidity);
    d \<leftarrow> data_of_pool A (pool_def\<lparr>liquidity_pool_supply := liquidity_pool_supply pool_def + delta_lp,
      reserve_a := reserve_a pool_def + actual_a, reserve_b := reserve_b pool_def + actual_b\<rparr>);
    let token_program_id = program_of_account (program_owner (account user_holding_a));
    let call_token_a = chained_call_new (ac_token_words A) token_program_id
      [user_holding_a, vault_a] (TokenTransfer actual_a);
    let call_token_b = chained_call_new (ac_token_words A) token_program_id
      [user_holding_b, vault_b] (TokenTransfer actual_b);
    let call_token_lp = with_pda_seeds (chained_call_new (ac_token_words A) token_program_id
      [authorized_for_callee pool_definition_lp, user_holding_lp] (TokenMint delta_lp))
      [compute_liquidity_token_pda_seed (ac_sha256 A) (account_id pool)];
    Some (post_new ((account pool)\<lparr>data := d\<rparr>) # unchanged_post_states
        [vault_a, vault_b, pool_definition_lp, user_holding_a, user_holding_b, user_holding_lp],
      [call_token_lp, call_token_b, call_token_a])
  }"

definition remove_liquidity ::
  "amm_codecs \<Rightarrow> account_with_metadata \<Rightarrow> account_with_metadata \<Rightarrow> account_with_metadata \<Rightarrow> account_with_metadata
    \<Rightarrow> account_with_metadata \<Rightarrow> account_with_metadata \<Rightarrow> account_with_metadata \<Rightarrow> u128 \<Rightarrow> u128 \<Rightarrow> u128
    \<Rightarrow> (account_post_state list \<times> chained_call list) option" where
  "remove_liquidity A pool vault_a vault_b pool_definition_lp user_holding_a user_holding_b user_holding_lp
      remove_amount min_a min_b = do {
    pool_def \<leftarrow> pool_of_data A (data (account pool));
    assert_that (active pool_def);
    assert_that (liquidity_pool_id pool_def = account_id pool_definition_lp);
    assert_that (account_id vault_a = vault_a_id pool_def);
    assert_that (account_id vault_b = vault_b_id pool_def);
    assert_that (min_a \<noteq> 0);
    assert_that (min_b \<noteq> 0);
    lp_holding \<leftarrow> holding_of_data (ac_tokens A) (data (account user_holding_lp));
    user_lp_balance \<leftarrow> fungible_balance lp_holding;
    assert_that (user_lp_balance \<le> liquidity_pool_supply pool_def);
    assert_that (definition_id lp_holding = liquidity_pool_id pool_def);
    withdraw_a \<leftarrow> checked_div (reserve_a pool_def * remove_amount) (liquidity_pool_supply pool_def);
    withdraw_b \<leftarrow> checked_div (reserve_b pool_def * remove_amount) (liquidity_pool_supply pool_def);
    assert_that (withdraw_a \<ge> min_a);
    assert_that (withdraw_b \<ge> min_b);
    delta_lp \<leftarrow> checked_div (liquidity_pool_supply pool_def * remove_amount) (liquidity_pool_supply pool_def);
    let still_active = (liquidity_pool_supply pool_def - delta_lp \<noteq> 0);
    d \<leftarrow> data_of_pool A (pool_def\<lparr>liquidity_pool_supply := liquidity_pool_supply pool_def - delta_lp,
      reserve_a := reserve_a pool_def - withdraw_a, reserve_b := reserve_b pool_def - withdraw_b,
      active := still_active\<rparr>);
    let token_program_id = program_of_account (program_owner (account user_holding_a));
    let call_token_a = with_pda_seeds (chained_call_new (ac_token_words A) token_program_id
      [authorized_for_callee vault_a, user_holding_a] (TokenTransfer withdraw_a))
      [compute_vault_pda_seed (ac_sha256 A) (account_id pool) (definition_token_a_id pool_def)];
    let call_token_b = with_pda_seeds (chained_call_new (ac_token_words A) token_program_id
      [authorized_for_callee vault_b, user_holding_b] (TokenTransfer withdraw_b))
      [compute_vault_pda_seed (ac_sha256 A) (account_id pool) (definition_token_b_id pool_def)];
    let call_token_lp = with_pda_seeds (chained_call_new (ac_token_words A) token_program_id
      [authorized_for_callee pool_definition_lp, user_holding_lp] (TokenBurn delta_lp))
      [compute_liquidity_token_pda_seed (ac_sha256 A) (account_id pool)];
    Some (post_new ((account pool)\<lparr>data := d\<rparr>) # unchanged_post_states
        [vault_a, vault_b, pool_definition_lp, user_holding_a, user_holding_b, user_holding_lp],
      [call_token_lp, call_token_b, call_token_a])
  }"

subsection \<open>New pools\<close>

text \<open>\<open>isqrt\<close>: the integer square root, by recursion on base-four digits.\<close>

fun isqrt_nat :: "nat \<Rightarrow> nat" where
  "isqrt_nat n = (if n = 0 then 0 else
    let r = 2 * isqrt_nat (n div 4) in if (r + 1) * (r + 1) \<le> n then r + 1 else r)"

declare isqrt_nat.simps [simp del]

definition isqrt :: "u128 \<Rightarrow> u128" where
  "isqrt w = of_nat (isqrt_nat (unat w))"

definition amm_new_definition ::
  "amm_codecs \<Rightarrow> account_with_metadata \<Rightarrow> account_with_metadata \<Rightarrow> account_with_metadata \<Rightarrow> account_with_metadata
    \<Rightarrow> account_with_metadata \<Rightarrow> account_with_metadata \<Rightarrow> account_with_metadata \<Rightarrow> u128 \<Rightarrow> u128 \<Rightarrow> program_id
    \<Rightarrow> (account_post_state list \<times> chained_call list) option" where
  "amm_new_definition A pool vault_a vault_b pool_definition_lp user_holding_a user_holding_b user_holding_lp
      token_a_amount token_b_amount amm_program_id = do {
    token_a \<leftarrow> map_option definition_id (holding_of_data (ac_tokens A) (data (account user_holding_a)));
    token_b \<leftarrow> map_option definition_id (holding_of_data (ac_tokens A) (data (account user_holding_b)));
    assert_that (program_owner (account user_holding_b) = program_owner (account user_holding_a));
    assert_that (token_a \<noteq> token_b);
    pool_id \<leftarrow> compute_pool_pda (ac_sha256 A) amm_program_id token_a token_b;
    assert_that (account_id pool = pool_id);
    assert_that (account_id vault_a = compute_vault_pda (ac_sha256 A) amm_program_id (account_id pool) token_a);
    assert_that (account_id vault_b = compute_vault_pda (ac_sha256 A) amm_program_id (account_id pool) token_b);
    assert_that (account_id pool_definition_lp
      = compute_liquidity_token_pda (ac_sha256 A) amm_program_id (account_id pool));
    pool_account_data \<leftarrow> (if account pool = default_account then Some default_pool
      else pool_of_data A (data (account pool)));
    assert_that (\<not> active pool_account_data);
    let initial_lp = isqrt (token_a_amount * token_b_amount);
    let instruction = (if account pool = default_account
      then NewFungibleDefinition ''LP Token'' initial_lp else TokenMint initial_lp);
    d \<leftarrow> data_of_pool A \<lparr>definition_token_a_id = token_a, definition_token_b_id = token_b,
      vault_a_id = account_id vault_a, vault_b_id = account_id vault_b,
      liquidity_pool_id = account_id pool_definition_lp, liquidity_pool_supply = initial_lp,
      reserve_a = token_a_amount, reserve_b = token_b_amount, fees = 0, active = True\<rparr>;
    pool_pda_seed \<leftarrow> compute_pool_pda_seed (ac_sha256 A) token_a token_b;
    let pool_post = new_claimed_if_default ((account pool)\<lparr>data := d\<rparr>) (ClaimPda pool_pda_seed);
    let token_program_id = program_of_account (program_owner (account user_holding_a));
    let call_token_a = with_pda_seeds (chained_call_new (ac_token_words A) token_program_id
      [user_holding_a, authorized_for_callee vault_a] (TokenTransfer token_a_amount))
      [compute_vault_pda_seed (ac_sha256 A) (account_id pool) token_a];
    let call_token_b = with_pda_seeds (chained_call_new (ac_token_words A) token_program_id
      [user_holding_b, authorized_for_callee vault_b] (TokenTransfer token_b_amount))
      [compute_vault_pda_seed (ac_sha256 A) (account_id pool) token_b];
    let call_token_lp = with_pda_seeds (chained_call_new (ac_token_words A) token_program_id
      [authorized_for_callee pool_definition_lp, user_holding_lp] instruction)
      [compute_liquidity_token_pda_seed (ac_sha256 A) (account_id pool)];
    Some (pool_post # unchanged_post_states
        [vault_a, vault_b, pool_definition_lp, user_holding_a, user_holding_b, user_holding_lp],
      [call_token_lp, call_token_b, call_token_a])
  }"

subsection \<open>The program\<close>

definition amm_main :: "amm_codecs \<Rightarrow> amm_instruction guest" where
  "amm_main A inp words = do {
    (posts, calls) \<leftarrow> (case (input_instruction inp, input_pre_states inp) of
        (AmmNewDefinition amount_a amount_b amm_program_id, [pool, va, vb, lp, ua, ub, ulp]) \<Rightarrow> do {
          assert_that (amount_a \<noteq> 0);
          assert_that (amount_b \<noteq> 0);
          amm_new_definition A pool va vb lp ua ub ulp amount_a amount_b amm_program_id
        }
      | (AddLiquidity min_lp max_a max_b, [pool, va, vb, lp, ua, ub, ulp]) \<Rightarrow> do {
          assert_that (min_lp \<noteq> 0);
          add_liquidity A pool va vb lp ua ub ulp min_lp max_a max_b
        }
      | (RemoveLiquidity amount min_a min_b, [pool, va, vb, lp, ua, ub, ulp]) \<Rightarrow> do {
          assert_that (amount \<noteq> 0);
          remove_liquidity A pool va vb lp ua ub ulp amount min_a min_b
        }
      | (SwapExactInput amount_in min_out token_in, [pool, va, vb, ua, ub]) \<Rightarrow>
          swap_exact_input A pool va vb ua ub amount_in min_out token_in
      | (SwapExactOutput amount_out max_in token_in, [pool, va, vb, ua, ub]) \<Rightarrow>
          swap_exact_output A pool va vb ua ub amount_out max_in token_in
      | _ \<Rightarrow> None);
    Some (with_chained_calls (guest_output inp words posts) calls)
  }"

end
