(* ===== verification/AmmSafety.thy ===== *)
theory AmmSafety
  imports Amm
begin

text \<open>
  What the automated market maker guarantees: a swap never lowers the product of the reserves,
  liquidity moves at the price of the pool as long as no product overflows, and what happens
  when one does.
\<close>

definition pool_codec_faithful :: "amm_codecs \<Rightarrow> bool" where
  "pool_codec_faithful A \<longleftrightarrow> (\<forall>p. ac_pool_of_bytes A (ac_pool_bytes A p) = Some p)"

lemma pool_of_written:
  "pool_codec_faithful A \<Longrightarrow> data_of_pool A p = Some d \<Longrightarrow> pool_of_data A d = Some p"
  by (auto simp: pool_codec_faithful_def data_of_pool_def pool_of_data_def data_of_bytes_Some)

lemma checked_div_Some [checked_simps]:
  "checked_div a b = Some c \<longleftrightarrow> b \<noteq> 0 \<and> unat c = unat a div unat b"
  by (auto simp: checked_div_def word_unat_eq_iff unat_div_distrib)

subsection \<open>Arithmetic of swaps\<close>

lemma constant_product_floor:
  fixes r s n :: nat
  assumes "0 < r + n"
  shows "s * n div (r + n) \<le> s" and "r * s \<le> (r + n) * (s - s * n div (r + n))"
proof -
  let ?w = "s * n div (r + n)"
  have w: "(r + n) * ?w \<le> s * n" by (rule times_div_less_eq_dividend)
  also have "\<dots> \<le> (r + n) * s" by (simp add: algebra_simps)
  finally show le: "?w \<le> s" using assms by auto
  have "(r + n) * (s - ?w) = (r + n) * s - (r + n) * ?w" by (simp add: diff_mult_distrib2)
  with w show "r * s \<le> (r + n) * (s - ?w)" by (simp add: algebra_simps)
qed

lemma unat_div_ceil:
  assumes "b \<noteq> 0"
  shows "unat a \<le> unat (div_ceil a b) * unat b"
proof -
  have mod_lt: "unat a mod unat b < unat b" using assms by (simp add: unat_gt_0)
  have split: "unat a = unat a div unat b * unat b + unat a mod unat b" by simp
  show ?thesis
  proof (cases "a mod b > 0")
    case True
    then have pos: "0 < unat a mod unat b" by (simp add: word_less_nat_alt unat_mod_distrib)
    then have "1 < unat b" using mod_lt by linarith
    then have "unat a div unat b < unat a" using split pos by (intro div_less_dividend) (auto intro: gr0I)
    then have "unat (a div b + 1) = unat a div unat b + 1"
      using unsigned_less [of a, where 'a = nat]
      by (simp add: unat_word_ariths unat_div_distrib)
    then have "unat (div_ceil a b) * unat b = unat a div unat b * unat b + unat b"
      using True by (simp add: div_ceil_def algebra_simps)
    with split mod_lt show ?thesis by linarith
  next
    case False
    then have "unat a mod unat b = 0" by (metis unat_mod_distrib unat_eq_0 word_gt_0)
    with False split show ?thesis by (simp add: div_ceil_def unat_div_distrib)
  qed
qed

definition swap_sound :: "nat \<Rightarrow> nat \<Rightarrow> u128 \<Rightarrow> u128 \<Rightarrow> bool" where
  "swap_sound rin rout deposit withdraw \<longleftrightarrow>
    (rin + unat deposit < 2 ^ 128 \<longrightarrow> unat withdraw \<le> rout \<and>
      rin * rout \<le> (rin + unat deposit) * (rout - unat withdraw))"

lemma swap_logic_sound:
  assumes "swap_logic A ud vd vw uw n m rin rout pool_id = Some (calls, deposit, withdraw)"
  shows "swap_calls A ud vd vw uw deposit withdraw pool_id = Some calls"
    and "swap_sound (unat rin) (unat rout) deposit withdraw"
proof -
  obtain p :: u128 where p: "unat p = unat rout * unat n" "rin + n \<noteq> 0" "unat withdraw = unat p div unat (rin + n)"
      "deposit = n" "swap_calls A ud vd vw uw n withdraw pool_id = Some calls"
    using assms by (auto simp: swap_logic_def panic_simps checked_simps Let_def)
  from p show "swap_calls A ud vd vw uw deposit withdraw pool_id = Some calls" by simp
  show "swap_sound (unat rin) (unat rout) deposit withdraw"
    unfolding swap_sound_def
  proof
    assume "unat rin + unat deposit < 2 ^ 128"
    then have sum: "unat (rin + n) = unat rin + unat n" using p(4) by (simp add: unat_word_ariths)
    then have "0 < unat rin + unat n" using p(2) by (metis gr0I unat_eq_0)
    from constant_product_floor [OF this, of "unat rout"] p sum
    show "unat withdraw \<le> unat rout \<and>
        unat rin * unat rout \<le> (unat rin + unat deposit) * (unat rout - unat withdraw)"
      by simp
  qed
qed

lemma exact_output_swap_logic_sound:
  assumes "exact_output_swap_logic A ud vd vw uw n m rin rout pool_id = Some (calls, deposit, withdraw)"
  shows "swap_calls A ud vd vw uw deposit withdraw pool_id = Some calls"
    and "swap_sound (unat rin) (unat rout) deposit withdraw"
proof -
  obtain p :: u128 where p: "n < rout" "unat p = unat rin * unat n" "deposit = div_ceil p (rout - n)" "withdraw = n"
      "swap_calls A ud vd vw uw deposit n pool_id = Some calls"
    using assms by (auto simp: exact_output_swap_logic_def panic_simps checked_simps Let_def)
  from p show "swap_calls A ud vd vw uw deposit withdraw pool_id = Some calls" by simp
  have lt: "unat n < unat rout" using p(1) by (simp add: word_less_nat_alt)
  have diff: "unat (rout - n) = unat rout - unat n" using p(1) by (simp add: unat_sub word_le_nat_alt word_less_nat_alt)
  with lt have "rout - n \<noteq> 0" by (metis unat_eq_0 zero_less_diff not_less_zero)
  from unat_div_ceil [OF this, of p] p diff
  have "unat rin * unat n \<le> unat deposit * (unat rout - unat n)" by simp
  then have "unat rin * unat n + unat rin * (unat rout - unat n) \<le> (unat rin + unat deposit) * (unat rout - unat n)"
    by (simp add: algebra_simps)
  moreover have "unat rin * unat n + unat rin * (unat rout - unat n) = unat rin * unat rout"
    using lt by (metis add_diff_inverse_nat distrib_left not_less_iff_gr_or_eq)
  ultimately show "swap_sound (unat rin) (unat rout) deposit withdraw"
    using lt p(4) by (simp add: swap_sound_def)
qed

subsection \<open>Swaps\<close>

text \<open>The two sides of a swap: reserve of the token that comes in and of the one that goes out.\<close>

definition reserve_in :: "account_id \<Rightarrow> pool_definition \<Rightarrow> u128" where
  "reserve_in token_in p = (if token_in = definition_token_a_id p then reserve_a p else reserve_b p)"

definition reserve_out :: "account_id \<Rightarrow> pool_definition \<Rightarrow> u128" where
  "reserve_out token_in p = (if token_in = definition_token_a_id p then reserve_b p else reserve_a p)"

lemma unat_reserve_update:
  fixes r x :: u128
  shows "unat r + unat x < 2 ^ 128 \<Longrightarrow> unat (r + x) = unat r + unat x"
    and "unat x \<le> unat r \<Longrightarrow> unat (r - x) = unat r - unat x"
  by (simp_all add: unat_word_ariths unat_sub word_le_nat_alt)

text \<open>
  The contract of the code that computes the amounts of a swap: it asks for the transfers it
  announces, and what it pays out keeps the product of the reserves.
\<close>

locale swap_rule =
  fixes A :: amm_codecs
    and logic :: "account_with_metadata \<Rightarrow> account_with_metadata \<Rightarrow> account_with_metadata \<Rightarrow> account_with_metadata
      \<Rightarrow> u128 \<Rightarrow> u128 \<Rightarrow> account_id \<Rightarrow> (chained_call list \<times> u128 \<times> u128) option"
  assumes calls_announced: "logic ud vd vw uw rin rout pool_id = Some (calls, deposit, withdraw) \<Longrightarrow>
      swap_calls A ud vd vw uw deposit withdraw pool_id = Some calls"
    and amounts_sound: "logic ud vd vw uw rin rout pool_id = Some (calls, deposit, withdraw) \<Longrightarrow>
      swap_sound (unat rin) (unat rout) deposit withdraw"
begin

lemma swap_with_cases:
  assumes run: "swap_with A logic pool va vb ua ub t = Some (posts, calls)"
    and p: "pool_of_data A (data (account pool)) = Some p"
  obtains p' ud vd vw uw deposit withdraw bal where
    "logic ud vd vw uw (reserve_in t p) (reserve_out t p) (account_id pool) = Some (calls, deposit, withdraw)"
    "data_of_pool A p' = Some (data (post_account (posts ! 0)))"
    "reserve_in t p' = reserve_in t p + deposit" "reserve_out t p' = reserve_out t p - withdraw"
    "vault_balance A (if t = definition_token_a_id p then va else vb) = Some bal" "reserve_in t p \<le> bal"
    "p' = p\<lparr>reserve_a := reserve_a p', reserve_b := reserve_b p'\<rparr>"
proof -
  have ok: "validate_swap_setup A pool va vb = Some p" "\<exists>b. vault_balance A va = Some b \<and> reserve_a p \<le> b"
      "\<exists>b. vault_balance A vb = Some b \<and> reserve_b p \<le> b"
    using run p by (auto simp: swap_with_def validate_swap_setup_def panic_simps)
  show thesis
  proof (cases "t = definition_token_a_id p")
    case True
    with run ok(1) obtain deposit withdraw d where
        "logic ua va vb ub (reserve_a p) (reserve_b p) (account_id pool) = Some (calls, deposit, withdraw)"
        "data_of_pool A (p\<lparr>reserve_a := reserve_a p + deposit, reserve_b := reserve_b p - withdraw\<rparr>) = Some d"
        "posts ! 0 = post_new ((account pool)\<lparr>data := d\<rparr>)"
      by (auto simp: swap_with_def panic_simps create_swap_post_states_def Let_def split: prod.splits)
    with ok True show thesis by (fastforce intro: that simp: reserve_in_def reserve_out_def)
  next
    case False
    with run ok(1) obtain deposit withdraw d where
        "logic ub vb va ua (reserve_b p) (reserve_a p) (account_id pool) = Some (calls, deposit, withdraw)"
        "data_of_pool A (p\<lparr>reserve_a := reserve_a p - withdraw, reserve_b := reserve_b p + deposit\<rparr>) = Some d"
        "posts ! 0 = post_new ((account pool)\<lparr>data := d\<rparr>)"
      by (auto simp: swap_with_def panic_simps create_swap_post_states_def Let_def split: prod.splits if_splits)
    with ok False show thesis by (fastforce intro: that simp: reserve_in_def reserve_out_def)
  qed
qed

lemma swap_with_sound:
  assumes "pool_codec_faithful A"
    and "swap_with A logic pool va vb ua ub t = Some (posts, calls)"
    and "pool_of_data A (data (account pool)) = Some p"
  shows "\<exists>p' deposit withdraw bal.
    pool_of_data A (data (post_account (posts ! 0))) = Some p' \<and> p' = p\<lparr>reserve_a := reserve_a p', reserve_b := reserve_b p'\<rparr> \<and>
    map call_instruction_data calls
      = [ac_token_words A (TokenTransfer deposit), ac_token_words A (TokenTransfer withdraw)] \<and>
    vault_balance A (if t = definition_token_a_id p then va else vb) = Some bal \<and>
    (unat bal + unat deposit < 2 ^ 128 \<longrightarrow>
      unat (reserve_in t p') = unat (reserve_in t p) + unat deposit \<and>
      unat (reserve_out t p) = unat (reserve_out t p') + unat withdraw \<and>
      unat (reserve_in t p) * unat (reserve_out t p) \<le> unat (reserve_in t p') * unat (reserve_out t p'))"
proof -
  obtain p' ud vd vw uw deposit withdraw bal where run:
      "logic ud vd vw uw (reserve_in t p) (reserve_out t p) (account_id pool) = Some (calls, deposit, withdraw)"
      "data_of_pool A p' = Some (data (post_account (posts ! 0)))"
      "reserve_in t p' = reserve_in t p + deposit" "reserve_out t p' = reserve_out t p - withdraw"
      "vault_balance A (if t = definition_token_a_id p then va else vb) = Some bal" "reserve_in t p \<le> bal"
    "p' = p\<lparr>reserve_a := reserve_a p', reserve_b := reserve_b p'\<rparr>"
    by (rule swap_with_cases [OF assms(2,3)])
  have "map call_instruction_data calls
      = [ac_token_words A (TokenTransfer deposit), ac_token_words A (TokenTransfer withdraw)]"
    using calls_announced [OF run(1)]
    by (auto simp: swap_calls_def panic_simps Let_def chained_call_new_def with_pda_seeds_def)
  moreover have "unat (reserve_in t p') = unat (reserve_in t p) + unat deposit \<and>
      unat (reserve_out t p) = unat (reserve_out t p') + unat withdraw \<and>
      unat (reserve_in t p) * unat (reserve_out t p) \<le> unat (reserve_in t p') * unat (reserve_out t p')"
    if "unat bal + unat deposit < 2 ^ 128"
  proof -
    have fits: "unat (reserve_in t p) + unat deposit < 2 ^ 128" using that run(6) by (simp add: word_le_nat_alt)
    then show ?thesis
      using amounts_sound [OF run(1)] unfolding swap_sound_def run(3,4)
      by (auto simp: unat_reserve_update)
  qed
  ultimately show ?thesis
    using pool_of_written [OF assms(1) run(2)] run(5,7)
    by - (rule exI [of _ p'], rule exI [of _ deposit], rule exI [of _ withdraw], rule exI [of _ bal], blast)
qed

end

interpretation exact_input: swap_rule A "\<lambda>ud vd vw uw. swap_logic A ud vd vw uw n m" for A n m
  by unfold_locales (rule swap_logic_sound, assumption)+

interpretation exact_output: swap_rule A "\<lambda>ud vd vw uw. exact_output_swap_logic A ud vd vw uw n m" for A n m
  by unfold_locales (rule exact_output_swap_logic_sound, assumption)+

text \<open>
  C33: A swap keeps the constant product. Only the reserves of the pool change. It asks for
  exactly the transfers it records, and, when the vault can receive the deposit, the reserve of the incoming token grows by the
  deposit, the other shrinks by what is paid out without wrapping, and the product of the
  reserves does not fall, in both directions and for exact input and exact output.
\<close>

theorem swap_constant_product:
  assumes "pool_codec_faithful A" and "amm_main A inp words = Some out"
    and "input_instruction inp \<in> {SwapExactInput n m t, SwapExactOutput n m t}"
    and "pre_states out = [pool, va, vb, ua, ub]" and "pool_of_data A (data (account pool)) = Some p"
  shows "\<exists>p' deposit withdraw bal.
    pool_of_data A (data (post_account (post_states out ! 0))) = Some p' \<and> p' = p\<lparr>reserve_a := reserve_a p', reserve_b := reserve_b p'\<rparr> \<and>
    map call_instruction_data (chained_calls out)
      = [ac_token_words A (TokenTransfer deposit), ac_token_words A (TokenTransfer withdraw)] \<and>
    vault_balance A (if t = definition_token_a_id p then va else vb) = Some bal \<and>
    (unat bal + unat deposit < 2 ^ 128 \<longrightarrow>
      unat (reserve_in t p') = unat (reserve_in t p) + unat deposit \<and>
      unat (reserve_out t p) = unat (reserve_out t p') + unat withdraw \<and>
      unat (reserve_in t p) * unat (reserve_out t p) \<le> unat (reserve_in t p') * unat (reserve_out t p'))"
proof -
  have "swap_exact_input A pool va vb ua ub n m t = Some (post_states out, chained_calls out)
      \<or> swap_exact_output A pool va vb ua ub n m t = Some (post_states out, chained_calls out)"
    using assms(2-4)
    by (auto simp: amm_main_def panic_simps with_chained_calls_def guest_output_def program_output_new_def
        split: list.splits)
  then show ?thesis
    unfolding swap_exact_input_def swap_exact_output_def
    by (elim disjE exact_input.swap_with_sound [OF assms(1) _ assms(5)]
        exact_output.swap_with_sound [OF assms(1) _ assms(5)])
qed

subsection \<open>Liquidity\<close>

lemma unat_mul_small:
  fixes a b :: u128
  assumes "unat a < 2 ^ 64" and "unat b < 2 ^ 64"
  shows "unat (a * b) = unat a * unat b"
proof -
  have "unat a * unat b < 2 ^ 64 * 2 ^ 64" using assms by (intro mult_strict_mono') simp_all
  then show ?thesis by (simp add: unat_word_ariths)
qed

lemma share_of_reserve:
  fixes r n s :: u128
  assumes "unat r < 2 ^ 64" and "unat n < 2 ^ 64" and "n \<le> s" and "s \<noteq> 0"
    and "unat w = unat (r * n) div unat s"
  shows "w \<le> r" and "unat r * unat (s - n) \<le> unat (r - w) * unat s"
proof -
  have w: "unat w = unat r * unat n div unat s" using assms by (simp add: unat_mul_small)
  have ns: "unat n \<le> unat s" using assms(3) by (simp add: word_le_nat_alt)
  have pay: "unat w * unat s \<le> unat r * unat n" unfolding w by simp
  also have "\<dots> \<le> unat r * unat s" using ns by simp
  finally have "unat w \<le> unat r" using assms(4) by (simp add: unat_gt_0)
  then show le: "w \<le> r" by (simp add: word_le_nat_alt)
  have "unat r * unat (s - n) = unat r * unat s - unat r * unat n"
    using assms(3) by (simp add: unat_sub diff_mult_distrib2)
  also have "\<dots> \<le> unat r * unat s - unat w * unat s" using pay by simp
  also have "\<dots> = unat (r - w) * unat s" using le by (simp add: unat_sub diff_mult_distrib)
  finally show "unat r * unat (s - n) \<le> unat (r - w) * unat s" .
qed

lemma minted_share:
  fixes r s x d :: u128
  assumes "unat r < 2 ^ 64" and "unat s < 2 ^ 64" and "unat x < 2 ^ 64" and "r \<noteq> 0" and "d \<le> s * x div r"
  shows "unat r * unat (s + d) \<le> unat (r + x) * unat s"
proof -
  have "unat d \<le> unat s * unat x div unat r"
    using assms by (simp add: word_le_nat_alt unat_div_distrib unat_mul_small)
  then have "unat r * unat d \<le> unat r * (unat s * unat x div unat r)" by (rule mult_le_mono2)
  also have "\<dots> \<le> unat s * unat x" by simp
  finally have rd: "unat r * unat d \<le> unat s * unat x" .
  have "unat d \<le> unat s * unat x"
    using \<open>unat d \<le> unat s * unat x div unat r\<close> by (meson div_le_dividend le_trans)
  moreover have "unat s * unat x \<le> (2 ^ 64 - 1) * (2 ^ 64 - 1)" using assms by (intro mult_le_mono) simp_all
  ultimately have "unat (s + d) = unat s + unat d" "unat (r + x) = unat r + unat x"
    using assms by (simp_all add: unat_word_ariths)
  with rd show ?thesis by (simp add: algebra_simps)
qed

text \<open>What a share of the liquidity token is worth in each reserve does not fall.\<close>

definition share_kept :: "pool_definition \<Rightarrow> pool_definition \<Rightarrow> bool" where
  "share_kept p p' \<longleftrightarrow>
    unat (reserve_a p) * unat (liquidity_pool_supply p') \<le> unat (reserve_a p') * unat (liquidity_pool_supply p) \<and>
    unat (reserve_b p) * unat (liquidity_pool_supply p') \<le> unat (reserve_b p') * unat (liquidity_pool_supply p)"

definition amounts_below :: "nat \<Rightarrow> pool_definition \<Rightarrow> u128 list \<Rightarrow> bool" where
  "amounts_below bound p xs \<longleftrightarrow>
    (\<forall>x \<in> set (reserve_a p # reserve_b p # liquidity_pool_supply p # xs). unat x < bound)"

lemma add_liquidity_share:
  assumes A: "pool_codec_faithful A"
    and run: "add_liquidity A pool va vb lp ua ub ulp n max_a max_b = Some (posts, calls)"
    and p: "pool_of_data A (data (account pool)) = Some p" and small: "amounts_below (2 ^ 64) p [max_a, max_b]"
  shows "\<exists>p'. pool_of_data A (data (post_account (posts ! 0))) = Some p' \<and> share_kept p p'"
proof -
  define x where "x = (if reserve_a p * max_b div reserve_b p > max_a then max_a else reserve_a p * max_b div reserve_b p)"
  define y where "y = (if reserve_b p * max_a div reserve_a p > max_b then max_b else reserve_b p * max_a div reserve_a p)"
  define delta where "delta = min (liquidity_pool_supply p * x div reserve_a p) (liquidity_pool_supply p * y div reserve_b p)"
  obtain d where res: "reserve_a p \<noteq> 0" "reserve_b p \<noteq> 0" "x \<le> max_a" "y \<le> max_b"
      "data_of_pool A (p\<lparr>liquidity_pool_supply := liquidity_pool_supply p + delta,
        reserve_a := reserve_a p + x, reserve_b := reserve_b p + y\<rparr>) = Some d"
      "posts ! 0 = post_new ((account pool)\<lparr>data := d\<rparr>)"
    using run p unfolding add_liquidity_def Let_def panic_simps x_def y_def delta_def by auto
  have delta: "delta \<le> liquidity_pool_supply p * x div reserve_a p" "delta \<le> liquidity_pool_supply p * y div reserve_b p"
    by (simp_all add: delta_def)
  have "unat x < 2 ^ 64" "unat y < 2 ^ 64"
    using res(3,4) small by (auto simp: amounts_below_def word_le_nat_alt)
  with res delta small have "share_kept p (p\<lparr>liquidity_pool_supply := liquidity_pool_supply p + delta,
      reserve_a := reserve_a p + x, reserve_b := reserve_b p + y\<rparr>)"
    by (simp add: share_kept_def amounts_below_def minted_share)
  with pool_of_written [OF A res(5)] res(6) show ?thesis by simp
qed

lemma remove_liquidity_share:
  assumes A: "pool_codec_faithful A"
    and run: "remove_liquidity A pool va vb lp ua ub ulp n min_a min_b = Some (posts, calls)"
    and p: "pool_of_data A (data (account pool)) = Some p" and small: "amounts_below (2 ^ 64) p [n]"
    and n: "n \<le> liquidity_pool_supply p"
  shows "\<exists>p'. pool_of_data A (data (post_account (posts ! 0))) = Some p' \<and> share_kept p p'"
proof -
  obtain x y delta d where res: "liquidity_pool_supply p \<noteq> 0"
      "unat x = unat (reserve_a p * n) div unat (liquidity_pool_supply p)"
      "unat y = unat (reserve_b p * n) div unat (liquidity_pool_supply p)"
      "unat delta = unat (liquidity_pool_supply p * n) div unat (liquidity_pool_supply p)"
      "data_of_pool A (p\<lparr>liquidity_pool_supply := liquidity_pool_supply p - delta,
        reserve_a := reserve_a p - x, reserve_b := reserve_b p - y,
        active := liquidity_pool_supply p - delta \<noteq> 0\<rparr>) = Some d"
      "posts ! 0 = post_new ((account pool)\<lparr>data := d\<rparr>)"
    using run p by (auto simp: remove_liquidity_def panic_simps checked_simps Let_def)
  have "unat delta = unat n"
    using res(1,4) small by (simp add: amounts_below_def unat_mul_small unat_gt_0)
  then have delta: "delta = n" by (simp add: word_unat_eq_iff)
  have "share_kept p (p\<lparr>liquidity_pool_supply := liquidity_pool_supply p - delta,
      reserve_a := reserve_a p - x, reserve_b := reserve_b p - y,
      active := liquidity_pool_supply p - delta \<noteq> 0\<rparr>)"
    using share_of_reserve(2) [OF _ _ n res(1) res(2)] share_of_reserve(2) [OF _ _ n res(1) res(3)] small
    by (simp add: share_kept_def amounts_below_def delta)
  with pool_of_written [OF A res(5)] res(6) show ?thesis by simp
qed

text \<open>
  C34: Adding and removing liquidity is fair to the other holders. When the reserves, the
  liquidity supply and the requested amounts are below \<open>2 ^ 64\<close> and no more liquidity is
  removed than there is, what a share is worth in either token does not fall.
\<close>

theorem liquidity_share_kept:
  assumes "pool_codec_faithful A" and "amm_main A inp words = Some out"
    and "pre_states out = [pool, va, vb, lp, ua, ub, ulp]" and "pool_of_data A (data (account pool)) = Some p"
    and "(\<exists>n. input_instruction inp = AddLiquidity n x y \<and> amounts_below (2 ^ 64) p [x, y])
      \<or> (input_instruction inp = RemoveLiquidity x y z \<and> amounts_below (2 ^ 64) p [x] \<and> x \<le> liquidity_pool_supply p)"
  shows "\<exists>p'. pool_of_data A (data (post_account (post_states out ! 0))) = Some p' \<and> share_kept p p'"
proof -
  have "(\<exists>n. add_liquidity A pool va vb lp ua ub ulp n x y = Some (post_states out, chained_calls out)
        \<and> amounts_below (2 ^ 64) p [x, y])
      \<or> remove_liquidity A pool va vb lp ua ub ulp x y z = Some (post_states out, chained_calls out)
        \<and> amounts_below (2 ^ 64) p [x] \<and> x \<le> liquidity_pool_supply p"
    using assms(2,3,5)
    by (auto simp: amm_main_def panic_simps with_chained_calls_def guest_output_def program_output_new_def
        split: list.splits)
  then show ?thesis
    by (elim disjE exE conjE) (rule add_liquidity_share [OF assms(1) _ assms(4)]
        remove_liquidity_share [OF assms(1) _ assms(4)], assumption+)+
qed

lemma remove_liquidity_zero_burn:
  assumes "remove_liquidity A pool va vb lp ua ub ulp n min_a min_b = Some (posts, calls)"
    and "pool_of_data A (data (account pool)) = Some p" and "liquidity_pool_supply p * n = 0"
  shows "\<exists>x y. 0 < min_a \<and> min_a \<le> x \<and> 0 < min_b \<and> min_b \<le> y \<and>
    map call_instruction_data calls = [ac_token_words A (TokenBurn 0),
      ac_token_words A (TokenTransfer y), ac_token_words A (TokenTransfer x)]"
  using assms
  by - (rule exI [of _ "reserve_a p * n div liquidity_pool_supply p"],
    rule exI [of _ "reserve_b p * n div liquidity_pool_supply p"],
    auto simp: remove_liquidity_def panic_simps checked_div_def Let_def chained_call_new_def with_pda_seeds_def
      word_gt_0 split: if_splits)

text \<open>
  C35: The products of \<open>remove_liquidity\<close> wrap. When the liquidity supply times the requested
  amount is a multiple of \<open>2 ^ 128\<close>, the pool pays out of both vaults, at least the minimum the
  caller names, and asks the token program to burn nothing.
\<close>

theorem remove_liquidity_wraps:
  assumes "amm_main A inp words = Some out" and "input_instruction inp = RemoveLiquidity n min_a min_b"
    and "pre_states out = [pool, va, vb, lp, ua, ub, ulp]" and "pool_of_data A (data (account pool)) = Some p"
    and "liquidity_pool_supply p * n = 0"
  shows "\<exists>x y. 0 < min_a \<and> min_a \<le> x \<and> 0 < min_b \<and> min_b \<le> y \<and>
    map call_instruction_data (chained_calls out) = [ac_token_words A (TokenBurn 0),
      ac_token_words A (TokenTransfer y), ac_token_words A (TokenTransfer x)]"
proof -
  have "remove_liquidity A pool va vb lp ua ub ulp n min_a min_b = Some (post_states out, chained_calls out)"
    using assms(1-3)
    by (auto simp: amm_main_def panic_simps with_chained_calls_def guest_output_def program_output_new_def
        split: list.splits)
  from remove_liquidity_zero_burn [OF this assms(4,5)] show ?thesis .
qed

end
