(* ===== verification/GuestExamples.thy ===== *)
theory GuestExamples
  imports AmmSafety
begin

text \<open>
  Concrete runs of the token program and of the market maker. The account layouts are
  instantiated by byte encodings that can be decoded again, with a name at the end of a
  definition; the runs show that the hypotheses of the theorems on the two programs can hold.
\<close>

subsection \<open>Encodings\<close>

fun definition_bytes :: "token_definition \<Rightarrow> bytes" where
  "definition_bytes (FungibleDefinition name n None) = 0 # u128_to_le_bytes n @ ascii name"
| "definition_bytes (FungibleDefinition name n (Some m)) = 1 # u128_to_le_bytes n @ array32 (id_value m) @ ascii name"
| "definition_bytes (NonFungibleDefinition name n m) = 2 # u128_to_le_bytes n @ array32 (id_value m) @ ascii name"

definition of_ascii :: "bytes \<Rightarrow> string" where
  "of_ascii bs = map (\<lambda>b. char_of (unat b)) bs"

definition definition_of_bytes :: "bytes \<Rightarrow> token_definition option" where
  "definition_of_bytes bs = (case bs of [] \<Rightarrow> None
    | tag # rest \<Rightarrow>
      let n = le_join (take 16 rest); rest = drop 16 rest; m = AccountId (of_array32 (take 32 rest)) in
      if tag = 0 then Some (FungibleDefinition (of_ascii rest) n None)
      else if tag = 1 then Some (FungibleDefinition (of_ascii (drop 32 rest)) n (Some m))
      else Some (NonFungibleDefinition (of_ascii (drop 32 rest)) n m))"

fun holding_bytes :: "token_holding \<Rightarrow> bytes" where
  "holding_bytes (FungibleHolding d n) = 0 # array32 (id_value d) @ u128_to_le_bytes n"
| "holding_bytes (NftMaster d n) = 1 # array32 (id_value d) @ u128_to_le_bytes n"
| "holding_bytes (NftPrintedCopy d owned) = 2 # array32 (id_value d) @ [if owned then 1 else 0]"

definition holding_of_bytes :: "bytes \<Rightarrow> token_holding option" where
  "holding_of_bytes bs = (case bs of [] \<Rightarrow> None
    | tag # rest \<Rightarrow>
      let d = AccountId (of_array32 (take 32 rest)); rest = drop 32 rest in
      if tag = 0 then Some (FungibleHolding d (le_join rest))
      else if tag = 1 then Some (NftMaster d (le_join rest))
      else Some (NftPrintedCopy d (rest = [1])))"

definition demo_tokens :: token_codecs where
  "demo_tokens = \<lparr>tc_definition_bytes = definition_bytes, tc_definition_of_bytes = definition_of_bytes,
    tc_holding_bytes = holding_bytes, tc_holding_of_bytes = holding_of_bytes,
    tc_metadata_bytes = (\<lambda>m. array32 (id_value (meta_definition_id m)))\<rparr>"

lemma of_ascii_ascii [simp]: "of_ascii (ascii s) = s"
proof -
  have "char_of (unat (of_nat (of_char c) :: u8)) = c" for c
    by (simp add: unat_of_nat)
  then show ?thesis by (simp add: of_ascii_def ascii_def comp_def)
qed

lemma definition_of_definition_bytes [simp]: "definition_of_bytes (definition_bytes x) = Some x"
  by (cases x rule: definition_bytes.cases) (simp_all add: definition_of_bytes_def)

lemma holding_of_holding_bytes [simp]: "holding_of_bytes (holding_bytes x) = Some x"
  by (cases x) (simp_all add: holding_of_bytes_def)

lemma demo_tokens_faithful: "token_codecs_faithful demo_tokens"
proof -
  have "definition_of_bytes [] = None" "holding_of_bytes [] = None"
    by (simp_all add: definition_of_bytes_def holding_of_bytes_def)
  then show ?thesis by (simp add: token_codecs_faithful_def demo_tokens_def)
qed

lemma length_holding_bytes: "length (holding_bytes x) \<le> 49"
  by (cases x) simp_all

lemma demo_holding [simp]:
  "holding_of_data demo_tokens (Data (holding_bytes h)) = Some h"
  "data_of_holding demo_tokens h = Some (Data (holding_bytes h))"
  using length_holding_bytes [of h]
  by (simp_all add: demo_tokens_def holding_of_data_def data_of_holding_def data_of_bytes_Some DATA_MAX_LENGTH_def)

declare holding_bytes.simps [simp del]

subsection \<open>A token transfer\<close>

definition token_account :: "array32 \<Rightarrow> token_holding \<Rightarrow> account_with_metadata" where
  "token_account i h = \<lparr>account = default_account\<lparr>program_owner := AccountId 7, data := Data (holding_bytes h)\<rparr>,
    is_authorized = (i = 1), account_id = AccountId i\<rparr>"

definition token_inputs :: "token_instruction program_input" where
  "token_inputs = \<lparr>input_self = ProgramId 7, input_caller = None,
    input_pre_states = [token_account 1 (FungibleHolding (AccountId 5) 100), token_account 2 (FungibleHolding (AccountId 5) 3)],
    input_instruction = TokenTransfer 30\<rparr>"

definition token_posts :: "account_post_state list" where
  "token_posts = [post_new (account (token_account 1 (FungibleHolding (AccountId 5) 70))),
    new_claimed_if_default (account (token_account 2 (FungibleHolding (AccountId 5) 33))) ClaimAuthorized]"

lemma holding_not_empty [simp]: "holding_bytes h \<noteq> []"
  by (cases h) (simp_all add: holding_bytes.simps)

lemma token_run: "token_main demo_tokens token_inputs [30] = Some (guest_output token_inputs [30] token_posts)"
  by (simp add: token_main_def token_inputs_def token_transfer_def token_account_def token_posts_def
      assert_that_def checked_sub_def checked_add_def default_account_def)

lemma token_run_simps:
  "pre_states (guest_output token_inputs [30] token_posts) = input_pre_states token_inputs"
  "post_states (guest_output token_inputs [30] token_posts) = token_posts"
  "input_instruction token_inputs = TokenTransfer 30"
  by (simp_all add: guest_output_def program_output_new_def token_inputs_def)

text \<open>Witness: 30 units move between two holdings, and the sender signed.\<close>

theorem token_conserves_units_witness:
  "token_main demo_tokens token_inputs [30] = Some (guest_output token_inputs [30] token_posts) \<and>
    (\<Sum>p\<leftarrow>token_posts. account_units demo_tokens (post_account p))
      = (\<Sum>p\<leftarrow>input_pre_states token_inputs. account_units demo_tokens (account p))"
  using token_conserves_units [OF demo_tokens_faithful token_run] token_run
  by (simp add: token_run_simps comp_def)

theorem token_authorization_witness:
  "token_main demo_tokens token_inputs [30] = Some (guest_output token_inputs [30] token_posts) \<and>
    list_all2 (\<lambda>pre post. is_authorized pre \<or>
        account_units demo_tokens (account pre) \<le> account_units demo_tokens (post_account post))
      (input_pre_states token_inputs) token_posts"
  using token_authorization [OF demo_tokens_faithful token_run] token_run
  by (simp add: token_run_simps list.rel_map)

subsection \<open>A pool\<close>

definition pool_bytes :: "pool_definition \<Rightarrow> bytes" where
  "pool_bytes p = concat (map (\<lambda>f. array32 (id_value (f p)))
      [definition_token_a_id, definition_token_b_id, vault_a_id, vault_b_id, liquidity_pool_id])
    @ concat (map (\<lambda>f. u128_to_le_bytes (f p)) [liquidity_pool_supply, reserve_a, reserve_b, fees])
    @ [if active p then 1 else 0]"

definition pool_of_bytes :: "bytes \<Rightarrow> pool_definition option" where
  "pool_of_bytes bs = (if bs = [] then None else
    let field = (\<lambda>k. AccountId (of_array32 (take 32 (drop (32 * k) bs))));
        amount = (\<lambda>k. le_join (take 16 (drop (160 + 16 * k) bs))) in
    Some \<lparr>definition_token_a_id = field 0, definition_token_b_id = field 1, vault_a_id = field 2,
      vault_b_id = field 3, liquidity_pool_id = field 4, liquidity_pool_supply = amount 0,
      reserve_a = amount 1, reserve_b = amount 2, fees = amount 3, active = (drop 224 bs = [1])\<rparr>)"

fun token_words :: "token_instruction \<Rightarrow> u32 list" where
  "token_words (TokenTransfer n) = 0 # le_split 4 n"
| "token_words (TokenBurn n) = 1 # le_split 4 n"
| "token_words (TokenMint n) = 2 # le_split 4 n"
| "token_words _ = [3]"

definition demo_amm :: amm_codecs where
  "demo_amm = \<lparr>ac_sha256 = (\<lambda>bs. of_array32 (drop (length bs - 32) bs)), ac_tokens = demo_tokens,
    ac_token_words = token_words, ac_pool_bytes = pool_bytes, ac_pool_of_bytes = pool_of_bytes\<rparr>"

lemma pool_of_pool_bytes [simp]: "pool_of_bytes (pool_bytes p) = Some p"
  by (simp add: pool_of_bytes_def pool_bytes_def Let_def)

lemma demo_amm_faithful: "pool_codec_faithful demo_amm"
  by (simp add: pool_codec_faithful_def demo_amm_def)

lemma length_pool_bytes: "length (pool_bytes p) = 225"
  by (simp add: pool_bytes_def)

lemma demo_pool [simp]:
  "pool_of_data demo_amm (Data (pool_bytes p)) = Some p"
  "data_of_pool demo_amm p = Some (Data (pool_bytes p))"
  "ac_tokens demo_amm = demo_tokens" "ac_token_words demo_amm = token_words"
  by (simp_all add: demo_amm_def pool_of_data_def data_of_pool_def data_of_bytes_Some DATA_MAX_LENGTH_def length_pool_bytes)

definition demo_pool_of :: "u128 \<Rightarrow> u128 \<Rightarrow> u128 \<Rightarrow> pool_definition" where
  "demo_pool_of n a b = \<lparr>definition_token_a_id = AccountId 5, definition_token_b_id = AccountId 6,
    vault_a_id = AccountId 21, vault_b_id = AccountId 22, liquidity_pool_id = AccountId 23,
    liquidity_pool_supply = n, reserve_a = a, reserve_b = b, fees = 0, active = True\<rparr>"

definition pool_account :: "pool_definition \<Rightarrow> account_with_metadata" where
  "pool_account p = \<lparr>account = default_account\<lparr>program_owner := AccountId 8, data := Data (pool_bytes p)\<rparr>,
    is_authorized = False, account_id = AccountId 20\<rparr>"

definition amm_inputs :: "amm_instruction \<Rightarrow> pool_definition \<Rightarrow> amm_instruction program_input" where
  "amm_inputs i p = \<lparr>input_self = ProgramId 8, input_caller = None,
    input_pre_states = [pool_account p, token_account 21 (FungibleHolding (AccountId 5) (reserve_a p)),
      token_account 22 (FungibleHolding (AccountId 6) (reserve_b p))]
      @ (case i of RemoveLiquidity _ _ _ \<Rightarrow> [token_account 23 (FungibleHolding (AccountId 23) 0)] | _ \<Rightarrow> [])
      @ [token_account 1 (FungibleHolding (AccountId 5) 500), token_account 2 (FungibleHolding (AccountId 6) 0)]
      @ (case i of RemoveLiquidity _ _ _ \<Rightarrow> [token_account 3 (FungibleHolding (AccountId 23) 1)] | _ \<Rightarrow> []),
    input_instruction = i\<rparr>"

lemmas amm_simps = amm_main_def amm_inputs_def demo_pool_of_def pool_account_def token_account_def
  vault_balance_def assert_that_def Let_def

lemmas amm_runs = amm_simps checked_mul_def checked_div_def guest_output_def program_output_new_def with_chained_calls_def

abbreviation "swap_inputs \<equiv> amm_inputs (SwapExactInput 100 80 (AccountId 5)) (demo_pool_of 1000 1000 1000)"

lemma swap_run: "\<exists>out. amm_main demo_amm swap_inputs [] = Some out \<and> pre_states out = input_pre_states swap_inputs \<and>
    call_instruction_data (hd (chained_calls out)) = token_words (TokenTransfer 100)"
  by (simp add: amm_runs chained_call_new_def with_pda_seeds_def swap_exact_input_def swap_with_def validate_swap_setup_def swap_logic_def
      swap_calls_def create_swap_post_states_def)

text \<open>Witness: the reserves after a swap of 100 units.\<close>

lemma token_words_transfer:
  assumes "token_words (TokenTransfer n) = token_words (TokenTransfer m)"
  shows "n = m"
proof -
  have "le_split 4 n = (le_split 4 m :: u32 list)" using assms by (simp only: token_words.simps list.inject)
  then have "le_join (le_split 4 n :: u32 list) = (le_join (le_split 4 m :: u32 list) :: u128)" by (rule arg_cong)
  then show ?thesis by (simp add: codec_simps)
qed

theorem swap_constant_product_witness:
  "\<exists>out p'. amm_main demo_amm swap_inputs [] = Some out \<and>
    pool_of_data demo_amm (data (post_account (post_states out ! 0))) = Some p' \<and>
    unat (reserve_a p') = 1100 \<and> 1000 * 1000 \<le> unat (reserve_a p') * unat (reserve_b p')"
proof -
  obtain out where out: "amm_main demo_amm swap_inputs [] = Some out" "pre_states out = input_pre_states swap_inputs"
      "call_instruction_data (hd (chained_calls out)) = token_words (TokenTransfer 100)"
    using swap_run by blast
  let ?va = "token_account 21 (FungibleHolding (AccountId 5) 1000)" and ?p = "demo_pool_of 1000 1000 1000"
  have pres: "pre_states out = [pool_account ?p, ?va, token_account 22 (FungibleHolding (AccountId 6) 1000),
      token_account 1 (FungibleHolding (AccountId 5) 500), token_account 2 (FungibleHolding (AccountId 6) 0)]"
    using out(2) by (simp add: amm_inputs_def demo_pool_of_def)
  have pool: "pool_of_data demo_amm (data (account (pool_account ?p))) = Some ?p"
    by (simp add: pool_account_def)
  have bal: "vault_balance demo_amm ?va = Some 1000" by (simp add: vault_balance_def token_account_def)
  have instr: "input_instruction swap_inputs
      \<in> {SwapExactInput 100 80 (AccountId 5), SwapExactOutput 100 80 (AccountId 5)}"
    by (simp add: amm_inputs_def)
  from swap_constant_product [OF demo_amm_faithful out(1) instr pres pool] obtain p' deposit withdraw bal where p':
      "pool_of_data demo_amm (data (post_account (post_states out ! 0))) = Some p'"
      "p' = ?p\<lparr>reserve_a := reserve_a p', reserve_b := reserve_b p'\<rparr>"
      "map call_instruction_data (chained_calls out)
        = [ac_token_words demo_amm (TokenTransfer deposit), ac_token_words demo_amm (TokenTransfer withdraw)]"
      "vault_balance demo_amm (if AccountId 5 = definition_token_a_id ?p then ?va
        else token_account 22 (FungibleHolding (AccountId 6) 1000)) = Some bal"
      "unat bal + unat deposit < 2 ^ 128 \<longrightarrow>
        unat (reserve_in (AccountId 5) p') = unat (reserve_in (AccountId 5) ?p) + unat deposit \<and>
        unat (reserve_out (AccountId 5) ?p) = unat (reserve_out (AccountId 5) p') + unat withdraw \<and>
        unat (reserve_in (AccountId 5) ?p) * unat (reserve_out (AccountId 5) ?p)
          \<le> unat (reserve_in (AccountId 5) p') * unat (reserve_out (AccountId 5) p')"
    by (elim exE conjE)
  have a: "definition_token_a_id ?p = AccountId 5" by (simp add: demo_pool_of_def)
  then have a': "definition_token_a_id p' = AccountId 5" by (subst p'(2)) simp
  have "map call_instruction_data (chained_calls out) \<noteq> []" using p'(3) by simp
  then have "token_words (TokenTransfer deposit) = token_words (TokenTransfer 100)"
    using out(3) p'(3) by (auto simp del: token_words.simps simp: neq_Nil_conv)
  then have "deposit = 100" by (rule token_words_transfer)
  moreover have "bal = 1000" using p'(4) bal a by simp
  ultimately have fin: "unat (reserve_a p') = 1100" "1000000 \<le> unat (reserve_a p') * unat (reserve_b p')"
    using p'(5) a' by (auto simp: reserve_in_def reserve_out_def demo_pool_of_def)
  show ?thesis
    by (rule exI [of _ out], rule exI [of _ p'], intro conjI) (use out(1) p'(1) fin in simp_all)
qed

abbreviation "remove_inputs \<equiv> amm_inputs (RemoveLiquidity 10 5 5) (demo_pool_of 1000 2000 1000)"

lemma remove_run: "\<exists>out. amm_main demo_amm remove_inputs [] = Some out \<and> pre_states out = input_pre_states remove_inputs"
  by (simp add: amm_runs remove_liquidity_def)

abbreviation "drain_inputs \<equiv> amm_inputs (RemoveLiquidity 18446744073709551616 5 5)
  (demo_pool_of 18446744073709551616 18446745173221179392 18446742974197923840)"

lemma drain_run: "\<exists>out. amm_main demo_amm drain_inputs [] = Some out \<and> pre_states out = input_pre_states drain_inputs"
  by (simp add: amm_runs remove_liquidity_def)

lemma remove_pre_states:
  "input_pre_states (amm_inputs (RemoveLiquidity n x y) p) = [pool_account p,
    token_account 21 (FungibleHolding (AccountId 5) (reserve_a p)), token_account 22 (FungibleHolding (AccountId 6) (reserve_b p)),
    token_account 23 (FungibleHolding (AccountId 23) 0), token_account 1 (FungibleHolding (AccountId 5) 500),
    token_account 2 (FungibleHolding (AccountId 6) 0), token_account 3 (FungibleHolding (AccountId 23) 1)]"
  "input_instruction (amm_inputs i p) = i"
  "pool_of_data demo_amm (data (account (pool_account p))) = Some p"
  by (simp_all add: amm_inputs_def pool_account_def)

text \<open>Witness: a hundredth of the pool is withdrawn.\<close>

theorem liquidity_share_kept_witness:
  "\<exists>out p'. amm_main demo_amm remove_inputs [] = Some out \<and>
    pool_of_data demo_amm (data (post_account (post_states out ! 0))) = Some p' \<and> share_kept (demo_pool_of 1000 2000 1000) p'"
proof -
  obtain out where out: "amm_main demo_amm remove_inputs [] = Some out" "pre_states out = input_pre_states remove_inputs"
    using remove_run by blast
  have small: "(\<exists>n. input_instruction remove_inputs = AddLiquidity n 10 5 \<and>
        amounts_below (2 ^ 64) (demo_pool_of 1000 2000 1000) [10, 5]) \<or>
      (input_instruction remove_inputs = RemoveLiquidity 10 5 5 \<and>
        amounts_below (2 ^ 64) (demo_pool_of 1000 2000 1000) [10] \<and>
        10 \<le> liquidity_pool_supply (demo_pool_of 1000 2000 1000))"
    by (simp add: remove_pre_states(2) amounts_below_def demo_pool_of_def)
  from liquidity_share_kept [OF demo_amm_faithful out(1) out(2) [unfolded remove_pre_states] remove_pre_states(3) small]
  show ?thesis by (elim exE conjE) (rule exI [of _ out], rule exI, intro conjI, rule out(1))
qed

text \<open>
  Witness: the holder of one liquidity token takes \<open>2 ^ 40\<close> units of the first token and the
  whole reserve of the second, and no liquidity token is burned.
\<close>

theorem remove_liquidity_wraps_witness:
  "\<exists>out x y. amm_main demo_amm drain_inputs [] = Some out \<and> 5 \<le> (x :: u128) \<and> 5 \<le> y \<and>
    map call_instruction_data (chained_calls out) = [ac_token_words demo_amm (TokenBurn 0),
      ac_token_words demo_amm (TokenTransfer y), ac_token_words demo_amm (TokenTransfer x)]"
proof -
  obtain out where out: "amm_main demo_amm drain_inputs [] = Some out" "pre_states out = input_pre_states drain_inputs"
    using drain_run by blast
  have "liquidity_pool_supply (demo_pool_of 18446744073709551616 18446745173221179392 18446742974197923840)
      * 18446744073709551616 = 0"
    by (simp add: demo_pool_of_def)
  from remove_liquidity_wraps [OF out(1) remove_pre_states(2) out(2) [unfolded remove_pre_states] remove_pre_states(3) this]
  show ?thesis by (elim exE conjE) (rule exI [of _ out], rule exI, rule exI, intro conjI, rule out(1))
qed

end
