(* ===== verification/CrossZone.thy ===== *)
theory CrossZone
  imports Guests
begin

text \<open>
  The programs that carry messages between zones (\<open>lez/programs\<close>): the outbox that records an
  emission, the inbox that delivers it, the two ends of the token bridge, \<open>bridge_lock\<close> and
  \<open>wrapped_token\<close>, and the ping programs.

  The Borsh encodings of account contents and the zkVM serializer of instructions are the
  fields of \<open>cross_codecs\<close>. A \<open>BTreeSet\<close> of indices is a set of words.
\<close>

subsection \<open>Data\<close>

type_synonym zone_id = array32

record cross_zone_route =
  route_src_program :: program_id
  route_target_program :: program_id

record cross_zone_peer =
  peer_channel_id :: zone_id
  peer_allowed_routes :: "cross_zone_route list"
  peer_block_signing_pubkey :: "array32 option"

record cross_zone_config =
  config_peers :: "cross_zone_peer list"

record cross_zone_message =
  src_zone :: zone_id
  src_block_id :: u64
  src_block_hash :: array32
  src_tx_index :: u32
  src_program_id :: program_id
  target_program_id :: program_id
  payload :: bytes
  l1_inclusion_witness :: "bytes option"

record inbox_config =
  self_zone :: zone_id

record seen_shard =
  shard_block_hash :: array32
  shard_delivered :: "u32 set"

definition default_shard :: seen_shard where
  "default_shard = \<lparr>shard_block_hash = 0, shard_delivered = {}\<rparr>"

datatype inbox_instruction =
    Dispatch cross_zone_message
  | InboxInitConfig inbox_config

datatype outbox_instruction =
    Emit zone_id program_id "array32 list" bytes u32

record outbox_record =
  record_emitter :: program_id
  record_target_zone :: zone_id
  record_ordinal :: u32
  record_target_program :: program_id
  record_target_accounts :: "array32 list"
  record_payload :: bytes

datatype bridge_lock_instruction =
    Lock u128 zone_id program_id "array32 list" bytes u32
  | LockInitConfig program_id program_id

record wrapped_token_config =
  minter :: program_id
  sources :: "(zone_id \<times> program_id) list"

datatype wrapped_instruction =
    WrappedMint array32 u128
  | WrappedInitConfig wrapped_token_config

record receiver_config =
  deliverer :: program_id
  receiver_sources :: "(zone_id \<times> program_id) list"

datatype sender_instruction =
    Send zone_id program_id "array32 list" bytes u32
  | SenderInitConfig program_id

datatype receiver_instruction =
    Record bytes
  | ReceiverInitConfig receiver_config

record cross_codecs =
  xc_sha256 :: hasher
  xc_inbox_config_bytes :: "inbox_config \<Rightarrow> bytes"
  xc_inbox_config_of_bytes :: "bytes \<Rightarrow> inbox_config option"
  xc_shard_bytes :: "seen_shard \<Rightarrow> bytes"
  xc_shard_of_bytes :: "bytes \<Rightarrow> seen_shard option"
  xc_outbox_record_bytes :: "outbox_record \<Rightarrow> bytes"
  xc_wrapped_config_bytes :: "wrapped_token_config \<Rightarrow> bytes"
  xc_wrapped_config_of_bytes :: "bytes \<Rightarrow> wrapped_token_config option"
  xc_receiver_config_bytes :: "receiver_config \<Rightarrow> bytes"
  xc_receiver_config_of_bytes :: "bytes \<Rightarrow> receiver_config option"
  xc_inbox_words :: "inbox_instruction \<Rightarrow> u32 list"
  xc_inbox_of_words :: "u32 list \<Rightarrow> inbox_instruction option"
  xc_outbox_words :: "outbox_instruction \<Rightarrow> u32 list"
  xc_lock_words :: "bridge_lock_instruction \<Rightarrow> u32 list"
  xc_lock_of_words :: "u32 list \<Rightarrow> bridge_lock_instruction option"
  xc_wrapped_words :: "wrapped_instruction \<Rightarrow> u32 list"
  xc_wrapped_of_words :: "u32 list \<Rightarrow> wrapped_instruction option"
  xc_sender_words :: "sender_instruction \<Rightarrow> u32 list"
  xc_sender_of_words :: "u32 list \<Rightarrow> sender_instruction option"
  xc_receiver_words :: "receiver_instruction \<Rightarrow> u32 list"

subsection \<open>Seen shards\<close>

definition MAX_DELIVERIES :: nat where
  "MAX_DELIVERIES = (DATA_MAX_LENGTH - 36) div 4"

definition shard_of_data :: "cross_codecs \<Rightarrow> account_data \<Rightarrow> seen_shard option" where
  "shard_of_data X d = (if into_inner d = [] then Some default_shard else xc_shard_of_bytes X (into_inner d))"

definition shard_binds :: "seen_shard \<Rightarrow> array32 \<Rightarrow> bool" where
  "shard_binds shard h \<longleftrightarrow> shard = default_shard \<or> shard_block_hash shard = h"

definition shard_contains :: "seen_shard \<Rightarrow> u32 \<Rightarrow> bool" where
  "shard_contains shard i \<longleftrightarrow> i \<in> shard_delivered shard"

definition shard_insert :: "seen_shard \<Rightarrow> array32 \<Rightarrow> u32 \<Rightarrow> bool \<times> seen_shard" where
  "shard_insert shard h i =
    (if \<not> shard_binds shard h then (False, shard)
     else (i \<notin> shard_delivered shard,
       \<lparr>shard_block_hash = h, shard_delivered = insert i (shard_delivered shard)\<rparr>))"

subsection \<open>Addresses\<close>

definition message_key :: "hasher \<Rightarrow> zone_id \<Rightarrow> u64 \<Rightarrow> u32 \<Rightarrow> array32" where
  "message_key sha256 zone block_id tx_index =
    sha256 (ascii ''/LEZ/v0.3/CrossZoneMsgKey/00000/'' @ array32 zone @ u64_to_le_bytes block_id
      @ u32_to_le_bytes tx_index)"

definition inbox_config_seed :: pda_seed where
  "inbox_config_seed = PdaSeed (of_array32 (ascii ''/LEZ/v0.3/CrossZoneInboxCfg/000/''))"

definition inbox_config_account_id :: "hasher \<Rightarrow> program_id \<Rightarrow> account_id" where
  "inbox_config_account_id sha256 inbox_id = for_public_pda sha256 inbox_id inbox_config_seed"

definition inbox_seen_shard_seed :: "hasher \<Rightarrow> zone_id \<Rightarrow> u64 \<Rightarrow> pda_seed" where
  "inbox_seen_shard_seed sha256 zone block_id =
    PdaSeed (sha256 (ascii ''/LEZ/v0.3/CrossZoneInboxSeen/01/'' @ array32 zone @ u64_to_le_bytes block_id))"

definition inbox_seen_shard_account_id :: "hasher \<Rightarrow> program_id \<Rightarrow> zone_id \<Rightarrow> u64 \<Rightarrow> account_id" where
  "inbox_seen_shard_account_id sha256 inbox_id zone block_id =
    for_public_pda sha256 inbox_id (inbox_seen_shard_seed sha256 zone block_id)"

definition inbox_source_marker_seed :: "hasher \<Rightarrow> zone_id \<Rightarrow> program_id \<Rightarrow> pda_seed" where
  "inbox_source_marker_seed sha256 zone src_program =
    PdaSeed (sha256 (ascii ''/LEZ/v0.3/CrossZoneSource/00000/'' @ array32 zone @ program_id_bytes src_program))"

definition inbox_source_marker_account_id :: "hasher \<Rightarrow> program_id \<Rightarrow> zone_id \<Rightarrow> program_id \<Rightarrow> account_id" where
  "inbox_source_marker_account_id sha256 inbox_id zone src_program =
    for_public_pda sha256 inbox_id (inbox_source_marker_seed sha256 zone src_program)"

definition outbox_pda_seed :: "hasher \<Rightarrow> program_id \<Rightarrow> zone_id \<Rightarrow> u32 \<Rightarrow> pda_seed" where
  "outbox_pda_seed sha256 emitter zone ordinal =
    PdaSeed (sha256 (ascii ''/LEZ/v0.3/CrossZoneOutbox/00001/'' @ program_id_bytes emitter @ array32 zone
      @ u32_to_le_bytes ordinal))"

definition outbox_pda :: "hasher \<Rightarrow> program_id \<Rightarrow> program_id \<Rightarrow> zone_id \<Rightarrow> u32 \<Rightarrow> account_id" where
  "outbox_pda sha256 outbox_id emitter zone ordinal =
    for_public_pda sha256 outbox_id (outbox_pda_seed sha256 emitter zone ordinal)"

definition escrow_seed :: pda_seed where
  "escrow_seed = PdaSeed (of_array32 (ascii ''/LEZ/v0.3/BridgeLockEscrow/0000/''))"

definition escrow_account_id :: "hasher \<Rightarrow> program_id \<Rightarrow> account_id" where
  "escrow_account_id sha256 lock_id = for_public_pda sha256 lock_id escrow_seed"

definition lock_config_seed :: pda_seed where
  "lock_config_seed = PdaSeed (of_array32 (ascii ''/LEZ/v0.3/BridgeLockCfg/0000000/''))"

definition lock_config_account_id :: "hasher \<Rightarrow> program_id \<Rightarrow> account_id" where
  "lock_config_account_id sha256 lock_id = for_public_pda sha256 lock_id lock_config_seed"

definition wrapped_config_seed :: pda_seed where
  "wrapped_config_seed = PdaSeed (of_array32 (ascii ''/LEZ/v0.3/WrappedTokenConfig/00/''))"

definition wrapped_config_account_id :: "hasher \<Rightarrow> program_id \<Rightarrow> account_id" where
  "wrapped_config_account_id sha256 wrapped_id = for_public_pda sha256 wrapped_id wrapped_config_seed"

definition holding_seed :: "hasher \<Rightarrow> array32 \<Rightarrow> pda_seed" where
  "holding_seed sha256 recipient =
    PdaSeed (sha256 (ascii ''/LEZ/v0.3/WrappedTokenHold/00000'' @ array32 recipient))"

definition holding_account_id :: "hasher \<Rightarrow> program_id \<Rightarrow> array32 \<Rightarrow> account_id" where
  "holding_account_id sha256 wrapped_id recipient =
    for_public_pda sha256 wrapped_id (holding_seed sha256 recipient)"

definition ping_record_seed :: pda_seed where
  "ping_record_seed = PdaSeed (of_array32 (ascii ''/LEZ/v0.3/PingRecord/0000000000/''))"

definition ping_record_pda :: "hasher \<Rightarrow> program_id \<Rightarrow> account_id" where
  "ping_record_pda sha256 receiver_id = for_public_pda sha256 receiver_id ping_record_seed"

definition sender_config_seed :: pda_seed where
  "sender_config_seed = PdaSeed (of_array32 (ascii ''/LEZ/v0.3/PingSenderCfg/0000000/''))"

definition sender_config_account_id :: "hasher \<Rightarrow> program_id \<Rightarrow> account_id" where
  "sender_config_account_id sha256 sender_id = for_public_pda sha256 sender_id sender_config_seed"

definition receiver_config_seed :: pda_seed where
  "receiver_config_seed = PdaSeed (of_array32 (ascii ''/LEZ/v0.3/PingReceiverCfg/00000/''))"

definition receiver_config_account_id :: "hasher \<Rightarrow> program_id \<Rightarrow> account_id" where
  "receiver_config_account_id sha256 receiver_id = for_public_pda sha256 receiver_id receiver_config_seed"

subsection \<open>Configuration accounts\<close>

text \<open>
  Every program here writes its configuration once, with the same code: a default account is
  claimed, one that is already set must be owned by the program and hold exactly these bytes.
\<close>

definition init_config ::
  "program_id \<Rightarrow> account_id \<Rightarrow> pda_seed \<Rightarrow> bytes \<Rightarrow> account_with_metadata list \<Rightarrow> account_post_state list option" where
  "init_config self config_id seed bs pres =
    (case pres of
       [config] \<Rightarrow> do {
         assert_that (account_id config = config_id);
         (if account config \<noteq> default_account then do {
            assert_that (program_owner (account config) = account_of_program self);
            assert_that (into_inner (data (account config)) = bs)
          } else Some ());
         d \<leftarrow> data_of_bytes bs;
         Some [new_claimed_if_default ((account config)\<lparr>data := d\<rparr>) (ClaimPda seed)]
       }
     | _ \<Rightarrow> None)"

text \<open>Instruction words of a payload, little-endian.\<close>

definition payload_words :: "bytes \<Rightarrow> u32 list option" where
  "payload_words bs = do { assert_that (length bs mod 4 = 0); Some (map le_join (chunks4 bs)) }"

subsection \<open>Outbox\<close>

definition outbox_main :: "cross_codecs \<Rightarrow> outbox_instruction guest" where
  "outbox_main X inp words =
    (case (input_caller inp, input_instruction inp, input_pre_states inp) of
       (Some emitter, Emit target_zone target_program target_accounts pay ordinal, [outbox]) \<Rightarrow> do {
         assert_that (account_id outbox = outbox_pda (xc_sha256 X) (input_self inp) emitter target_zone ordinal);
         assert_that (account outbox = default_account);
         d \<leftarrow> data_of_bytes (xc_outbox_record_bytes X \<lparr>record_emitter = emitter, record_target_zone = target_zone,
           record_ordinal = ordinal, record_target_program = target_program,
           record_target_accounts = target_accounts, record_payload = pay\<rparr>);
         Some (guest_output inp words [new_claimed ((account outbox)\<lparr>data := d\<rparr>)
           (ClaimPda (outbox_pda_seed (xc_sha256 X) emitter target_zone ordinal))])
       }
     | _ \<Rightarrow> None)"

subsection \<open>Inbox\<close>

definition inbox_dispatch ::
  "cross_codecs \<Rightarrow> program_id \<Rightarrow> account_with_metadata list \<Rightarrow> cross_zone_message
    \<Rightarrow> (account_post_state list \<times> chained_call list) option" where
  "inbox_dispatch X self pres msg =
    (case pres of
       config # seen # marker # target_accounts \<Rightarrow> do {
         assert_that (l1_inclusion_witness msg = None);
         assert_that (account_id config = inbox_config_account_id (xc_sha256 X) self);
         assert_that (account_id seen
           = inbox_seen_shard_account_id (xc_sha256 X) self (src_zone msg) (src_block_id msg));
         assert_that (account_id marker
           = inbox_source_marker_account_id (xc_sha256 X) self (src_zone msg) (src_program_id msg));
         cfg \<leftarrow> xc_inbox_config_of_bytes X (into_inner (data (account config)));
         assert_that (src_zone msg \<noteq> self_zone cfg);
         shard \<leftarrow> shard_of_data X (data (account seen));
         assert_that (shard_binds shard (src_block_hash msg));
         (seen_post, calls) \<leftarrow>
           (if shard_contains shard (src_tx_index msg) then Some (post_new (account seen), [])
            else do {
              let shard = snd (shard_insert shard (src_block_hash msg) (src_tx_index msg));
              d \<leftarrow> data_of_bytes (xc_shard_bytes X shard);
              words \<leftarrow> payload_words (payload msg);
              Some (new_claimed_if_default ((account seen)\<lparr>data := d\<rparr>)
                  (ClaimPda (inbox_seen_shard_seed (xc_sha256 X) (src_zone msg) (src_block_id msg))),
                [\<lparr>call_program_id = target_program_id msg, call_pre_states = marker # target_accounts,
                  call_instruction_data = words, call_pda_seeds = []\<rparr>])
            });
         Some (post_new (account config) # seen_post # post_new (account marker)
           # unchanged_post_states target_accounts, calls)
       }
     | _ \<Rightarrow> None)"

definition inbox_init_config ::
  "cross_codecs \<Rightarrow> program_id \<Rightarrow> account_with_metadata list \<Rightarrow> inbox_config \<Rightarrow> account_post_state list option" where
  "inbox_init_config X self pres config =
    init_config self (inbox_config_account_id (xc_sha256 X) self) inbox_config_seed (xc_inbox_config_bytes X config) pres"

definition inbox_main :: "cross_codecs \<Rightarrow> inbox_instruction guest" where
  "inbox_main X inp words = do {
    assert_that (input_caller inp = None);
    (posts, calls) \<leftarrow> (case input_instruction inp of
        Dispatch msg \<Rightarrow> inbox_dispatch X (input_self inp) (input_pre_states inp) msg
      | InboxInitConfig config \<Rightarrow> map_option (\<lambda>posts. (posts, []))
          (inbox_init_config X (input_self inp) (input_pre_states inp) config));
    Some (with_chained_calls (guest_output inp words posts) calls)
  }"

subsection \<open>Wrapped token\<close>

definition MAX_MINT_AMOUNT :: u128 where
  "MAX_MINT_AMOUNT = 0xFFFFFFFFFFFFFFFF"

definition read_balance :: "bytes \<Rightarrow> u128" where
  "read_balance bs = (if length bs < 16 then 0 else le_join (take 16 bs))"

definition balance_bytes :: "u128 \<Rightarrow> bytes" where
  "balance_bytes amount = u128_to_le_bytes amount"

text \<open>Only the deliverer of a message may call, and only for a source the program accepts.\<close>

definition source_authorized :: "hasher \<Rightarrow> program_id \<Rightarrow> (zone_id \<times> program_id) list \<Rightarrow> account_id \<Rightarrow> bool" where
  "source_authorized sha256 inbox_id srcs marker \<longleftrightarrow>
    (\<exists>(zone, p) \<in> set srcs. marker = inbox_source_marker_account_id sha256 inbox_id zone p)"

definition wrapped_mint ::
  "cross_codecs \<Rightarrow> program_id \<Rightarrow> program_id option \<Rightarrow> account_with_metadata list \<Rightarrow> array32 \<Rightarrow> u128
    \<Rightarrow> account_post_state list option" where
  "wrapped_mint X self caller pres recipient amount =
    (case pres of
       [marker, config, holding] \<Rightarrow> do {
         assert_that (account_id config = wrapped_config_account_id (xc_sha256 X) self);
         cfg \<leftarrow> xc_wrapped_config_of_bytes X (into_inner (data (account config)));
         assert_that (caller = Some (minter cfg));
         assert_that (source_authorized (xc_sha256 X) (minter cfg) (sources cfg) (account_id marker));
         assert_that (account_id holding = holding_account_id (xc_sha256 X) self recipient);
         assert_that (amount \<le> MAX_MINT_AMOUNT);
         new_balance \<leftarrow> checked_add (read_balance (into_inner (data (account holding)))) amount;
         d \<leftarrow> data_of_bytes (balance_bytes new_balance);
         Some [post_new (account marker), post_new (account config),
           new_claimed_if_default ((account holding)\<lparr>data := d\<rparr>) (ClaimPda (holding_seed (xc_sha256 X) recipient))]
       }
     | _ \<Rightarrow> None)"

definition wrapped_init_config ::
  "cross_codecs \<Rightarrow> program_id \<Rightarrow> program_id option \<Rightarrow> account_with_metadata list \<Rightarrow> wrapped_token_config
    \<Rightarrow> account_post_state list option" where
  "wrapped_init_config X self caller pres config = do {
    assert_that (caller = None);
    init_config self (wrapped_config_account_id (xc_sha256 X) self) wrapped_config_seed
      (xc_wrapped_config_bytes X config) pres
  }"

definition wrapped_main :: "cross_codecs \<Rightarrow> wrapped_instruction guest" where
  "wrapped_main X inp words = do {
    posts \<leftarrow> (case input_instruction inp of
        WrappedMint recipient amount \<Rightarrow>
          wrapped_mint X (input_self inp) (input_caller inp) (input_pre_states inp) recipient amount
      | WrappedInitConfig config \<Rightarrow>
          wrapped_init_config X (input_self inp) (input_caller inp) (input_pre_states inp) config);
    Some (guest_output inp words posts)
  }"

subsection \<open>Bridge lock\<close>

definition lock_config_bytes :: "program_id \<Rightarrow> program_id \<Rightarrow> bytes" where
  "lock_config_bytes outbox target = program_id_bytes outbox @ program_id_bytes target"

definition read_config :: "bytes \<Rightarrow> (program_id \<times> program_id) option" where
  "read_config bs =
    (if length bs < 64 then None
     else let ids = map le_join (chunks4 (take 64 bs)) in
       Some (program_id_of_words (take 8 ids), program_id_of_words (drop 8 ids)))"

definition decode_mint :: "cross_codecs \<Rightarrow> bytes \<Rightarrow> wrapped_instruction option" where
  "decode_mint X pay = Option.bind (payload_words pay) (xc_wrapped_of_words X)"

definition lock_funds ::
  "cross_codecs \<Rightarrow> program_id \<Rightarrow> account_with_metadata list \<Rightarrow> u128 \<Rightarrow> zone_id \<Rightarrow> program_id \<Rightarrow> array32 list
    \<Rightarrow> bytes \<Rightarrow> u32 \<Rightarrow> (account_post_state list \<times> chained_call list) option" where
  "lock_funds X self pres amount target_zone target_program target_accounts pay ordinal =
    (case pres of
       [config, holder, escrow, outbox] \<Rightarrow> do {
         assert_that (account_id config = lock_config_account_id (xc_sha256 X) self);
         (outbox_program, pinned_target) \<leftarrow> read_config (into_inner (data (account config)));
         instr \<leftarrow> decode_mint X pay;
         (recipient, mint_amount) \<leftarrow> (case instr of WrappedMint r a \<Rightarrow> Some (r, a) | _ \<Rightarrow> None);
         assert_that (mint_amount = amount);
         assert_that (target_program = pinned_target);
         assert_that (target_accounts = [id_value (wrapped_config_account_id (xc_sha256 X) pinned_target),
           id_value (holding_account_id (xc_sha256 X) pinned_target recipient)]);
         assert_that (amount \<le> MAX_MINT_AMOUNT);
         assert_that (is_authorized holder);
         assert_that (program_owner (account holder) = account_of_program self);
         assert_that (account_id escrow = escrow_account_id (xc_sha256 X) self);
         holder_new \<leftarrow> checked_sub (balance (account holder)) amount;
         escrow_new \<leftarrow> checked_add (balance (account escrow)) amount;
         Some ([post_new (account config), post_new ((account holder)\<lparr>balance := holder_new\<rparr>),
             new_claimed_if_default ((account escrow)\<lparr>balance := escrow_new\<rparr>) (ClaimPda escrow_seed),
             post_new (account outbox)],
           [chained_call_new (xc_outbox_words X) outbox_program [outbox]
             (Emit target_zone target_program target_accounts pay ordinal)])
       }
     | _ \<Rightarrow> None)"

definition lock_init_config ::
  "cross_codecs \<Rightarrow> program_id \<Rightarrow> account_with_metadata list \<Rightarrow> program_id \<Rightarrow> program_id
    \<Rightarrow> account_post_state list option" where
  "lock_init_config X self pres outbox_program target_program =
    init_config self (lock_config_account_id (xc_sha256 X) self) lock_config_seed
      (lock_config_bytes outbox_program target_program) pres"

definition lock_main :: "cross_codecs \<Rightarrow> bridge_lock_instruction guest" where
  "lock_main X inp words = do {
    assert_that (input_caller inp = None);
    (posts, calls) \<leftarrow> (case input_instruction inp of
        Lock amount target_zone target_program target_accounts pay ordinal \<Rightarrow>
          lock_funds X (input_self inp) (input_pre_states inp) amount target_zone target_program target_accounts
            pay ordinal
      | LockInitConfig outbox_program target_program \<Rightarrow> map_option (\<lambda>posts. (posts, []))
          (lock_init_config X (input_self inp) (input_pre_states inp) outbox_program target_program));
    Some (with_chained_calls (guest_output inp words posts) calls)
  }"

subsection \<open>Ping\<close>

definition outbox_bytes :: "program_id \<Rightarrow> bytes" where
  "outbox_bytes outbox = program_id_bytes outbox"

definition read_outbox :: "bytes \<Rightarrow> program_id option" where
  "read_outbox bs =
    (if length bs < 32 then None else Some (program_id_of_words (map le_join (chunks4 (take 32 bs)))))"

definition send_ping ::
  "cross_codecs \<Rightarrow> program_id \<Rightarrow> account_with_metadata list \<Rightarrow> zone_id \<Rightarrow> program_id \<Rightarrow> array32 list \<Rightarrow> bytes
    \<Rightarrow> u32 \<Rightarrow> (account_post_state list \<times> chained_call list) option" where
  "send_ping X self pres target_zone target_program target_accounts pay ordinal =
    (case pres of
       [config, outbox] \<Rightarrow> do {
         assert_that (account_id config = sender_config_account_id (xc_sha256 X) self);
         outbox_program \<leftarrow> read_outbox (into_inner (data (account config)));
         Some (unchanged_post_states [config, outbox],
           [chained_call_new (xc_outbox_words X) outbox_program [outbox]
             (Emit target_zone target_program target_accounts pay ordinal)])
       }
     | _ \<Rightarrow> None)"

definition sender_init_config ::
  "cross_codecs \<Rightarrow> program_id \<Rightarrow> account_with_metadata list \<Rightarrow> program_id \<Rightarrow> account_post_state list option" where
  "sender_init_config X self pres outbox_program =
    init_config self (sender_config_account_id (xc_sha256 X) self) sender_config_seed (outbox_bytes outbox_program) pres"

definition sender_main :: "cross_codecs \<Rightarrow> sender_instruction guest" where
  "sender_main X inp words = do {
    assert_that (input_caller inp = None);
    (posts, calls) \<leftarrow> (case input_instruction inp of
        Send target_zone target_program target_accounts pay ordinal \<Rightarrow>
          send_ping X (input_self inp) (input_pre_states inp) target_zone target_program target_accounts pay ordinal
      | SenderInitConfig outbox_program \<Rightarrow> map_option (\<lambda>posts. (posts, []))
          (sender_init_config X (input_self inp) (input_pre_states inp) outbox_program));
    Some (with_chained_calls (guest_output inp words posts) calls)
  }"

definition record_ping ::
  "cross_codecs \<Rightarrow> program_id \<Rightarrow> program_id option \<Rightarrow> account_with_metadata list \<Rightarrow> bytes
    \<Rightarrow> account_post_state list option" where
  "record_ping X self caller pres pay =
    (case pres of
       [marker, config, rec] \<Rightarrow> do {
         assert_that (account_id config = receiver_config_account_id (xc_sha256 X) self);
         cfg \<leftarrow> xc_receiver_config_of_bytes X (into_inner (data (account config)));
         assert_that (caller = Some (deliverer cfg));
         assert_that (source_authorized (xc_sha256 X) (deliverer cfg) (receiver_sources cfg) (account_id marker));
         assert_that (account_id rec = ping_record_pda (xc_sha256 X) self);
         d \<leftarrow> data_of_bytes pay;
         Some [post_new (account marker), post_new (account config),
           new_claimed_if_default ((account rec)\<lparr>data := d\<rparr>) (ClaimPda ping_record_seed)]
       }
     | _ \<Rightarrow> None)"

definition receiver_init_config ::
  "cross_codecs \<Rightarrow> program_id \<Rightarrow> program_id option \<Rightarrow> account_with_metadata list \<Rightarrow> receiver_config
    \<Rightarrow> account_post_state list option" where
  "receiver_init_config X self caller pres config = do {
    assert_that (caller = None);
    init_config self (receiver_config_account_id (xc_sha256 X) self) receiver_config_seed
      (xc_receiver_config_bytes X config) pres
  }"

definition receiver_main :: "cross_codecs \<Rightarrow> receiver_instruction guest" where
  "receiver_main X inp words = do {
    posts \<leftarrow> (case input_instruction inp of
        Record pay \<Rightarrow> record_ping X (input_self inp) (input_caller inp) (input_pre_states inp) pay
      | ReceiverInitConfig config \<Rightarrow>
          receiver_init_config X (input_self inp) (input_caller inp) (input_pre_states inp) config);
    Some (guest_output inp words posts)
  }"

end
