(* ===== verification/Store.thy ===== *)
theory Store
  imports Blocks "HOL-Library.AList"
begin

text \<open>
  The sequencer's store (\<open>lez/storage/src/sequencer\<close>): every cell of the database as a field of
  \<open>db\<close>, and the operations that read and write them.

  A family of cells that the sources iterate over (blocks, pending dispatches) is an
  association list from its key; a family that is only read by key is a map. A write batch is
  the database with the staged writes done to it: an operation that stages takes the database
  on disk, which its reads see, and the batch. The storage engine and the Borsh encoding of
  cells are taken to succeed, so \<open>db_error\<close> holds the errors that the operations
  raise themselves.
\<close>

subsection \<open>Cells\<close>

record block_meta =
  meta_id :: block_id
  meta_hash :: block_hash

definition meta_of_block :: "block \<Rightarrow> block_meta" where
  "meta_of_block b = \<lparr>meta_id = header_block_id (block_header b), meta_hash = header_hash (block_header b)\<rparr>"

definition meta_of_tip :: "tip \<Rightarrow> block_meta" where
  "meta_of_tip t = \<lparr>meta_id = tip_block_id t, meta_hash = tip_hash t\<rparr>"

definition tip_of_meta :: "block_meta \<Rightarrow> tip" where
  "tip_of_meta m = \<lparr>tip_block_id = meta_id m, tip_hash = meta_hash m\<rparr>"

record peer_chain_tip =
  peer_block_id :: u64
  peer_block_hash :: block_hash

record zone_anchor_record =
  anchor_slot :: u64
  anchor_block_id :: u64
  anchor_hash :: block_hash

record pending_deposit_event =
  deposit_op_id :: array32
  deposit_source_tx :: array32
  deposit_amount :: u64
  deposit_metadata :: bytes

record pending_dispatch =
  dispatch_key :: array32
  dispatch_transaction :: bytes
  failed_attempts :: u32

definition recorded :: "array32 \<Rightarrow> bytes \<Rightarrow> pending_dispatch" where
  "recorded key tx = \<lparr>dispatch_key = key, dispatch_transaction = tx, failed_attempts = 0\<rparr>"

record dispatch_origin =
  origin_zone :: array32
  origin_block_id :: u64
  origin_tx_index :: u32

record dead_letter =
  letter_key :: array32
  letter_origin :: dispatch_origin
  letter_failed_attempts :: u32
  letter_transaction_bytes :: u32

record db =
  db_blocks :: "(block_id \<times> block) list"
  db_first_block :: "block_id option"
  db_last_block :: "block_id option"
  db_latest_meta :: "block_meta option"
  db_last_finalized :: "block_id option option"
  db_state :: "v03_state option"
  db_final :: "(v03_state \<times> block_meta) option"
  db_checkpoint :: "bytes option"
  db_anchor :: "zone_anchor_record option"
  db_high_water :: "u64 option"
  db_deposits :: "pending_deposit_event list"
  db_dispatches :: "(array32 \<times> pending_dispatch) list"
  db_dispatch_count :: u64
  db_legacy_dispatches :: "pending_dispatch list option"
  db_dead_letters :: "dead_letter list"
  db_dead_letter_count :: u64
  db_withdraws :: "array32 \<rightharpoonup> u64"
  db_peer_floors :: "array32 \<rightharpoonup> u64"
  db_peer_tips :: "array32 \<rightharpoonup> peer_chain_tip"

definition empty_db :: db where
  "empty_db = \<lparr>db_blocks = [], db_first_block = None, db_last_block = None, db_latest_meta = None,
    db_last_finalized = None, db_state = None, db_final = None, db_checkpoint = None, db_anchor = None,
    db_high_water = None, db_deposits = [], db_dispatches = [], db_dispatch_count = 0,
    db_legacy_dispatches = None, db_dead_letters = [], db_dead_letter_count = 0,
    db_withdraws = Map.empty, db_peer_floors = Map.empty, db_peer_tips = Map.empty\<rparr>"

datatype db_error =
    CellNotFound string
  | BlockNotFound block_id
  | TooManyPendingDispatches u64
  | WithdrawCounterOverflow

definition MAX_PENDING_CROSS_ZONE_DISPATCHES :: nat where
  "MAX_PENDING_CROSS_ZONE_DISPATCHES = 4096"

definition MAX_DEAD_LETTER_CROSS_ZONE_DISPATCHES :: nat where
  "MAX_DEAD_LETTER_CROSS_ZONE_DISPATCHES = 256"

subsection \<open>Blocks\<close>

definition get_meta_last_block_in_db :: "db \<Rightarrow> db_error + block_id" where
  "get_meta_last_block_in_db d =
    (case db_last_block d of None \<Rightarrow> Inl (CellNotFound ''last_block_in_db'') | Some i \<Rightarrow> Inr i)"

definition get_block :: "db \<Rightarrow> block_id \<Rightarrow> block option" where
  "get_block d i = map_of (db_blocks d) i"

definition get_all_blocks :: "db \<Rightarrow> block list" where
  "get_all_blocks d = map snd (db_blocks d)"

definition put_block_payload :: "block \<Rightarrow> db \<Rightarrow> db" where
  "put_block_payload b w = w\<lparr>db_blocks := AList.update (header_block_id (block_header b)) b (db_blocks w)\<rparr>"

text \<open>Payloads with an id in \<open>first..=last\<close> are deleted one by one; the order does not matter.\<close>

definition delete_block_payloads :: "block_id \<Rightarrow> block_id \<Rightarrow> db \<Rightarrow> db" where
  "delete_block_payloads lower upper w =
    w\<lparr>db_blocks := filter (\<lambda>(i, _). \<not> (lower \<le> i \<and> i \<le> upper)) (db_blocks w)\<rparr>"

definition create :: "block \<Rightarrow> v03_state \<Rightarrow> db" where
  "create genesis_block genesis_state =
    (let i = header_block_id (block_header genesis_block) in
     (put_block_payload genesis_block empty_db)\<lparr>db_first_block := Some i, db_last_block := Some i,
       db_last_finalized := Some None, db_latest_meta := Some (meta_of_block genesis_block),
       db_state := Some genesis_state\<rparr>)"

definition delete_block :: "db \<Rightarrow> block_id \<Rightarrow> db_error + db" where
  "delete_block d i =
    (case get_block d i of None \<Rightarrow> Inl (BlockNotFound i)
     | Some _ \<Rightarrow> Inr (d\<lparr>db_blocks := AList.delete i (db_blocks d)\<rparr>))"

definition set_block_bedrock_status :: "db \<Rightarrow> block_id \<Rightarrow> bedrock_status \<Rightarrow> db_error + db" where
  "set_block_bedrock_status d i status =
    (case get_block d i of None \<Rightarrow> Inl (BlockNotFound i)
     | Some b \<Rightarrow> Inr (d\<lparr>db_blocks := AList.update i (b\<lparr>bedrock_status := status\<rparr>) (db_blocks d)\<rparr>))"

definition mark_block_as_finalized :: "db \<Rightarrow> block_id \<Rightarrow> db_error + db" where
  "mark_block_as_finalized d i = set_block_bedrock_status d i Finalized"

definition reset_all_blocks_to_pending :: "db \<Rightarrow> db_error + db" where
  "reset_all_blocks_to_pending d =
    try_fold (\<lambda>d i. set_block_bedrock_status d i Pending) d
      (map (header_block_id \<circ> block_header) (filter (\<lambda>b. bedrock_status b \<noteq> Pending) (get_all_blocks d)))"

definition or_insert :: "'k \<Rightarrow> 'v \<Rightarrow> ('k \<times> 'v) list \<Rightarrow> ('k \<times> 'v) list" where
  "or_insert k v al = (if map_of al k = None then AList.update k v al else al)"

definition collect_finalized_up_to :: "db \<Rightarrow> block_id \<Rightarrow> (block_id \<times> block) list \<Rightarrow> (block_id \<times> block) list" where
  "collect_finalized_up_to d last_finalized to_write =
    fold (\<lambda>b. or_insert (header_block_id (block_header b)) (b\<lparr>bedrock_status := Finalized\<rparr>))
      (filter (\<lambda>b. bedrock_status b = Pending \<and> header_block_id (block_header b) \<le> last_finalized)
        (get_all_blocks d)) to_write"

definition clean_pending_blocks_up_to :: "db \<Rightarrow> block_id \<Rightarrow> db" where
  "clean_pending_blocks_up_to d last_finalized =
    fold (\<lambda>(_, b). put_block_payload b) (collect_finalized_up_to d last_finalized []) d"

definition raise_published_high_water :: "db \<Rightarrow> u64 \<Rightarrow> db" where
  "raise_published_high_water d block_id =
    (if (case db_high_water d of None \<Rightarrow> False | Some mark \<Rightarrow> block_id \<le> mark) then d
     else d\<lparr>db_high_water := Some block_id\<rparr>)"

subsection \<open>Deposits\<close>

definition push_deposit ::
  "array32 list \<Rightarrow> pending_deposit_event list \<Rightarrow> pending_deposit_event \<Rightarrow> pending_deposit_event list" where
  "push_deposit to_remove records event =
    (if deposit_op_id event \<in> set to_remove \<or> deposit_op_id event \<in> deposit_op_id ` set records
     then records else records @ [event])"

definition stage_pending_deposit_events ::
  "db \<Rightarrow> pending_deposit_event list \<Rightarrow> array32 list \<Rightarrow> db \<Rightarrow> nat \<times> db" where
  "stage_pending_deposit_events d new_events remove_op_ids w =
    (if new_events = [] \<and> remove_op_ids = [] then (0, w)
     else let records = foldl (push_deposit remove_op_ids) (db_deposits d) new_events;
              accepted = length records - length (db_deposits d);
              kept = filter (\<lambda>r. deposit_op_id r \<notin> set remove_op_ids) records;
              removed = length records - length kept in
          (accepted, if 0 < accepted \<or> 0 < removed then w\<lparr>db_deposits := kept\<rparr> else w))"

definition add_pending_deposit_event :: "db \<Rightarrow> pending_deposit_event \<Rightarrow> bool \<times> db" where
  "add_pending_deposit_event d event =
    (let (accepted, w) = stage_pending_deposit_events d [event] [] d in (0 < accepted, w))"

subsection \<open>Pending cross-zone dispatches\<close>

definition get_pending_cross_zone_dispatches :: "db \<Rightarrow> pending_dispatch list" where
  "get_pending_cross_zone_dispatches d = map snd (sort_key fst (db_dispatches d))"

fun new_dispatches :: "db \<Rightarrow> array32 list \<Rightarrow> pending_dispatch list \<Rightarrow> pending_dispatch list" where
  "new_dispatches d offered [] = []"
| "new_dispatches d offered (r # rs) =
    (if dispatch_key r \<in> set offered then new_dispatches d offered rs
     else if map_of (db_dispatches d) (dispatch_key r) \<noteq> None
     then new_dispatches d (dispatch_key r # offered) rs
     else r # new_dispatches d (dispatch_key r # offered) rs)"

definition put_dispatch :: "pending_dispatch \<Rightarrow> db \<Rightarrow> db" where
  "put_dispatch r w = w\<lparr>db_dispatches := AList.update (dispatch_key r) r (db_dispatches w)\<rparr>"

definition add_pending_cross_zone_dispatches :: "db \<Rightarrow> pending_dispatch list \<Rightarrow> db_error + nat \<times> db" where
  "add_pending_cross_zone_dispatches d dispatches =
    (let new_records = new_dispatches d [] dispatches; accepted = length new_records in
     if accepted = 0 then Inr (0, d)
     else let before = db_dispatch_count d; after = saturating_add before (of_nat accepted) in
       if of_nat MAX_PENDING_CROSS_ZONE_DISPATCHES < after then Inl (TooManyPendingDispatches before)
       else Inr (accepted, (fold put_dispatch new_records d)\<lparr>db_dispatch_count := after\<rparr>))"

text \<open>The blob of older stores: each record that is not held yet is written, and counted.\<close>

definition migrate_legacy_pending_dispatches :: "db \<Rightarrow> db" where
  "migrate_legacy_pending_dispatches d =
    (case db_legacy_dispatches d of
       None \<Rightarrow> d
     | Some records \<Rightarrow>
       let fresh = filter (\<lambda>r. map_of (db_dispatches d) (dispatch_key r) = None) records;
           w = fold put_dispatch fresh (d\<lparr>db_legacy_dispatches := None\<rparr>) in
       if fresh = [] then w
       else w\<lparr>db_dispatch_count := saturating_add (db_dispatch_count d) (of_nat (length fresh))\<rparr>)"

datatype dispatch_failure =
    Retried u32
  | Retired dead_letter
  | Absent

definition push_dead_letter :: "dead_letter \<Rightarrow> dead_letter list \<Rightarrow> dead_letter list" where
  "push_dead_letter letter letters =
    (if letter_key letter \<in> letter_key ` set letters then letters
     else let letters' = letters @ [letter] in
       drop (length letters' - MAX_DEAD_LETTER_CROSS_ZONE_DISPATCHES) letters')"

definition record_dispatch_failure :: "db \<Rightarrow> array32 \<Rightarrow> u32 \<Rightarrow> dispatch_origin \<Rightarrow> dispatch_failure \<times> db" where
  "record_dispatch_failure d key retire_at origin =
    (case map_of (db_dispatches d) key of
       None \<Rightarrow> (Absent, d)
     | Some held \<Rightarrow>
       let attempts = saturating_add (failed_attempts held) 1 in
       if attempts < retire_at
       then (Retried attempts,
         d\<lparr>db_dispatches := AList.update key (held\<lparr>failed_attempts := attempts\<rparr>) (db_dispatches d)\<rparr>)
       else let letter = \<lparr>letter_key = key, letter_origin = origin, letter_failed_attempts = attempts,
                  letter_transaction_bytes = (if length (dispatch_transaction held) < 2 ^ 32
                    then of_nat (length (dispatch_transaction held)) else - 1)\<rparr> in
         (Retired letter, d\<lparr>db_dispatches := AList.delete key (db_dispatches d),
            db_dispatch_count := saturating_sub (db_dispatch_count d) 1,
            db_dead_letters := push_dead_letter letter (db_dead_letters d),
            db_dead_letter_count := saturating_add (db_dead_letter_count d) 1\<rparr>))"

definition stage_reconciled_dead_letters :: "db \<Rightarrow> array32 list \<Rightarrow> db \<Rightarrow> db" where
  "stage_reconciled_dead_letters d settled w =
    (let kept = filter (\<lambda>r. letter_key r \<notin> set settled) (db_dead_letters d) in
     if length kept < length (db_dead_letters d) then w\<lparr>db_dead_letters := kept\<rparr> else w)"

definition stage_removed_dispatches :: "db \<Rightarrow> array32 list \<Rightarrow> db \<Rightarrow> nat \<times> db" where
  "stage_removed_dispatches d remove_keys w =
    (if remove_keys = [] then (0, w)
     else let staged = remdups (filter (\<lambda>k. map_of (db_dispatches d) k \<noteq> None) remove_keys);
              removed = length staged;
              w1 = w\<lparr>db_dispatches := fold AList.delete staged (db_dispatches w)\<rparr>;
              w2 = (if 0 < removed
                then w1\<lparr>db_dispatch_count := saturating_sub (db_dispatch_count d) (of_nat removed)\<rparr> else w1) in
          (removed, stage_reconciled_dead_letters d remove_keys w2))"

definition drop_settled_cross_zone_dispatches :: "db \<Rightarrow> array32 list \<Rightarrow> nat \<times> db" where
  "drop_settled_cross_zone_dispatches d keys = stage_removed_dispatches d keys d"

subsection \<open>Withdrawals\<close>

text \<open>The keys of an update, each with how often it occurs.\<close>

fun count_occurrence :: "(array32 \<times> u64) list \<Rightarrow> array32 \<Rightarrow> (array32 \<times> u64) list" where
  "count_occurrence [] k = [(k, 1)]"
| "count_occurrence ((k', n) # rest) k =
    (if k' = k then (k', saturating_add n 1) # rest else (k', n) # count_occurrence rest k)"

definition occurrences :: "array32 list \<Rightarrow> (array32 \<times> u64) list" where
  "occurrences ks = foldl count_occurrence [] ks"

definition stage_consumed_withdrawals :: "db \<Rightarrow> array32 list \<Rightarrow> db \<Rightarrow> array32 list \<times> db" where
  "stage_consumed_withdrawals d withdrawals w =
    foldl (\<lambda>(unmatched, w) (k, n).
      let stored = db_withdraws d k;
          matched = min n (case stored of None \<Rightarrow> 0 | Some count \<Rightarrow> saturating_add count 1) in
      (unmatched @ replicate (unat (saturating_sub n matched)) k,
       case Option.bind stored (\<lambda>count. checked_sub count n) of
         Some count \<Rightarrow> w\<lparr>db_withdraws := (db_withdraws w)(k \<mapsto> count)\<rparr>
       | None \<Rightarrow> if stored \<noteq> None then w\<lparr>db_withdraws := (db_withdraws w)(k := None)\<rparr> else w))
      ([], w) (occurrences withdrawals)"

definition stage_new_withdraw_intents :: "db \<Rightarrow> array32 list \<Rightarrow> db \<Rightarrow> db_error + db" where
  "stage_new_withdraw_intents d withdrawals w =
    try_fold (\<lambda>w (k, n).
      expect_some (checked_add (case db_withdraws d k of None \<Rightarrow> 0 | Some count \<Rightarrow> count) n)
        WithdrawCounterOverflow (\<lambda>next.
      Inr (w\<lparr>db_withdraws := (db_withdraws w)(k \<mapsto> next)\<rparr>)))
      w (occurrences withdrawals)"

definition consume_unseen_withdraw_count :: "db \<Rightarrow> array32 \<Rightarrow> bool \<times> db" where
  "consume_unseen_withdraw_count d k =
    (let (unmatched, w) = stage_consumed_withdrawals d [k] d in (unmatched = [], w))"

subsection \<open>One update\<close>

record store_update_args =
  up_checkpoint :: "bytes option"
  up_blocks :: "(block \<times> bool) list"
  up_head_tip :: "block_meta option"
  up_head_state :: v03_state
  up_final_snapshot :: "(v03_state \<times> block_meta) option"
  up_finalized_up_to :: "block_id option"
  up_new_deposit_events :: "pending_deposit_event list"
  up_remove_deposit_records :: "array32 list"
  up_remove_dispatch_records :: "array32 list"
  up_consumed_withdrawals :: "array32 list"
  up_new_withdraw_intents :: "array32 list"
  up_zone_anchor :: "zone_anchor_record option"

definition store_update_new :: "v03_state \<Rightarrow> store_update_args" where
  "store_update_new s = \<lparr>up_checkpoint = None, up_blocks = [], up_head_tip = None, up_head_state = s,
    up_final_snapshot = None, up_finalized_up_to = None, up_new_deposit_events = [],
    up_remove_deposit_records = [], up_remove_dispatch_records = [], up_consumed_withdrawals = [],
    up_new_withdraw_intents = [], up_zone_anchor = None\<rparr>"

record store_outcome =
  accepted_deposits :: nat
  unmatched_withdrawals :: "array32 list"

text \<open>
  Staging one block: nothing when the disk holds it by id and hash, unless it is finalized,
  which rewrites the stored payload with the finalized status.
\<close>

definition already_stored :: "db \<Rightarrow> block \<Rightarrow> block option" where
  "already_stored d b =
    (case get_block d (header_block_id (block_header b)) of
       None \<Rightarrow> None
     | Some stored \<Rightarrow>
       if header_hash (block_header stored) = header_hash (block_header b) then Some stored else None)"

definition stage_block :: "db \<Rightarrow> (block_id \<times> block) list \<Rightarrow> block \<times> bool \<Rightarrow> (block_id \<times> block) list" where
  "stage_block d to_write = (\<lambda>(b, finalized).
    if already_stored d b \<noteq> None \<and> \<not> finalized then to_write
    else let b' = (case already_stored d b of Some stored \<Rightarrow> stored | None \<Rightarrow> b);
             b'' = (if finalized then b'\<lparr>bedrock_status := Finalized\<rparr> else b') in
      AList.update (header_block_id (block_header b'')) b'' to_write)"

definition stages_block :: "db \<Rightarrow> block \<times> bool \<Rightarrow> bool" where
  "stages_block d = (\<lambda>(b, finalized). already_stored d b = None \<or> finalized)"

definition highest_staged :: "(block_id \<times> block) list \<Rightarrow> block_id" where
  "highest_staged to_write = fold (max \<circ> fst) to_write 0"

definition pin_head :: "block_id \<Rightarrow> (block_id \<times> block) list \<Rightarrow> store_update_args \<Rightarrow> block_meta \<Rightarrow> db \<Rightarrow> db" where
  "pin_head last_block to_write u tip w =
    (let w' = delete_block_payloads (saturating_add (meta_id tip) 1) (max last_block (highest_staged to_write)) w in
     w'\<lparr>db_last_block := Some (meta_id tip), db_latest_meta := Some tip, db_state := Some (up_head_state u),
       db_final := (case up_final_snapshot u of Some snapshot \<Rightarrow> Some snapshot | None \<Rightarrow> db_final w')\<rparr>)"

definition store_update :: "db \<Rightarrow> store_update_args \<Rightarrow> db_error + store_outcome \<times> db" where
  "store_update d u =
    and_then (get_meta_last_block_in_db d) (\<lambda>last_block.
    let w0 = d\<lparr>db_checkpoint := (case up_checkpoint u of Some bs \<Rightarrow> Some bs | None \<Rightarrow> db_checkpoint d),
               db_anchor := (case up_zone_anchor u of Some a \<Rightarrow> Some a | None \<Rightarrow> db_anchor d)\<rparr>;
        chain_changed = (up_final_snapshot u \<noteq> None \<or>
          (case up_head_tip u of None \<Rightarrow> False | Some tip \<Rightarrow> meta_id tip \<noteq> last_block) \<or>
          list_ex (stages_block d) (up_blocks u));
        staged = foldl (stage_block d) [] (up_blocks u);
        to_write = (case up_finalized_up_to u of None \<Rightarrow> staged
          | Some last_finalized \<Rightarrow> collect_finalized_up_to d last_finalized staged);
        w1 = fold (\<lambda>(_, b). put_block_payload b) to_write w0;
        (accepted, w2) = stage_pending_deposit_events d (up_new_deposit_events u) (up_remove_deposit_records u) w1;
        w3 = snd (stage_removed_dispatches d (up_remove_dispatch_records u) w2);
        (unmatched, w4) = stage_consumed_withdrawals d (up_consumed_withdrawals u) w3 in
    and_then (stage_new_withdraw_intents d (up_new_withdraw_intents u) w4) (\<lambda>w5.
    let w6 = (case up_head_tip u of
          Some tip \<Rightarrow> if chain_changed then pin_head last_block to_write u tip w5 else w5
        | None \<Rightarrow> w5) in
    Inr (\<lparr>accepted_deposits = accepted, unmatched_withdrawals = unmatched\<rparr>, w6)))"

definition atomic_update ::
  "db \<Rightarrow> block \<Rightarrow> array32 list \<Rightarrow> v03_state \<Rightarrow> bytes option \<Rightarrow> db_error + db" where
  "atomic_update d b withdrawals s checkpoint =
    and_then (store_update d ((store_update_new s)\<lparr>up_checkpoint := checkpoint, up_blocks := [(b, False)],
      up_head_tip := Some (meta_of_block b), up_new_withdraw_intents := withdrawals\<rparr>)) (\<lambda>(_, d').
    Inr d')"

subsection \<open>Peers\<close>

definition put_cross_zone_peer_tip :: "db \<Rightarrow> array32 \<Rightarrow> peer_chain_tip \<Rightarrow> db" where
  "put_cross_zone_peer_tip d zone t = d\<lparr>db_peer_tips := (db_peer_tips d)(zone \<mapsto> t)\<rparr>"

definition set_cross_zone_peer_floor :: "db \<Rightarrow> array32 \<Rightarrow> u64 \<Rightarrow> db" where
  "set_cross_zone_peer_floor d zone slot = d\<lparr>db_peer_floors := (db_peer_floors d)(zone \<mapsto> slot)\<rparr>"

definition clear_cross_zone_peer_floor :: "db \<Rightarrow> array32 \<Rightarrow> db" where
  "clear_cross_zone_peer_floor d zone = d\<lparr>db_peer_floors := (db_peer_floors d)(zone := None)\<rparr>"

end
