(* ===== verification/PeerChain.thy ===== *)
theory PeerChain
  imports ChainState CrossZone Store
begin

text \<open>
  The host side of cross-zone messaging: how an emission on a peer chain becomes a dispatch
  transaction (\<open>lez/cross_zone/src/lib.rs\<close>), which peer blocks are accepted
  (\<open>lez/cross_zone/src/acceptance.rs\<close>), the sequencer's watcher that records dispatches
  (\<open>lez/sequencer/core/src/cross_zone_watcher.rs\<close>) and the indexer's verifier that re-derives them
  (\<open>lez/indexer/core/src/cross_zone_verifier.rs\<close>).

  \<open>host_env\<close> holds the ids of the built programs and the Borsh codecs of blocks and transactions.
  A stream of channel messages is the list of what it yields. The verifier polls a cache that
  its reader tasks fill: the cache it sees at the \<open>n\<close>-th poll is a function of \<open>n\<close>.
\<close>

record host_env =
  host_zone :: zone_env
  host_cross :: cross_codecs
  host_inbox_id :: program_id
  host_outbox_id :: program_id
  host_lock_id :: program_id
  host_wrapped_id :: program_id
  host_sender_id :: program_id
  host_receiver_id :: program_id
  host_block_of_bytes :: "bytes \<Rightarrow> block option"
  host_tx_bytes :: "lee_transaction \<Rightarrow> bytes"
  host_tx_of_bytes :: "bytes \<Rightarrow> lee_transaction option"

subsection \<open>Emissions and dispatches\<close>

record emission =
  emission_zone :: zone_id
  emission_program :: program_id
  emission_accounts :: "array32 list"
  emission_payload :: bytes

record emission_source =
  source_zone :: zone_id
  source_block_id :: u64
  source_block_hash :: array32
  source_tx_index :: u32
  source_program :: program_id

definition is_sequencer_only_program :: "'h host_env_scheme \<Rightarrow> program_id \<Rightarrow> bool" where
  "is_sequencer_only_program H p \<longleftrightarrow> p = host_inbox_id H"

definition extract_emission :: "'h host_env_scheme \<Rightarrow> program_id \<Rightarrow> u32 list \<Rightarrow> emission option" where
  "extract_emission H p words =
    (if p = host_sender_id H then
       (case xc_sender_of_words (host_cross H) words of
          Some (Send zone program accounts pay _) \<Rightarrow> Some \<lparr>emission_zone = zone, emission_program = program,
            emission_accounts = accounts, emission_payload = pay\<rparr>
        | _ \<Rightarrow> None)
     else if p = host_lock_id H then
       (case xc_lock_of_words (host_cross H) words of
          Some (Lock _ zone program accounts pay _) \<Rightarrow> Some \<lparr>emission_zone = zone, emission_program = program,
            emission_accounts = accounts, emission_payload = pay\<rparr>
        | _ \<Rightarrow> None)
     else None)"

definition genesis_public_tx :: "program_id \<Rightarrow> account_id list \<Rightarrow> u32 list \<Rightarrow> public_transaction" where
  "genesis_public_tx p ids words =
    \<lparr>pub_message = \<lparr>msg_program_id = p, msg_account_ids = ids, msg_nonces = [], msg_instruction_data = words\<rparr>,
     pub_witness_set = []\<rparr>"

definition build_inbox_dispatch_tx ::
  "'h host_env_scheme \<Rightarrow> program_id \<Rightarrow> cross_zone_message \<Rightarrow> account_id list \<Rightarrow> public_transaction" where
  "build_inbox_dispatch_tx H inbox_id msg target_ids =
    (let sha256 = xc_sha256 (host_cross H) in
     \<lparr>pub_message = \<lparr>msg_program_id = inbox_id,
        msg_account_ids = [inbox_config_account_id sha256 inbox_id,
          inbox_seen_shard_account_id sha256 inbox_id (src_zone msg) (src_block_id msg),
          inbox_source_marker_account_id sha256 inbox_id (src_zone msg) (src_program_id msg)] @ target_ids,
        msg_nonces = [], msg_instruction_data = xc_inbox_words (host_cross H) (Dispatch msg)\<rparr>,
      pub_witness_set = []\<rparr>)"

definition message_of_emission :: "emission_source \<Rightarrow> program_id \<Rightarrow> bytes \<Rightarrow> cross_zone_message" where
  "message_of_emission source program pay =
    \<lparr>src_zone = source_zone source, src_block_id = source_block_id source,
     src_block_hash = source_block_hash source, src_tx_index = source_tx_index source,
     src_program_id = source_program source, target_program_id = program, payload = pay,
     l1_inclusion_witness = None\<rparr>"

definition build_dispatch_from_emission ::
  "'h host_env_scheme \<Rightarrow> emission_source \<Rightarrow> program_id \<Rightarrow> array32 list \<Rightarrow> bytes \<Rightarrow> public_transaction" where
  "build_dispatch_from_emission H source program accounts pay =
    build_inbox_dispatch_tx H (host_inbox_id H) (message_of_emission source program pay) (map AccountId accounts)"

subsection \<open>Genesis configuration\<close>

definition build_inbox_init_config_tx :: "'h host_env_scheme \<Rightarrow> zone_id \<Rightarrow> public_transaction" where
  "build_inbox_init_config_tx H zone =
    genesis_public_tx (host_inbox_id H) [inbox_config_account_id (xc_sha256 (host_cross H)) (host_inbox_id H)]
      (xc_inbox_words (host_cross H) (InboxInitConfig \<lparr>self_zone = zone\<rparr>))"

definition build_holding_account :: "'h host_env_scheme \<Rightarrow> account_id \<Rightarrow> u128 \<Rightarrow> account_id \<times> account" where
  "build_holding_account H holder amount =
    (holder, default_account\<lparr>program_owner := account_of_program (host_lock_id H), balance := amount\<rparr>)"

text \<open>The sources that the operator's routes name for one target program.\<close>

definition route_sources :: "program_id \<Rightarrow> cross_zone_config option \<Rightarrow> (zone_id \<times> program_id) list" where
  "route_sources target cross_zone =
    (case cross_zone of
       None \<Rightarrow> []
     | Some cz \<Rightarrow> concat (map (\<lambda>peer.
         map (\<lambda>route. (peer_channel_id peer, route_src_program route))
           (filter (\<lambda>route. route_target_program route = target) (peer_allowed_routes peer))) (config_peers cz)))"

definition build_wrapped_token_init_config_tx ::
  "'h host_env_scheme \<Rightarrow> cross_zone_config option \<Rightarrow> public_transaction" where
  "build_wrapped_token_init_config_tx H cross_zone =
    genesis_public_tx (host_wrapped_id H) [wrapped_config_account_id (xc_sha256 (host_cross H)) (host_wrapped_id H)]
      (xc_wrapped_words (host_cross H) (WrappedInitConfig
        \<lparr>minter = host_inbox_id H, sources = route_sources (host_wrapped_id H) cross_zone\<rparr>))"

definition build_ping_sender_init_config_tx :: "'h host_env_scheme \<Rightarrow> public_transaction" where
  "build_ping_sender_init_config_tx H =
    genesis_public_tx (host_sender_id H) [sender_config_account_id (xc_sha256 (host_cross H)) (host_sender_id H)]
      (xc_sender_words (host_cross H) (SenderInitConfig (host_outbox_id H)))"

definition build_bridge_lock_init_config_tx :: "'h host_env_scheme \<Rightarrow> public_transaction" where
  "build_bridge_lock_init_config_tx H =
    genesis_public_tx (host_lock_id H) [lock_config_account_id (xc_sha256 (host_cross H)) (host_lock_id H)]
      (xc_lock_words (host_cross H) (LockInitConfig (host_outbox_id H) (host_wrapped_id H)))"

definition build_ping_receiver_init_config_tx ::
  "'h host_env_scheme \<Rightarrow> cross_zone_config option \<Rightarrow> public_transaction" where
  "build_ping_receiver_init_config_tx H cross_zone =
    genesis_public_tx (host_receiver_id H)
      [receiver_config_account_id (xc_sha256 (host_cross H)) (host_receiver_id H)]
      (xc_receiver_words (host_cross H) (ReceiverInitConfig
        \<lparr>deliverer = host_inbox_id H, receiver_sources = route_sources (host_receiver_id H) cross_zone\<rparr>))"

subsection \<open>Acceptance of peer blocks\<close>

datatype off_chain =
    DoesNotLink u64 u64 block_hash block_hash
  | NotTheGenesis u64
  | SkipsAhead u64 u64

datatype link =
    Next block_hash
  | AlreadySeen bool
  | OffChain off_chain

datatype screen_refusal =
    ScreenHashMismatch u64 block_hash block_hash
  | KeyMismatch u64

definition link_to_tip :: "peer_chain_tip option \<Rightarrow> block \<Rightarrow> block_hash \<Rightarrow> link" where
  "link_to_tip tip b recomputed =
    (let block_id = header_block_id (block_header b) in
     case tip of
       None \<Rightarrow> if block_id = GENESIS_BLOCK_ID then Next recomputed else OffChain (NotTheGenesis block_id)
     | Some t \<Rightarrow>
       if block_id \<le> peer_block_id t
       then AlreadySeen (block_id = peer_block_id t \<and> recomputed \<noteq> peer_block_hash t)
       else let next = saturating_add (peer_block_id t) 1 in
         if next < block_id then OffChain (SkipsAhead block_id next)
         else if header_prev_hash (block_header b) \<noteq> peer_block_hash t
         then OffChain (DoesNotLink block_id (peer_block_id t) (header_prev_hash (block_header b)) (peer_block_hash t))
         else Next recomputed)"

definition screen_peer_block :: "zone_env \<Rightarrow> block \<Rightarrow> public_key option \<Rightarrow> screen_refusal + block_hash" where
  "screen_peer_block Z b expected_pubkey =
    (let recomputed = recompute_hash Z b; h = block_header b in
     ensure (recomputed = header_hash h) (ScreenHashMismatch (header_block_id h) (header_hash h) recomputed) (
     ensure (case expected_pubkey of None \<Rightarrow> True | Some key \<Rightarrow> is_signed_by Z b key)
       (KeyMismatch (header_block_id h)) (
     Inr recomputed)))"

subsection \<open>Stalls of a reader\<close>

definition STUCK_SLOT_ALERT_PASSES :: u32 where
  "STUCK_SLOT_ALERT_PASSES = 5"

type_synonym stall_state = "(slot \<times> u32) option"

definition passed_the_stall :: "stall_state \<Rightarrow> slot option \<Rightarrow> bool" where
  "passed_the_stall st read_to =
    (case st of None \<Rightarrow> True
     | Some (stuck_on, _) \<Rightarrow> (case read_to of None \<Rightarrow> False | Some slot \<Rightarrow> stuck_on \<le> slot))"

definition stall_after_pass ::
  "stall_state \<Rightarrow> slot option \<Rightarrow> slot option \<Rightarrow> (slot \<times> u32) option \<times> stall_state" where
  "stall_after_pass st stuck_on read_to =
    (case stuck_on of
       None \<Rightarrow> (None, if passed_the_stall st read_to then None else st)
     | Some slot \<Rightarrow>
       let attempts = (case st of
             Some (held, attempts) \<Rightarrow> if held = slot then saturating_add attempts 1 else 1
           | None \<Rightarrow> 1) in
       (Some (slot, attempts), Some (slot, attempts)))"

definition alerts_at :: "u32 \<Rightarrow> bool" where
  "alerts_at attempts \<longleftrightarrow> 0 < attempts \<and> attempts mod STUCK_SLOT_ALERT_PASSES = 0"

subsection \<open>The watcher\<close>

datatype zone_message =
    ZoneBlock bytes
  | ZoneDeposit
  | ZoneWithdraw

record peer_context =
  ctx_peer_zone :: zone_id
  ctx_self_zone :: zone_id
  ctx_pubkey :: "public_key option"

datatype pass_outcome =
    Drained
  | Stranded
  | Undecodable slot
  | Undelivered slot

record watcher_state =
  watcher_stall :: stall_state
  watcher_stranded :: u32

definition watcher_after_pass ::
  "watcher_state \<Rightarrow> pass_outcome \<Rightarrow> slot option \<Rightarrow> (slot \<times> u32) option \<times> watcher_state" where
  "watcher_after_pass ws outcome cursor =
    (let stranded = (case outcome of
           Stranded \<Rightarrow> saturating_add (watcher_stranded ws) 1
         | Drained \<Rightarrow> 0
         | _ \<Rightarrow> watcher_stranded ws);
         stuck_on = (case outcome of Undecodable slot \<Rightarrow> Some slot | Undelivered slot \<Rightarrow> Some slot | _ \<Rightarrow> None);
         (report, stall) = stall_after_pass (watcher_stall ws) stuck_on cursor in
     (report, \<lparr>watcher_stall = stall, watcher_stranded = stranded\<rparr>))"

text \<open>Where a starting watcher reads from, and whether it drops its stored floor first.\<close>

definition resume_from :: "peer_chain_tip option \<Rightarrow> slot option \<Rightarrow> slot option \<times> bool" where
  "resume_from tip floor = (case tip of Some _ \<Rightarrow> (floor, False) | None \<Rightarrow> (None, floor \<noteq> None))"

definition delivery_of ::
  "'h host_env_scheme \<Rightarrow> peer_context \<Rightarrow> block \<Rightarrow> block_hash \<Rightarrow> nat \<times> lee_transaction
    \<Rightarrow> pending_dispatch option" where
  "delivery_of H ctx b block_hash = (\<lambda>(index, tx).
    case tx of
      PublicTx public_tx \<Rightarrow> do {
        let message = pub_message public_tx;
        em \<leftarrow> extract_emission H (msg_program_id message) (msg_instruction_data message);
        if emission_zone em \<noteq> ctx_self_zone ctx then None
        else if is_sequencer_only_program H (emission_program em) then None
        else
          let src_tx_index = (if index < 2 ^ 32 then of_nat index else - 1);
              dispatch = PublicTx (build_dispatch_from_emission H
                \<lparr>source_zone = ctx_peer_zone ctx, source_block_id = header_block_id (block_header b),
                 source_block_hash = block_hash, source_tx_index = src_tx_index,
                 source_program = msg_program_id message\<rparr>
                (emission_program em) (emission_accounts em) (emission_payload em)) in
          Some (recorded (message_key (xc_sha256 (host_cross H)) (ctx_peer_zone ctx)
            (header_block_id (block_header b)) src_tx_index) (host_tx_bytes H dispatch))
      }
    | _ \<Rightarrow> None)"

definition record_block_deliveries ::
  "'h host_env_scheme \<Rightarrow> peer_context \<Rightarrow> db \<Rightarrow> block \<Rightarrow> block_hash \<Rightarrow> bool \<times> db" where
  "record_block_deliveries H ctx d b block_hash =
    (case add_pending_cross_zone_dispatches d
        (List.map_filter (delivery_of H ctx b block_hash)
          (List.enumerate 0 (body_transactions (block_body b)))) of
       Inr (_, d') \<Rightarrow> (True, d')
     | Inl _ \<Rightarrow> (False, d))"

record watcher_run =
  run_db :: db
  run_cursor :: "slot option"
  run_tip :: "peer_chain_tip option"
  run_in_progress :: "slot option"
  run_placed :: nat
  run_skipped :: nat

definition advance_cursor :: "zone_id \<Rightarrow> watcher_run \<Rightarrow> slot \<Rightarrow> watcher_run" where
  "advance_cursor zone r slot =
    r\<lparr>run_cursor := Some slot, run_db := set_cross_zone_peer_floor (run_db r) zone slot\<rparr>"

definition complete_slot :: "zone_id \<Rightarrow> watcher_run \<Rightarrow> watcher_run" where
  "complete_slot zone r = (case run_in_progress r of None \<Rightarrow> r | Some done \<Rightarrow> advance_cursor zone r done)"

definition enter_slot :: "zone_id \<Rightarrow> watcher_run \<Rightarrow> slot \<Rightarrow> watcher_run" where
  "enter_slot zone r slot =
    (if run_in_progress r \<noteq> Some slot then (complete_slot zone r)\<lparr>run_in_progress := Some slot\<rparr> else r)"

definition watch_block ::
  "'h host_env_scheme \<Rightarrow> peer_context \<Rightarrow> slot \<Rightarrow> watcher_run \<Rightarrow> block
    \<Rightarrow> (pass_outcome \<times> watcher_run) + watcher_run" where
  "watch_block H ctx slot r b =
    (case screen_peer_block (host_zone H) b (ctx_pubkey ctx) of
       Inl _ \<Rightarrow> Inr (r\<lparr>run_skipped := run_skipped r + 1\<rparr>)
     | Inr recomputed \<Rightarrow> (case link_to_tip (run_tip r) b recomputed of
         AlreadySeen _ \<Rightarrow> Inr r
       | OffChain _ \<Rightarrow> Inr (r\<lparr>run_skipped := run_skipped r + 1\<rparr>)
       | Next block_hash \<Rightarrow>
         let (ok, d) = record_block_deliveries H ctx (run_db r) b block_hash in
         if \<not> ok then Inl (Undelivered slot, r)
         else let next = \<lparr>peer_block_id = header_block_id (block_header b), peer_block_hash = block_hash\<rparr> in
           Inr (r\<lparr>run_db := put_cross_zone_peer_tip d (ctx_peer_zone ctx) next, run_tip := Some next,
             run_placed := run_placed r + 1\<rparr>)))"

definition watcher_step ::
  "'h host_env_scheme \<Rightarrow> peer_context \<Rightarrow> watcher_run \<Rightarrow> zone_message \<times> slot
    \<Rightarrow> (pass_outcome \<times> watcher_run) + watcher_run" where
  "watcher_step H ctx r = (\<lambda>(msg, slot).
    let r' = enter_slot (ctx_peer_zone ctx) r slot in
    case msg of
      ZoneBlock bs \<Rightarrow> (case host_block_of_bytes H bs of
          None \<Rightarrow> Inl (Undecodable slot, r')
        | Some b \<Rightarrow> watch_block H ctx slot r' b)
    | _ \<Rightarrow> Inr r')"

definition watch_peer_stream ::
  "'h host_env_scheme \<Rightarrow> peer_context \<Rightarrow> db \<Rightarrow> slot option \<Rightarrow> peer_chain_tip option
    \<Rightarrow> (zone_message \<times> slot) list \<Rightarrow> pass_outcome \<times> watcher_run" where
  "watch_peer_stream H ctx d cursor tip msgs =
    (case try_fold (watcher_step H ctx) \<lparr>run_db = d, run_cursor = cursor, run_tip = tip,
        run_in_progress = None, run_placed = 0, run_skipped = 0\<rparr> msgs of
       Inl early \<Rightarrow> early
     | Inr r \<Rightarrow> (if run_placed r = 0 \<and> 0 < run_skipped r then Stranded else Drained,
         complete_slot (ctx_peer_zone ctx) r))"

subsection \<open>The verifier's cache\<close>

record peer_chain =
  chain_blocks :: "u64 \<rightharpoonup> block"
  verified_prefix :: "peer_chain_tip option"

definition empty_peer_chain :: peer_chain where
  "empty_peer_chain = \<lparr>chain_blocks = Map.empty, verified_prefix = None\<rparr>"

definition next_expected :: "peer_chain_tip option \<Rightarrow> u64" where
  "next_expected prefix =
    (case prefix of Some t \<Rightarrow> saturating_add (peer_block_id t) 1 | None \<Rightarrow> GENESIS_BLOCK_ID)"

function extend_prefix :: "(u64 \<rightharpoonup> block) \<Rightarrow> peer_chain_tip option \<Rightarrow> peer_chain_tip option" where
  "extend_prefix blocks prefix =
    (case blocks (next_expected prefix) of
       None \<Rightarrow> prefix
     | Some next \<Rightarrow> (case link_to_tip prefix next (header_hash (block_header next)) of
         Next block_hash \<Rightarrow> extend_prefix blocks
           (Some \<lparr>peer_block_id = header_block_id (block_header next), peer_block_hash = block_hash\<rparr>)
       | _ \<Rightarrow> prefix))"
  by pat_completeness auto

text \<open>Every extension raises the id of the prefix, which is a 64-bit word.\<close>

lemma link_Next_raises:
  "link_to_tip (Some t) b h = Next h' \<Longrightarrow> peer_block_id t < header_block_id (block_header b)"
  by (auto simp: link_to_tip_def Let_def split: if_splits)

termination extend_prefix
proof (relation "measure (\<lambda>(_, prefix). case prefix of None \<Rightarrow> 2 ^ 64
    | Some t \<Rightarrow> 2 ^ 64 - 1 - unat (peer_block_id t))", goal_cases)
  case 1
  show ?case by simp
next
  case (2 blocks prefix b h)
  have bound: "unat (header_block_id (block_header b)) < 2 ^ 64"
    using unsigned_less [of "header_block_id (block_header b)", where 'a = nat] by simp
  show ?case
  proof (cases prefix)
    case None
    then show ?thesis by simp
  next
    case (Some t)
    with 2(2) have "unat (peer_block_id t) < unat (header_block_id (block_header b))"
      by (auto simp: word_less_nat_alt dest: link_Next_raises)
    with Some bound show ?thesis by simp
  qed
qed

declare extend_prefix.simps [simp del]

definition cache_block :: "peer_chain \<Rightarrow> block \<Rightarrow> peer_chain" where
  "cache_block chain b =
    (let blocks = (chain_blocks chain)(header_block_id (block_header b) \<mapsto> b) in
     \<lparr>chain_blocks = blocks, verified_prefix = extend_prefix blocks (verified_prefix chain)\<rparr>)"

definition peer_insert :: "peer_chain \<Rightarrow> block \<Rightarrow> bool \<times> peer_chain" where
  "peer_insert chain b =
    (case link_to_tip (verified_prefix chain) b (header_hash (block_header b)) of
       OffChain (NotTheGenesis _) \<Rightarrow> (False, chain)
     | OffChain (SkipsAhead _ _) \<Rightarrow> (False, chain)
     | AlreadySeen _ \<Rightarrow> (False, chain)
     | Next _ \<Rightarrow> (case chain_blocks chain (header_block_id (block_header b)) of
         Some held \<Rightarrow> if header_hash (block_header held) = header_hash (block_header b)
           then (False, chain) else (True, cache_block chain b)
       | None \<Rightarrow> (True, cache_block chain b))
     | OffChain (DoesNotLink _ _ _ _) \<Rightarrow> (case chain_blocks chain (header_block_id (block_header b)) of
         Some _ \<Rightarrow> (False, chain)
       | None \<Rightarrow> (True, cache_block chain b)))"

type_synonym peer_blocks = "zone_id \<rightharpoonup> peer_chain"

definition insert_peer_block :: "peer_blocks \<Rightarrow> zone_id \<Rightarrow> block \<Rightarrow> peer_blocks" where
  "insert_peer_block peers zone b =
    peers(zone \<mapsto> snd (peer_insert (case peers zone of Some chain \<Rightarrow> chain | None \<Rightarrow> empty_peer_chain) b))"

datatype peer_lookup =
    Cached block
  | InsideRun
  | Behind

definition resolve :: "peer_blocks \<Rightarrow> zone_id \<Rightarrow> u64 \<Rightarrow> peer_lookup" where
  "resolve peers zone block_id =
    (case peers zone of
       None \<Rightarrow> Behind
     | Some chain \<Rightarrow> (case verified_prefix chain of
         None \<Rightarrow> Behind
       | Some t \<Rightarrow>
         if peer_block_id t < block_id then Behind
         else (case chain_blocks chain block_id of None \<Rightarrow> InsideRun | Some b \<Rightarrow> Cached b)))"

definition accept_peer_block :: "zone_env \<Rightarrow> block \<Rightarrow> public_key option \<Rightarrow> bool" where
  "accept_peer_block Z b expected_pubkey = is_ok (screen_peer_block Z b expected_pubkey)"

record reader_run =
  reader_peers :: peer_blocks
  reader_cursor :: "slot option"
  reader_in_progress :: "slot option"

definition reader_step ::
  "'h host_env_scheme \<Rightarrow> zone_id \<Rightarrow> public_key option \<Rightarrow> reader_run \<Rightarrow> zone_message \<times> slot
    \<Rightarrow> (slot \<times> reader_run) + reader_run" where
  "reader_step H zone pubkey r = (\<lambda>(msg, slot).
    let r' = (if reader_in_progress r \<noteq> Some slot
          then r\<lparr>reader_cursor := (case reader_in_progress r of Some s \<Rightarrow> Some s | None \<Rightarrow> reader_cursor r),
            reader_in_progress := Some slot\<rparr>
          else r) in
    case msg of
      ZoneBlock bs \<Rightarrow> (case host_block_of_bytes H bs of
          None \<Rightarrow> Inl (slot, r')
        | Some b \<Rightarrow> Inr (if accept_peer_block (host_zone H) b pubkey
            then r'\<lparr>reader_peers := insert_peer_block (reader_peers r') zone b\<rparr> else r'))
    | _ \<Rightarrow> Inr r')"

text \<open>One pass of a peer reader: the cache, the cursor to resume from and the slot it stalled at.\<close>

definition read_peer_stream ::
  "'h host_env_scheme \<Rightarrow> zone_id \<Rightarrow> public_key option \<Rightarrow> peer_blocks \<Rightarrow> slot option
    \<Rightarrow> (zone_message \<times> slot) list \<Rightarrow> peer_blocks \<times> slot option \<times> slot option" where
  "read_peer_stream H zone pubkey peers resume msgs =
    (case try_fold (reader_step H zone pubkey)
        \<lparr>reader_peers = peers, reader_cursor = resume, reader_in_progress = None\<rparr> msgs of
       Inl (slot, r) \<Rightarrow> (reader_peers r, reader_cursor r, Some slot)
     | Inr r \<Rightarrow> (reader_peers r,
         (case reader_in_progress r of Some s \<Rightarrow> Some s | None \<Rightarrow> reader_cursor r), None))"

subsection \<open>The verifier\<close>

datatype cross_zone_verify_error =
    Forged string
  | PeerUnavailable zone_id u64 nat

record verifier =
  verifier_self_zone :: zone_id
  verifier_pubkeys :: "zone_id \<rightharpoonup> public_key"
  verifier_seen :: "(array32 \<times> array32) set"

definition seen_key :: "hasher \<Rightarrow> cross_zone_message \<Rightarrow> array32 \<times> array32" where
  "seen_key sha256 msg =
    (message_key sha256 (src_zone msg) (src_block_id msg) (src_tx_index msg), src_block_hash msg)"

definition PEER_BLOCK_WAIT_TIMEOUT :: nat where
  "PEER_BLOCK_WAIT_TIMEOUT = 300"

function wait_for_peer_block ::
  "(nat \<Rightarrow> peer_blocks) \<Rightarrow> zone_id \<Rightarrow> u64 \<Rightarrow> nat \<Rightarrow> cross_zone_verify_error + block" where
  "wait_for_peer_block peers_at zone block_id waited =
    (case resolve (peers_at waited) zone block_id of
       Cached b \<Rightarrow> Inr b
     | InsideRun \<Rightarrow> Inl (Forged ''chain is verified past the block but it is absent'')
     | Behind \<Rightarrow> if PEER_BLOCK_WAIT_TIMEOUT \<le> waited then Inl (PeerUnavailable zone block_id waited)
         else wait_for_peer_block peers_at zone block_id (waited + 1))"
  by pat_completeness auto
termination wait_for_peer_block
  by (relation "measure (\<lambda>(_, _, _, waited). PEER_BLOCK_WAIT_TIMEOUT - waited)") auto

declare wait_for_peer_block.simps [simp del]

definition decode_dispatch :: "'h host_env_scheme \<Rightarrow> lee_transaction \<Rightarrow> cross_zone_message option" where
  "decode_dispatch H tx =
    (case tx of
       PublicTx public_tx \<Rightarrow>
         if msg_program_id (pub_message public_tx) \<noteq> host_inbox_id H then None
         else (case xc_inbox_of_words (host_cross H) (msg_instruction_data (pub_message public_tx)) of
             Some (Dispatch msg) \<Rightarrow> Some msg
           | _ \<Rightarrow> None)
     | _ \<Rightarrow> None)"

definition rederive ::
  "'h host_env_scheme \<Rightarrow> verifier \<Rightarrow> (nat \<Rightarrow> peer_blocks) \<Rightarrow> cross_zone_message
    \<Rightarrow> cross_zone_verify_error + public_transaction" where
  "rederive H V peers_at msg =
    and_then (wait_for_peer_block peers_at (src_zone msg) (src_block_id msg) 0) (\<lambda>b.
    ensure (case verifier_pubkeys V (src_zone msg) of None \<Rightarrow> True | Some key \<Rightarrow> is_signed_by (host_zone H) b key)
      (Forged ''peer block is not signed by the pinned block-signing key'') (
    expect_some (list_get (body_transactions (block_body b)) (unat (src_tx_index msg)))
      (Forged ''src_tx_index out of range in peer block'') (\<lambda>tx.
    expect_some (case tx of PublicTx public_tx \<Rightarrow> Some public_tx | _ \<Rightarrow> None)
      (Forged ''peer emission transaction is not public'') (\<lambda>public_tx.
    let message = pub_message public_tx in
    expect_some (extract_emission H (msg_program_id message) (msg_instruction_data message))
      (Forged ''peer transaction at src_tx_index is not a recognized emitter'') (\<lambda>em.
    ensure (emission_zone em = verifier_self_zone V) (Forged ''peer emission targets a different zone'') (
    Inr (build_dispatch_from_emission H
      \<lparr>source_zone = src_zone msg, source_block_id = src_block_id msg,
       source_block_hash = recompute_hash (host_zone H) b, source_tx_index = src_tx_index msg,
       source_program = msg_program_id message\<rparr>
      (emission_program em) (emission_accounts em) (emission_payload em))))))))"

text \<open>The keys verified so far and the transactions of the block, each with its own polls.\<close>

definition verify_tx ::
  "'h host_env_scheme \<Rightarrow> verifier \<Rightarrow> (nat \<Rightarrow> nat \<Rightarrow> peer_blocks) \<Rightarrow> (array32 \<times> array32) list
    \<Rightarrow> nat \<times> lee_transaction \<Rightarrow> cross_zone_verify_error + (array32 \<times> array32) list" where
  "verify_tx H V peers_at verified = (\<lambda>(n, tx).
    case decode_dispatch H tx of
      None \<Rightarrow> Inr verified
    | Some msg \<Rightarrow>
      let key = seen_key (xc_sha256 (host_cross H)) msg in
      if key \<in> verifier_seen V then Inr verified
      else and_then (rederive H V (peers_at n) msg) (\<lambda>expected.
        ensure (PublicTx expected = tx) (Forged ''re-derivation mismatch'') (
        Inr (verified @ [key]))))"

definition verify_block ::
  "'h host_env_scheme \<Rightarrow> verifier \<Rightarrow> (nat \<Rightarrow> nat \<Rightarrow> peer_blocks) \<Rightarrow> block
    \<Rightarrow> cross_zone_verify_error + (array32 \<times> array32) list" where
  "verify_block H V peers_at b =
    try_fold (verify_tx H V peers_at) [] (List.enumerate 0 (body_transactions (block_body b)))"

definition record_seen :: "verifier \<Rightarrow> (array32 \<times> array32) list \<Rightarrow> verifier" where
  "record_seen V keys = V\<lparr>verifier_seen := verifier_seen V \<union> set keys\<rparr>"

end
