(* ===== verification/Staking.thy ===== *)
theory Staking
  imports Guests State "HOL-Library.Finite_Map"
begin

text \<open>
  The sequencer stake program (\<open>lez/programs/sequencer_stake\<close>) and the committee that the
  sequencer derives from its accounts (\<open>lez/sequencer/core/src/committee_discovery.rs\<close>).

  A \<open>BTreeMap\<close> is a finite map, read in the order of its keys. That a sequencer key is a point
  of the curve is decided by the decoders of \<open>stake_codecs\<close>, which hold the encodings.
\<close>

subsection \<open>Data\<close>

type_synonym sequencer_key = array32

datatype stake_instruction =
    Stake sequencer_key u128 program_id "u32 list"
  | ConfirmStake u128
  | UnstakeRequest u128 account_id
  | FinalizeUnstake

record pending_unstake =
  unstake_amount :: u128
  unstake_destination :: account_id

record stake_record =
  stake_key :: sequencer_key
  stake_pending :: "pending_unstake option"

record sequencer_entry =
  entry_account_id :: account_id
  entry_total_staked :: u128
  entry_total_pending :: u128

record stake_config =
  minimum_sequencer_stake :: u128
  stake_entries :: "(sequencer_key, sequencer_entry) fmap"

record stake_codecs =
  sk_sha256 :: hasher
  sk_record_bytes :: "stake_record \<Rightarrow> bytes"
  sk_record_of_bytes :: "bytes \<Rightarrow> stake_record option"
  sk_config_bytes :: "stake_config \<Rightarrow> bytes"
  sk_config_of_bytes :: "bytes \<Rightarrow> stake_config option"
  sk_words :: "stake_instruction \<Rightarrow> u32 list"
  sk_of_words :: "u32 list \<Rightarrow> stake_instruction option"

definition net_stake :: "sequencer_entry \<Rightarrow> u128" where
  "net_stake entry = saturating_sub (entry_total_staked entry) (entry_total_pending entry)"

definition allows_unstake_request :: "sequencer_entry \<Rightarrow> u128 \<Rightarrow> u128 \<Rightarrow> bool" where
  "allows_unstake_request entry amount minimum =
    (case checked_sub (net_stake entry) amount of
       None \<Rightarrow> False
     | Some remaining \<Rightarrow> remaining = 0 \<or> minimum \<le> remaining)"

definition sequencer_stake_config_seed :: pda_seed where
  "sequencer_stake_config_seed = PdaSeed (of_array32 (ascii ''/LEZ/v0.3/MinSequencerStake/0000''))"

definition sequencer_stake_config_account_id :: "hasher \<Rightarrow> program_id \<Rightarrow> account_id" where
  "sequencer_stake_config_account_id sha256 p = for_public_pda sha256 p sequencer_stake_config_seed"

subsection \<open>The program\<close>

definition decode_config :: "stake_codecs \<Rightarrow> program_id \<Rightarrow> account_with_metadata \<Rightarrow> stake_config option" where
  "decode_config K self config = do {
    assert_that (account_id config = sequencer_stake_config_account_id (sk_sha256 K) self);
    assert_that (program_owner (account config) = account_of_program self);
    sk_config_of_bytes K (into_inner (data (account config)))
  }"

text \<open>The entry of a key after a stake: a top-up of its account, or a first stake of the minimum.\<close>

definition stake_entry ::
  "stake_config \<Rightarrow> sequencer_key \<Rightarrow> account_id \<Rightarrow> bool \<Rightarrow> u128 \<Rightarrow> sequencer_entry option" where
  "stake_entry config key ownership_id is_claimed amount =
    (case fmlookup (stake_entries config) key of
       Some entry \<Rightarrow> do {
         assert_that is_claimed;
         assert_that (entry_account_id entry = ownership_id);
         new_total \<leftarrow> checked_add (entry_total_staked entry) amount;
         Some (entry\<lparr>entry_total_staked := new_total\<rparr>)
       }
     | None \<Rightarrow> do {
         assert_that (minimum_sequencer_stake config \<le> amount);
         Some \<lparr>entry_account_id = ownership_id, entry_total_staked = amount, entry_total_pending = 0\<rparr>
       })"

definition check_claimed_ownership ::
  "stake_codecs \<Rightarrow> program_id \<Rightarrow> account_with_metadata \<Rightarrow> sequencer_key \<Rightarrow> unit option" where
  "check_claimed_ownership K self ownership key = do {
    assert_that (program_owner (account ownership) = account_of_program self);
    rec \<leftarrow> sk_record_of_bytes K (into_inner (data (account ownership)));
    assert_that (stake_key rec = key);
    assert_that (stake_pending rec = None)
  }"

definition stake ::
  "stake_codecs \<Rightarrow> program_id \<Rightarrow> account_with_metadata list \<Rightarrow> sequencer_key \<Rightarrow> u128 \<Rightarrow> program_id
    \<Rightarrow> u32 list \<Rightarrow> (account_post_state list \<times> chained_call list) option" where
  "stake K self pres key amount mover_program mover_words =
    (case pres of
       [funding, ownership, config_account] \<Rightarrow> do {
         assert_that (is_authorized ownership);
         config \<leftarrow> decode_config K self config_account;
         expected \<leftarrow> checked_add (balance (account ownership)) amount;
         let is_claimed = (program_owner (account ownership) \<noteq> DEFAULT_PROGRAM_OWNER);
         (if is_claimed then check_claimed_ownership K self ownership key else Some ());
         entry \<leftarrow> stake_entry config key (account_id ownership) is_claimed amount;
         let config' = config\<lparr>stake_entries := fmupd key entry (stake_entries config)\<rparr>;
         ownership_data \<leftarrow> data_of_bytes (sk_record_bytes K \<lparr>stake_key = key, stake_pending = None\<rparr>);
         config_data \<leftarrow> data_of_bytes (sk_config_bytes K config');
         let ownership_new = (account ownership)\<lparr>data := ownership_data\<rparr>;
         let claimed = ownership\<lparr>account := ownership_new\<lparr>program_owner := account_of_program self\<rparr>\<rparr>;
         let after_mover = claimed\<lparr>account := (account claimed)\<lparr>balance := expected\<rparr>\<rparr>;
         Some ([post_new (account funding), new_claimed_if_default ownership_new ClaimAuthorized,
             post_new ((account config_account)\<lparr>data := config_data\<rparr>)],
           [\<lparr>call_program_id = mover_program, call_pre_states = [funding, claimed],
             call_instruction_data = mover_words, call_pda_seeds = []\<rparr>,
            chained_call_new (sk_words K) self [after_mover] (ConfirmStake expected)])
       }
     | _ \<Rightarrow> None)"

definition confirm_stake :: "account_with_metadata list \<Rightarrow> u128 \<Rightarrow> account_post_state list option" where
  "confirm_stake pres expected =
    (case pres of
       [ownership] \<Rightarrow> do {
         assert_that (balance (account ownership) = expected);
         Some [post_new (account ownership)]
       }
     | _ \<Rightarrow> None)"

definition unstake_request ::
  "stake_codecs \<Rightarrow> program_id \<Rightarrow> account_with_metadata list \<Rightarrow> u128 \<Rightarrow> account_id \<Rightarrow> account_post_state list option" where
  "unstake_request K self pres amount destination =
    (case pres of
       [ownership, config_account] \<Rightarrow> do {
         assert_that (is_authorized ownership);
         assert_that (program_owner (account ownership) = account_of_program self);
         rec \<leftarrow> sk_record_of_bytes K (into_inner (data (account ownership)));
         assert_that (stake_pending rec = None);
         config \<leftarrow> decode_config K self config_account;
         entry \<leftarrow> fmlookup (stake_entries config) (stake_key rec);
         assert_that (entry_account_id entry = account_id ownership);
         assert_that (allows_unstake_request entry amount (minimum_sequencer_stake config));
         pending \<leftarrow> checked_add (entry_total_pending entry) amount;
         let rec' = rec\<lparr>stake_pending := Some \<lparr>unstake_amount = amount, unstake_destination = destination\<rparr>\<rparr>;
         let config' = config\<lparr>stake_entries :=
           fmupd (stake_key rec) (entry\<lparr>entry_total_pending := pending\<rparr>) (stake_entries config)\<rparr>;
         ownership_data \<leftarrow> data_of_bytes (sk_record_bytes K rec');
         config_data \<leftarrow> data_of_bytes (sk_config_bytes K config');
         Some [post_new ((account ownership)\<lparr>data := ownership_data\<rparr>),
           post_new ((account config_account)\<lparr>data := config_data\<rparr>)]
       }
     | _ \<Rightarrow> None)"

definition release_entry :: "stake_config \<Rightarrow> sequencer_key \<Rightarrow> account_id \<Rightarrow> u128 \<Rightarrow> stake_config option" where
  "release_entry config key ownership_id amount = do {
    entry \<leftarrow> fmlookup (stake_entries config) key;
    assert_that (entry_account_id entry = ownership_id);
    staked \<leftarrow> checked_sub (entry_total_staked entry) amount;
    pending \<leftarrow> checked_sub (entry_total_pending entry) amount;
    Some (config\<lparr>stake_entries := (if staked = 0 then fmdrop key (stake_entries config)
      else fmupd key (entry\<lparr>entry_total_staked := staked, entry_total_pending := pending\<rparr>) (stake_entries config))\<rparr>)
  }"

definition finalize_unstake ::
  "stake_codecs \<Rightarrow> program_id \<Rightarrow> account_with_metadata list \<Rightarrow> account_post_state list option" where
  "finalize_unstake K self pres =
    (case pres of
       [ownership, destination, config_account] \<Rightarrow> do {
         assert_that (program_owner (account ownership) = account_of_program self);
         rec \<leftarrow> sk_record_of_bytes K (into_inner (data (account ownership)));
         pending \<leftarrow> stake_pending rec;
         assert_that (account_id destination = unstake_destination pending);
         ownership_balance \<leftarrow> checked_sub (balance (account ownership)) (unstake_amount pending);
         ownership_data \<leftarrow> data_of_bytes (sk_record_bytes K (rec\<lparr>stake_pending := None\<rparr>));
         destination_balance \<leftarrow> checked_add (balance (account destination)) (unstake_amount pending);
         config \<leftarrow> decode_config K self config_account;
         config' \<leftarrow> release_entry config (stake_key rec) (account_id ownership) (unstake_amount pending);
         config_data \<leftarrow> data_of_bytes (sk_config_bytes K config');
         Some [post_new ((account ownership)\<lparr>balance := ownership_balance, data := ownership_data\<rparr>),
           post_new ((account destination)\<lparr>balance := destination_balance\<rparr>),
           post_new ((account config_account)\<lparr>data := config_data\<rparr>)]
       }
     | _ \<Rightarrow> None)"

definition stake_main :: "stake_codecs \<Rightarrow> stake_instruction guest" where
  "stake_main K inp words = do {
    (posts, calls) \<leftarrow> (case input_instruction inp of
        Stake key amount mover_program mover_words \<Rightarrow> do {
          assert_that (input_caller inp = None);
          stake K (input_self inp) (input_pre_states inp) key amount mover_program mover_words
        }
      | ConfirmStake expected \<Rightarrow> do {
          assert_that (input_caller inp = Some (input_self inp));
          map_option (\<lambda>posts. (posts, [])) (confirm_stake (input_pre_states inp) expected)
        }
      | UnstakeRequest amount destination \<Rightarrow> do {
          assert_that (input_caller inp = None);
          map_option (\<lambda>posts. (posts, []))
            (unstake_request K (input_self inp) (input_pre_states inp) amount destination)
        }
      | FinalizeUnstake \<Rightarrow> do {
          assert_that (input_caller inp = None);
          map_option (\<lambda>posts. (posts, [])) (finalize_unstake K (input_self inp) (input_pre_states inp))
        });
    Some (with_chained_calls (guest_output inp words posts) calls)
  }"

subsection \<open>The committee\<close>

definition read_stake_config :: "stake_codecs \<Rightarrow> program_id \<Rightarrow> v03_state \<Rightarrow> stake_config option" where
  "read_stake_config K stake_id s = do {
    a \<leftarrow> public_state s (sequencer_stake_config_account_id (sk_sha256 K) stake_id);
    sk_config_of_bytes K (into_inner (data a))
  }"

definition stake_record_of :: "stake_codecs \<Rightarrow> v03_state \<Rightarrow> account_id \<Rightarrow> stake_record option" where
  "stake_record_of K s ownership_id = do {
    a \<leftarrow> public_state s ownership_id;
    sk_record_of_bytes K (into_inner (data a))
  }"

definition config_is_readable :: "stake_codecs \<Rightarrow> program_id \<Rightarrow> v03_state \<Rightarrow> bool" where
  "config_is_readable K stake_id s \<longleftrightarrow> read_stake_config K stake_id s \<noteq> None"

definition entry_values :: "stake_config \<Rightarrow> (sequencer_key \<times> sequencer_entry) list" where
  "entry_values config = map (\<lambda>k. (k, the (fmlookup (stake_entries config) k)))
    (sorted_list_of_fset (fmdom (stake_entries config)))"

definition committee_update ::
  "stake_codecs \<Rightarrow> program_id \<Rightarrow> v03_state \<Rightarrow> sequencer_key list \<Rightarrow> sequencer_key list option" where
  "committee_update K stake_id s live = do {
    config \<leftarrow> read_stake_config K stake_id s;
    let desired = sort (map fst (filter (\<lambda>(_, entry). minimum_sequencer_stake config \<le> net_stake entry)
      (entry_values config)));
    if desired = [] then None
    else if desired \<noteq> sort live then Some desired else None
  }"

definition finalize_unstake_candidates ::
  "stake_codecs \<Rightarrow> program_id \<Rightarrow> v03_state \<Rightarrow> (account_id \<times> pending_unstake) list" where
  "finalize_unstake_candidates K stake_id s =
    (case read_stake_config K stake_id s of
       None \<Rightarrow> []
     | Some config \<Rightarrow> List.map_filter (\<lambda>(_, entry). do {
         rec \<leftarrow> stake_record_of K s (entry_account_id entry);
         pending \<leftarrow> stake_pending rec;
         Some (entry_account_id entry, pending)
       }) (entry_values config))"

definition finalize_unstake_is_valid ::
  "stake_codecs \<Rightarrow> program_id \<Rightarrow> v03_state \<Rightarrow> account_id \<Rightarrow> sequencer_key list \<Rightarrow> bool" where
  "finalize_unstake_is_valid K stake_id s ownership_id live =
    (case stake_record_of K s ownership_id of
       None \<Rightarrow> True
     | Some rec \<Rightarrow> (case stake_pending rec of
         None \<Rightarrow> True
       | Some pending \<Rightarrow> (case Option.bind (read_stake_config K stake_id s)
             (\<lambda>config. fmlookup (stake_entries config) (stake_key rec)) of
           None \<Rightarrow> True
         | Some entry \<Rightarrow> entry_total_staked entry \<noteq> unstake_amount pending \<or> stake_key rec \<notin> set live)))"

end
