(* ===== verification/Sequencer.thy ===== *)
theory Sequencer
  imports PeerChain Staking
begin

text \<open>
  The sequencer's mempool (\<open>lez/mempool/src/lib.rs\<close>) and block production
  (\<open>lez/sequencer/core/src/lib.rs\<close>): what is drained from the store, what the mempool adds, and the
  block that comes out. \<open>sequencer_env\<close> extends the host environment with the ids and codecs
  production uses and with the two limits of the configuration.

  \<open>None\<close> is a panic. The recipient of a withdrawal is left as the 32 bytes the SDK reads its key
  from. Log output, metrics and failures of the storage engine are left out.
\<close>

record sequencer_env = host_env +
  sq_stake :: stake_codecs
  sq_stake_id :: program_id
  sq_vault_id :: program_id
  sq_bridge_words :: "bridge_instruction \<Rightarrow> u32 list"
  sq_bridge_of_words :: "u32 list \<Rightarrow> bridge_instruction option"
  sq_deposit_metadata :: "bytes \<Rightarrow> account_id option"
  sq_tx_hash :: "lee_transaction \<Rightarrow> array32"
  sq_sign :: "array32 \<Rightarrow> signature"
  sq_max_block_size :: nat
  sq_max_num_tx :: nat

abbreviation sq_sha256 :: "sequencer_env \<Rightarrow> hasher" where
  "sq_sha256 S \<equiv> xc_sha256 (host_cross S)"

subsection \<open>Mempool\<close>

record 'a mempool =
  mp_queue :: "'a list"
  mp_front_buffer :: "'a list"
  mp_max_size :: nat

definition mempool_new :: "nat \<Rightarrow> 'a mempool" where
  "mempool_new max_size = \<lparr>mp_queue = [], mp_front_buffer = [], mp_max_size = max_size\<rparr>"

definition mempool_len :: "'a mempool \<Rightarrow> nat" where
  "mempool_len mp = length (mp_front_buffer mp) + length (mp_queue mp)"

text \<open>The front buffer is a stack whose top is its last element.\<close>

definition mempool_pop :: "'a mempool \<Rightarrow> ('a \<times> 'a mempool) option" where
  "mempool_pop mp =
    (if mp_front_buffer mp \<noteq> [] then Some (last (mp_front_buffer mp), mp\<lparr>mp_front_buffer := butlast (mp_front_buffer mp)\<rparr>)
     else case mp_queue mp of [] \<Rightarrow> None | x # xs \<Rightarrow> Some (x, mp\<lparr>mp_queue := xs\<rparr>))"

definition mempool_push_front :: "'a mempool \<Rightarrow> 'a \<Rightarrow> 'a mempool" where
  "mempool_push_front mp x = mp\<lparr>mp_front_buffer := mp_front_buffer mp @ [x]\<rparr>"

definition mempool_try_push :: "'a mempool \<Rightarrow> 'a \<Rightarrow> 'a mempool option" where
  "mempool_try_push mp x =
    (if length (mp_queue mp) < mp_max_size mp then Some (mp\<lparr>mp_queue := mp_queue mp @ [x]\<rparr>) else None)"

subsection \<open>Reading transactions\<close>

datatype transaction_origin = UserOrigin | SequencerOrigin | GossipOrigin

type_synonym tx_pool = "(transaction_origin \<times> lee_transaction) mempool"

definition is_sequencer_only_tx :: "sequencer_env \<Rightarrow> lee_transaction \<Rightarrow> bool" where
  "is_sequencer_only_tx S tx =
    (case tx of PublicTx p \<Rightarrow> is_sequencer_only_program S (msg_program_id (pub_message p)) | _ \<Rightarrow> False)"

definition extract_cross_zone_dispatch :: "sequencer_env \<Rightarrow> lee_transaction \<Rightarrow> cross_zone_message option" where
  "extract_cross_zone_dispatch S tx =
    (case tx of
       PublicTx p \<Rightarrow>
         if msg_program_id (pub_message p) \<noteq> host_inbox_id S then None
         else (case xc_inbox_of_words (host_cross S) (msg_instruction_data (pub_message p)) of
             Some (Dispatch msg) \<Rightarrow> Some msg
           | _ \<Rightarrow> None)
     | _ \<Rightarrow> None)"

definition extract_cross_zone_dispatch_key :: "sequencer_env \<Rightarrow> lee_transaction \<Rightarrow> array32 option" where
  "extract_cross_zone_dispatch_key S tx = map_option (\<lambda>msg.
    message_key (sq_sha256 S) (src_zone msg) (src_block_id msg) (src_tx_index msg)) (extract_cross_zone_dispatch S tx)"

definition bridge_instruction_of :: "sequencer_env \<Rightarrow> lee_transaction \<Rightarrow> bridge_instruction option" where
  "bridge_instruction_of S tx =
    (case tx of
       PublicTx p \<Rightarrow>
         if msg_program_id (pub_message p) \<noteq> zone_bridge_id (host_zone S) then None
         else sq_bridge_of_words S (msg_instruction_data (pub_message p))
     | _ \<Rightarrow> None)"

definition extract_bridge_deposit_id :: "sequencer_env \<Rightarrow> lee_transaction \<Rightarrow> array32 option" where
  "extract_bridge_deposit_id S tx =
    (case bridge_instruction_of S tx of Some (BridgeDeposit op_id _ _ _) \<Rightarrow> Some op_id | _ \<Rightarrow> None)"

definition extract_bridge_withdraw_data :: "sequencer_env \<Rightarrow> lee_transaction \<Rightarrow> (u64 \<times> array32) option" where
  "extract_bridge_withdraw_data S tx =
    (case bridge_instruction_of S tx of Some (BridgeWithdraw amount pk) \<Rightarrow> Some (amount, pk) | _ \<Rightarrow> None)"

definition finalize_unstake_ownership_account :: "sequencer_env \<Rightarrow> lee_transaction \<Rightarrow> account_id option" where
  "finalize_unstake_ownership_account S tx =
    (case tx of
       PublicTx p \<Rightarrow>
         if msg_program_id (pub_message p) \<noteq> sq_stake_id S then None
         else (case sk_of_words (sq_stake S) (msg_instruction_data (pub_message p)) of
             Some FinalizeUnstake \<Rightarrow> list_get (msg_account_ids (pub_message p)) 0
           | _ \<Rightarrow> None)
     | _ \<Rightarrow> None)"

definition finalize_unstake_is_includable ::
  "sequencer_env \<Rightarrow> v03_state \<Rightarrow> lee_transaction \<Rightarrow> sequencer_key list option \<Rightarrow> bool" where
  "finalize_unstake_is_includable S s tx live =
    (case finalize_unstake_ownership_account S tx of
       None \<Rightarrow> True
     | Some i \<Rightarrow> (case live of None \<Rightarrow> False
         | Some keys \<Rightarrow> finalize_unstake_is_valid (sq_stake S) (sq_stake_id S) s i keys))"

definition resubmittable_txs :: "sequencer_env \<Rightarrow> block \<Rightarrow> lee_transaction list" where
  "resubmittable_txs S b = filter (\<lambda>tx. extract_bridge_deposit_id S tx = None \<and> \<not> is_sequencer_only_tx S tx)
    (butlast (body_transactions (block_body b)))"

subsection \<open>What the chain already holds\<close>

definition deposit_already_minted :: "sequencer_env \<Rightarrow> v03_state \<Rightarrow> array32 \<Rightarrow> bool" where
  "deposit_already_minted S s op_id =
    (case public_state s (deposit_receipt_account_id (sq_sha256 S) (zone_bridge_id (host_zone S)) op_id) of
       None \<Rightarrow> False
     | Some receipt \<Rightarrow> receipt \<noteq> default_account)"

definition dispatch_already_delivered :: "sequencer_env \<Rightarrow> v03_state \<Rightarrow> cross_zone_message \<Rightarrow> bool" where
  "dispatch_already_delivered S s msg =
    (case public_state s (inbox_seen_shard_account_id (sq_sha256 S) (host_inbox_id S) (src_zone msg) (src_block_id msg)) of
       None \<Rightarrow> False
     | Some shard \<Rightarrow> (case shard_of_data (host_cross S) (data shard) of
         None \<Rightarrow> False
       | Some seen \<Rightarrow> shard_binds seen (src_block_hash msg) \<and> shard_contains seen (src_tx_index msg)))"

subsection \<open>Transactions of the sequencer\<close>

definition build_bridge_deposit_tx_from_event :: "sequencer_env \<Rightarrow> pending_deposit_event \<Rightarrow> lee_transaction option" where
  "build_bridge_deposit_tx_from_event S event = do {
    recipient \<leftarrow> sq_deposit_metadata S (deposit_metadata event);
    let bridge = zone_bridge_id (host_zone S);
    Some (PublicTx (genesis_public_tx bridge
      [bridge_account_id (host_zone S), compute_vault_account_id (sq_sha256 S) (sq_vault_id S) recipient,
       deposit_receipt_account_id (sq_sha256 S) bridge (deposit_op_id event)]
      (sq_bridge_words S (BridgeDeposit (deposit_op_id event) (sq_vault_id S) recipient (deposit_amount event)))))
  }"

definition build_finalize_unstake_tx :: "sequencer_env \<Rightarrow> account_id \<Rightarrow> pending_unstake \<Rightarrow> lee_transaction" where
  "build_finalize_unstake_tx S ownership_id pending =
    PublicTx (genesis_public_tx (sq_stake_id S)
      [ownership_id, unstake_destination pending, sequencer_stake_config_account_id (sq_sha256 S) (sq_stake_id S)]
      (sk_words (sq_stake S) FinalizeUnstake))"

definition build_finalize_unstake_txs :: "sequencer_env \<Rightarrow> v03_state \<Rightarrow> lee_transaction list" where
  "build_finalize_unstake_txs S s =
    map (\<lambda>(i, pending). build_finalize_unstake_tx S i pending)
      (finalize_unstake_candidates (sq_stake S) (sq_stake_id S) s)"

subsection \<open>Building a block\<close>

definition RETIRE_DISPATCH_AFTER_FAILURES :: u32 where
  "RETIRE_DISPATCH_AFTER_FAILURES = 3"

definition MAX_DISPATCHES_PER_BLOCK :: nat where
  "MAX_DISPATCHES_PER_BLOCK = 16"

definition count_dispatch_failure :: "sequencer_env \<Rightarrow> db \<Rightarrow> lee_transaction \<Rightarrow> db" where
  "count_dispatch_failure S d tx =
    (case extract_cross_zone_dispatch S tx of
       None \<Rightarrow> d
     | Some msg \<Rightarrow> snd (record_dispatch_failure d
         (message_key (sq_sha256 S) (src_zone msg) (src_block_id msg) (src_tx_index msg))
         RETIRE_DISPATCH_AFTER_FAILURES
         \<lparr>origin_zone = src_zone msg, origin_block_id = src_block_id msg, origin_tx_index = src_tx_index msg\<rparr>))"

text \<open>Whether the transaction was applied, the state and the withdrawals after it.\<close>

definition apply_mempool_transaction ::
  "sequencer_env \<Rightarrow> v03_state \<Rightarrow> transaction_origin \<Rightarrow> lee_transaction \<Rightarrow> block_id \<Rightarrow> timestamp
    \<Rightarrow> (u64 \<times> array32) list \<Rightarrow> (bool \<times> v03_state \<times> (u64 \<times> array32) list) option" where
  "apply_mempool_transaction S s origin tx height ts withdrawals =
    (if origin = SequencerOrigin
     then (case tx of
         PublicTx p \<Rightarrow> (case transition_from_public_transaction (zone_externals (host_zone S)) s p height ts of
             Inl (Rejected _) \<Rightarrow> Some (False, s, withdrawals)
           | Inl Panicked \<Rightarrow> None
           | Inr s' \<Rightarrow> Some (True, s', withdrawals))
       | _ \<Rightarrow> None)
     else (case execute_check_on_state (host_zone S) s tx height ts of
         Inl (Rejected _) \<Rightarrow> Some (False, s, withdrawals)
       | Inl Panicked \<Rightarrow> None
       | Inr s' \<Rightarrow> Some (True, s', withdrawals @
           (case extract_bridge_withdraw_data S tx of Some w \<Rightarrow> [w] | None \<Rightarrow> []))))"

record block_context =
  ctx_height :: block_id
  ctx_prev_hash :: block_hash
  ctx_timestamp :: timestamp
  ctx_live_keys :: "sequencer_key list option"

record build_run =
  br_state :: v03_state
  br_valid :: "lee_transaction list"
  br_withdrawals :: "(u64 \<times> array32) list"
  br_db :: db

definition clock_lee_tx :: "sequencer_env \<Rightarrow> block_context \<Rightarrow> lee_transaction" where
  "clock_lee_tx S C = PublicTx (clock_invocation (host_zone S) (ctx_timestamp C))"

definition hashable_with :: "block_context \<Rightarrow> lee_transaction list \<Rightarrow> hashable_block_data" where
  "hashable_with C txs = \<lparr>hashable_block_id = ctx_height C, hashable_prev_hash = ctx_prev_hash C,
    hashable_timestamp = ctx_timestamp C, hashable_transactions = txs\<rparr>"

definition block_size :: "sequencer_env \<Rightarrow> block_context \<Rightarrow> lee_transaction list \<Rightarrow> nat" where
  "block_size S C txs = length (zone_block_bytes (host_zone S) (hashable_with C txs))"

definition fits_in_an_empty_block :: "sequencer_env \<Rightarrow> block_context \<Rightarrow> lee_transaction \<Rightarrow> bool" where
  "fits_in_an_empty_block S C tx \<longleftrightarrow> block_size S C [tx, clock_lee_tx S C] \<le> sq_max_block_size S"

datatype build_flow = Continue | Defer | Full

definition build_step ::
  "sequencer_env \<Rightarrow> block_context \<Rightarrow> build_run \<Rightarrow> transaction_origin \<times> lee_transaction \<times> bool
    \<Rightarrow> (build_flow \<times> build_run) option" where
  "build_step S C r = (\<lambda>(origin, tx, from_store).
    if sq_max_block_size S < block_size S C (br_valid r @ [tx, clock_lee_tx S C])
    then if from_store \<and> \<not> fits_in_an_empty_block S C tx
      then Some (Continue, r\<lparr>br_db := count_dispatch_failure S (br_db r) tx\<rparr>)
      else Some (Defer, r)
    else if \<not> finalize_unstake_is_includable S (br_state r) tx (ctx_live_keys C) then Some (Continue, r)
    else do {
      (applied, s, withdrawals) \<leftarrow> apply_mempool_transaction S (br_state r) origin tx (ctx_height C)
        (ctx_timestamp C) (br_withdrawals r);
      let r' = (if applied then r\<lparr>br_state := s, br_withdrawals := withdrawals, br_valid := br_valid r @ [tx]\<rparr>
        else r\<lparr>br_db := count_dispatch_failure S (br_db r) tx\<rparr>);
      Some (if sq_max_num_tx S \<le> length (br_valid r') then Full else Continue, r')
    })"

definition next_item ::
  "lee_transaction list \<Rightarrow> tx_pool \<Rightarrow> ((transaction_origin \<times> lee_transaction \<times> bool) \<times> lee_transaction list \<times> tx_pool) option" where
  "next_item from_store mp =
    (case from_store of
       tx # rest \<Rightarrow> Some ((SequencerOrigin, tx, True), rest, mp)
     | [] \<Rightarrow> map_option (\<lambda>((origin, tx), mp'). ((origin, tx, False), [], mp')) (mempool_pop mp))"

lemma mempool_pop_len: "mempool_pop mp = Some (x, mp') \<Longrightarrow> mempool_len mp = Suc (mempool_len mp')"
  by (auto simp: mempool_pop_def mempool_len_def split: if_splits list.splits)

lemma next_item_len:
  "next_item q mp = Some (item, q', mp') \<Longrightarrow> length q' + mempool_len mp' < length q + mempool_len mp"
  by (auto simp: next_item_def split: list.splits dest!: mempool_pop_len)

function build_loop ::
  "sequencer_env \<Rightarrow> block_context \<Rightarrow> build_run \<Rightarrow> lee_transaction list \<Rightarrow> tx_pool \<Rightarrow> (build_run \<times> tx_pool) option" where
  "build_loop S C r from_store mp =
    (case next_item from_store mp of
       None \<Rightarrow> Some (r, mp)
     | Some ((origin, tx, stored), rest, mp') \<Rightarrow> (case build_step S C r (origin, tx, stored) of
         None \<Rightarrow> None
       | Some (Continue, r') \<Rightarrow> build_loop S C r' rest mp'
       | Some (Full, r') \<Rightarrow> Some (r', mp')
       | Some (Defer, r') \<Rightarrow> Some (r', if stored then mp' else mempool_push_front mp' (origin, tx))))"
  by pat_completeness auto
termination build_loop
  by (relation "measure (\<lambda>(_, _, _, q, mp). length q + mempool_len mp)") (auto dest: next_item_len)

declare build_loop.simps [simp del]

text \<open>
  The recorded deliveries. Those that do not decode are settled; of the others, one that is in
  the final state is settled too, one that is in the head state is skipped, and the first
  sixteen that remain go into this block.
\<close>

definition decode_recorded ::
  "sequencer_env \<Rightarrow> pending_dispatch list \<Rightarrow> array32 list \<times> (array32 \<times> cross_zone_message option \<times> lee_transaction) list" where
  "decode_recorded S records =
    (map dispatch_key (filter (\<lambda>r. host_tx_of_bytes S (dispatch_transaction r) = None) records),
     List.map_filter (\<lambda>r. map_option (\<lambda>tx. (dispatch_key r, extract_cross_zone_dispatch S tx, tx))
       (host_tx_of_bytes S (dispatch_transaction r))) records)"

definition classify_dispatch ::
  "sequencer_env \<Rightarrow> chain_state \<Rightarrow> array32 list \<times> lee_transaction list
    \<Rightarrow> array32 \<times> cross_zone_message option \<times> lee_transaction \<Rightarrow> array32 list \<times> lee_transaction list" where
  "classify_dispatch S cs = (\<lambda>(settled, pending) (key, message, tx).
    if (case message of None \<Rightarrow> False | Some msg \<Rightarrow> dispatch_already_delivered S (final_state cs) msg)
    then (settled @ [key], pending)
    else if (case message of None \<Rightarrow> False | Some msg \<Rightarrow> dispatch_already_delivered S (head_state cs) msg)
    then (settled, pending)
    else if MAX_DISPATCHES_PER_BLOCK \<le> length pending then (settled, pending)
    else (settled, pending @ [tx]))"

definition pending_deposit_txs :: "sequencer_env \<Rightarrow> db \<Rightarrow> v03_state \<Rightarrow> lee_transaction list" where
  "pending_deposit_txs S d s = List.map_filter (build_bridge_deposit_tx_from_event S)
    (filter (\<lambda>r. \<not> deposit_already_minted S s (deposit_op_id r)) (db_deposits d))"

record block_with_meta =
  built_block :: block
  built_withdrawals :: "(u64 \<times> array32) list"
  built_committee_update :: "sequencer_key list option"

definition next_block_height :: "chain_state \<Rightarrow> block_id option" where
  "next_block_height cs = (case head_tip cs of None \<Rightarrow> Some GENESIS_BLOCK_ID | Some t \<Rightarrow> checked_add (tip_block_id t) 1)"

text \<open>
  A failing clock transaction is an error that leaves the mempool drained; the store and the
  mempool are returned on both paths.
\<close>

definition build_block_from_mempool ::
  "sequencer_env \<Rightarrow> chain_state \<Rightarrow> db \<Rightarrow> tx_pool \<Rightarrow> timestamp \<Rightarrow> sequencer_key list option
    \<Rightarrow> ((lee_error + block_with_meta) \<times> db \<times> tx_pool) option" where
  "build_block_from_mempool S cs d mp ts live = do {
    height \<leftarrow> next_block_height cs;
    let (undecodable, decoded) = decode_recorded S (get_pending_cross_zone_dispatches d);
    let (settled, dispatches) = foldl (classify_dispatch S cs) (undecodable, []) decoded;
    let d1 = (if settled = [] then d else snd (drop_settled_cross_zone_dispatches d settled));
    let C = \<lparr>ctx_height = height, ctx_prev_hash = (case head_tip cs of None \<Rightarrow> 0 | Some t \<Rightarrow> tip_hash t),
      ctx_timestamp = ts, ctx_live_keys = live\<rparr>;
    let from_store = pending_deposit_txs S d1 (head_state cs) @ dispatches @ build_finalize_unstake_txs S (head_state cs);
    (r, mp') \<leftarrow> build_loop S C \<lparr>br_state = head_state cs, br_valid = [], br_withdrawals = [], br_db = d1\<rparr> from_store mp;
    case transition_from_public_transaction (zone_externals (host_zone S)) (br_state r)
        (clock_invocation (host_zone S) ts) height ts of
      Inl Panicked \<Rightarrow> None
    | Inl (Rejected e) \<Rightarrow> Some (Inl e, br_db r, mp')
    | Inr s \<Rightarrow> Some (Inr \<lparr>built_block = into_pending_block (host_zone S) (sq_sign S)
          (hashable_with C (br_valid r @ [clock_lee_tx S C])),
        built_withdrawals = br_withdrawals r,
        built_committee_update = Option.bind live (committee_update (sq_stake S) (sq_stake_id S) s)\<rparr>, br_db r, mp')
  }"

definition rewound_below_published :: "chain_state \<Rightarrow> db \<Rightarrow> u64 option option" where
  "rewound_below_published cs d =
    (case db_high_water d of
       None \<Rightarrow> Some None
     | Some mark \<Rightarrow> map_option (\<lambda>height. if height \<le> mark then Some mark else None) (next_block_height cs))"

end
