(* ===== verification/Consistency.thy ===== *)
theory Consistency
  imports PeerChain
begin

text \<open>
  The startup check that the stored chain is the one the channel serves
  (\<open>lez/chain_state/src/consistency.rs\<close>). A stream of channel messages is the list of what it
  yields; a read that fails or times out is \<open>None\<close>.
\<close>

datatype chain_mismatch =
    BlockMismatch "block_id \<times> block_hash" "block_id \<times> block_hash"
  | ReinscribedBlock "block_id \<times> block_hash" slot slot
  | AnchorSlotChanged slot
  | ChannelMissing
  | ChannelBehindAnchor slot slot

datatype chain_consistency = Consistent | Inconclusive | Inconsistent chain_mismatch

record anchor =
  pinned_slot :: slot
  pinned_block :: "(block_id \<times> block_hash) option"

datatype anchor_probe = SameChain | Mismatch chain_mismatch | Bail | KeepLooking

definition probe_anchor_slot :: "'h host_env_scheme \<Rightarrow> anchor \<Rightarrow> zone_message \<Rightarrow> slot \<Rightarrow> anchor_probe" where
  "probe_anchor_slot H a msg slot =
    (if slot < pinned_slot a then KeepLooking
     else case pinned_block a of
       None \<Rightarrow> if slot = pinned_slot a then SameChain else Mismatch (AnchorSlotChanged (pinned_slot a))
     | Some (our_id, our_hash) \<Rightarrow> (case msg of
         ZoneBlock bytes \<Rightarrow> (case host_block_of_bytes H bytes of
             None \<Rightarrow> KeepLooking
           | Some b \<Rightarrow>
             let i = header_block_id (block_header b); h = header_hash (block_header b) in
             if i = our_id
             then if h = our_hash then SameChain else Mismatch (BlockMismatch (our_id, our_hash) (i, h))
             else if our_id < i then Bail
             else if slot = pinned_slot a then KeepLooking
             else Mismatch (ReinscribedBlock (i, h) slot (pinned_slot a)))
       | _ \<Rightarrow> KeepLooking))"

definition frontier_verdict :: "slot \<Rightarrow> slot option \<Rightarrow> chain_mismatch option" where
  "frontier_verdict slot channel_tip_slot =
    (case channel_tip_slot of
       None \<Rightarrow> Some ChannelMissing
     | Some tip_slot \<Rightarrow> if tip_slot < slot then Some (ChannelBehindAnchor tip_slot slot) else None)"

record anchor_check =
  check_anchor :: anchor
  check_verdict :: "chain_consistency option"

definition anchor_check_new :: "anchor \<Rightarrow> anchor_check" where
  "anchor_check_new a = \<lparr>check_anchor = a, check_verdict = None\<rparr>"

definition check_frontier :: "anchor_check \<Rightarrow> slot option \<Rightarrow> anchor_check" where
  "check_frontier c channel_tip_slot =
    (if check_verdict c = None
     then c\<lparr>check_verdict := map_option Inconsistent (frontier_verdict (pinned_slot (check_anchor c)) channel_tip_slot)\<rparr>
     else c)"

definition observe :: "'h host_env_scheme \<Rightarrow> anchor_check \<Rightarrow> zone_message \<Rightarrow> slot \<Rightarrow> anchor_check" where
  "observe H c msg slot =
    (if check_verdict c = None
     then c\<lparr>check_verdict := (case probe_anchor_slot H (check_anchor c) msg slot of
         SameChain \<Rightarrow> Some Consistent
       | Mismatch m \<Rightarrow> Some (Inconsistent m)
       | Bail \<Rightarrow> Some Inconclusive
       | KeepLooking \<Rightarrow> None)\<rparr>
     else c)"

definition finish :: "anchor_check \<Rightarrow> chain_consistency" where
  "finish c = (case check_verdict c of None \<Rightarrow> Inconclusive | Some v \<Rightarrow> v)"

fun scan_channel :: "'h host_env_scheme \<Rightarrow> anchor_check \<Rightarrow> (zone_message \<times> slot) list \<Rightarrow> anchor_check" where
  "scan_channel H c [] = c"
| "scan_channel H c ((msg, slot) # rest) =
    (let c' = observe H c msg slot in if check_verdict c' \<noteq> None then c' else scan_channel H c' rest)"

text \<open>\<open>tip\<close> and \<open>messages\<close> are the two reads of the channel; the second starts one slot below the anchor.\<close>

definition verify_chain_consistency ::
  "'h host_env_scheme \<Rightarrow> slot option option \<Rightarrow> (slot \<Rightarrow> (zone_message \<times> slot) list option) \<Rightarrow> anchor
    \<Rightarrow> chain_consistency" where
  "verify_chain_consistency H tip messages a =
    (let c = (case tip of None \<Rightarrow> anchor_check_new a | Some t \<Rightarrow> check_frontier (anchor_check_new a) t) in
     if check_verdict c \<noteq> None then finish c
     else case checked_sub (pinned_slot a) 1 of
       None \<Rightarrow> Inconclusive
     | Some from_slot \<Rightarrow> (case messages from_slot of
         None \<Rightarrow> Inconclusive
       | Some msgs \<Rightarrow> finish (scan_channel H c msgs)))"

end
