(* ===== verification/Following.thy ===== *)
theory Following
  imports Sequencer Consistency
begin

text \<open>
  How the sequencer's chain state and store move together
  (\<open>lez/sequencer/core/src/{lib,block_store}.rs\<close>): recording a produced block, following the
  channel, reconstructing finalized history at startup and restoring the chain on a restart.

  The chain lock makes each operation one step on the chain state and the store. What the zone
  SDK reports is an argument, a checkpoint in its encoded form. \<open>None\<close> is a panic.
\<close>

subsection \<open>The store of the sequencer\<close>

record sequencer_store =
  ss_db :: db
  ss_tx_map :: "array32 \<rightharpoonup> block_id"

definition block_to_transactions_map :: "sequencer_env \<Rightarrow> block \<Rightarrow> array32 \<rightharpoonup> block_id" where
  "block_to_transactions_map S b =
    map_of (map (\<lambda>tx. (sq_tx_hash S tx, header_block_id (block_header b))) (body_transactions (block_body b)))"

definition create_db_with_genesis :: "sequencer_env \<Rightarrow> block \<Rightarrow> v03_state \<Rightarrow> sequencer_store" where
  "create_db_with_genesis S genesis_block genesis_state =
    \<lparr>ss_db = create genesis_block genesis_state, ss_tx_map = block_to_transactions_map S genesis_block\<rparr>"

definition ids_from_to :: "block_id \<Rightarrow> block_id \<Rightarrow> block_id list" where
  "ids_from_to lower upper = map of_nat [unat lower..<Suc (unat upper)]"

definition index_block :: "sequencer_env \<Rightarrow> db \<Rightarrow> (array32 \<rightharpoonup> block_id) option \<Rightarrow> block_id \<Rightarrow> (array32 \<rightharpoonup> block_id) option" where
  "index_block S d acc i = do {
    m \<leftarrow> acc;
    b \<leftarrow> get_block d i;
    Some (m ++ block_to_transactions_map S b)
  }"

definition from_dbio_and_signing_key :: "sequencer_env \<Rightarrow> db \<Rightarrow> (db_error + sequencer_store) option" where
  "from_dbio_and_signing_key S d =
    (case db_first_block d of
       None \<Rightarrow> Some (Inl (CellNotFound ''first_block_in_db''))
     | Some genesis_id \<Rightarrow> do {
         m \<leftarrow> (case db_latest_meta d of
             None \<Rightarrow> Some Map.empty
           | Some meta \<Rightarrow> foldl (index_block S d) (Some Map.empty) (ids_from_to genesis_id (meta_id meta)));
         Some (Inr \<lparr>ss_db = d, ss_tx_map = m\<rparr>)
       })"

definition get_transaction_by_hash ::
  "sequencer_env \<Rightarrow> sequencer_store \<Rightarrow> array32 \<Rightarrow> (lee_transaction \<times> block_id) option option" where
  "get_transaction_by_hash S st h =
    (case ss_tx_map st h of
       None \<Rightarrow> Some None
     | Some i \<Rightarrow> do {
         b \<leftarrow> get_block (ss_db st) i;
         tx \<leftarrow> List.find (\<lambda>tx. sq_tx_hash S tx = h) (body_transactions (block_body b));
         Some (Some (tx, i))
       })"

definition sequencer_store_update ::
  "sequencer_env \<Rightarrow> sequencer_store \<Rightarrow> block \<Rightarrow> array32 list \<Rightarrow> v03_state \<Rightarrow> bytes option \<Rightarrow> db_error + sequencer_store" where
  "sequencer_store_update S st b withdrawals s checkpoint =
    and_then (atomic_update (ss_db st) b withdrawals s checkpoint) (\<lambda>d.
    Inr \<lparr>ss_db = d, ss_tx_map = ss_tx_map st ++ block_to_transactions_map S b\<rparr>)"

subsection \<open>Production\<close>

record sequencer_node =
  node_chain :: chain_state
  node_store :: sequencer_store
  node_pool :: tx_pool
  node_last_submission :: "slot option"

definition COMMITTEE_SUBMISSION_COOLDOWN :: u64 where
  "COMMITTEE_SUBMISSION_COOLDOWN = 10"

definition committee_cooldown_elapsed :: "slot option \<Rightarrow> slot option \<Rightarrow> bool" where
  "committee_cooldown_elapsed last_submission tip =
    (case last_submission of
       None \<Rightarrow> True
     | Some l \<Rightarrow> (case tip of None \<Rightarrow> False | Some t \<Rightarrow> COMMITTEE_SUBMISSION_COOLDOWN \<le> saturating_sub t l))"

text \<open>The keys that are submitted, and the slot of the last submission; \<open>tip = None\<close> is a failed read.\<close>

definition submit_committee_update ::
  "slot option \<Rightarrow> sequencer_key list option \<Rightarrow> slot option option \<Rightarrow> sequencer_key list option \<times> slot option" where
  "submit_committee_update last_submission committee tip =
    (case (committee, tip) of
       (Some keys, Some tip_slot) \<Rightarrow>
         if committee_cooldown_elapsed last_submission tip_slot then (Some keys, tip_slot)
         else (None, last_submission)
     | _ \<Rightarrow> (None, last_submission))"

datatype turn_error =
    BuildFailed lee_error
  | PublishFailed
  | StoreFailed db_error

record publish_outcome =
  this_msg :: msg_id
  published_checkpoint :: bytes
  released_notes :: "array32 list"

definition record_produced_block ::
  "sequencer_env \<Rightarrow> sequencer_node \<Rightarrow> msg_id \<Rightarrow> block \<Rightarrow> array32 list \<Rightarrow> bytes
    \<Rightarrow> ((turn_error + unit) \<times> sequencer_node) option" where
  "record_produced_block S nd msg b withdrawals checkpoint = do {
    (outcome, cs) \<leftarrow> apply_produced (host_zone S) (node_chain nd) msg b;
    let nd' = nd\<lparr>node_chain := cs\<rparr>;
    Some (case outcome of
        Applied \<Rightarrow> (case sequencer_store_update S (node_store nd) b withdrawals (head_state cs) (Some checkpoint) of
            Inl e \<Rightarrow> (Inl (StoreFailed e), nd')
          | Inr st \<Rightarrow> (Inr (), nd'\<lparr>node_store := st\<rparr>))
      | _ \<Rightarrow> (Inr (), nd'))
  }"

text \<open>
  A production turn. \<open>publish\<close> is the publisher, \<open>None\<close> when it fails; \<open>tip\<close> is the tip slot it
  reports. The node is returned on every path: a failed turn keeps what it has already done.
\<close>

definition run_production_turn ::
  "sequencer_env \<Rightarrow> sequencer_node \<Rightarrow> timestamp \<Rightarrow> sequencer_key list option
    \<Rightarrow> (block \<Rightarrow> (u64 \<times> array32) list \<Rightarrow> publish_outcome option) \<Rightarrow> slot option option
    \<Rightarrow> ((turn_error + block_id) \<times> sequencer_node) option" where
  "run_production_turn S nd ts live publish tip = do {
    (built, d, pool) \<leftarrow> build_block_from_mempool S (node_chain nd) (ss_db (node_store nd)) (node_pool nd) ts live;
    let nd1 = nd\<lparr>node_store := (node_store nd)\<lparr>ss_db := d\<rparr>, node_pool := pool\<rparr>;
    case built of
      Inl e \<Rightarrow> Some (Inl (BuildFailed e), nd1)
    | Inr meta \<Rightarrow> (case publish (built_block meta) (built_withdrawals meta) of
        None \<Rightarrow> Some (Inl PublishFailed, nd1)
      | Some out \<Rightarrow> do {
          let b = built_block meta;
          let nd2 = nd1\<lparr>node_store := (node_store nd1)\<lparr>ss_db :=
            raise_published_high_water (ss_db (node_store nd1)) (header_block_id (block_header b))\<rparr>\<rparr>;
          let nd3 = nd2\<lparr>node_last_submission :=
            snd (submit_committee_update (node_last_submission nd2) (built_committee_update meta) tip)\<rparr>;
          (result, nd4) \<leftarrow> record_produced_block S nd3 (this_msg out) b (released_notes out) (published_checkpoint out);
          Some (and_then result (\<lambda>_. Inr (header_block_id (block_header b))), nd4)
        })
  }"

subsection \<open>Following the channel\<close>

text \<open>
  The keys of the deliveries a block carries, and those whose transaction is not the recorded
  one. The second list is only logged.
\<close>

definition classify_settled_deliveries ::
  "sequencer_env \<Rightarrow> pending_dispatch list \<Rightarrow> block \<Rightarrow> array32 list \<times> array32 list" where
  "classify_settled_deliveries S records b =
    (let carried = List.map_filter (\<lambda>tx. map_option (\<lambda>key. (key, tx)) (extract_cross_zone_dispatch_key S tx))
       (body_transactions (block_body b)) in
     (map fst carried, map fst (filter (\<lambda>(key, tx).
       case List.find (\<lambda>r. dispatch_key r = key) records of
         None \<Rightarrow> False
       | Some r \<Rightarrow> host_tx_bytes S tx \<noteq> dispatch_transaction r) carried)))"

definition settled_dispatch_keys :: "sequencer_env \<Rightarrow> db \<Rightarrow> block \<Rightarrow> array32 list" where
  "settled_dispatch_keys S d b = fst (classify_settled_deliveries S (get_pending_cross_zone_dispatches d) b)"

definition minted_deposit_ids :: "sequencer_env \<Rightarrow> block \<Rightarrow> array32 list" where
  "minted_deposit_ids S b = List.map_filter (extract_bridge_deposit_id S) (body_transactions (block_body b))"

record follow_update =
  follow_checkpoint :: bytes
  follow_adopted :: "(msg_id \<times> block) list"
  follow_orphaned :: "(msg_id \<times> block) list"
  follow_finalized :: "(msg_id \<times> block) list"
  follow_deposits :: "pending_deposit_event list"
  follow_withdrawals :: "array32 list"

text \<open>The chain after the finalized blocks, those that moved the final tier, and those it holds.\<close>

fun apply_all_finalized ::
  "zone_env \<Rightarrow> chain_state \<Rightarrow> (msg_id \<times> block) list \<Rightarrow> (chain_state \<times> block list \<times> block list) option" where
  "apply_all_finalized Z cs [] = Some (cs, [], [])"
| "apply_all_finalized Z cs ((msg, b) # rest) = do {
    (outcome, cs') \<leftarrow> apply_finalized Z cs msg b 0;
    (cs'', advanced, irreversible) \<leftarrow> apply_all_finalized Z cs' rest;
    Some (cs'', if outcome = Applied then b # advanced else advanced,
      if outcome = Applied \<or> outcome = AlreadyApplied then b # irreversible else irreversible)
  }"

definition applied_blocks :: "(msg_id \<times> block) list \<Rightarrow> accept_outcome list \<Rightarrow> block list" where
  "applied_blocks adopted outcomes =
    map (\<lambda>((_, b), _). b) (filter (\<lambda>(_, outcome). outcome = Applied) (zip adopted outcomes))"

definition max_block_id :: "block list \<Rightarrow> block_id option" where
  "max_block_id bs = (if bs = [] then None else Some (Max (set (map (header_block_id \<circ> block_header) bs))))"

definition resubmit_txs :: "sequencer_env \<Rightarrow> chain_state \<Rightarrow> (msg_id \<times> block) list \<Rightarrow> lee_transaction list" where
  "resubmit_txs S cs orphaned = concat (map (resubmittable_txs S \<circ> snd) (filter (\<lambda>(_, b).
    case final_tip cs of None \<Rightarrow> True | Some t \<Rightarrow> tip_block_id t < header_block_id (block_header b)) orphaned))"

definition resubmit :: "lee_transaction \<Rightarrow> tx_pool \<Rightarrow> tx_pool" where
  "resubmit tx mp = (case mempool_try_push mp (UserOrigin, tx) of None \<Rightarrow> mp | Some mp' \<Rightarrow> mp')"

definition follow_store_update ::
  "sequencer_env \<Rightarrow> db \<Rightarrow> follow_update \<Rightarrow> chain_state \<Rightarrow> block list \<Rightarrow> block list \<Rightarrow> block list
    \<Rightarrow> block_meta option \<Rightarrow> store_update_args" where
  "follow_store_update S d u cs applied advanced irreversible final_meta =
    (store_update_new (head_state cs))\<lparr>up_checkpoint := Some (follow_checkpoint u),
      up_blocks := map (\<lambda>b. (b, False)) applied @ map (\<lambda>b. (b, True)) advanced,
      up_head_tip := map_option meta_of_tip (head_tip cs),
      up_final_snapshot := map_option (\<lambda>meta. (final_state cs, meta)) final_meta,
      up_finalized_up_to := max_block_id irreversible,
      up_new_deposit_events := follow_deposits u,
      up_remove_deposit_records := concat (map (minted_deposit_ids S) irreversible),
      up_remove_dispatch_records := concat (map (settled_dispatch_keys S d) irreversible),
      up_consumed_withdrawals := follow_withdrawals u\<rparr>"

definition apply_follow_update ::
  "sequencer_env \<Rightarrow> chain_state \<Rightarrow> db \<Rightarrow> tx_pool \<Rightarrow> follow_update \<Rightarrow> (chain_state \<times> db \<times> tx_pool) option" where
  "apply_follow_update S cs d mp u = do {
    (outcomes, cs1) \<leftarrow> apply_channel_update (host_zone S) cs (follow_orphaned u) (follow_adopted u);
    (cs2, advanced, irreversible) \<leftarrow> apply_all_finalized (host_zone S) cs1 (follow_finalized u);
    final_meta \<leftarrow> (if advanced = [] then Some None
      else map_option (\<lambda>t. Some (meta_of_tip t)) (final_tip cs2));
    let args = follow_store_update S d u cs2 (applied_blocks (follow_adopted u) outcomes) advanced irreversible final_meta;
    case store_update d args of
      Inl _ \<Rightarrow> None
    | Inr (_, d') \<Rightarrow> Some (cs2, d', fold resubmit (resubmit_txs S cs2 (follow_orphaned u)) mp)
  }"

subsection \<open>Reconstruction at startup\<close>

datatype reconstruct_error =
    DoesNotExtend block_id block_ingest_error
  | ChannelGone block_id
  | Diverges chain_mismatch
  | UndecodableBlock slot
  | ReconstructStore db_error

definition settle_reconstructed_deliveries :: "sequencer_env \<Rightarrow> db \<Rightarrow> block \<Rightarrow> db" where
  "settle_reconstructed_deliveries S d b =
    (let keys = settled_dispatch_keys S d b in
     if keys = [] then d else snd (drop_settled_cross_zone_dispatches d keys))"

definition held_verbatim :: "db \<Rightarrow> block \<Rightarrow> block option" where
  "held_verbatim d b =
    (case db_latest_meta d of
       None \<Rightarrow> None
     | Some meta \<Rightarrow> if header_block_id (block_header b) \<le> meta_id meta then already_stored d b else None)"

definition reconstruct_store_update ::
  "sequencer_env \<Rightarrow> db \<Rightarrow> chain_state \<Rightarrow> block \<Rightarrow> zone_anchor_record \<Rightarrow> store_update_args" where
  "reconstruct_store_update S d cs b anchor =
    (store_update_new (head_state cs))\<lparr>up_blocks := [(b, True)],
      up_head_tip := map_option meta_of_tip (head_tip cs),
      up_final_snapshot := map_option (\<lambda>t. (final_state cs, meta_of_tip t)) (final_tip cs),
      up_remove_deposit_records := minted_deposit_ids S b,
      up_remove_dispatch_records := settled_dispatch_keys S d b,
      up_zone_anchor := Some anchor\<rparr>"

definition apply_reconstructed_block ::
  "sequencer_env \<Rightarrow> chain_state \<Rightarrow> db \<Rightarrow> block \<Rightarrow> slot \<Rightarrow> (reconstruct_error + chain_state \<times> db) option" where
  "apply_reconstructed_block S cs d b slot =
    (let anchor = \<lparr>anchor_slot = slot, anchor_block_id = header_block_id (block_header b),
           anchor_hash = header_hash (block_header b)\<rparr> in
     case held_verbatim d b of
       Some stored \<Rightarrow> Some (Inr (cs, (settle_reconstructed_deliveries S d stored)\<lparr>db_anchor := Some anchor\<rparr>))
     | None \<Rightarrow>
       if before_final cs b then Some (Inr (cs, d))
       else do {
         (outcome, cs') \<leftarrow> apply_finalized (host_zone S) cs (header_hash (block_header b)) b slot;
         Some (case outcome of
             Parked e \<Rightarrow> Inl (DoesNotExtend (header_block_id (block_header b)) e)
           | RetryableFailure e \<Rightarrow> Inl (DoesNotExtend (header_block_id (block_header b)) e)
           | _ \<Rightarrow> and_then (map_err ReconstructStore
                 (store_update d (reconstruct_store_update S d cs' b anchor))) (\<lambda>(_, d').
               Inr (cs', d')))
       })"

text \<open>The messages of the channel in order, each checked against the anchor and then applied.\<close>

fun reconstruct_messages ::
  "sequencer_env \<Rightarrow> anchor_check option \<Rightarrow> chain_state \<Rightarrow> db \<Rightarrow> (zone_message \<times> slot) list
    \<Rightarrow> (reconstruct_error + chain_state \<times> db) option" where
  "reconstruct_messages S check cs d [] = Some (Inr (cs, d))"
| "reconstruct_messages S check cs d ((msg, slot) # rest) =
    (let check' = map_option (\<lambda>c. observe S c msg slot) check in
     case Option.bind check' check_verdict of
       Some (Inconsistent m) \<Rightarrow> Some (Inl (Diverges m))
     | _ \<Rightarrow> (case msg of
         ZoneBlock bytes \<Rightarrow> (case host_block_of_bytes S bytes of
             None \<Rightarrow> Some (Inl (UndecodableBlock slot))
           | Some b \<Rightarrow> (case apply_reconstructed_block S cs d b slot of
               None \<Rightarrow> None
             | Some (Inl e) \<Rightarrow> Some (Inl e)
             | Some (Inr (cs', d')) \<Rightarrow> reconstruct_messages S check' cs' d' rest))
       | _ \<Rightarrow> reconstruct_messages S check' cs d rest))"

text \<open>\<open>tip_slot\<close> is the channel's tip and \<open>messages\<close> its finalized history after a slot.\<close>

definition verify_and_reconstruct ::
  "sequencer_env \<Rightarrow> chain_state \<Rightarrow> db \<Rightarrow> bool \<Rightarrow> slot option \<Rightarrow> (slot option \<Rightarrow> (zone_message \<times> slot) list)
    \<Rightarrow> (reconstruct_error + bool \<times> chain_state \<times> db) option" where
  "verify_and_reconstruct S cs d is_fresh_start tip_slot messages =
    (case (db_latest_meta d, is_fresh_start, tip_slot) of
       (Some meta, False, None) \<Rightarrow> Some (Inl (ChannelGone (meta_id meta)))
     | _ \<Rightarrow>
       let check = map_option (\<lambda>r. check_frontier (anchor_check_new
             \<lparr>pinned_slot = anchor_slot r, pinned_block = Some (anchor_block_id r, anchor_hash r)\<rparr>)
             tip_slot) (db_anchor d);
           after_slot = Option.bind (db_anchor d) (\<lambda>r. checked_sub (anchor_slot r) 1) in
       (case Option.bind check check_verdict of
          Some (Inconsistent m) \<Rightarrow> Some (Inl (Diverges m))
        | _ \<Rightarrow> (case reconstruct_messages S check cs d (messages after_slot) of
            None \<Rightarrow> None
          | Some (Inl e) \<Rightarrow> Some (Inl e)
          | Some (Inr (cs', d')) \<Rightarrow> Some (Inr (tip_slot = None, cs', d')))))"

subsection \<open>Restart\<close>

text \<open>\<open>initial_state\<close> is the pre-genesis state of the configuration; the persisted state is the argument \<open>stored\<close>.\<close>

definition restore_chain_state :: "zone_env \<Rightarrow> v03_state \<Rightarrow> db \<Rightarrow> v03_state \<Rightarrow> chain_state option" where
  "restore_chain_state Z initial_state d stored = do {
    let (s, t) = (case db_final d of
        Some (s, meta) \<Rightarrow> (s, Some (tip_of_meta meta))
      | None \<Rightarrow> (initial_state, None));
    let boundary = (case t of None \<Rightarrow> 0 | Some t \<Rightarrow> tip_block_id t);
    let blocks = sort_key (header_block_id \<circ> block_header)
      (filter (\<lambda>b. boundary < header_block_id (block_header b)) (get_all_blocks d));
    cs \<leftarrow> (case try_fold (restore_head_block Z) (from_final s t) blocks of
        Inl _ \<Rightarrow> None
      | Inr cs \<Rightarrow> Some cs);
    assert_that (head_state cs = stored);
    Some cs
  }"

end
