(* ===== verification/ProductionSafety.thy ===== *)
theory ProductionSafety
  imports Following ChainSafety
begin

text \<open>
  What block production promises: the block that is built from the store and the mempool becomes the
  head of the node that built it and of every node with the same head, and it keeps the limits of
  the configuration as the code measures them.
\<close>

subsection \<open>Heights along a chain\<close>

lemma replay_ids:
  assumes "replay_blocks Z s t bs = Some (s', t')" and "b \<in> set bs"
  shows "(\<exists>x. t' = Some x \<and> header_block_id (block_header b) \<le> tip_block_id x) \<and>
    (\<forall>x. t = Some x \<longrightarrow> tip_block_id x < header_block_id (block_header b))"
  using assms
proof (induction bs arbitrary: s t b)
  case (Cons a bs)
  note IH = Cons.IH
  from Cons.prems obtain s1 where run: "apply_block Z t a s = Inr s1" "replay_blocks Z s1 (Some (tip_of_block a)) bs = Some (s', t')"
    by (auto split: sum.splits)
  have up: "\<forall>x. t = Some x \<longrightarrow> tip_block_id x < header_block_id (block_header a)"
    using apply_block_cases(2) [OF run(1)] by (auto simp: word_less_nat_alt)
  have reach: "\<exists>x. t' = Some x \<and> header_block_id (block_header a) \<le> tip_block_id x"
  proof (cases bs)
    case Nil
    with run(2) show ?thesis by (auto simp: tip_of_block_def)
  next
    case (Cons c cs)
    with IH [OF run(2), of c] show ?thesis by (auto simp: tip_of_block_def)
  qed
  show ?case
  proof (cases "b = a")
    case True
    with up reach show ?thesis by simp
  next
    case False
    with Cons.prems(2) IH [OF run(2), of b] up show ?thesis
      by (auto simp: tip_of_block_def intro: less_trans)
  qed
qed simp

lemma head_ids:
  assumes "chain_ok Z cs" and "head_tip cs = Some t"
  shows "entry \<in> set (head_blocks cs) \<Longrightarrow> header_block_id (block_header (entry_block entry)) \<le> tip_block_id t"
    and "final_tip cs = Some f \<Longrightarrow> tip_block_id f \<le> tip_block_id t"
proof -
  note run = assms(1) [unfolded chain_ok_def assms(2)]
  show "header_block_id (block_header (entry_block entry)) \<le> tip_block_id t" if "entry \<in> set (head_blocks cs)"
    using replay_ids [OF run, of "entry_block entry"] that by auto
  show "tip_block_id f \<le> tip_block_id t" if f: "final_tip cs = Some f"
  proof (cases "head_blocks cs")
    case Nil
    with f assms(2) show ?thesis by (simp add: head_tip_def)
  next
    case (Cons e es)
    with replay_ids [OF run, of "entry_block e"] f show ?thesis by (auto intro: less_imp_le less_le_trans)
  qed
qed

lemma position_None: "(\<And>x. x \<in> set xs \<Longrightarrow> \<not> P x) \<Longrightarrow> position P xs = None"
  by (induction xs) auto

definition extended :: "chain_state \<Rightarrow> v03_state \<Rightarrow> msg_id \<Rightarrow> block \<Rightarrow> chain_state" where
  "extended cs s msg b = cs\<lparr>head_state := s, head_blocks := head_blocks cs @ [\<lparr>entry_msg = msg, entry_block = b\<rparr>]\<rparr>"

lemma next_block_extends:
  assumes ok: "chain_ok Z cs" and tip: "head_tip cs = Some t"
    and run: "apply_block Z (Some t) b (head_state cs) = Inr s"
  shows "apply_adopted Z cs msg b = Some (Applied, extended cs s msg b)"
    and "apply_produced Z cs msg b = Some (Applied, extended cs s msg b)"
    and "apply_channel_update Z cs [] [(msg, b)] = Some ([Applied], extended cs s msg b)"
proof -
  let ?i = "header_block_id (block_header b)"
  have above: "tip_block_id t < ?i"
    using apply_block_cases(2) [OF run] by (simp add: word_less_nat_alt)
  have "header_block_id (block_header (entry_block e)) < ?i" if "e \<in> set (head_blocks cs)" for e
    using head_ids(1) [OF ok tip that] above by (rule le_less_trans)
  note below = this
  have none: "position (\<lambda>e. ?i \<le> header_block_id (block_header (entry_block e))) (head_blocks cs) = None"
      "head_position_of cs msg b = None"
    unfolding head_position_of_def by (auto intro!: position_None dest!: below simp: not_less)
  have "\<not> before_final cs b"
    using head_ids(2) [OF ok tip] above by (auto simp: before_final_def not_le split: option.splits intro: le_less_trans)
  with none tip run show adopted: "apply_adopted Z cs msg b = Some (Applied, extended cs s msg b)"
    by (simp add: apply_adopted_def Let_def extended_def)
  with above tip show "apply_produced Z cs msg b = Some (Applied, extended cs s msg b)"
    by (simp add: apply_produced_def not_le)
  from adopted show "apply_channel_update Z cs [] [(msg, b)] = Some ([Applied], extended cs s msg b)"
    by (simp add: apply_channel_update_def min_position_def List.map_filter_simps Let_def)
qed

subsection \<open>The block under construction\<close>

lemma execute_check_executes:
  assumes "execute_check_on_state Z s tx i ts = Inr s'"
  shows "execute_on_state (zone_externals Z) s tx i ts = Inr s'"
  using assms
  by (auto simp: execute_check_on_state_def execute_on_state_def apply_validated_def result_simps
      dest: validate_on_state_cases(1))

text \<open>
  The loop keeps: a follower that applies the collected transactions reaches the working state,
  they fit in a block together with the clock, and there are not too many of them.
\<close>

definition block_in_progress :: "sequencer_env \<Rightarrow> block_context \<Rightarrow> v03_state \<Rightarrow> build_run \<Rightarrow> bool" where
  "block_in_progress S C s r \<longleftrightarrow>
    (\<forall>h. header_block_id h = ctx_height C \<and> header_timestamp h = ctx_timestamp C \<longrightarrow>
      try_fold (apply_user_transaction (host_zone S) h) s (List.enumerate 0 (br_valid r)) = Inr (br_state r)) \<and>
    (br_valid r \<noteq> [] \<longrightarrow> block_size S C (br_valid r @ [clock_lee_tx S C]) \<le> sq_max_block_size S) \<and>
    length (br_valid r) \<le> max 1 (sq_max_num_tx S)"

lemma apply_mempool_transaction_replays:
  assumes "apply_mempool_transaction S s origin tx i ts ws = Some (True, s', ws')"
    and "header_block_id h = i" "header_timestamp h = ts" "i \<noteq> GENESIS_BLOCK_ID"
  shows "apply_user_transaction (host_zone S) h s (n, tx) = Inr s'"
proof -
  have "execute_on_state (zone_externals (host_zone S)) s tx i ts = Inr s'"
    using assms(1) execute_check_executes [of "host_zone S" s tx i ts s']
    by (auto simp: apply_mempool_transaction_def execute_on_state_def transition_from_public_transaction_def
        split: if_splits lee_transaction.splits sum.splits transition_error.splits)
  with assms(2-4) show ?thesis by (simp add: apply_user_transaction_def)
qed

lemma block_in_progress_push:
  assumes "block_in_progress S C s r" and "ctx_height C \<noteq> GENESIS_BLOCK_ID"
    and "apply_mempool_transaction S (br_state r) origin tx (ctx_height C) (ctx_timestamp C) (br_withdrawals r)
      = Some (True, s', ws)"
    and "block_size S C (br_valid r @ [tx, clock_lee_tx S C]) \<le> sq_max_block_size S"
    and "length (br_valid r) < max 1 (sq_max_num_tx S)"
  shows "block_in_progress S C s (r\<lparr>br_state := s', br_withdrawals := ws, br_valid := br_valid r @ [tx]\<rparr>)"
  using assms apply_mempool_transaction_replays [OF assms(3) _ _ assms(2)]
  by (auto simp: block_in_progress_def enumerate_append_eq try_fold_append)

lemma block_in_progress_db [simp]: "block_in_progress S C s (r\<lparr>br_db := d\<rparr>) = block_in_progress S C s r"
  by (simp add: block_in_progress_def)

text \<open>A step that lets the loop go on leaves room for one more transaction.\<close>

lemma build_step_in_progress:
  assumes "block_in_progress S C s r" and "ctx_height C \<noteq> GENESIS_BLOCK_ID"
    and room: "length (br_valid r) < max 1 (sq_max_num_tx S)"
    and "build_step S C r item = Some (flow, r')"
  shows "block_in_progress S C s r' \<and> (flow = Continue \<longrightarrow> length (br_valid r') < max 1 (sq_max_num_tx S))"
proof -
  obtain origin tx stored where item: "item = (origin, tx, stored)" by (cases item)
  show ?thesis
  proof (cases "sq_max_block_size S < block_size S C (br_valid r @ [tx, clock_lee_tx S C])
      \<or> \<not> finalize_unstake_is_includable S (br_state r) tx (ctx_live_keys C)")
    case True
    with assms show ?thesis by (auto simp: build_step_def item split: if_splits)
  next
    case False
    with assms(4) obtain applied s' ws where app: "apply_mempool_transaction S (br_state r) origin tx
          (ctx_height C) (ctx_timestamp C) (br_withdrawals r) = Some (applied, s', ws)"
        "r' = (if applied then r\<lparr>br_state := s', br_withdrawals := ws, br_valid := br_valid r @ [tx]\<rparr>
          else r\<lparr>br_db := count_dispatch_failure S (br_db r) tx\<rparr>)"
        "flow = (if sq_max_num_tx S \<le> length (br_valid r') then Full else Continue)"
      by (auto simp: build_step_def item panic_simps Let_def)
    show ?thesis
    proof (cases applied)
      case True
      with False app assms(1,2) room show ?thesis
        by (auto simp: not_less intro!: block_in_progress_push)
    next
      case False
      with app assms(1) room show ?thesis by auto
    qed
  qed
qed

lemma build_loop_in_progress:
  assumes "build_loop S C r q mp = Some (r', mp')" and "ctx_height C \<noteq> GENESIS_BLOCK_ID"
    and "block_in_progress S C s r" and "length (br_valid r) < max 1 (sq_max_num_tx S)"
  shows "block_in_progress S C s r'"
  using assms
proof (induction S C r q mp rule: build_loop.induct)
  case (1 S C r q mp)
  show ?case
  proof (cases "next_item q mp")
    case None
    with "1.prems" show ?thesis by (simp add: build_loop.simps)
  next
    case (Some a)
    then obtain origin tx stored rest mp1 where item: "next_item q mp = Some ((origin, tx, stored), rest, mp1)"
      by (cases a) auto
    with "1.prems"(1) obtain flow r1 where step: "build_step S C r (origin, tx, stored) = Some (flow, r1)"
      by (cases "build_step S C r (origin, tx, stored)") (auto simp: build_loop.simps [of S C r q mp])
    note next_ok = build_step_in_progress [OF "1.prems"(3,2,4) step]
    show ?thesis
    proof (cases flow)
      case Continue
      with "1.prems"(1) item step have "build_loop S C r1 rest mp1 = Some (r', mp')"
        by (simp add: build_loop.simps [of S C r q mp])
      with "1.IH" item step Continue next_ok "1.prems"(2) show ?thesis by simp
    next
      case Defer
      with "1.prems"(1) item step next_ok show ?thesis by (simp add: build_loop.simps [of S C r q mp])
    next
      case Full
      with "1.prems"(1) item step next_ok show ?thesis by (simp add: build_loop.simps [of S C r q mp])
    qed
  qed
qed

subsection \<open>The finished block\<close>

lemma build_block_cases:
  assumes "build_block_from_mempool S cs d mp ts live = Some (Inr meta, d', mp')" and "head_tip cs = Some t"
  obtains C r q d1 s where "checked_add (tip_block_id t) 1 = Some (ctx_height C)" "ctx_prev_hash C = tip_hash t"
    "ctx_timestamp C = ts"
    "build_loop S C \<lparr>br_state = head_state cs, br_valid = [], br_withdrawals = [], br_db = d1\<rparr> q mp = Some (r, mp')"
    "transition_from_public_transaction (zone_externals (host_zone S)) (br_state r)
      (clock_invocation (host_zone S) ts) (ctx_height C) ts = Inr s"
    "built_block meta = into_pending_block (host_zone S) (sq_sign S) (hashable_with C (br_valid r @ [clock_lee_tx S C]))"
proof -
  obtain height where height: "checked_add (tip_block_id t) 1 = Some height"
    using assms by (auto simp: build_block_from_mempool_def next_block_height_def panic_simps)
  obtain undecodable decoded where rec: "decode_recorded S (get_pending_cross_zone_dispatches d) = (undecodable, decoded)"
    by (cases "decode_recorded S (get_pending_cross_zone_dispatches d)")
  obtain settled dispatches where cls: "foldl (classify_dispatch S cs) (undecodable, []) decoded = (settled, dispatches)"
    by (cases "foldl (classify_dispatch S cs) (undecodable, []) decoded")
  define C where "C = \<lparr>ctx_height = height, ctx_prev_hash = tip_hash t, ctx_timestamp = ts, ctx_live_keys = live\<rparr>"
  define d1 where "d1 = (if settled = [] then d else snd (drop_settled_cross_zone_dispatches d settled))"
  note run = assms(1) [unfolded build_block_from_mempool_def next_block_height_def assms(2) option.case height bind.bind_lunit
      rec cls Let_def prod.case, folded C_def d1_def]
  let ?q = "pending_deposit_txs S d1 (head_state cs) @ dispatches @ build_finalize_unstake_txs S (head_state cs)"
  let ?r0 = "\<lparr>br_state = head_state cs, br_valid = [], br_withdrawals = [], br_db = d1\<rparr>"
  obtain r mp1 where loop: "build_loop S C ?r0 ?q mp = Some (r, mp1)"
    using run by (cases "build_loop S C ?r0 ?q mp") auto
  let ?clock = "transition_from_public_transaction (zone_externals (host_zone S)) (br_state r)
      (clock_invocation (host_zone S) ts) height ts"
  obtain s where clock: "?clock = Inr s"
    using run by (cases ?clock) (auto simp: loop split: transition_error.splits)
  have "mp1 = mp'" "built_block meta = into_pending_block (host_zone S) (sq_sign S)
      (hashable_with C (br_valid r @ [clock_lee_tx S C]))"
    using run by (auto simp: loop clock)
  with height loop clock show thesis by (intro that [of C]) (simp_all add: C_def)
qed

lemma into_pending_block_fields [simp]:
  "hashable_of_block (into_pending_block Z sign h) = h"
  "header_block_id (block_header (into_pending_block Z sign h)) = hashable_block_id h"
  "body_transactions (block_body (into_pending_block Z sign h)) = hashable_transactions h"
  by (simp_all add: into_pending_block_def Let_def hashable_of_block_def)

lemma hashable_with_fields [simp]:
  "hashable_block_id (hashable_with C txs) = ctx_height C" "hashable_transactions (hashable_with C txs) = txs"
  by (simp_all add: hashable_with_def)

lemma into_pending_block_valid:
  assumes "checked_add (tip_block_id t) 1 = Some (hashable_block_id h)" and "hashable_prev_hash h = tip_hash t"
  shows "validate_against_tip Z (Some t) (into_pending_block Z sign h) = Inr ()"
  using assms
  by (simp add: validate_against_tip_def recompute_hash_def)
    (simp add: into_pending_block_def Let_def)

lemma built_block_applies:
  assumes "block_in_progress S C s0 r" and "checked_add (tip_block_id t) 1 = Some (ctx_height C)"
    and "ctx_prev_hash C = tip_hash t"
    and "transition_from_public_transaction (zone_externals (host_zone S)) (br_state r)
      (clock_invocation (host_zone S) (ctx_timestamp C)) (ctx_height C) (ctx_timestamp C) = Inr s"
  shows "apply_block (host_zone S) (Some t)
    (into_pending_block (host_zone S) (sq_sign S) (hashable_with C (br_valid r @ [clock_lee_tx S C]))) s0 = Inr s"
    (is "apply_block ?Z _ ?b _ = _")
proof -
  have "validate_against_tip ?Z (Some t) ?b = Inr ()"
    using assms(2,3) by (intro into_pending_block_valid) (simp_all add: hashable_with_def)
  moreover have "apply_block_to_state ?Z ?b s0 = Inr s"
    using assms(1,4)
    by (simp add: apply_block_to_state_def into_pending_block_def hashable_with_def Let_def clock_lee_tx_def
        block_in_progress_def)
  ultimately show ?thesis by (simp add: apply_block_def)
qed

text \<open>
  C40: Production builds blocks that the chain takes. When the turn builds a block on a head with a tip,
  the block has the next id, and there is one state such that every node with this head tip and head
  state, wherever it started and whatever it followed, takes the block as its new head with that state:
  when it records the block as its own, when it adopts it, and when a channel update delivers it, under
  any message id. Besides the clock, which comes last, it carries at most as many transactions as the
  limit (one, when the limit is zero); and when it carries any, the encoding of its contents, without
  its hash and signature, is within the size limit.
\<close>

theorem produced_block_becomes_head:
  assumes "(follow (host_zone S))\<^sup>*\<^sup>* (from_final s0 t0) cs"
    and "head_tip cs = Some t" and "GENESIS_BLOCK_ID \<le> tip_block_id t"
    and "build_block_from_mempool S cs d mp ts live = Some (Inr meta, d', mp')"
  shows "let b = built_block meta; txs = body_transactions (block_body b) in
    (\<exists>s. \<forall>s1 t1 cs1 msg. (follow (host_zone S))\<^sup>*\<^sup>* (from_final s1 t1) cs1 \<and>
        head_tip cs1 = head_tip cs \<and> head_state cs1 = head_state cs \<longrightarrow>
      apply_produced (host_zone S) cs1 msg b = Some (Applied, extended cs1 s msg b) \<and>
      apply_adopted (host_zone S) cs1 msg b = Some (Applied, extended cs1 s msg b) \<and>
      apply_channel_update (host_zone S) cs1 [] [(msg, b)] = Some ([Applied], extended cs1 s msg b)) \<and>
    unat (header_block_id (block_header b)) = unat (tip_block_id t) + 1 \<and>
    last txs = PublicTx (clock_invocation (host_zone S) ts) \<and>
    length txs \<le> max 1 (sq_max_num_tx S) + 1 \<and>
    (1 < length txs \<longrightarrow> length (zone_block_bytes (host_zone S) (hashable_of_block b)) \<le> sq_max_block_size S)"
proof -
  obtain C r q d1 s where built: "checked_add (tip_block_id t) 1 = Some (ctx_height C)" "ctx_prev_hash C = tip_hash t"
      "ctx_timestamp C = ts"
      "build_loop S C \<lparr>br_state = head_state cs, br_valid = [], br_withdrawals = [], br_db = d1\<rparr> q mp = Some (r, mp')"
      "transition_from_public_transaction (zone_externals (host_zone S)) (br_state r)
        (clock_invocation (host_zone S) ts) (ctx_height C) ts = Inr s"
      "built_block meta = into_pending_block (host_zone S) (sq_sign S) (hashable_with C (br_valid r @ [clock_lee_tx S C]))"
    by (rule build_block_cases [OF assms(4,2)])
  have "ctx_height C \<noteq> GENESIS_BLOCK_ID"
    using built(1) assms(3) by (auto simp: GENESIS_BLOCK_ID_def checked_simps word_le_nat_alt)
  then have progress: "block_in_progress S C (head_state cs) r"
    by (intro build_loop_in_progress [OF built(4)]) (simp_all add: block_in_progress_def)
  from built_block_applies [OF this built(1,2)] built(3,5,6)
  have applies: "apply_block (host_zone S) (Some t) (built_block meta) (head_state cs) = Inr s" by simp
  have "apply_produced (host_zone S) cs1 msg (built_block meta) = Some (Applied, extended cs1 s msg (built_block meta)) \<and>
      apply_adopted (host_zone S) cs1 msg (built_block meta) = Some (Applied, extended cs1 s msg (built_block meta)) \<and>
      apply_channel_update (host_zone S) cs1 [] [(msg, built_block meta)] = Some ([Applied], extended cs1 s msg (built_block meta))"
    if "(follow (host_zone S))\<^sup>*\<^sup>* (from_final s1 t1) cs1" "head_tip cs1 = head_tip cs" "head_state cs1 = head_state cs"
    for s1 t1 cs1 msg
    using next_block_extends [of "host_zone S" cs1 t "built_block meta" s msg] follows_ok [OF that(1) from_final_ok]
      that(2,3) assms(2) applies by simp
  moreover have "unat (header_block_id (block_header (built_block meta))) = unat (tip_block_id t) + 1"
    using built(1) by (simp add: built(6) checked_simps)
  moreover have "last (body_transactions (block_body (built_block meta))) = PublicTx (clock_invocation (host_zone S) ts)"
    by (simp add: built(6,3) clock_lee_tx_def)
  moreover have "length (body_transactions (block_body (built_block meta))) \<le> max 1 (sq_max_num_tx S) + 1"
    using progress by (simp add: built(6) block_in_progress_def)
  moreover have "1 < length (body_transactions (block_body (built_block meta))) \<longrightarrow>
      length (zone_block_bytes (host_zone S) (hashable_of_block (built_block meta))) \<le> sq_max_block_size S"
    using progress by (simp add: built(6) block_in_progress_def block_size_def)
  ultimately show ?thesis unfolding Let_def by blast
qed

end
