(* ===== verification/StoreSafety.thy ===== *)
theory StoreSafety
  imports Store
begin

text \<open>
  What the store keeps: the well-formedness of its cells, in particular that the counter of
  pending dispatches is their number, and what its operations do to the pending dispatches.
\<close>

subsection \<open>Recording dispatches\<close>

abbreviation keyed :: "pending_dispatch list \<Rightarrow> (array32 \<times> pending_dispatch) list" where
  "keyed rs \<equiv> map (\<lambda>r. (dispatch_key r, r)) rs"

lemma new_dispatches_offered: "r \<in> set (new_dispatches d offered rs) \<Longrightarrow> dispatch_key r \<notin> set offered"
  by (induction rs arbitrary: offered) (force split: if_splits)+

lemma new_dispatches_keys: "distinct (map dispatch_key (new_dispatches d offered rs))"
  by (induction rs arbitrary: offered) (auto dest: new_dispatches_offered)

lemma new_dispatches_map:
  "map_of (keyed (new_dispatches d offered rs)) k =
    (if k \<in> set offered \<or> map_of (db_dispatches d) k \<noteq> None then None else map_of (keyed rs) k)"
  by (induction rs arbitrary: offered) auto

lemma put_dispatch_map:
  "map_of (db_dispatches (put_dispatch r d)) = (map_of (db_dispatches d))(dispatch_key r \<mapsto> r)"
  by (simp add: put_dispatch_def update_conv')

lemma put_dispatches_map:
  "distinct (map dispatch_key rs) \<Longrightarrow>
    map_of (db_dispatches (fold put_dispatch rs d)) = map_of (db_dispatches d) ++ map_of (keyed rs)"
proof (induction rs arbitrary: d)
  case (Cons r rs)
  then have "dispatch_key r \<notin> dom (map_of (keyed rs))" by (auto simp: dom_map_of_conv_image_fst)
  with Cons show ?case by (auto simp: put_dispatch_map map_add_def fun_eq_iff split: option.splits)
qed simp

lemma add_pending_map:
  assumes "add_pending_cross_zone_dispatches d rs = Inr (n, d')"
  shows "map_of (db_dispatches d') = map_of (keyed rs) ++ map_of (db_dispatches d)"
proof
  fix k
  have "map_of (db_dispatches d') = map_of (db_dispatches d) ++ map_of (keyed (new_dispatches d [] rs))"
    using assms new_dispatches_keys [of d "[]" rs]
    by (auto simp: add_pending_cross_zone_dispatches_def Let_def put_dispatches_map split: if_splits)
  then show "map_of (db_dispatches d') k = (map_of (keyed rs) ++ map_of (db_dispatches d)) k"
    by (auto simp: map_add_def new_dispatches_map split: option.splits)
qed

lemma put_dispatch_fields [simp]:
  "db_peer_tips (fold put_dispatch rs d) = db_peer_tips d"
  "db_dispatch_count (fold put_dispatch rs d) = db_dispatch_count d"
  by (induction rs arbitrary: d) (simp_all add: put_dispatch_def)

end
