(* ===== verification/PeerSafety.thy ===== *)
theory PeerSafety
  imports PeerChain StoreSafety
begin

text \<open>
  The watcher and the verifier follow the same peer chain. Both are readers of one channel that
  accept the blocks of \<open>accept_run\<close>; the locale \<open>peer_reader\<close> states what a reader's step
  promises and derives what a pass over a stream leaves, and both sides interpret it.
\<close>

subsection \<open>The accepted run\<close>

definition run_head :: "block list \<Rightarrow> peer_chain_tip option" where
  "run_head bs = (if bs = [] then None
    else Some \<lparr>peer_block_id = header_block_id (block_header (last bs)),
      peer_block_hash = header_hash (block_header (last bs))\<rparr>)"

definition extends_run :: "zone_env \<Rightarrow> public_key option \<Rightarrow> block list \<Rightarrow> block \<Rightarrow> bool" where
  "extends_run Z pubkey bs b \<longleftrightarrow> is_ok (screen_peer_block Z b pubkey) \<and>
    (\<exists>h. link_to_tip (run_head bs) b (header_hash (block_header b)) = Next h)"

fun accept_run :: "'h host_env_scheme \<Rightarrow> public_key option \<Rightarrow> block list \<Rightarrow> (zone_message \<times> slot) list \<Rightarrow> block list" where
  "accept_run H pubkey bs [] = []"
| "accept_run H pubkey bs ((m, s) # ms) =
    (case m of
       ZoneBlock x \<Rightarrow> (case host_block_of_bytes H x of
           None \<Rightarrow> []
         | Some b \<Rightarrow> if extends_run (host_zone H) pubkey bs b then b # accept_run H pubkey (bs @ [b]) ms
             else accept_run H pubkey bs ms)
     | _ \<Rightarrow> accept_run H pubkey bs ms)"

definition stream_blocks :: "'h host_env_scheme \<Rightarrow> (zone_message \<times> slot) list \<Rightarrow> block set" where
  "stream_blocks H ms = {b. \<exists>x s. (ZoneBlock x, s) \<in> set ms \<and> host_block_of_bytes H x = Some b}"

lemma stream_blocks_simps [simp]:
  "stream_blocks H [] = {}"
  "host_block_of_bytes H x = Some b \<Longrightarrow> stream_blocks H ((ZoneBlock x, s) # ms) = insert b (stream_blocks H ms)"
  "host_block_of_bytes H x = None \<Longrightarrow> stream_blocks H ((ZoneBlock x, s) # ms) = stream_blocks H ms"
  "stream_blocks H ((ZoneDeposit, s) # ms) = stream_blocks H ms"
  "stream_blocks H ((ZoneWithdraw, s) # ms) = stream_blocks H ms"
  by (auto simp: stream_blocks_def)

lemma stream_blocks_mono: "set ms \<subseteq> set ns \<Longrightarrow> stream_blocks H ms \<subseteq> stream_blocks H ns"
  by (auto simp: stream_blocks_def)

lemma accept_run_append:
  "\<exists>rest. accept_run H pubkey bs (ms @ ns) = accept_run H pubkey bs ms @ rest"
  by (induction ms arbitrary: bs) (auto split: option.splits zone_message.splits)

lemma accept_run_take:
  assumes "m \<le> n"
  obtains rest where "accept_run H pubkey bs (take n ms) = accept_run H pubkey bs (take m ms) @ rest"
proof -
  have "take n ms = take m ms @ take (n - m) (drop m ms)"
    using assms by (metis le_add_diff_inverse take_add)
  with accept_run_append [of H pubkey bs "take m ms" "take (n - m) (drop m ms)"] that show ?thesis by auto
qed

lemma accept_run_blocks: "set (accept_run H pubkey bs ms) \<subseteq> stream_blocks H ms"
proof (induction ms arbitrary: bs)
  case (Cons x ms)
  obtain m s where x: "x = (m, s)" by force
  have "stream_blocks H ms \<subseteq> stream_blocks H (x # ms)" by (rule stream_blocks_mono) auto
  with Cons.IH [of bs] Cons.IH [of "bs @ [b]" for b] show ?case
    unfolding x by (cases m) (auto split: option.splits dest: sym [of "Some _"])
qed simp

lemma screen_ok [result_simps]:
  "screen_peer_block Z b pubkey = Inr h \<longleftrightarrow> h = header_hash (block_header b) \<and>
    recompute_hash Z b = header_hash (block_header b) \<and>
    (case pubkey of None \<Rightarrow> True | Some key \<Rightarrow> is_signed_by Z b key)"
  by (auto simp: screen_peer_block_def Let_def result_simps)

lemma link_hash: "link_to_tip t b h = Next h' \<Longrightarrow> h' = h"
  by (auto simp: link_to_tip_def Let_def split: option.splits if_splits)

lemma extends_runE:
  assumes "extends_run Z pubkey bs b"
  obtains "recompute_hash Z b = header_hash (block_header b)"
    "screen_peer_block Z b pubkey = Inr (header_hash (block_header b))"
    "case pubkey of None \<Rightarrow> True | Some key \<Rightarrow> is_signed_by Z b key"
    "link_to_tip (run_head bs) b (header_hash (block_header b)) = Next (header_hash (block_header b))"
  using assms by (auto simp: extends_run_def result_simps dest: link_hash)

lemma run_head_snoc [simp]:
  "run_head (bs @ [b]) = Some \<lparr>peer_block_id = header_block_id (block_header b),
    peer_block_hash = header_hash (block_header b)\<rparr>"
  by (simp add: run_head_def)

text \<open>
  The contract of a reader: \<open>holds r bs\<close> relates its state to the blocks it accepted so far,
  \<open>left e\<close> is the state of a reader that stopped at a block that does not decode, and \<open>None\<close> when it
  stopped for another reason.
\<close>

locale peer_reader =
  fixes H :: "'h host_env_scheme" and pubkey :: "public_key option" and B :: "block set"
    and step :: "'r \<Rightarrow> zone_message \<times> slot \<Rightarrow> 'e + 'r"
    and holds :: "'r \<Rightarrow> block list \<Rightarrow> bool"
    and left :: "'e \<Rightarrow> 'r option"
  assumes step_other: "holds r bs \<Longrightarrow> m = ZoneDeposit \<or> m = ZoneWithdraw \<Longrightarrow>
      \<exists>r'. step r (m, s) = Inr r' \<and> holds r' bs"
    and step_undecodable: "holds r bs \<Longrightarrow> host_block_of_bytes H x = None \<Longrightarrow>
      \<exists>e r'. step r (ZoneBlock x, s) = Inl e \<and> left e = Some r' \<and> holds r' bs"
    and step_block: "holds r bs \<Longrightarrow> host_block_of_bytes H x = Some b \<Longrightarrow> b \<in> B \<Longrightarrow>
      (case step r (ZoneBlock x, s) of
         Inl e \<Rightarrow> left e = None
       | Inr r' \<Rightarrow> holds r' (if extends_run (host_zone H) pubkey bs b then bs @ [b] else bs))"
begin

lemma pass_holds:
  assumes "holds r bs" and "stream_blocks H ms \<subseteq> B"
    and "try_fold step r ms = Inr r' \<or> (\<exists>e. try_fold step r ms = Inl e \<and> left e = Some r')"
  shows "holds r' (bs @ accept_run H pubkey bs ms)"
  using assms
proof (induction ms arbitrary: bs r)
  case (Cons x ms)
  obtain m s where x: "x = (m, s)" by force
  have rest: "stream_blocks H ms \<subseteq> B"
    using Cons.prems(2) stream_blocks_mono [of ms "x # ms" H] by auto
  show ?case
  proof (cases m)
    case (ZoneBlock y)
    show ?thesis
    proof (cases "host_block_of_bytes H y")
      case None
      with step_undecodable [OF Cons.prems(1) None, of s] Cons.prems(3) show ?thesis by (auto simp: x ZoneBlock)
    next
      case (Some b)
      with Cons.prems(2) have "b \<in> B" by (auto simp: x ZoneBlock)
      note next_step = step_block [OF Cons.prems(1) Some this, of s]
      then obtain q where q: "step r (ZoneBlock y, s) = Inr q"
        using Cons.prems(3) by (cases "step r (ZoneBlock y, s)") (auto simp: x ZoneBlock)
      show ?thesis
        using Cons.IH [of q "bs @ [b]", OF _ rest] Cons.IH [of q bs, OF _ rest] next_step Cons.prems(3) Some
        by (auto simp: x ZoneBlock q split: if_splits)
    qed
  next
    case ZoneDeposit
    then obtain q where "step r x = Inr q" "holds q bs"
      using step_other [OF Cons.prems(1), of m s] by (auto simp: x)
    with Cons.IH [of q bs, OF _ rest] Cons.prems(3) ZoneDeposit show ?thesis by (simp add: x)
  next
    case ZoneWithdraw
    then obtain q where "step r x = Inr q" "holds q bs"
      using step_other [OF Cons.prems(1), of m s] by (auto simp: x)
    with Cons.IH [of q bs, OF _ rest] Cons.prems(3) ZoneWithdraw show ?thesis by (simp add: x)
  qed
qed simp

end


subsection \<open>The watcher as a reader\<close>

definition block_deliveries :: "'h host_env_scheme \<Rightarrow> peer_context \<Rightarrow> block \<Rightarrow> pending_dispatch list" where
  "block_deliveries H ctx b = List.map_filter (delivery_of H ctx b (header_hash (block_header b)))
    (List.enumerate 0 (body_transactions (block_body b)))"

definition run_deliveries :: "'h host_env_scheme \<Rightarrow> peer_context \<Rightarrow> block list \<Rightarrow> pending_dispatch list" where
  "run_deliveries H ctx bs = concat (map (block_deliveries H ctx) bs)"

definition watcher_holds ::
  "'h host_env_scheme \<Rightarrow> peer_context \<Rightarrow> db \<Rightarrow> watcher_run \<Rightarrow> block list \<Rightarrow> bool" where
  "watcher_holds H ctx d r bs \<longleftrightarrow> run_tip r = run_head bs \<and>
    map_of (db_dispatches (run_db r)) = map_of (keyed (run_deliveries H ctx bs)) ++ map_of (db_dispatches d)"

fun watcher_left :: "pass_outcome \<times> watcher_run \<Rightarrow> watcher_run option" where
  "watcher_left (Undecodable _, r) = Some r"
| "watcher_left _ = None"

lemma slot_fields [simp]:
  "run_tip (complete_slot zone r) = run_tip r" "run_tip (enter_slot zone r s) = run_tip r"
  "db_dispatches (run_db (complete_slot zone r)) = db_dispatches (run_db r)"
  "db_dispatches (run_db (enter_slot zone r s)) = db_dispatches (run_db r)"
  by (simp_all add: complete_slot_def enter_slot_def advance_cursor_def set_cross_zone_peer_floor_def
      split: option.splits)

lemma watch_block_holds:
  assumes "watcher_holds H ctx d r bs"
  shows "case watch_block H ctx s r b of
      Inl e \<Rightarrow> watcher_left e = None
    | Inr r' \<Rightarrow> watcher_holds H ctx d r' (if extends_run (host_zone H) (ctx_pubkey ctx) bs b then bs @ [b] else bs)"
proof (cases "extends_run (host_zone H) (ctx_pubkey ctx) bs b")
  case True
  then show ?thesis
  proof (rule extends_runE)
    assume screen: "screen_peer_block (host_zone H) b (ctx_pubkey ctx) = Inr (header_hash (block_header b))"
      and link: "link_to_tip (run_head bs) b (header_hash (block_header b)) = Next (header_hash (block_header b))"
    obtain ok d' where rec: "record_block_deliveries H ctx (run_db r) b (header_hash (block_header b)) = (ok, d')"
      by force
    have "map_of (db_dispatches d') = map_of (keyed (block_deliveries H ctx b)) ++ map_of (db_dispatches (run_db r))"
      if ok
      using rec that by (auto simp: record_block_deliveries_def block_deliveries_def
          split: sum.splits prod.splits dest: add_pending_map)
    with assms True screen link rec show ?thesis
      by (auto simp: watch_block_def watcher_holds_def put_cross_zone_peer_tip_def run_deliveries_def Let_def)
  qed
next
  case False
  show ?thesis
  proof (cases "screen_peer_block (host_zone H) b (ctx_pubkey ctx)")
    case (Inl e)
    with assms False show ?thesis by (simp add: watch_block_def watcher_holds_def)
  next
    case (Inr h)
    then have h: "h = header_hash (block_header b)" by (simp add: result_simps)
    with Inr assms False show ?thesis
      by (cases "link_to_tip (run_head bs) b h") (auto simp: watch_block_def watcher_holds_def extends_run_def is_ok_def)
  qed
qed

interpretation watcher_reader: peer_reader H "ctx_pubkey ctx" B "watcher_step H ctx" "watcher_holds H ctx d" watcher_left
  for H ctx B d
proof
  fix r bs x s b
  assume "watcher_holds H ctx d r bs" "host_block_of_bytes H x = Some b"
  then show "case watcher_step H ctx r (ZoneBlock x, s) of
      Inl e \<Rightarrow> watcher_left e = None
    | Inr r' \<Rightarrow> watcher_holds H ctx d r' (if extends_run (host_zone H) (ctx_pubkey ctx) bs b then bs @ [b] else bs)"
    using watch_block_holds [where H = H and ctx = ctx and d = d and bs = bs and s = s and b = b
        and r = "enter_slot (ctx_peer_zone ctx) r s"]
    by (simp add: watcher_step_def watcher_holds_def)
qed (auto simp: watcher_step_def watcher_holds_def)

lemma try_fold_Inl: "try_fold f s xs = Inl e \<Longrightarrow> \<exists>s' x. f s' x = Inl e"
  by (induction xs arbitrary: s) (auto simp: and_then_def split: sum.splits)

lemma watcher_step_early:
  "watcher_step H ctx r m = Inl (outcome, r') \<Longrightarrow> \<exists>s. outcome = Undecodable s \<or> outcome = Undelivered s"
  by (auto simp: watcher_step_def watch_block_def Let_def
      split: prod.splits zone_message.splits option.splits sum.splits link.splits if_splits)

lemma watch_stream_holds:
  assumes "watch_peer_stream H ctx d cursor None ms = (outcome, r)" and "\<And>s. outcome \<noteq> Undelivered s"
  shows "watcher_holds H ctx d r (accept_run H (ctx_pubkey ctx) [] ms)"
proof -
  define r0 where "r0 = \<lparr>run_db = d, run_cursor = cursor, run_tip = None,
    run_in_progress = None, run_placed = 0, run_skipped = 0\<rparr>"
  have start: "watcher_holds H ctx d r0 []"
    by (simp add: r0_def watcher_holds_def run_head_def run_deliveries_def)
  note pass = watcher_reader.pass_holds [OF start subset_refl]
  show ?thesis
  proof (cases "try_fold (watcher_step H ctx) r0 ms")
    case (Inl e)
    with assms(1) have e: "e = (outcome, r)" by (simp add: watch_peer_stream_def r0_def)
    with Inl try_fold_Inl [OF Inl] assms(2) obtain s where "outcome = Undecodable s"
      by (metis watcher_step_early)
    with pass [of ms r] Inl e show ?thesis by simp
  next
    case (Inr q)
    with pass [of ms q] assms show ?thesis
      by (auto simp: watch_peer_stream_def r0_def watcher_holds_def)
  qed
qed

subsection \<open>The verifier's cache as a reader\<close>

abbreviation block_id_of :: "block \<Rightarrow> u64" where
  "block_id_of b \<equiv> header_block_id (block_header b)"

abbreviation block_hash_of :: "block \<Rightarrow> block_hash" where
  "block_hash_of b \<equiv> header_hash (block_header b)"

lemma unat_saturating_add:
  "unat (saturating_add a b) = min (unat a + unat b) (2 ^ LENGTH('a) - 1)" for a b :: "'a::len word"
  by (auto simp: saturating_add_def unat_word_ariths unsigned_minus_1_eq_mask mask_eq_exp_minus_1)

definition run_length :: "peer_chain_tip option \<Rightarrow> nat" where
  "run_length t = (case t of None \<Rightarrow> 0 | Some t \<Rightarrow> unat (peer_block_id t))"

lemma link_Next:
  "link_to_tip t b h = Next h' \<longleftrightarrow> unat (block_id_of b) = Suc (run_length t) \<and> h' = h \<and>
    (case t of None \<Rightarrow> True | Some t \<Rightarrow> header_prev_hash (block_header b) = peer_block_hash t)"
proof (cases t)
  case None
  then show ?thesis
    by (auto simp: link_to_tip_def Let_def run_length_def GENESIS_BLOCK_ID_def word_unat_eq_iff)
next
  case (Some t')
  have "unat (block_id_of b) < 2 ^ 64" using unsigned_less [of "block_id_of b", where 'a = nat] by simp
  with Some show ?thesis
    by (auto simp: link_to_tip_def Let_def run_length_def word_le_nat_alt word_less_nat_alt unat_saturating_add)
qed

lemma link_DoesNotLink:
  "link_to_tip t b h = OffChain (DoesNotLink i j p q) \<Longrightarrow> unat (block_id_of b) = Suc (run_length t)"
proof (cases t)
  case (Some t')
  assume "link_to_tip t b h = OffChain (DoesNotLink i j p q)"
  moreover have "unat (block_id_of b) < 2 ^ 64" using unsigned_less [of "block_id_of b", where 'a = nat] by simp
  ultimately show ?thesis using Some
    by (auto simp: link_to_tip_def Let_def run_length_def word_le_nat_alt word_less_nat_alt unat_saturating_add
        split: if_splits)
qed (auto simp: link_to_tip_def Let_def split: if_splits)

lemma next_expected_id:
  assumes "unat (block_id_of b) = Suc (run_length t)" shows "next_expected t = block_id_of b"
proof (cases t)
  case (Some t')
  have "unat (block_id_of b) < 2 ^ 64" using unsigned_less [of "block_id_of b", where 'a = nat] by simp
  with Some assms show ?thesis
    by (auto simp: next_expected_def run_length_def word_unat_eq_iff unat_saturating_add)
qed (use assms in \<open>auto simp: next_expected_def run_length_def GENESIS_BLOCK_ID_def word_unat_eq_iff\<close>)

definition collision_free :: "zone_env \<Rightarrow> block set \<Rightarrow> bool" where
  "collision_free Z B \<longleftrightarrow> inj_on (compute_hash Z) (hashable_of_block ` B)"

definition cache_holds :: "zone_env \<Rightarrow> block set \<Rightarrow> peer_chain \<Rightarrow> block list \<Rightarrow> bool" where
  "cache_holds Z B chain bs \<longleftrightarrow> verified_prefix chain = run_head bs \<and>
    (\<forall>n < length bs. unat (block_id_of (bs ! n)) = Suc n \<and> chain_blocks chain (block_id_of (bs ! n)) = Some (bs ! n)) \<and>
    (\<forall>i b. chain_blocks chain i = Some b \<longrightarrow> (\<exists>n < length bs. i = block_id_of (bs ! n)) \<or>
      (i = block_id_of b \<and> unat i = Suc (length bs) \<and> b \<in> B \<and> recompute_hash Z b = block_hash_of b \<and>
       (\<forall>h. link_to_tip (run_head bs) b (block_hash_of b) \<noteq> Next h)))"

lemma cache_held:
  assumes "cache_holds Z B chain bs" "n < length bs"
  shows "unat (block_id_of (bs ! n)) = Suc n" "chain_blocks chain (block_id_of (bs ! n)) = Some (bs ! n)"
  using assms by (auto simp: cache_holds_def)

lemma run_length_head:
  assumes "cache_holds Z B chain bs" shows "run_length (run_head bs) = length bs"
proof (cases bs rule: rev_cases)
  case (snoc cs c)
  with cache_held(1) [OF assms, of "length cs"] show ?thesis by (simp add: run_length_def)
qed (simp add: run_length_def run_head_def)

lemma cache_id_bound:
  assumes "cache_holds Z B chain bs" "chain_blocks chain i = Some b" shows "unat i \<le> Suc (length bs)"
proof -
  from assms have "(\<exists>n < length bs. i = block_id_of (bs ! n)) \<or> unat i = Suc (length bs)"
    by (fastforce simp: cache_holds_def)
  with cache_held(1) [OF assms(1)] show ?thesis by auto
qed

lemma extend_prefix_stop:
  assumes "\<And>b h. blocks (next_expected t) = Some b \<Longrightarrow> link_to_tip t b (block_hash_of b) \<noteq> Next h"
  shows "extend_prefix blocks t = t"
proof (cases "blocks (next_expected t)")
  case None
  then show ?thesis by (simp add: extend_prefix.simps [of blocks t])
next
  case (Some b)
  with assms [OF Some] show ?thesis
    by (cases "link_to_tip t b (block_hash_of b)") (auto simp: extend_prefix.simps [of blocks t])
qed

lemma cache_next_prefix:
  assumes holds: "cache_holds Z B chain bs" and link: "link_to_tip (run_head bs) b (block_hash_of b) = Next h"
  shows "extend_prefix ((chain_blocks chain)(block_id_of b \<mapsto> b)) (run_head bs) = run_head (bs @ [b])"
    (is "extend_prefix ?blocks _ = _")
proof -
  have id: "unat (block_id_of b) = Suc (length bs)" and h: "h = block_hash_of b"
    using link run_length_head [OF holds] by (simp_all add: link_Next)
  have "next_expected (run_head bs) = block_id_of b"
    using id run_length_head [OF holds] by (intro next_expected_id) simp
  then have "extend_prefix ?blocks (run_head bs) = extend_prefix ?blocks (run_head (bs @ [b]))"
    using link unfolding h by (subst extend_prefix.simps) simp
  also have "extend_prefix ?blocks (run_head (bs @ [b])) = run_head (bs @ [b])"
  proof (rule extend_prefix_stop, rule notI)
    fix c g
    assume c: "?blocks (next_expected (run_head (bs @ [b]))) = Some c"
      and "link_to_tip (run_head (bs @ [b])) c (block_hash_of c) = Next g"
    then have id': "unat (block_id_of c) = Suc (Suc (length bs))" by (simp add: link_Next run_length_def id)
    have "next_expected (run_head (bs @ [b])) = block_id_of c"
      using id' by (intro next_expected_id) (simp add: run_length_def id)
    then have "?blocks (block_id_of c) = Some c" using c by (simp only:)
    moreover have "block_id_of c \<noteq> block_id_of b" using id id' by (metis n_not_Suc_n)
    ultimately have "chain_blocks chain (block_id_of c) = Some c" by simp
    from cache_id_bound [OF holds this] id' show False by simp
  qed
  finally show ?thesis .
qed

lemma cache_next:
  assumes holds: "cache_holds Z B chain bs" and link: "link_to_tip (run_head bs) b (block_hash_of b) = Next h"
  shows "cache_holds Z B (cache_block chain b) (bs @ [b])"
proof -
  have id: "unat (block_id_of b) = Suc (length bs)"
    using link run_length_head [OF holds] by (simp add: link_Next)
  define blocks where "blocks = (chain_blocks chain)(block_id_of b \<mapsto> b)"
  have chain: "cache_block chain b = \<lparr>chain_blocks = blocks, verified_prefix = run_head (bs @ [b])\<rparr>"
    using cache_next_prefix [OF holds link] holds by (simp add: cache_block_def Let_def blocks_def cache_holds_def)
  have inside: "\<exists>n < length (bs @ [b]). i = block_id_of ((bs @ [b]) ! n)" if c: "blocks i = Some c" for i c
  proof (cases "i = block_id_of b")
    case True
    then show ?thesis by (intro exI [of _ "length bs"]) simp
  next
    case False
    then have "unat i \<noteq> Suc (length bs)" using id by (simp add: word_unat_eq_iff)
    moreover have "chain_blocks chain i = Some c" using c False by (simp add: blocks_def)
    ultimately obtain n where "n < length bs" "i = block_id_of (bs ! n)"
      using holds unfolding cache_holds_def by blast
    then show ?thesis by (intro exI [of _ n]) (simp add: nth_append)
  qed
  have held: "unat (block_id_of ((bs @ [b]) ! n)) = Suc n \<and> blocks (block_id_of ((bs @ [b]) ! n)) = Some ((bs @ [b]) ! n)"
    if "n < length (bs @ [b])" for n
    using that cache_held [OF holds, of n] id by (auto simp: blocks_def nth_append less_Suc_eq)
  show ?thesis
    unfolding cache_holds_def chain using inside held by simp
qed

lemma cache_off_chain:
  assumes holds: "cache_holds Z B chain bs" and link: "link_to_tip (run_head bs) b (block_hash_of b) = OffChain (DoesNotLink i j p q)"
    and b: "b \<in> B" "recompute_hash Z b = block_hash_of b"
  shows "cache_holds Z B (cache_block chain b) bs"
proof -
  have id: "unat (block_id_of b) = Suc (length bs)"
    using link_DoesNotLink [OF link] run_length_head [OF holds] by simp
  define blocks where "blocks = (chain_blocks chain)(block_id_of b \<mapsto> b)"
  have "next_expected (run_head bs) = block_id_of b"
    using id run_length_head [OF holds] by (intro next_expected_id) simp
  then have "extend_prefix blocks (run_head bs) = run_head bs"
    using link by (intro extend_prefix_stop) (simp add: blocks_def)
  then have chain: "cache_block chain b = \<lparr>chain_blocks = blocks, verified_prefix = run_head bs\<rparr>"
    using holds by (simp add: cache_block_def Let_def blocks_def cache_holds_def)
  have "blocks (block_id_of (bs ! n)) = Some (bs ! n)" if "n < length bs" for n
    using cache_held [OF holds that] id that by (auto simp: blocks_def)
  moreover have "(\<exists>n < length bs. i = block_id_of (bs ! n)) \<or>
      (i = block_id_of c \<and> unat i = Suc (length bs) \<and> c \<in> B \<and> recompute_hash Z c = block_hash_of c \<and>
       (\<forall>h. link_to_tip (run_head bs) c (block_hash_of c) \<noteq> Next h))" if "blocks i = Some c" for i c
  proof (cases "i = block_id_of b")
    case True
    with that b id link show ?thesis by (simp add: blocks_def)
  next
    case False
    with that have "chain_blocks chain i = Some c" by (simp add: blocks_def)
    with holds show ?thesis unfolding cache_holds_def by blast
  qed
  ultimately show ?thesis
    unfolding cache_holds_def chain using cache_held(1) [OF holds] by simp
qed

text \<open>A block held at the next id never links, so it is not the one that does.\<close>

lemma next_not_held:
  assumes holds: "cache_holds Z B chain bs" and free: "collision_free Z B"
    and link: "link_to_tip (run_head bs) b (block_hash_of b) = Next h"
    and b: "b \<in> B" "recompute_hash Z b = block_hash_of b"
    and held: "chain_blocks chain (block_id_of b) = Some c"
  shows "block_hash_of c \<noteq> block_hash_of b"
proof
  assume same: "block_hash_of c = block_hash_of b"
  have id: "unat (block_id_of b) = Suc (length bs)"
    using link run_length_head [OF holds] by (simp add: link_Next)
  have "\<not> (\<exists>n < length bs. block_id_of b = block_id_of (bs ! n))"
    using cache_held(1) [OF holds] id by auto
  with held holds have c: "block_id_of b = block_id_of c" "c \<in> B" "recompute_hash Z c = block_hash_of c"
    "\<And>h. link_to_tip (run_head bs) c (block_hash_of c) \<noteq> Next h"
    unfolding cache_holds_def by blast+
  have "compute_hash Z (hashable_of_block c) = compute_hash Z (hashable_of_block b)"
    using c(3) b(2) same by (simp add: recompute_hash_def)
  then have "hashable_of_block c = hashable_of_block b"
    using free c(2) b(1) by (auto simp: collision_free_def dest: inj_onD)
  then have "header_prev_hash (block_header c) = header_prev_hash (block_header b)"
    by (simp add: hashable_of_block_def)
  with c(1,4) link show False by (auto simp: link_Next split: option.splits)
qed

lemma peer_insert_holds:
  assumes holds: "cache_holds Z B chain bs" and free: "collision_free Z B"
    and b: "b \<in> B" "recompute_hash Z b = block_hash_of b"
  shows "cache_holds Z B (snd (peer_insert chain b))
    (if \<exists>h. link_to_tip (run_head bs) b (block_hash_of b) = Next h then bs @ [b] else bs)"
proof -
  have prefix: "verified_prefix chain = run_head bs" using holds by (simp add: cache_holds_def)
  show ?thesis
  proof (cases "link_to_tip (run_head bs) b (block_hash_of b)")
    case (Next h)
    with next_not_held [OF holds free Next b] cache_next [OF holds Next] show ?thesis
      by (auto simp: peer_insert_def prefix split: option.splits)
  next
    case (OffChain reason)
    with holds cache_off_chain [OF holds _ b] show ?thesis
      by (cases reason) (auto simp: peer_insert_def prefix split: option.splits)
  qed (use holds in \<open>simp add: peer_insert_def prefix\<close>)
qed

definition peer_chain_of :: "peer_blocks \<Rightarrow> zone_id \<Rightarrow> peer_chain" where
  "peer_chain_of peers zone = (case peers zone of Some chain \<Rightarrow> chain | None \<Rightarrow> empty_peer_chain)"

definition reader_holds :: "zone_env \<Rightarrow> block set \<Rightarrow> zone_id \<Rightarrow> reader_run \<Rightarrow> block list \<Rightarrow> bool" where
  "reader_holds Z B zone r bs \<longleftrightarrow> collision_free Z B \<and> cache_holds Z B (peer_chain_of (reader_peers r) zone) bs"

interpretation verifier_reader: peer_reader H pubkey B "reader_step H zone pubkey" "reader_holds (host_zone H) B zone"
  "\<lambda>(s, r). Some r"
  for H pubkey B zone
proof
  fix r bs x s b
  assume r: "reader_holds (host_zone H) B zone r bs" and x: "host_block_of_bytes H x = Some b" and b: "b \<in> B"
  have "reader_holds (host_zone H) B zone (r\<lparr>reader_peers := insert_peer_block (reader_peers r) zone b\<rparr>)
      (if extends_run (host_zone H) pubkey bs b then bs @ [b] else bs)"
    if ok: "accept_peer_block (host_zone H) b pubkey"
    using peer_insert_holds [of "host_zone H" B "peer_chain_of (reader_peers r) zone" bs b] r b ok
    by (auto simp: reader_holds_def peer_chain_of_def insert_peer_block_def extends_run_def accept_peer_block_def
        result_simps)
  moreover have "\<not> extends_run (host_zone H) pubkey bs b" if "\<not> accept_peer_block (host_zone H) b pubkey"
    using that by (simp add: extends_run_def accept_peer_block_def)
  ultimately show "case reader_step H zone pubkey r (ZoneBlock x, s) of
      Inl e \<Rightarrow> (case e of (s, r) \<Rightarrow> Some r) = None
    | Inr r' \<Rightarrow> reader_holds (host_zone H) B zone r' (if extends_run (host_zone H) pubkey bs b then bs @ [b] else bs)"
    using r x by (auto simp: reader_step_def reader_holds_def Let_def)
qed (auto simp: reader_step_def reader_holds_def Let_def)

lemma read_stream_holds:
  assumes "collision_free (host_zone H) B" "stream_blocks H ms \<subseteq> B"
  shows "cache_holds (host_zone H) B
    (peer_chain_of (fst (read_peer_stream H zone pubkey Map.empty resume ms)) zone) (accept_run H pubkey [] ms)"
proof -
  define r0 where "r0 = \<lparr>reader_peers = Map.empty, reader_cursor = resume, reader_in_progress = None\<rparr>"
  have "reader_holds (host_zone H) B zone r0 []"
    using assms(1) by (simp add: r0_def reader_holds_def peer_chain_of_def empty_peer_chain_def cache_holds_def run_head_def)
  note pass = verifier_reader.pass_holds [OF this assms(2)]
  show ?thesis
  proof (cases "try_fold (reader_step H zone pubkey) r0 ms")
    case (Inl e)
    then show ?thesis
      using pass [of pubkey "snd e"] by (auto simp: read_peer_stream_def r0_def reader_holds_def split: prod.splits)
  next
    case (Inr r)
    then show ?thesis
      using pass [of pubkey r] by (auto simp: read_peer_stream_def r0_def reader_holds_def)
  qed
qed

subsection \<open>Re-deriving what the watcher recorded\<close>

lemma resolve_run:
  assumes holds: "cache_holds Z B (peer_chain_of peers zone) bs" and id: "0 < i"
  shows "resolve peers zone i = (if unat i \<le> length bs then Cached (bs ! (unat i - 1)) else Behind)"
proof (cases "peers zone")
  case None
  with holds have "run_head bs = None" by (simp add: peer_chain_of_def empty_peer_chain_def cache_holds_def)
  then have "bs = []" by (simp add: run_head_def split: if_splits)
  with None id show ?thesis by (simp add: resolve_def word_less_nat_alt)
next
  case (Some chain)
  with holds have holds': "cache_holds Z B chain bs" by (simp add: peer_chain_of_def)
  then have prefix: "verified_prefix chain = run_head bs" by (simp add: cache_holds_def)
  show ?thesis
  proof (cases "unat i \<le> length bs")
    case True
    define n where "n = unat i - 1"
    have i: "unat i = Suc n" using id by (simp add: n_def word_less_nat_alt)
    with True have n: "n < length bs" by simp
    then obtain t where t: "run_head bs = Some t" by (cases "run_head bs") (auto simp: run_head_def split: if_splits)
    have "unat (peer_block_id t) = length bs" using run_length_head [OF holds'] t by (simp add: run_length_def)
    moreover have "block_id_of (bs ! n) = i" using cache_held(1) [OF holds' n] i by (simp add: word_unat_eq_iff)
    ultimately show ?thesis
      using cache_held(2) [OF holds' n] True i
      by (auto simp: resolve_def Some prefix t word_less_nat_alt)
  next
    case False
    then show ?thesis
      using run_length_head [OF holds']
      by (auto simp: resolve_def Some prefix run_length_def word_less_nat_alt split: option.splits)
  qed
qed

lemma wait_finds:
  assumes "\<And>n. resolve (peers_at n) zone i \<in> {Cached b, Behind}" and "resolve (peers_at n) zone i = Cached b"
    and "waited \<le> n" "n \<le> PEER_BLOCK_WAIT_TIMEOUT"
  shows "wait_for_peer_block peers_at zone i waited = Inr b"
  using assms(3)
proof (induction "n - waited" arbitrary: waited)
  case 0
  then have "waited = n" by simp
  with assms(2) show ?case by (simp add: wait_for_peer_block.simps [of _ _ _ n])
next
  case (Suc k)
  then have "waited < n" "wait_for_peer_block peers_at zone i (waited + 1) = Inr b" by simp_all
  with assms(1) [of waited] assms(4) show ?case
    by (auto simp: wait_for_peer_block.simps [of _ _ _ waited])
qed

lemma wait_result:
  "wait_for_peer_block peers_at zone i waited = Inr b \<Longrightarrow> \<exists>n. resolve (peers_at n) zone i = Cached b"
  by (induction peers_at zone i waited rule: wait_for_peer_block.induct)
    (subst (asm) wait_for_peer_block.simps, auto split: peer_lookup.splits if_splits)

text \<open>The transaction and the message that the watcher derives from a transaction of an accepted block.\<close>

definition emission_at :: "'h host_env_scheme \<Rightarrow> zone_id \<Rightarrow> block \<Rightarrow> nat \<Rightarrow> (program_id \<times> emission) option" where
  "emission_at H zone b n =
    (case list_get (body_transactions (block_body b)) n of
       Some (PublicTx tx) \<Rightarrow> (case extract_emission H (msg_program_id (pub_message tx))
           (msg_instruction_data (pub_message tx)) of
         Some em \<Rightarrow> if emission_zone em = zone then Some (msg_program_id (pub_message tx), em) else None
       | None \<Rightarrow> None)
     | _ \<Rightarrow> None)"

definition source_at :: "zone_id \<Rightarrow> block \<Rightarrow> u32 \<Rightarrow> program_id \<Rightarrow> emission_source" where
  "source_at zone b i p = \<lparr>source_zone = zone, source_block_id = block_id_of b, source_block_hash = block_hash_of b,
    source_tx_index = i, source_program = p\<rparr>"

definition dispatch_at :: "'h host_env_scheme \<Rightarrow> zone_id \<Rightarrow> block \<Rightarrow> u32 \<Rightarrow> program_id \<Rightarrow> emission \<Rightarrow> public_transaction" where
  "dispatch_at H zone b i p em = build_dispatch_from_emission H (source_at zone b i p)
    (emission_program em) (emission_accounts em) (emission_payload em)"

lemma block_delivery:
  assumes "p \<in> set (block_deliveries H ctx b)" and "length (body_transactions (block_body b)) \<le> 2 ^ 32"
  obtains n prog em where "n < 2 ^ 32" "emission_at H (ctx_self_zone ctx) b n = Some (prog, em)"
    "emission_program em \<noteq> host_inbox_id H"
    "p = recorded (message_key (xc_sha256 (host_cross H)) (ctx_peer_zone ctx) (block_id_of b) (of_nat n))
      (host_tx_bytes H (PublicTx (dispatch_at H (ctx_peer_zone ctx) b (of_nat n) prog em)))"
proof -
  from assms(1) obtain n tx where n: "n < length (body_transactions (block_body b))"
      "tx = body_transactions (block_body b) ! n"
    and p: "delivery_of H ctx b (block_hash_of b) (n, tx) = Some p"
    by (auto simp: block_deliveries_def List.map_filter_def in_set_enumerate_eq)
  then have "n < 2 ^ 32" using assms(2) by simp
  with n p that show ?thesis
    by (fastforce simp: delivery_of_def emission_at_def list_get_def is_sequencer_only_program_def dispatch_at_def
        source_at_def Let_def split: lee_transaction.splits bind_splits if_splits)
qed

lemma emission_delivered:
  assumes em: "emission_at H (ctx_self_zone ctx) b n = Some (prog, em)" and n: "n < 2 ^ 32"
    and target: "emission_program em \<noteq> host_inbox_id H"
  shows "message_key (xc_sha256 (host_cross H)) (ctx_peer_zone ctx) (block_id_of b) (of_nat n)
    \<in> dispatch_key ` set (block_deliveries H ctx b)"
proof -
  from em obtain tx where tx: "n < length (body_transactions (block_body b))"
      "body_transactions (block_body b) ! n = PublicTx tx"
      "extract_emission H (msg_program_id (pub_message tx)) (msg_instruction_data (pub_message tx)) = Some em"
      "emission_zone em = ctx_self_zone ctx"
    by (auto simp: emission_at_def list_get_def split: option.splits lee_transaction.splits if_splits)
  have "(n, PublicTx tx) \<in> set (List.enumerate 0 (body_transactions (block_body b)))"
    using tx(1,2) by (auto simp: in_set_enumerate_eq)
  then show ?thesis
    using tx n target
    by (force simp: block_deliveries_def List.map_filter_def delivery_of_def is_sequencer_only_program_def Let_def
        recorded_def intro!: image_eqI)
qed

lemma decode_dispatch_built:
  assumes "\<And>msg. xc_inbox_of_words (host_cross H) (xc_inbox_words (host_cross H) (Dispatch msg)) = Some (Dispatch msg)"
  shows "decode_dispatch H (PublicTx (dispatch_at H zone b i p em)) =
    Some (message_of_emission (source_at zone b i p) (emission_program em) (emission_payload em))"
  using assms by (simp add: decode_dispatch_def dispatch_at_def build_dispatch_from_emission_def
      build_inbox_dispatch_tx_def Let_def)

lemma rederive_iff:
  assumes wait: "wait_for_peer_block peers_at (src_zone msg) (src_block_id msg) 0 = Inr b"
    and ext: "recompute_hash (host_zone H) b = block_hash_of b" "block_id_of b = src_block_id msg"
    and key: "case verifier_pubkeys V (src_zone msg) of None \<Rightarrow> True | Some key \<Rightarrow> is_signed_by (host_zone H) b key"
  shows "rederive H V peers_at msg = Inr tx \<longleftrightarrow>
    (\<exists>p em. emission_at H (verifier_self_zone V) b (unat (src_tx_index msg)) = Some (p, em) \<and>
      tx = dispatch_at H (src_zone msg) b (src_tx_index msg) p em)"
  using assms
  by (auto simp: rederive_def result_simps Let_def emission_at_def list_get_def dispatch_at_def source_at_def
      split: option.splits lee_transaction.splits if_splits)

lemma accept_run_ok:
  "b \<in> set (accept_run H pubkey bs ms) \<Longrightarrow> recompute_hash (host_zone H) b = block_hash_of b \<and>
    (case pubkey of None \<Rightarrow> True | Some key \<Rightarrow> is_signed_by (host_zone H) b key)"
  by (induction ms arbitrary: bs) (auto split: zone_message.splits option.splits if_splits elim!: extends_runE)

lemma accept_run_ids:
  assumes "collision_free (host_zone H) (stream_blocks H ms)" "n < length (accept_run H pubkey [] ms)"
  shows "unat (block_id_of (accept_run H pubkey [] ms ! n)) = Suc n"
  using cache_held(1) [OF read_stream_holds [OF assms(1) subset_refl]] assms(2) by blast

text \<open>
  A verifier that polls while its reader works through the channel finds the block the watcher
  accepted, whatever the interleaving, once the reader has read as far as the watcher.
\<close>

lemma wait_for_accepted:
  assumes free: "collision_free (host_zone H) (stream_blocks H vs)"
    and polls: "\<And>n. peers_at n = fst (read_peer_stream H zone pubkey Map.empty None (take (k n) vs))"
    and caught_up: "j \<le> PEER_BLOCK_WAIT_TIMEOUT" "m \<le> k j"
    and i: "0 < i" "unat i \<le> length (accept_run H pubkey [] (take m vs))"
  shows "wait_for_peer_block peers_at zone i 0 = Inr (accept_run H pubkey [] (take m vs) ! (unat i - 1))"
proof (rule wait_finds [of _ _ _ _ j])
  let ?run = "\<lambda>n. accept_run H pubkey [] (take n vs)"
  have resolve: "resolve (peers_at n) zone i =
      (if unat i \<le> length (?run (k n)) then Cached (?run (k n) ! (unat i - 1)) else Behind)" for n
    unfolding polls
    by (rule resolve_run [OF read_stream_holds [OF free] i(1)]) (auto intro!: stream_blocks_mono set_take_subset)
  have same: "?run (k n) ! (unat i - 1) = ?run m ! (unat i - 1)" if le: "unat i \<le> length (?run (k n))" for n
  proof (cases "m \<le> k n")
    case True
    then obtain rest where "?run (k n) = ?run m @ rest" by (rule accept_run_take)
    with i show ?thesis by (simp add: nth_append word_less_nat_alt)
  next
    case False
    then obtain rest where "?run m = ?run (k n) @ rest" by (metis accept_run_take nat_le_linear)
    with i le show ?thesis by (simp add: nth_append word_less_nat_alt)
  qed
  show "resolve (peers_at n) zone i \<in> {Cached (?run m ! (unat i - 1)), Behind}" for n
    using same [of n] by (simp add: resolve)
  obtain rest where "?run (k j) = ?run m @ rest" using caught_up(2) by (rule accept_run_take)
  with i(2) have "unat i \<le> length (?run (k j))" by simp
  with same [OF this] show "resolve (peers_at j) zone i = Cached (?run m ! (unat i - 1))" by (simp add: resolve)
qed (use caught_up in simp_all)

lemma rederive_accepted:
  assumes free: "collision_free (host_zone H) (stream_blocks H vs)"
    and V: "verifier_pubkeys V zone = pubkey"
    and polls: "\<And>n. peers_at n = fst (read_peer_stream H zone pubkey Map.empty None (take (k n) vs))"
    and caught_up: "j \<le> PEER_BLOCK_WAIT_TIMEOUT" "m \<le> k j"
    and n: "n < length (accept_run H pubkey [] (take m vs))" and b: "b = accept_run H pubkey [] (take m vs) ! n"
    and msg: "src_zone msg = zone" "src_block_id msg = block_id_of b"
  shows "rederive H V peers_at msg = Inr tx \<longleftrightarrow>
    (\<exists>p em. emission_at H (verifier_self_zone V) b (unat (src_tx_index msg)) = Some (p, em) \<and>
      tx = dispatch_at H zone b (src_tx_index msg) p em)"
proof -
  have "stream_blocks H (take m vs) \<subseteq> stream_blocks H vs" by (intro stream_blocks_mono set_take_subset)
  with free have "collision_free (host_zone H) (stream_blocks H (take m vs))"
    by (auto simp: collision_free_def intro: inj_on_subset)
  from accept_run_ids [OF this n] have id: "unat (block_id_of b) = Suc n" by (simp add: b)
  have "wait_for_peer_block peers_at zone (block_id_of b) 0
      = Inr (accept_run H pubkey [] (take m vs) ! (unat (block_id_of b) - 1))"
    using id n by (intro wait_for_accepted [where k = k and j = j, OF free polls caught_up])
      (simp_all add: word_less_nat_alt)
  then have wait: "wait_for_peer_block peers_at (src_zone msg) (src_block_id msg) 0 = Inr b"
    by (simp only: id diff_Suc_1 b [symmetric] msg)
  have "b \<in> set (accept_run H pubkey [] (take m vs))" using n b by simp
  then have ok: "recompute_hash (host_zone H) b = block_hash_of b"
      "case verifier_pubkeys V (src_zone msg) of None \<Rightarrow> True | Some key \<Rightarrow> is_signed_by (host_zone H) b key"
    using accept_run_ok unfolding msg V by blast+
  show ?thesis
    unfolding msg(1) [symmetric] by (rule rederive_iff [OF wait ok(1) msg(2) [symmetric] ok(2)])
qed

lemma recorded_rederives:
  fixes H :: "'h host_env_scheme"
  assumes codec: "\<And>msg. xc_inbox_of_words (host_cross H) (xc_inbox_words (host_cross H) (Dispatch msg)) = Some (Dispatch msg)"
    and small: "\<And>b. b \<in> set bs \<Longrightarrow> length (body_transactions (block_body b)) \<le> 2 ^ 32"
    and self: "verifier_self_zone V = ctx_self_zone ctx"
    and rederive: "\<And>n msg tx. n < length bs \<Longrightarrow> src_zone msg = ctx_peer_zone ctx \<Longrightarrow>
      src_block_id msg = block_id_of (bs ! n) \<Longrightarrow> rederive H V peers_at msg = Inr tx \<longleftrightarrow>
      (\<exists>p em. emission_at H (verifier_self_zone V) (bs ! n) (unat (src_tx_index msg)) = Some (p, em) \<and>
        tx = dispatch_at H (ctx_peer_zone ctx) (bs ! n) (src_tx_index msg) p em)"
    and p: "p \<in> set (run_deliveries H ctx bs)"
  shows "\<exists>tx msg. dispatch_transaction p = host_tx_bytes H (PublicTx tx) \<and>
    decode_dispatch H (PublicTx tx) = Some msg \<and> rederive H V peers_at msg = Inr tx"
proof -
  from p obtain b where "b \<in> set bs" "p \<in> set (block_deliveries H ctx b)" by (auto simp: run_deliveries_def)
  then obtain n where n: "n < length bs" "p \<in> set (block_deliveries H ctx (bs ! n))" by (auto simp: in_set_conv_nth)
  let ?b = "bs ! n"
  have "length (body_transactions (block_body ?b)) \<le> 2 ^ 32" using small n(1) nth_mem by blast
  with n(2) obtain i prog em where e: "i < 2 ^ 32" "emission_at H (ctx_self_zone ctx) ?b i = Some (prog, em)"
    "dispatch_transaction p = host_tx_bytes H (PublicTx (dispatch_at H (ctx_peer_zone ctx) ?b (of_nat i) prog em))"
    by (elim block_delivery) (auto simp: recorded_def)
  define msg where "msg = message_of_emission (source_at (ctx_peer_zone ctx) ?b (of_nat i) prog)
    (emission_program em) (emission_payload em)"
  have fields: "src_zone msg = ctx_peer_zone ctx" "src_block_id msg = block_id_of ?b" "src_tx_index msg = of_nat i"
    by (simp_all add: msg_def message_of_emission_def source_at_def)
  have "unat (of_nat i :: u32) = i" using e(1) by (simp add: unsigned_of_nat take_bit_nat_eq_self)
  with rederive [OF n(1) fields(1,2)] e(2) self fields(3)
  have "rederive H V peers_at msg = Inr (dispatch_at H (ctx_peer_zone ctx) ?b (of_nat i) prog em)" by auto
  with e(3) decode_dispatch_built [OF codec] show ?thesis by (auto simp: msg_def)
qed

lemma rederived_recorded:
  assumes codec: "\<And>msg. xc_inbox_of_words (host_cross H) (xc_inbox_words (host_cross H) (Dispatch msg)) = Some (Dispatch msg)"
    and self: "verifier_self_zone V = ctx_self_zone ctx"
    and em: "emission_at H (verifier_self_zone V) (bs ! n) (unat (src_tx_index msg)) = Some (p, em)"
    and tx: "decode_dispatch H (PublicTx (dispatch_at H (ctx_peer_zone ctx) (bs ! n) (src_tx_index msg) p em)) = Some msg"
    and n: "n < length bs" and target: "target_program_id msg \<noteq> host_inbox_id H"
  shows "message_key (xc_sha256 (host_cross H)) (src_zone msg) (src_block_id msg) (src_tx_index msg)
    \<in> dispatch_key ` set (run_deliveries H ctx bs)"
proof -
  have small: "unat (src_tx_index msg) < 2 ^ 32" using unsigned_less [of "src_tx_index msg", where 'a = nat] by simp
  have msg: "msg = message_of_emission (source_at (ctx_peer_zone ctx) (bs ! n) (src_tx_index msg) p)
      (emission_program em) (emission_payload em)"
    using tx unfolding decode_dispatch_built [OF codec] by simp
  have fields: "src_zone msg = ctx_peer_zone ctx" "src_block_id msg = block_id_of (bs ! n)"
    "target_program_id msg = emission_program em"
    by (subst msg, simp add: message_of_emission_def source_at_def)+
  have "message_key (xc_sha256 (host_cross H)) (ctx_peer_zone ctx) (block_id_of (bs ! n))
      (of_nat (unat (src_tx_index msg))) \<in> dispatch_key ` set (block_deliveries H ctx (bs ! n))"
    using emission_delivered [OF em [unfolded self] small] target fields(3) by simp
  moreover have "set (block_deliveries H ctx (bs ! n)) \<subseteq> set (run_deliveries H ctx bs)"
    using nth_mem [OF n] by (auto simp: run_deliveries_def)
  ultimately show ?thesis using fields by auto
qed

lemma accepted_below_tip:
  assumes free: "collision_free (host_zone H) (stream_blocks H vs)"
    and tip: "run_head (accept_run H pubkey [] (take m vs)) = Some t" and i: "0 < i" "i \<le> peer_block_id t"
  obtains n where "n < length (accept_run H pubkey [] (take m vs))" "i = block_id_of (accept_run H pubkey [] (take m vs) ! n)"
proof -
  let ?run = "accept_run H pubkey [] (take m vs)"
  have holds: "cache_holds (host_zone H) (stream_blocks H vs)
      (peer_chain_of (fst (read_peer_stream H 0 pubkey Map.empty None (take m vs))) 0) ?run"
    by (rule read_stream_holds [OF free]) (intro stream_blocks_mono set_take_subset)
  have "unat (peer_block_id t) = length ?run" using run_length_head [OF holds] by (simp add: tip run_length_def)
  with i have n: "unat i - 1 < length ?run" "Suc (unat i - 1) = unat i"
    by (auto simp: word_le_nat_alt word_less_nat_alt)
  with cache_held(1) [OF holds n(1)] that [of "unat i - 1"] show ?thesis by (simp add: word_unat_eq_iff)
qed

text \<open>
  C39: watcher and verifier agree on a peer chain. The watcher makes its first pass, from the genesis
  of the peer, over the first \<open>m\<close> messages of the peer's channel, and no record stays undelivered in
  it. The indexer's verifier polls a cache whose reader has read any part \<open>k n\<close> of the channel at its
  \<open>n\<close>-th poll, and at least the first \<open>m\<close> messages before the timeout. Then every dispatch that the
  pass added to the store is re-derived by the verifier, byte for byte; and every dispatch from a
  block the watcher accepted that re-derives is on the watcher's record, unless it targets the
  sequencer-only inbox.
\<close>

theorem watcher_verifier_agree:
  fixes H :: "'h host_env_scheme"
  assumes codec: "\<And>msg. xc_inbox_of_words (host_cross H) (xc_inbox_words (host_cross H) (Dispatch msg)) = Some (Dispatch msg)"
    and free: "collision_free (host_zone H) (stream_blocks H vs)"
    and small: "\<And>b. b \<in> stream_blocks H vs \<Longrightarrow> length (body_transactions (block_body b)) \<le> 2 ^ 32"
    and watch: "watch_peer_stream H ctx d cursor None (take m vs) = (outcome, r)" "\<And>s. outcome \<noteq> Undelivered s"
    and V: "verifier_self_zone V = ctx_self_zone ctx" "verifier_pubkeys V (ctx_peer_zone ctx) = ctx_pubkey ctx"
    and polls: "\<And>n. peers_at n = fst (read_peer_stream H (ctx_peer_zone ctx) (ctx_pubkey ctx) Map.empty None (take (k n) vs))"
    and caught_up: "j \<le> PEER_BLOCK_WAIT_TIMEOUT" "m \<le> k j"
  shows "(\<forall>key p. map_of (db_dispatches (run_db r)) key = Some p \<longrightarrow> map_of (db_dispatches d) key = Some p \<or>
      (\<exists>tx msg. dispatch_transaction p = host_tx_bytes H (PublicTx tx) \<and>
        decode_dispatch H (PublicTx tx) = Some msg \<and> rederive H V peers_at msg = Inr tx)) \<and>
    (\<forall>tx msg t. decode_dispatch H (PublicTx tx) = Some msg \<and> src_zone msg = ctx_peer_zone ctx \<and>
      rederive H V peers_at msg = Inr tx \<and> target_program_id msg \<noteq> host_inbox_id H \<and>
      run_tip r = Some t \<and> 0 < src_block_id msg \<and> src_block_id msg \<le> peer_block_id t \<longrightarrow>
      map_of (db_dispatches (run_db r)) (message_key (xc_sha256 (host_cross H)) (src_zone msg) (src_block_id msg)
        (src_tx_index msg)) \<noteq> None)"
proof -
  let ?run = "accept_run H (ctx_pubkey ctx) [] (take m vs)"
  have blocks: "set ?run \<subseteq> stream_blocks H vs"
    using accept_run_blocks stream_blocks_mono [OF set_take_subset] by blast
  have W: "run_tip r = run_head ?run"
    "map_of (db_dispatches (run_db r)) = map_of (keyed (run_deliveries H ctx ?run)) ++ map_of (db_dispatches d)"
    using watch_stream_holds [OF watch] by (simp_all add: watcher_holds_def)
  note rederive = rederive_accepted [where k = k and peers_at = peers_at, OF free V(2) polls caught_up _ refl]
  have sound: "\<exists>tx msg. dispatch_transaction p = host_tx_bytes H (PublicTx tx) \<and>
      decode_dispatch H (PublicTx tx) = Some msg \<and> rederive H V peers_at msg = Inr tx"
    if "map_of (keyed (run_deliveries H ctx ?run)) key = Some p" for key p
  proof (rule recorded_rederives [OF codec _ V(1) rederive])
    show "p \<in> set (run_deliveries H ctx ?run)" using map_of_SomeD [OF that] by auto
  qed (use small blocks in auto)
  have complete: "message_key (xc_sha256 (host_cross H)) (src_zone msg) (src_block_id msg) (src_tx_index msg)
      \<in> dispatch_key ` set (run_deliveries H ctx ?run)"
    if hyp: "decode_dispatch H (PublicTx tx) = Some msg" "src_zone msg = ctx_peer_zone ctx"
      "rederive H V peers_at msg = Inr tx" "target_program_id msg \<noteq> host_inbox_id H"
      "run_tip r = Some t" "0 < src_block_id msg" "src_block_id msg \<le> peer_block_id t" for tx msg t
  proof -
    obtain n where n: "n < length ?run" "src_block_id msg = block_id_of (?run ! n)"
      using hyp(5) unfolding W(1) by (rule accepted_below_tip [OF free _ hyp(6,7)])
    from iffD1 [OF rederive [OF n(1) hyp(2) n(2)] hyp(3)] obtain p em where em:
      "emission_at H (verifier_self_zone V) (?run ! n) (unat (src_tx_index msg)) = Some (p, em)"
      "tx = dispatch_at H (ctx_peer_zone ctx) (?run ! n) (src_tx_index msg) p em" by auto
    show ?thesis by (rule rederived_recorded [OF codec V(1) em(1) hyp(1) [unfolded em(2)] n(1) hyp(4)])
  qed
  show ?thesis
  proof (intro conjI allI impI)
    fix key p
    assume "map_of (db_dispatches (run_db r)) key = Some p"
    then have "map_of (db_dispatches d) key = Some p \<or> map_of (keyed (run_deliveries H ctx ?run)) key = Some p"
      unfolding W(2) by (auto simp: map_add_Some_iff)
    with sound show "map_of (db_dispatches d) key = Some p \<or>
      (\<exists>tx msg. dispatch_transaction p = host_tx_bytes H (PublicTx tx) \<and>
        decode_dispatch H (PublicTx tx) = Some msg \<and> rederive H V peers_at msg = Inr tx)" by blast
  next
    fix tx msg t
    assume "decode_dispatch H (PublicTx tx) = Some msg \<and> src_zone msg = ctx_peer_zone ctx \<and>
      rederive H V peers_at msg = Inr tx \<and> target_program_id msg \<noteq> host_inbox_id H \<and>
      run_tip r = Some t \<and> 0 < src_block_id msg \<and> src_block_id msg \<le> peer_block_id t"
    with complete have "message_key (xc_sha256 (host_cross H)) (src_zone msg) (src_block_id msg) (src_tx_index msg)
      \<in> dispatch_key ` set (run_deliveries H ctx ?run)" by blast
    then show "map_of (db_dispatches (run_db r)) (message_key (xc_sha256 (host_cross H)) (src_zone msg)
        (src_block_id msg) (src_tx_index msg)) \<noteq> None"
      unfolding W(2) by (simp only: map_add_None map_of_eq_None_iff set_map image_image fst_conv) blast
  qed
qed

end
