(* ===== verification/StoreUpdates.thy ===== *)
theory StoreUpdates
  imports ProductionSafety PeerSafety
begin

text \<open>
  What one update of the sequencer's store does to the chain it keeps. The store skips blocks it
  already holds and keeps only the last block it is given under an id, so a chain is found
  again on disk up to the signature and status of its blocks, not block for block.
\<close>

subsection \<open>Blocks with the same contents\<close>

text \<open>Blocks of the same contents and hash; their signature and finality status may differ.\<close>

definition same_block :: "block \<Rightarrow> block \<Rightarrow> bool" where
  "same_block b c \<longleftrightarrow> hashable_of_block b = hashable_of_block c \<and>
    header_hash (block_header b) = header_hash (block_header c)"

abbreviation id_of :: "block \<Rightarrow> block_id" where
  "id_of b \<equiv> header_block_id (block_header b)"

lemma same_block_refl [simp]: "same_block b b"
  by (simp add: same_block_def)

lemma same_block_sym: "same_block b c \<Longrightarrow> same_block c b"
  by (simp add: same_block_def)

lemma same_block_trans: "same_block a b \<Longrightarrow> same_block b c \<Longrightarrow> same_block a c"
  by (simp add: same_block_def)

lemma same_block_status [simp]:
  "same_block (b\<lparr>bedrock_status := st\<rparr>) c = same_block b c" "same_block c (b\<lparr>bedrock_status := st\<rparr>) = same_block c b"
  by (simp_all add: same_block_def hashable_of_block_def)

lemma same_block_fields:
  assumes "same_block b c"
  shows "id_of b = id_of c" "tip_of_block b = tip_of_block c" "recompute_hash Z b = recompute_hash Z c"
    "header_prev_hash (block_header b) = header_prev_hash (block_header c)"
    "header_hash (block_header b) = header_hash (block_header c)"
  using assms by (simp_all add: same_block_def hashable_of_block_def tip_of_block_def recompute_hash_def)

lemma same_block_applies:
  assumes "same_block b c"
  shows "apply_block Z t b s = apply_block Z t c s"
proof -
  have "validate_against_tip Z t b = validate_against_tip Z t c"
    using same_block_fields [OF assms] by (simp add: validate_against_tip_def Let_def split: option.splits)
  moreover have "apply_block_to_state Z b s = apply_block_to_state Z c s"
    using assms by (intro apply_block_to_state_cong) (simp add: same_block_def)
  ultimately show ?thesis by (simp add: apply_block_def)
qed

lemma same_blocks_replay:
  "list_all2 same_block bs cs \<Longrightarrow> replay_blocks Z s t bs = replay_blocks Z s t cs"
  by (induction bs cs arbitrary: s t rule: list_all2_induct)
    (simp_all add: same_block_applies same_block_fields(2) split: sum.splits)

text \<open>A block among the given ones whose hash is the hash of its contents.\<close>

definition genuine :: "zone_env \<Rightarrow> block set \<Rightarrow> block \<Rightarrow> bool" where
  "genuine Z B b \<longleftrightarrow> hashable_of_block b \<in> hashable_of_block ` B \<and> recompute_hash Z b = header_hash (block_header b)"

lemma genuine_status [simp]: "genuine Z B (b\<lparr>bedrock_status := st\<rparr>) = genuine Z B b"
  by (simp add: genuine_def hashable_of_block_def recompute_hash_def)

lemma genuine_same:
  assumes "collision_free Z B" and "genuine Z B b" and "genuine Z B c"
    and "header_hash (block_header b) = header_hash (block_header c)"
  shows "same_block b c"
proof -
  have "compute_hash Z (hashable_of_block b) = compute_hash Z (hashable_of_block c)"
    using assms(2-4) by (simp add: genuine_def recompute_hash_def)
  with assms have "hashable_of_block b = hashable_of_block c"
    unfolding collision_free_def genuine_def by (blast dest: inj_onD)
  with assms(4) show ?thesis by (simp add: same_block_def)
qed

lemma applied_genuine: "b \<in> B \<Longrightarrow> apply_block Z t b s = Inr s' \<Longrightarrow> genuine Z B b"
  using apply_block_cases(1) by (auto simp: genuine_def)

subsection \<open>Ids along a chain\<close>

lemma replay_sorted_ids:
  "replay_blocks Z s t bs = Some r \<Longrightarrow> sorted_wrt (<) (map id_of bs)"
proof (induction bs arbitrary: s t)
  case (Cons b bs)
  obtain s' t' where r: "r = (s', t')" by force
  obtain s1 where run: "replay_blocks Z s1 (Some (tip_of_block b)) bs = Some (s', t')"
    using Cons.prems by (auto simp: r split: sum.splits)
  have "id_of b < id_of c" if "c \<in> set bs" for c
    using replay_ids [OF run that] by (simp add: tip_of_block_def)
  with Cons.IH [OF run [folded r]] show ?case by simp
qed simp

lemma replay_id_unique:
  assumes "replay_blocks Z s t bs = Some r" and "b \<in> set bs" "c \<in> set bs" "id_of b = id_of c"
  shows "b = c"
proof -
  have "distinct (map id_of bs)"
    using replay_sorted_ids [OF assms(1)] strict_sorted_iff by blast
  with assms(2-4) show ?thesis by (simp add: distinct_map inj_on_def)
qed

definition boundary :: "tip option \<Rightarrow> block_id" where
  "boundary t = (case t of None \<Rightarrow> 0 | Some x \<Rightarrow> tip_block_id x)"

text \<open>The ids of a chain are all the ids between its two tips.\<close>

lemma replay_id_range:
  "replay_blocks Z s t bs = Some (s', t') \<Longrightarrow>
    unat ` id_of ` set bs = {unat (boundary t)<..unat (boundary t')} \<and> unat (boundary t) \<le> unat (boundary t')"
proof (induction bs arbitrary: s t)
  case (Cons b bs)
  obtain s1 where run: "apply_block Z t b s = Inr s1" "replay_blocks Z s1 (Some (tip_of_block b)) bs = Some (s', t')"
    using Cons.prems by (auto split: sum.splits)
  have "unat (id_of b) = unat (boundary t) + 1"
    using apply_block_cases(2) [OF run(1)]
    by (auto simp: boundary_def GENESIS_BLOCK_ID_def split: option.splits)
  with Cons.IH [OF run(2)] show ?case
    by (auto simp: boundary_def [of "Some _"] tip_of_block_def)
qed simp

lemma replay_in_range:
  assumes "replay_blocks Z s t bs = Some (s', t')"
  shows "i \<in> id_of ` set bs \<longleftrightarrow> boundary t < i \<and> i \<le> boundary t'"
proof -
  have "i \<in> id_of ` set bs \<longleftrightarrow> unat i \<in> unat ` id_of ` set bs"
    by (auto simp: word_unat_eq_iff image_iff)
  also have "\<dots> \<longleftrightarrow> boundary t < i \<and> i \<le> boundary t'"
    using replay_id_range [OF assms] by (simp add: word_less_nat_alt word_le_nat_alt)
  finally show ?thesis .
qed

subsection \<open>The chain cells of the store\<close>

text \<open>The cells that a restart reads the chain from.\<close>

definition chain_cells :: "db \<Rightarrow> (block_id \<times> block) list \<times> block_id option \<times> block_meta option \<times> v03_state option
    \<times> (v03_state \<times> block_meta) option" where
  "chain_cells d = (db_blocks d, db_last_block d, db_latest_meta d, db_state d, db_final d)"

named_theorems cells_simps

lemma stage_deposits_cells [cells_simps]:
  "chain_cells (snd (stage_pending_deposit_events d new removed w)) = chain_cells w"
  by (simp add: stage_pending_deposit_events_def chain_cells_def Let_def)

lemma stage_dispatches_cells [cells_simps]:
  "chain_cells (snd (stage_removed_dispatches d keys w)) = chain_cells w"
  by (simp add: stage_removed_dispatches_def stage_reconciled_dead_letters_def chain_cells_def Let_def)

lemma stage_withdrawals_cells [cells_simps]:
  "chain_cells (snd (stage_consumed_withdrawals d ws w)) = chain_cells w"
proof -
  have "chain_cells (snd (foldl (\<lambda>(unmatched, w) (k, n).
      let stored = db_withdraws d k;
          matched = min n (case stored of None \<Rightarrow> 0 | Some count \<Rightarrow> saturating_add count 1) in
      (unmatched @ replicate (unat (saturating_sub n matched)) k,
       case Option.bind stored (\<lambda>count. checked_sub count n) of
         Some count \<Rightarrow> w\<lparr>db_withdraws := (db_withdraws w)(k \<mapsto> count)\<rparr>
       | None \<Rightarrow> if stored \<noteq> None then w\<lparr>db_withdraws := (db_withdraws w)(k := None)\<rparr> else w))
      (u, w) xs)) = chain_cells w" for u xs
    by (induction xs arbitrary: u w)
      (auto simp: Let_def chain_cells_def split: option.splits)
  then show ?thesis by (simp add: stage_consumed_withdrawals_def)
qed

lemma stage_intents_cells:
  "stage_new_withdraw_intents d ws w = Inr w' \<Longrightarrow> chain_cells w' = chain_cells w"
proof -
  have "try_fold (\<lambda>w (k, n).
      expect_some (checked_add (case db_withdraws d k of None \<Rightarrow> 0 | Some count \<Rightarrow> count) n)
        WithdrawCounterOverflow (\<lambda>next. Inr (w\<lparr>db_withdraws := (db_withdraws w)(k \<mapsto> next)\<rparr>))) w xs = Inr w'
      \<Longrightarrow> chain_cells w' = chain_cells w" for xs
    by (induction xs arbitrary: w) (auto simp: result_simps chain_cells_def)
  then show "stage_new_withdraw_intents d ws w = Inr w' \<Longrightarrow> chain_cells w' = chain_cells w"
    by (simp add: stage_new_withdraw_intents_def)
qed

subsection \<open>The blocks of an update\<close>

definition well_keyed :: "(block_id \<times> block) list \<Rightarrow> bool" where
  "well_keyed xs \<longleftrightarrow> distinct (map fst xs) \<and> (\<forall>(i, b) \<in> set xs. i = id_of b)"

lemma well_keyed_Nil [simp]: "well_keyed []"
  by (simp add: well_keyed_def)

lemma set_update_cases: "x \<in> set (AList.update k v xs) \<Longrightarrow> x = (k, v) \<or> x \<in> set xs"
  by (induction xs) (auto split: if_splits)

lemma well_keyed_update: "well_keyed xs \<Longrightarrow> well_keyed (AList.update (id_of b) b xs)"
  by (auto simp: well_keyed_def distinct_update dest!: set_update_cases)

lemma well_keyed_filter: "well_keyed xs \<Longrightarrow> well_keyed (filter P xs)"
  by (auto simp: well_keyed_def distinct_map_filter)

lemma well_keyed_lookup: "well_keyed xs \<Longrightarrow> map_of xs i = Some b \<longleftrightarrow> (i, b) \<in> set xs"
  by (simp add: well_keyed_def)

lemma well_keyed_id: "well_keyed xs \<Longrightarrow> map_of xs i = Some b \<Longrightarrow> id_of b = i"
  by (auto simp: well_keyed_def dest!: map_of_SomeD)

lemma put_payloads:
  assumes "well_keyed xs" and "well_keyed (db_blocks w)"
  shows "map_of (db_blocks (fold (\<lambda>(_, b). put_block_payload b) xs w)) = map_of (db_blocks w) ++ map_of xs \<and>
    well_keyed (db_blocks (fold (\<lambda>(_, b). put_block_payload b) xs w))"
  using assms
proof (induction xs arbitrary: w)
  case (Cons x xs)
  obtain b where x: "x = (id_of b, b)" using Cons.prems(1) by (cases x) (auto simp: well_keyed_def)
  have xs: "well_keyed xs" "map_of xs (id_of b) = None"
    using Cons.prems(1) by (auto simp: well_keyed_def x map_of_eq_None_iff)
  have keyed: "well_keyed (db_blocks (put_block_payload b w))"
    using Cons.prems(2) by (simp add: put_block_payload_def well_keyed_update)
  show ?case using Cons.IH [OF xs(1) keyed] xs(2)
    by (auto simp: x put_block_payload_def update_conv' map_add_def fun_eq_iff split: option.splits)
qed simp

lemma put_payloads_cells [simp]:
  "db_last_block (fold (\<lambda>(_, b). put_block_payload b) xs w) = db_last_block w"
  "db_latest_meta (fold (\<lambda>(_, b). put_block_payload b) xs w) = db_latest_meta w"
  "db_state (fold (\<lambda>(_, b). put_block_payload b) xs w) = db_state w"
  "db_final (fold (\<lambda>(_, b). put_block_payload b) xs w) = db_final w"
  by (induction xs arbitrary: w) (auto simp: put_block_payload_def)

definition blocks_to_write :: "db \<Rightarrow> store_update_args \<Rightarrow> (block_id \<times> block) list" where
  "blocks_to_write d u = (case up_finalized_up_to u of None \<Rightarrow> foldl (stage_block d) [] (up_blocks u)
    | Some l \<Rightarrow> collect_finalized_up_to d l (foldl (stage_block d) [] (up_blocks u)))"

definition chain_changed :: "db \<Rightarrow> store_update_args \<Rightarrow> block_id \<Rightarrow> bool" where
  "chain_changed d u last_block \<longleftrightarrow> up_final_snapshot u \<noteq> None \<or>
    (case up_head_tip u of None \<Rightarrow> False | Some tip \<Rightarrow> meta_id tip \<noteq> last_block) \<or>
    list_ex (stages_block d) (up_blocks u)"

text \<open>The steps of an update, in the order the code stages them.\<close>

lemma store_update_steps:
  assumes "store_update d u = Inr (out, d')"
  obtains last_block c a w w' where "db_last_block d = Some last_block"
    "w = snd (stage_consumed_withdrawals d (up_consumed_withdrawals u)
      (snd (stage_removed_dispatches d (up_remove_dispatch_records u)
      (snd (stage_pending_deposit_events d (up_new_deposit_events u) (up_remove_deposit_records u)
      (fold (\<lambda>(_, b). put_block_payload b) (blocks_to_write d u) (d\<lparr>db_checkpoint := c, db_anchor := a\<rparr>)))))))"
    "stage_new_withdraw_intents d (up_new_withdraw_intents u) w = Inr w'"
    "d' = (case up_head_tip u of
        Some tip \<Rightarrow> if chain_changed d u last_block then pin_head last_block (blocks_to_write d u) u tip w' else w'
      | None \<Rightarrow> w')"
proof -
  obtain last_block where last: "db_last_block d = Some last_block"
    using assms by (auto simp: store_update_def get_meta_last_block_in_db_def split: option.splits)
  define w0 where "w0 = d\<lparr>db_checkpoint := (case up_checkpoint u of Some bs \<Rightarrow> Some bs | None \<Rightarrow> db_checkpoint d),
               db_anchor := (case up_zone_anchor u of Some a \<Rightarrow> Some a | None \<Rightarrow> db_anchor d)\<rparr>"
  define w1 where "w1 = fold (\<lambda>(_, b). put_block_payload b) (blocks_to_write d u) w0"
  obtain accepted w2 where w2: "stage_pending_deposit_events d (up_new_deposit_events u) (up_remove_deposit_records u) w1
      = (accepted, w2)" by force
  define w3 where "w3 = snd (stage_removed_dispatches d (up_remove_dispatch_records u) w2)"
  obtain unmatched w4 where w4: "stage_consumed_withdrawals d (up_consumed_withdrawals u) w3 = (unmatched, w4)" by force
  have "and_then (stage_new_withdraw_intents d (up_new_withdraw_intents u) w4) (\<lambda>w5.
      Inr (\<lparr>accepted_deposits = accepted, unmatched_withdrawals = unmatched\<rparr>, case up_head_tip u of
          Some tip \<Rightarrow> if chain_changed d u last_block then pin_head last_block (blocks_to_write d u) u tip w5 else w5
        | None \<Rightarrow> w5)) = Inr (out, d')"
    by (rule assms [unfolded store_update_def get_meta_last_block_in_db_def last option.case result_steps Let_def,
          folded blocks_to_write_def chain_changed_def w0_def w1_def, unfolded w2 prod.case, folded w3_def,
          unfolded w4 prod.case])
  then obtain w5 where w5: "stage_new_withdraw_intents d (up_new_withdraw_intents u) w4 = Inr w5"
      "d' = (case up_head_tip u of
          Some tip \<Rightarrow> if chain_changed d u last_block then pin_head last_block (blocks_to_write d u) u tip w5 else w5
        | None \<Rightarrow> w5)"
    by (auto simp: result_simps)
  have "w4 = snd (stage_consumed_withdrawals d (up_consumed_withdrawals u)
      (snd (stage_removed_dispatches d (up_remove_dispatch_records u)
      (snd (stage_pending_deposit_events d (up_new_deposit_events u) (up_remove_deposit_records u) w1)))))"
    by (simp add: w2 w4 flip: w3_def)
  from that [OF last this [unfolded w1_def w0_def] w5] show thesis .
qed

lemma store_update_cells:
  assumes "store_update d u = Inr (out, d')"
  obtains last_block w where "db_last_block d = Some last_block"
    "chain_cells w = chain_cells (fold (\<lambda>(_, b). put_block_payload b) (blocks_to_write d u) d)"
    "d' = (case up_head_tip u of
        Some tip \<Rightarrow> if chain_changed d u last_block then pin_head last_block (blocks_to_write d u) u tip w else w
      | None \<Rightarrow> w)"
proof (rule store_update_steps [OF assms])
  fix last_block c a w w'
  assume last: "db_last_block d = Some last_block"
    and w: "w = snd (stage_consumed_withdrawals d (up_consumed_withdrawals u)
      (snd (stage_removed_dispatches d (up_remove_dispatch_records u)
      (snd (stage_pending_deposit_events d (up_new_deposit_events u) (up_remove_deposit_records u)
      (fold (\<lambda>(_, b). put_block_payload b) (blocks_to_write d u) (d\<lparr>db_checkpoint := c, db_anchor := a\<rparr>)))))))"
    and w': "stage_new_withdraw_intents d (up_new_withdraw_intents u) w = Inr w'"
    and d': "d' = (case up_head_tip u of
        Some tip \<Rightarrow> if chain_changed d u last_block then pin_head last_block (blocks_to_write d u) u tip w' else w'
      | None \<Rightarrow> w')"
  have "db_blocks (fold (\<lambda>(_, b). put_block_payload b) xs v)
      = fold (\<lambda>(_, b). AList.update (id_of b) b) xs (db_blocks v)" for xs :: "(block_id \<times> block) list" and v :: db
    by (induction xs arbitrary: v) (auto simp: put_block_payload_def)
  then have "chain_cells w' = chain_cells (fold (\<lambda>(_, b). put_block_payload b) (blocks_to_write d u) d)"
    using stage_intents_cells [OF w'] by (simp add: w cells_simps) (simp add: chain_cells_def)
  from that [OF last this d'] show thesis .
qed

subsection \<open>What an update writes under an id\<close>

lemma or_insert_lookup: "map_of (or_insert k v al) i = (if i = k \<and> map_of al k = None then Some v else map_of al i)"
  by (simp add: or_insert_def update_conv')

lemma collect_lookup:
  fixes W :: "(block_id \<times> block) list"
  defines "collect \<equiv> fold (\<lambda>b. or_insert (id_of b) (b\<lparr>bedrock_status := Finalized\<rparr>))"
  assumes "well_keyed W"
  shows "well_keyed (collect bs W) \<and> (case map_of W i of Some b \<Rightarrow> map_of (collect bs W) i = Some b
    | None \<Rightarrow> map_of (collect bs W) i = None \<or>
        (\<exists>b \<in> set bs. id_of b = i \<and> map_of (collect bs W) i = Some (b\<lparr>bedrock_status := Finalized\<rparr>)))"
  using assms(2)
proof (induction bs arbitrary: W)
  case (Cons b bs)
  let ?W = "or_insert (id_of b) (b\<lparr>bedrock_status := Finalized\<rparr>) W"
  have "well_keyed ?W"
    using Cons.prems well_keyed_update [of W "b\<lparr>bedrock_status := Finalized\<rparr>"] by (simp add: or_insert_def)
  from Cons.IH [OF this] show ?case
    by (auto simp: collect_def or_insert_lookup split: option.splits if_splits)
qed (simp add: collect_def split: option.splits)

text \<open>The block under an id after the update: the staged one, else the one on disk.\<close>

definition written :: "db \<Rightarrow> store_update_args \<Rightarrow> block_id \<Rightarrow> block option" where
  "written d u = map_of (db_blocks d) ++ map_of (blocks_to_write d u)"

lemma stage_block_keyed:
  assumes "well_keyed (db_blocks d)" and "well_keyed W"
  shows "well_keyed (stage_block d W x)"
proof -
  obtain b fin where x: "x = (b, fin)" by force
  have id: "id_of c = id_of b" if "already_stored d b = Some c" for c
    using that assms(1) by (auto simp: already_stored_def get_block_def split: option.splits if_splits intro: well_keyed_id)
  define b' where "b' = (case already_stored d b of Some stored \<Rightarrow> stored | None \<Rightarrow> b)"
  define b'' where "b'' = (if fin then b'\<lparr>bedrock_status := Finalized\<rparr> else b')"
  have "stage_block d W x = (if already_stored d b \<noteq> None \<and> \<not> fin then W else AList.update (id_of b'') b'' W)"
    by (simp add: stage_block_def x b'_def b''_def Let_def)
  with well_keyed_update [OF assms(2), of b''] assms(2) show ?thesis by simp
qed

lemma stage_blocks_keyed:
  "well_keyed (db_blocks d) \<Longrightarrow> well_keyed W \<Longrightarrow> well_keyed (foldl (stage_block d) W xs)"
  by (induction xs arbitrary: W) (simp_all add: stage_block_keyed)

lemma blocks_to_write_keyed:
  assumes "well_keyed (db_blocks d)"
  shows "well_keyed (blocks_to_write d u)"
  using stage_blocks_keyed [OF assms well_keyed_Nil, of "up_blocks u"]
    collect_lookup [of "foldl (stage_block d) [] (up_blocks u)"]
  by (auto simp: blocks_to_write_def collect_finalized_up_to_def split: option.splits)

text \<open>\<open>b\<close> is the block \<open>a\<close>, or the one that the disk holds under its id and hash, up to its status.\<close>

definition written_for :: "db \<Rightarrow> block \<Rightarrow> block \<Rightarrow> bool" where
  "written_for d a b \<longleftrightarrow> (\<exists>st. b = a\<lparr>bedrock_status := st\<rparr>) \<or>
    (\<exists>c st. already_stored d a = Some c \<and> b = c\<lparr>bedrock_status := st\<rparr>)"

lemma stage_adopted_lookup:
  "map_of (foldl (stage_block d) W (map (\<lambda>b. (b, False)) applied)) i =
    (case List.find (\<lambda>b. id_of b = i \<and> already_stored d b = None) (rev applied) of
       Some a \<Rightarrow> Some a | None \<Rightarrow> map_of W i)"
  by (induction applied rule: rev_induct)
    (auto simp: stage_block_def update_conv' Let_def split: option.splits)

lemma status_self: "\<exists>st. b = b\<lparr>bedrock_status := st\<rparr>"
  by (rule exI [of _ "bedrock_status b"]) simp

lemma already_stored_id: "well_keyed (db_blocks d) \<Longrightarrow> already_stored d b = Some c \<Longrightarrow> id_of c = id_of b"
  by (auto simp: already_stored_def get_block_def split: option.splits if_splits intro: well_keyed_id)

lemma stage_finalized_lookup:
  assumes "well_keyed (db_blocks d)"
  shows "case List.find (\<lambda>b. id_of b = i) (rev advanced) of
      Some f \<Rightarrow> \<exists>b. map_of (foldl (stage_block d) W (map (\<lambda>b. (b, True)) advanced)) i = Some b \<and> written_for d f b
    | None \<Rightarrow> map_of (foldl (stage_block d) W (map (\<lambda>b. (b, True)) advanced)) i = map_of W i"
proof (induction advanced rule: rev_induct)
  case (snoc f fs)
  define b where "b = (case already_stored d f of Some stored \<Rightarrow> stored | None \<Rightarrow> f)\<lparr>bedrock_status := Finalized\<rparr>"
  have b: "id_of b = id_of f" "written_for d f b"
  proof -
    show "id_of b = id_of f"
      using already_stored_id [OF assms, of f] by (simp add: b_def split: option.splits)
    show "written_for d f b"
    proof (cases "already_stored d f")
      case None
      then show ?thesis unfolding written_for_def b_def by (intro disjI1 exI [of _ Finalized]) simp
    next
      case (Some c)
      then show ?thesis unfolding written_for_def b_def by (intro disjI2 exI [of _ c] exI [of _ Finalized]) simp
    qed
  qed
  have "stage_block d V (f, True) = AList.update (id_of b) b V" for V
    by (simp add: stage_block_def b_def Let_def)
  then have step: "map_of (foldl (stage_block d) W (map (\<lambda>b. (b, True)) (fs @ [f])))
      = (map_of (foldl (stage_block d) W (map (\<lambda>b. (b, True)) fs)))(id_of f \<mapsto> b)"
    by (simp add: update_conv' b(1))
  show ?case
  proof (cases "id_of f = i")
    case True
    with b(2) step show ?thesis by simp
  next
    case False
    with snoc step show ?thesis by (simp split: option.splits)
  qed
qed simp

text \<open>The last block that the chain took under an id: a finalized one counts over an adopted one.\<close>

definition placed :: "block list \<Rightarrow> block list \<Rightarrow> block_id \<Rightarrow> block option" where
  "placed applied advanced i = (case List.find (\<lambda>b. id_of b = i) (rev advanced) of
      Some f \<Rightarrow> Some f | None \<Rightarrow> List.find (\<lambda>b. id_of b = i) (rev applied))"

text \<open>
  An update skips an adopted block that the disk holds already, and stages the others. It is torn
  when it stages a block and then takes one of the same id that the disk holds: the disk keeps
  the staged one, while the chain has the other.
\<close>

fun untorn :: "db \<Rightarrow> block list \<Rightarrow> bool" where
  "untorn d [] = True"
| "untorn d (a # as) = ((already_stored d a = None \<longrightarrow>
    (\<forall>b \<in> set as. id_of b = id_of a \<longrightarrow> already_stored d b = None)) \<and> untorn d as)"

lemma untorn_snoc:
  "untorn d (as @ [x]) \<longleftrightarrow> untorn d as \<and>
    (already_stored d x \<noteq> None \<longrightarrow> (\<forall>a \<in> set as. id_of a = id_of x \<longrightarrow> already_stored d a \<noteq> None))"
  by (induction as) auto

lemma untorn_last:
  "untorn d xs \<Longrightarrow> List.find (\<lambda>b. id_of b = i) (rev xs) = Some a \<Longrightarrow>
    List.find (\<lambda>b. id_of b = i \<and> already_stored d b = None) (rev xs) = (if already_stored d a = None then Some a else None)"
proof (induction xs rule: rev_induct)
  case (snoc x xs)
  show ?case
  proof (cases "id_of x = i")
    case True
    with snoc.prems show ?thesis by (auto simp: untorn_snoc find_None_iff)
  next
    case False
    with snoc show ?thesis by (simp add: untorn_snoc)
  qed
qed simp

lemma find_set: "List.find P (rev xs) = Some a \<Longrightarrow> a \<in> set xs \<and> P a"
  by (induction xs rule: rev_induct) (auto split: if_splits)

abbreviation staged_blocks :: "db \<Rightarrow> store_update_args \<Rightarrow> (block_id \<times> block) list" where
  "staged_blocks d u \<equiv> foldl (stage_block d) [] (up_blocks u)"

lemma written_kept:
  assumes "well_keyed (db_blocks d)" and "map_of (staged_blocks d u) i = Some b"
  shows "written d u i = Some b"
  using assms(2) collect_lookup [OF stage_blocks_keyed [OF assms(1) well_keyed_Nil], of _ "up_blocks u" i]
  by (auto simp: written_def blocks_to_write_def collect_finalized_up_to_def split: option.splits)

lemma written_unstaged:
  assumes keyed: "well_keyed (db_blocks d)" and none: "map_of (staged_blocks d u) i = None"
  shows "case get_block d i of Some c \<Rightarrow> \<exists>st. written d u i = Some (c\<lparr>bedrock_status := st\<rparr>)
    | None \<Rightarrow> written d u i = None"
proof (cases "map_of (blocks_to_write d u) i")
  case None
  then show ?thesis using status_self by (auto simp: written_def get_block_def map_add_def split: option.splits)
next
  case (Some b)
  with none obtain l where l: "up_finalized_up_to u = Some l"
    by (cases "up_finalized_up_to u") (simp_all add: blocks_to_write_def)
  let ?bs = "filter (\<lambda>b. bedrock_status b = Pending \<and> id_of b \<le> l) (get_all_blocks d)"
  obtain c where c: "c \<in> set ?bs" "id_of c = i" "b = c\<lparr>bedrock_status := Finalized\<rparr>"
    using collect_lookup [OF stage_blocks_keyed [OF keyed well_keyed_Nil], of ?bs "up_blocks u" i] Some none
    by (auto simp: blocks_to_write_def collect_finalized_up_to_def l)
  then have "get_block d i = Some c"
    using keyed by (auto simp: get_all_blocks_def get_block_def well_keyed_lookup well_keyed_def)
  with Some c(3) show ?thesis by (auto simp: written_def)
qed

text \<open>What a torn update does: the disk ends with the staged block, not with the last one applied.\<close>

lemma torn_keeps_staged:
  assumes "well_keyed (db_blocks d)" and "up_blocks u = [(x, False), (y, False)]" and "id_of x = id_of y"
    and "already_stored d x = None" and "already_stored d y \<noteq> None"
  shows "written d u (id_of y) = Some x" and "header_hash (block_header x) \<noteq> header_hash (block_header y)"
proof -
  show "written d u (id_of y) = Some x"
    using stage_adopted_lookup [of d "[]" "[x, y]" "id_of y"] assms by (intro written_kept) auto
  show "header_hash (block_header x) \<noteq> header_hash (block_header y)"
    using assms(3-5) by (auto simp: already_stored_def split: option.splits if_splits)
qed

lemma written_staged:
  assumes keyed: "well_keyed (db_blocks d)" and "untorn d applied"
    and u: "up_blocks u = map (\<lambda>b. (b, False)) applied @ map (\<lambda>b. (b, True)) advanced"
  shows "case placed applied advanced i of
      Some a \<Rightarrow> \<exists>b. written d u i = Some b \<and> written_for d a b
    | None \<Rightarrow> (case get_block d i of
        Some c \<Rightarrow> \<exists>st. written d u i = Some (c\<lparr>bedrock_status := st\<rparr>) | None \<Rightarrow> written d u i = None)"
proof -
  define W where "W = foldl (stage_block d) [] (up_blocks u)"
  note keep = written_kept [where u = u and i = i, OF keyed, folded W_def]
  note fall = written_unstaged [where u = u and i = i, OF keyed, folded W_def]
  have staged: "map_of W i = (case List.find (\<lambda>b. id_of b = i \<and> already_stored d b = None) (rev applied) of
      Some a \<Rightarrow> Some a | None \<Rightarrow> None)" if "List.find (\<lambda>b. id_of b = i) (rev advanced) = None"
    using stage_finalized_lookup [where i = i and advanced = advanced
        and W = "foldl (stage_block d) [] (map (\<lambda>b. (b, False)) applied)", OF keyed]
      stage_adopted_lookup [where d = d and W = "[]" and i = i and applied = applied] that
    by (simp add: W_def u split: option.splits)
  show ?thesis
  proof (cases "List.find (\<lambda>b. id_of b = i) (rev advanced)")
    case (Some f)
    then obtain b where "map_of W i = Some b" "written_for d f b"
      using stage_finalized_lookup [where i = i and advanced = advanced
        and W = "foldl (stage_block d) [] (map (\<lambda>b. (b, False)) applied)", OF keyed]
      by (auto simp: W_def u)
    with keep Some show ?thesis by (auto simp: placed_def)
  next
    case none: None
    show ?thesis
    proof (cases "List.find (\<lambda>b. id_of b = i) (rev applied)")
      case None
      then have "List.find (\<lambda>b. id_of b = i \<and> already_stored d b = None) (rev applied) = None"
        by (auto simp: find_None_iff)
      with staged [OF none] fall None none show ?thesis by (simp add: placed_def)
    next
      case (Some a)
      have "\<exists>b. written d u i = Some b \<and> written_for d a b"
      proof (cases "already_stored d a")
        case None
        then have "written d u i = Some a"
          using staged [OF none] untorn_last [OF assms(2) Some] keep by simp
        then show ?thesis using status_self [of a] by (auto simp: written_for_def)
      next
        case stored: (Some c)
        have "id_of a = i" using Some by (auto simp: find_Some_iff)
        then have "get_block d i = Some c"
          using stored by (auto simp: already_stored_def split: option.splits if_splits)
        then obtain st where "written d u i = Some (c\<lparr>bedrock_status := st\<rparr>)"
          using staged [OF none] untorn_last [OF assms(2) Some] stored fall by auto
        with stored show ?thesis by (auto simp: written_for_def)
      qed
      with none Some show ?thesis by (simp add: placed_def)
    qed
  qed
qed

subsection \<open>What the store keeps of the chain\<close>

definition stored_final :: "v03_state \<Rightarrow> db \<Rightarrow> v03_state \<times> tip option" where
  "stored_final init d = (case db_final d of Some (s, meta) \<Rightarrow> (s, Some (tip_of_meta meta)) | None \<Rightarrow> (init, None))"

text \<open>The blocks \<open>L\<close> lead from the given final tier to the head of the chain state.\<close>

definition chain_from :: "zone_env \<Rightarrow> v03_state \<Rightarrow> tip option \<Rightarrow> chain_state \<Rightarrow> block list \<Rightarrow> bool" where
  "chain_from Z s t cs L \<longleftrightarrow> (\<exists>fs. replay_blocks Z s t fs = Some (final_state cs, final_tip cs) \<and>
    L = fs @ map entry_block (head_blocks cs)) \<and> chain_ok Z cs"

lemma chain_from_replay: "chain_from Z s t cs L \<Longrightarrow> replay_blocks Z s t L = Some (head_state cs, head_tip cs)"
  by (auto simp: chain_from_def chain_ok_def replay_append)

lemma chain_from_here: "chain_ok Z cs \<Longrightarrow> chain_from Z (final_state cs) (final_tip cs) cs (map entry_block (head_blocks cs))"
  unfolding chain_from_def by (intro conjI exI [of _ "[]"]) simp_all

definition finds :: "(block_id \<Rightarrow> block option) \<Rightarrow> block list \<Rightarrow> bool" where
  "finds look L \<longleftrightarrow> (\<forall>b \<in> set L. \<exists>c. look (id_of b) = Some c \<and> same_block c b)"

lemma finds_same:
  assumes "finds look L" and "finds look L'" and "map id_of L = map id_of L'"
  shows "list_all2 same_block L L'"
proof -
  have "same_block (L ! n) (L' ! n)" if n: "n < length L" for n
  proof -
    have len: "length L = length L'" using assms(3) by (metis length_map)
    have id: "id_of (L ! n) = id_of (L' ! n)" using assms(3) n len by (metis nth_map)
    have "L ! n \<in> set L" "L' ! n \<in> set L'" using n len by simp_all
    then obtain c c' where "look (id_of (L ! n)) = Some c" "same_block c (L ! n)"
        "look (id_of (L' ! n)) = Some c'" "same_block c' (L' ! n)"
      using assms(1,2) unfolding finds_def by blast
    with id show ?thesis using same_block_sym same_block_trans by (metis option.inject)
  qed
  with assms(3) show ?thesis by (auto simp: list_all2_conv_all_nth dest: map_eq_imp_length_eq)
qed

lemma replay_same_ids:
  assumes "replay_blocks Z s t L = Some (x, t1)" and "replay_blocks Z s t L' = Some (x', t2)" and "boundary t1 = boundary t2"
  shows "map id_of L = map id_of L'"
proof -
  have "(i \<in> id_of ` set L) = (i \<in> id_of ` set L')" for i
    using replay_in_range [OF assms(1), of i] replay_in_range [OF assms(2), of i] assms(3) by simp
  then have "set (map id_of L) = set (map id_of L')" by auto
  with replay_sorted_ids [OF assms(1)] replay_sorted_ids [OF assms(2)] show ?thesis
    by (intro strict_sorted_equal) auto
qed

lemma same_chain:
  assumes "replay_blocks Z s t L = Some (x, t1)" and "replay_blocks Z s t L' = Some (x', t2)" and "boundary t1 = boundary t2"
    and "finds look L" and "finds look L'"
  shows "x = x' \<and> t1 = t2"
  using same_blocks_replay [OF finds_same [OF assms(4,5) replay_same_ids [OF assms(1-3)]]] assms(1,2) by simp

definition disk_ok :: "zone_env \<Rightarrow> block set \<Rightarrow> tip option \<Rightarrow> block_id \<Rightarrow> db \<Rightarrow> bool" where
  "disk_ok Z B t i d \<longleftrightarrow> well_keyed (db_blocks d) \<and>
    (\<forall>k b. get_block d k = Some b \<longrightarrow> k \<le> i \<and> (boundary t < k \<longrightarrow> genuine Z B b))"

text \<open>
  The store keeps the chain: from its final snapshot, the blocks it holds lead to the head, and
  it has the state, the id and the tip of the head.
\<close>

definition persisted ::
  "zone_env \<Rightarrow> v03_state \<Rightarrow> block set \<Rightarrow> chain_state \<Rightarrow> db \<Rightarrow> bool" where
  "persisted Z init B cs d \<longleftrightarrow>
    (\<exists>s t L tip. stored_final init d = (s, t) \<and> chain_from Z s t cs L \<and> head_tip cs = Some tip \<and>
      unat (tip_block_id tip) + 1 < 2 ^ 64 \<and> db_state d = Some (head_state cs) \<and>
      db_last_block d = Some (tip_block_id tip) \<and> db_latest_meta d = Some (meta_of_tip tip) \<and>
      disk_ok Z B t (tip_block_id tip) d \<and> (\<forall>b \<in> set L. genuine Z B b) \<and> finds (get_block d) L)"

subsection \<open>One update keeps the chain\<close>

text \<open>
  What the caller of an update has done to the chain: \<open>applied\<close> blocks were adopted, \<open>advanced\<close> ones
  finalized, and every block above the new boundary is the last adopted one of its id or on disk.
\<close>

definition tracked :: "zone_env \<Rightarrow> block set \<Rightarrow> db \<Rightarrow> block list \<Rightarrow> block list \<Rightarrow> bool" where
  "tracked Z B d applied L \<longleftrightarrow> (\<forall>a \<in> set applied. genuine Z B a) \<and>
    (\<forall>b \<in> set L. genuine Z B b \<and> (case List.find (\<lambda>a. id_of a = id_of b) (rev applied) of
      Some a \<Rightarrow> same_block a b | None \<Rightarrow> \<exists>c. get_block d (id_of b) = Some c \<and> same_block c b))"

lemma written_genuine:
  assumes free: "collision_free Z B" and disk: "disk_ok Z B t i d"
    and "untorn d applied" and "\<forall>a \<in> set applied. genuine Z B a"
    and u: "up_blocks u = map (\<lambda>b. (b, False)) applied @ map (\<lambda>b. (b, True)) advanced"
    and k: "boundary t < k" "\<forall>f \<in> set advanced. id_of f \<noteq> k"
  shows "case List.find (\<lambda>a. id_of a = k) (rev applied) of
      Some a \<Rightarrow> \<exists>c. written d u k = Some c \<and> genuine Z B c \<and> same_block c a
    | None \<Rightarrow> (case get_block d k of None \<Rightarrow> written d u k = None
        | Some b \<Rightarrow> \<exists>c. written d u k = Some c \<and> genuine Z B c \<and> same_block c b)"
proof -
  have keyed: "well_keyed (db_blocks d)" and gen: "\<And>b. get_block d k = Some b \<Longrightarrow> genuine Z B b"
    using disk k(1) by (auto simp: disk_ok_def)
  have "List.find (\<lambda>b. id_of b = k) (rev advanced) = None" using k(2) by (simp add: find_None_iff)
  then have at: "placed applied advanced k = List.find (\<lambda>a. id_of a = k) (rev applied)" by (simp add: placed_def)
  note look = written_staged [where i = k, OF keyed assms(3) u, unfolded at]
  show ?thesis
  proof (cases "List.find (\<lambda>a. id_of a = k) (rev applied)")
    case None
    with look gen show ?thesis by (auto split: option.splits)
  next
    case (Some a)
    then have a: "id_of a = k" "genuine Z B a" using find_set [OF Some] assms(4) by simp_all
    from Some look obtain c where c: "written d u k = Some c" "written_for d a c" by auto
    from c(2) have "genuine Z B c \<and> same_block c a"
      unfolding written_for_def
    proof (elim disjE exE conjE)
      fix e st assume e: "already_stored d a = Some e" "c = e\<lparr>bedrock_status := st\<rparr>"
      then have "get_block d k = Some e" "header_hash (block_header e) = header_hash (block_header a)"
        using a(1) by (auto simp: already_stored_def split: option.splits if_splits)
      with gen genuine_same [OF free _ a(2)] e(2) show ?thesis by simp
    qed (simp add: a(2))
    with Some c(1) show ?thesis by simp
  qed
qed

lemma written_finds:
  assumes "collision_free Z B" and "disk_ok Z B t i d" and "untorn d applied" and "tracked Z B d applied L"
    and "up_blocks u = map (\<lambda>b. (b, False)) applied @ map (\<lambda>b. (b, True)) advanced"
    and "\<forall>b \<in> set L. boundary t < id_of b \<and> (\<forall>f \<in> set advanced. id_of f \<noteq> id_of b)"
  shows "finds (written d u) L"
  unfolding finds_def
proof
  fix b assume b: "b \<in> set L"
  then have "case List.find (\<lambda>a. id_of a = id_of b) (rev applied) of
      Some a \<Rightarrow> same_block a b | None \<Rightarrow> \<exists>c. get_block d (id_of b) = Some c \<and> same_block c b"
    using assms(4) by (simp add: tracked_def)
  moreover have "\<forall>a \<in> set applied. genuine Z B a" using assms(4) by (simp add: tracked_def)
  ultimately show "\<exists>c. written d u (id_of b) = Some c \<and> same_block c b"
    using written_genuine [OF assms(1-3) _ assms(5), of "id_of b"] assms(6) b
    by (auto split: option.splits intro: same_block_trans)
qed

lemma highest_staged_ge: "(k, b) \<in> set W \<Longrightarrow> k \<le> highest_staged W"
proof -
  have ge: "x \<le> fold (max \<circ> fst) W x" for x :: block_id and W :: "(block_id \<times> block) list"
    by (induction W arbitrary: x) (auto intro: order_trans [OF max.cobounded2])
  have "(k, b) \<in> set W \<Longrightarrow> k \<le> fold (max \<circ> fst) W x" for x and W :: "(block_id \<times> block) list"
    by (induction W arbitrary: x) (auto intro: order_trans [OF max.cobounded1 ge])
  then show "(k, b) \<in> set W \<Longrightarrow> k \<le> highest_staged W" by (simp add: highest_staged_def)
qed

lemma saturating_succ:
  "unat (x :: u64) + 1 < 2 ^ 64 \<Longrightarrow> saturating_add x 1 \<le> k \<longleftrightarrow> x < k"
proof -
  assume x: "unat x + 1 < 2 ^ 64"
  then have "unat (x + 1) = unat x + 1" by (simp add: unat_word_ariths)
  with x show ?thesis by (auto simp: saturating_add_def word_le_nat_alt word_less_nat_alt)
qed

lemma pin_head_blocks:
  assumes keyed: "well_keyed (db_blocks w)" and tip: "unat (meta_id tip) + 1 < 2 ^ 64"
    and bound: "\<And>k b. (k, b) \<in> set (db_blocks w) \<Longrightarrow> k \<le> max i (highest_staged W)"
  shows "well_keyed (db_blocks (pin_head i W u tip w))"
    and "get_block (pin_head i W u tip w) k = (if meta_id tip < k then None else get_block w k)"
proof -
  let ?d = "pin_head i W u tip w"
  have blocks: "db_blocks ?d = filter (\<lambda>(j, _). \<not> (meta_id tip < j \<and> j \<le> max i (highest_staged W))) (db_blocks w)"
    by (simp add: pin_head_def delete_block_payloads_def saturating_succ [OF tip] Let_def)
  then show keyed': "well_keyed (db_blocks ?d)" using keyed by (simp add: well_keyed_filter)
  have "get_block ?d k = Some b \<longleftrightarrow> (k, b) \<in> set (db_blocks ?d)" for b
    unfolding get_block_def by (rule well_keyed_lookup [OF keyed'])
  moreover have "get_block w k = Some b \<longleftrightarrow> (k, b) \<in> set (db_blocks w)" for b
    unfolding get_block_def by (rule well_keyed_lookup [OF keyed])
  moreover have "(k, b) \<in> set (db_blocks ?d) \<longleftrightarrow> (k, b) \<in> set (db_blocks w) \<and>
      \<not> (meta_id tip < k \<and> k \<le> max i (highest_staged W))" for b
    unfolding blocks by simp
  ultimately have iff: "get_block ?d k = Some b \<longleftrightarrow> get_block w k = Some b \<and> \<not> meta_id tip < k" for b
    using bound by blast
  show "get_block ?d k = (if meta_id tip < k then None else get_block w k)"
  proof (cases "meta_id tip < k")
    case True
    then have "get_block ?d k = None" using iff by (metis not_Some_eq)
    with True show ?thesis by simp
  next
    case False
    then have "get_block ?d k = get_block w k" using iff by (metis not_Some_eq)
    with False show ?thesis by simp
  qed
qed

lemma pin_head_cells:
  "db_state (pin_head i W u tip w) = Some (up_head_state u)" "db_last_block (pin_head i W u tip w) = Some (meta_id tip)"
  "db_latest_meta (pin_head i W u tip w) = Some tip"
  "db_final (pin_head i W u tip w) = (case up_final_snapshot u of Some snapshot \<Rightarrow> Some snapshot | None \<Rightarrow> db_final w)"
  by (simp_all add: pin_head_def delete_block_payloads_def Let_def split: option.split)

lemma written_bound:
  assumes "disk_ok Z B t i d" and "written d u k = Some b"
  shows "k \<le> max i (highest_staged (blocks_to_write d u))"
proof (cases "map_of (blocks_to_write d u) k")
  case None
  with assms have "k \<le> i" by (auto simp: written_def get_block_def disk_ok_def)
  then show ?thesis by (simp add: le_max_iff_disj)
next
  case (Some c)
  then show ?thesis using highest_staged_ge [of k c "blocks_to_write d u"] by (auto simp: le_max_iff_disj dest: map_of_SomeD)
qed

text \<open>What is under an id after the update, and the other cells.\<close>

lemma store_update_pinned:
  assumes "store_update d u = Inr (out, d')" and "up_head_tip u = Some tip" and "unat (meta_id tip) + 1 < 2 ^ 64"
    and "disk_ok Z B t i d" and "db_last_block d = Some i" and "chain_changed d u i"
  shows "get_block d' = (\<lambda>k. if meta_id tip < k then None else written d u k)"
    and "well_keyed (db_blocks d')" and "db_state d' = Some (up_head_state u)" and "db_last_block d' = Some (meta_id tip)"
    and "db_latest_meta d' = Some tip"
    and "db_final d' = (case up_final_snapshot u of Some snapshot \<Rightarrow> Some snapshot | None \<Rightarrow> db_final d)"
proof -
  have keyed: "well_keyed (db_blocks d)" using assms(4) by (simp add: disk_ok_def)
  let ?W = "blocks_to_write d u"
  obtain j w where cells: "db_last_block d = Some j"
      "chain_cells w = chain_cells (fold (\<lambda>(_, b). put_block_payload b) ?W d)"
      "d' = (case up_head_tip u of
        Some tip \<Rightarrow> if chain_changed d u j then pin_head j ?W u tip w else w | None \<Rightarrow> w)"
    by (rule store_update_cells [OF assms(1)])
  have "j = i" using cells(1) assms(5) by simp
  with cells(3) have d': "d' = pin_head i ?W u tip w" by (simp only: assms(2,6) option.case if_True)
  have w: "get_block w = written d u" "well_keyed (db_blocks w)" "db_final w = db_final d"
    using put_payloads [OF blocks_to_write_keyed [OF keyed, of u] keyed] cells(2)
    by (simp_all add: chain_cells_def written_def get_block_def fun_eq_iff)
  have bound: "k \<le> max i (highest_staged ?W)" if "(k, b) \<in> set (db_blocks w)" for k b
    using that well_keyed_lookup [OF w(2), of k b] w(1) written_bound [OF assms(4), of u k b]
    by (simp add: get_block_def fun_eq_iff)
  note pin = pin_head_blocks [where u = u, OF w(2) assms(3) bound]
  show "get_block d' = (\<lambda>k. if meta_id tip < k then None else written d u k)"
    unfolding d' w(1) [symmetric] by (rule ext) (rule pin(2))
  show "well_keyed (db_blocks d')" unfolding d' by (rule pin(1))
  show "db_state d' = Some (up_head_state u)" "db_last_block d' = Some (meta_id tip)" "db_latest_meta d' = Some tip"
      "db_final d' = (case up_final_snapshot u of Some snapshot \<Rightarrow> Some snapshot | None \<Rightarrow> db_final d)"
    unfolding d' w(3) [symmetric] by (rule pin_head_cells)+
qed

lemma store_update_unpinned:
  assumes "store_update d u = Inr (out, d')" and "db_last_block d = Some i" and "\<not> chain_changed d u i"
    and keyed: "well_keyed (db_blocks d)"
  shows "get_block d' = written d u" and "well_keyed (db_blocks d')" and "db_state d' = db_state d"
    and "db_last_block d' = Some i" and "db_latest_meta d' = db_latest_meta d" and "db_final d' = db_final d"
proof -
  let ?W = "blocks_to_write d u"
  obtain j w where cells: "db_last_block d = Some j"
      "chain_cells w = chain_cells (fold (\<lambda>(_, b). put_block_payload b) ?W d)"
      "d' = (case up_head_tip u of
        Some tip \<Rightarrow> if chain_changed d u j then pin_head j ?W u tip w else w | None \<Rightarrow> w)"
    by (rule store_update_cells [OF assms(1)])
  have "j = i" using cells(1) assms(2) by simp
  with cells(3) have d': "d' = w" by (cases "up_head_tip u") (simp_all add: assms(3))
  show "get_block d' = written d u" "well_keyed (db_blocks d')" "db_state d' = db_state d"
      "db_last_block d' = Some i" "db_latest_meta d' = db_latest_meta d" "db_final d' = db_final d"
    using put_payloads [OF blocks_to_write_keyed [OF keyed, of u] keyed] cells(2) assms(2)
    by (simp_all add: chain_cells_def written_def get_block_def fun_eq_iff d')
qed

end
