(* ===== verification/RestartSafety.thy ===== *)
theory RestartSafety
  imports StoreUpdates
begin

text \<open>
  The store keeps the chain of the node: an update that writes what the chain state did keeps
  the two in agreement, for adopted, orphaned and finalized blocks.
\<close>

subsection \<open>An update that follows the chain\<close>

lemma changed_unless_same:
  assumes "\<not> chain_changed d u i" and "up_head_tip u = Some tip"
    and "up_blocks u = map (\<lambda>b. (b, False)) applied @ map (\<lambda>b. (b, True)) advanced"
  shows "up_final_snapshot u = None" "meta_id tip = i" "advanced = []" "\<forall>a \<in> set applied. already_stored d a \<noteq> None"
proof -
  show "up_final_snapshot u = None" using assms(1) unfolding chain_changed_def by blast
  show "meta_id tip = i" using assms(1,2) by (auto simp: chain_changed_def)
  have none: "\<not> stages_block d x" if "x \<in> set (up_blocks u)" for x
    using assms(1) that by (auto simp: chain_changed_def list_ex_iff)
  show "advanced = []"
  proof (cases advanced)
    case (Cons f fs)
    then show ?thesis using none [of "(f, True)"] by (simp add: assms(3) stages_block_def)
  qed simp
  show "\<forall>a \<in> set applied. already_stored d a \<noteq> None"
  proof
    fix a assume "a \<in> set applied"
    then show "already_stored d a \<noteq> None" using none [of "(a, False)"] by (auto simp: assms(3) stages_block_def)
  qed
qed

lemma unchanged_bound:
  assumes "\<not> chain_changed d u i" and "disk_ok Z B t j d" and "written d u k = Some b"
  shows "k \<le> j"
proof -
  have skip: "stage_block d [] x = []" if "\<not> stages_block d x" for x
    using that by (cases x) (simp add: stage_block_def stages_block_def)
  have "foldl (stage_block d) [] xs = []" if "\<forall>x \<in> set xs. \<not> stages_block d x" for xs
    using that by (induction xs) (simp_all add: skip)
  then have "staged_blocks d u = []" using assms(1) by (simp add: chain_changed_def list_ex_iff)
  then have "get_block d k \<noteq> None"
    using written_unstaged [of d u k] assms(2,3) by (auto simp: disk_ok_def split: option.splits)
  with assms(2) show ?thesis by (auto simp: disk_ok_def)
qed

text \<open>When every adopted block is on disk, the disk still finds the chain.\<close>

lemma tracked_on_disk:
  assumes "tracked Z B d applied L" and "\<forall>a \<in> set applied. already_stored d a \<noteq> None" and "collision_free Z B"
    and "disk_ok Z B t i d" and "\<forall>b \<in> set L. boundary t < id_of b"
  shows "finds (get_block d) L"
  unfolding finds_def
proof
  fix b assume b: "b \<in> set L"
  show "\<exists>c. get_block d (id_of b) = Some c \<and> same_block c b"
  proof (cases "List.find (\<lambda>a. id_of a = id_of b) (rev applied)")
    case None
    with assms(1) b show ?thesis by (auto simp: tracked_def)
  next
    case (Some a)
    then have a: "a \<in> set applied" "id_of a = id_of b" using find_set [OF Some] by simp_all
    have same: "same_block a b" using assms(1) b Some by (fastforce simp: tracked_def)
    obtain c where "already_stored d a = Some c" using assms(2) a(1) by blast
    then have c: "get_block d (id_of b) = Some c" "header_hash (block_header c) = header_hash (block_header a)"
      by (auto simp: already_stored_def a(2) split: option.splits if_splits)
    have "genuine Z B c" "genuine Z B a"
      using assms(1,4,5) a(1) b c(1) by (auto simp: disk_ok_def tracked_def)
    with genuine_same [OF assms(3) _ _ c(2)] same c(1) show ?thesis by (blast intro: same_block_trans)
  qed
qed

lemma store_update_keeps_chain:
  assumes old: "persisted Z init B cs d" and free: "collision_free Z B"
    and run: "store_update d u = Inr (out, d')"
    and u: "up_blocks u = map (\<lambda>b. (b, False)) applied @ map (\<lambda>b. (b, True)) advanced"
      "up_head_tip u = Some (meta_of_tip tip)" "up_head_state u = head_state cs'"
    and base: "case up_final_snapshot u of None \<Rightarrow> stored_final init d = (s, t)
      | Some (x, m) \<Rightarrow> s = x \<and> t = Some (tip_of_meta m) \<and> boundary (snd (stored_final init d)) \<le> boundary t"
    and chain: "chain_from Z s t cs' L" "head_tip cs' = Some tip" "unat (tip_block_id tip) + 1 < 2 ^ 64"
    and track: "tracked Z B d applied L" "untorn d applied" "\<forall>f \<in> set advanced. id_of f \<le> boundary t"
  shows "persisted Z init B cs' d'"
proof -
  obtain s0 t0 L0 tip0 where p: "stored_final init d = (s0, t0)" "chain_from Z s0 t0 cs L0" "head_tip cs = Some tip0"
      "db_state d = Some (head_state cs)" "db_last_block d = Some (tip_block_id tip0)"
      "db_latest_meta d = Some (meta_of_tip tip0)" "disk_ok Z B t0 (tip_block_id tip0) d" "finds (get_block d) L0"
    using old by (auto simp: persisted_def)
  note replay = chain_from_replay [OF chain(1), unfolded chain(2)]
  have gen: "\<forall>b \<in> set L. genuine Z B b" using track(1) by (simp add: tracked_def)
  have t0: "boundary t0 \<le> boundary t" using base p(1) by (auto split: option.splits)
  have above: "boundary t < id_of b" if "b \<in> set L" for b
    using replay_in_range [OF replay, of "id_of b"] that by auto
  have disk0: "disk_ok Z B t0 (tip_block_id tip0) d" "well_keyed (db_blocks d)" using p(7) by (auto simp: disk_ok_def)
  have found: "finds (written d u) L"
    using above track(3) t0
    by (intro written_finds [OF free disk0(1) track(2,1) u(1)]) (fastforce simp: not_less dest: le_less_trans)
  have fresh: "genuine Z B b" if "boundary t < k" "written d u k = Some b" for k b
  proof -
    have "boundary t0 < k" "\<forall>f \<in> set advanced. id_of f \<noteq> k" using that(1) t0 track(3) by (auto simp: not_less)
    from written_genuine [OF free disk0(1) track(2) _ u(1) this] track(1) that(2) show ?thesis
      by (auto simp: tracked_def split: option.splits)
  qed
  show ?thesis
  proof (cases "chain_changed d u (tip_block_id tip0)")
    case True
    have tip: "unat (meta_id (meta_of_tip tip)) + 1 < 2 ^ 64" using chain(3) by (simp add: meta_of_tip_def)
    note pin = store_update_pinned [OF run u(2) tip disk0(1) p(5) True]
    have "stored_final init d' = (s, t)"
      using base p(1) by (auto simp: stored_final_def pin(6) split: option.splits)
    moreover have "finds (get_block d') L"
      using found replay_in_range [OF replay] by (fastforce simp: finds_def pin(1) meta_of_tip_def boundary_def not_less)
    moreover have "disk_ok Z B t (tip_block_id tip) d'"
      using fresh pin(2) by (auto simp: disk_ok_def pin(1) meta_of_tip_def split: if_splits)
    ultimately show ?thesis
      using chain gen pin(3-5) u(3) unfolding persisted_def by (auto simp: meta_of_tip_def)
  next
    case False
    note same = changed_unless_same [OF False u(2,1)]
    note unpin = store_update_unpinned [OF run p(5) False disk0(2)]
    have base0: "s = s0" "t = t0" using base p(1) same(1) by auto
    have "finds (get_block d) L"
      using above t0 by (intro tracked_on_disk [OF track(1) same(4) free disk0(1)]) (auto intro: le_less_trans)
    with same_chain [OF chain_from_replay [OF p(2)] replay [unfolded base0] _ p(8)] same(2) p(3)
    have eq: "head_state cs' = head_state cs" "tip = tip0"
      by (auto simp: boundary_def meta_of_tip_def)
    have "stored_final init d' = (s, t)" using p(1) base0 by (simp add: stored_final_def unpin(6))
    moreover have "disk_ok Z B t (tip_block_id tip) d'"
      using fresh unpin(2) unchanged_bound [OF False disk0(1)] by (auto simp: disk_ok_def unpin(1) eq)
    ultimately show ?thesis
      using chain gen unpin(3-5) found p(4,6) eq unfolding persisted_def by (auto simp: unpin(1))
  qed
qed

subsection \<open>Operations on the chain\<close>

lemma tracked_push:
  assumes "tracked Z B d applied L" and "genuine Z B b" and "\<forall>c \<in> set K. c \<in> set L \<and> id_of c \<noteq> id_of b"
  shows "tracked Z B d (applied @ [b]) (K @ [b])"
proof -
  have "genuine Z B c \<and> (case List.find (\<lambda>a. id_of a = id_of c) (rev (applied @ [b])) of
      Some a \<Rightarrow> same_block a c | None \<Rightarrow> \<exists>e. get_block d (id_of c) = Some e \<and> same_block e c)"
    if "c \<in> set K" for c
  proof -
    have c: "c \<in> set L" "id_of b \<noteq> id_of c" using that assms(3) by force+
    then have "List.find (\<lambda>a. id_of a = id_of c) (rev (applied @ [b])) = List.find (\<lambda>a. id_of a = id_of c) (rev applied)"
      by simp
    with assms(1) c(1) show ?thesis by (simp add: tracked_def)
  qed
  with assms(1,2) show ?thesis by (auto simp: tracked_def)
qed

lemma tracked_subset: "tracked Z B d applied L \<Longrightarrow> set K \<subseteq> set L \<Longrightarrow> tracked Z B d applied K"
  by (auto simp: tracked_def)

lemma adopted_tracked:
  assumes chain: "chain_from Z s t cs L" "tracked Z B d applied L"
    and b: "b \<in> B"
    and run: "apply_adopted Z cs msg b = Some (outcome, cs')"
  shows "\<exists>L'. chain_from Z s t cs' L' \<and>
    tracked Z B d (if outcome = Applied then applied @ [b] else applied) L'"
proof -
  have ok: "chain_ok Z cs" using chain(1) by (simp add: chain_from_def)
  note ok' = apply_adopted_ok [OF ok run]
  from ok run show ?thesis
  proof (cases rule: apply_adopted_cases)
    case same
    with chain show ?thesis by auto
  next
    case (applied n s1 t1)
    obtain fs where fs: "replay_blocks Z s t fs = Some (final_state cs, final_tip cs)"
        "L = fs @ map entry_block (head_blocks cs)"
      using chain(1) by (auto simp: chain_from_def)
    let ?K = "fs @ map entry_block (take n (head_blocks cs))"
    have new: "chain_from Z s t cs' (?K @ [b])"
      using fs(1) applied ok' unfolding chain_from_def by (intro conjI exI [of _ fs]) simp_all
    have "\<forall>c \<in> set ?K. id_of c < id_of b"
      using replay_sorted_ids [OF chain_from_replay [OF new]] by (auto simp: sorted_wrt_append)
    then have "\<forall>c \<in> set ?K. id_of c \<noteq> id_of b" by (metis order_less_irrefl)
    moreover have "set ?K \<subseteq> set L" using fs(2) by (auto dest: in_set_takeD)
    ultimately have "tracked Z B d (applied @ [b]) (?K @ [b])"
      using applied_genuine [OF b applied(4)] by (intro tracked_push [OF chain(2)]) blast+
    then show ?thesis using new applied(1) by auto
  qed
qed

lemma all_adopted_tracked:
  assumes "chain_from Z s t cs L" "tracked Z B d applied L"
    and "\<forall>(msg, b) \<in> set xs. b \<in> B"
    and "apply_all_adopted Z cs xs = Some (outcomes, cs')"
  shows "\<exists>L'. chain_from Z s t cs' L' \<and>
    tracked Z B d (applied @ applied_blocks xs outcomes) L'"
  using assms
proof (induction xs arbitrary: cs L applied outcomes)
  case Nil
  then show ?case by (auto simp: applied_blocks_def)
next
  case (Cons x xs)
  obtain msg b where x: "x = (msg, b)" by force
  obtain o1 cs1 os where run: "apply_adopted Z cs msg b = Some (o1, cs1)" "apply_all_adopted Z cs1 xs = Some (os, cs')"
      "outcomes = o1 # os"
    using Cons.prems(4) by (auto simp: x panic_simps)
  define applied' where "applied' = (if o1 = Applied then applied @ [b] else applied)"
  obtain L1 where L1: "chain_from Z s t cs1 L1" "tracked Z B d applied' L1"
    using adopted_tracked [OF Cons.prems(1,2) _ run(1)] Cons.prems(3) by (auto simp: x applied'_def)
  have "applied' @ applied_blocks xs os = applied @ applied_blocks (x # xs) outcomes"
    by (simp add: applied'_def x run(3) applied_blocks_def)
  then show ?case using Cons.IH [OF L1 _ run(2)] Cons.prems(3) by simp
qed

lemma truncated_tracked:
  assumes "chain_from Z s t cs L" and "rederive_head Z (cs\<lparr>head_blocks := take n (head_blocks cs)\<rparr>) = Some cs'"
  shows "\<exists>L'. chain_from Z s t cs' L' \<and> set L' \<subseteq> set L"
proof -
  obtain fs where fs: "replay_blocks Z s t fs = Some (final_state cs, final_tip cs)"
      "L = fs @ map entry_block (head_blocks cs)" and ok: "chain_ok Z cs"
    using assms(1) by (auto simp: chain_from_def)
  obtain cs1 where "rederive_head Z (cs\<lparr>head_blocks := take n (head_blocks cs)\<rparr>) = Some cs1" "chain_ok Z cs1"
      "final_state cs1 = final_state cs" "final_tip cs1 = final_tip cs" "head_blocks cs1 = take n (head_blocks cs)"
    by (rule truncate_head_ok [OF ok])
  then have "chain_from Z s t cs' (fs @ map entry_block (take n (head_blocks cs)))"
    using assms(2) fs(1) by (auto simp: chain_from_def)
  moreover have "set (fs @ map entry_block (take n (head_blocks cs))) \<subseteq> set L"
    using fs(2) by (auto dest: in_set_takeD)
  ultimately show ?thesis by blast
qed

lemma channel_update_tracked:
  assumes chain: "chain_from Z s t cs L" "tracked Z B d [] L"
    and xs: "\<forall>(msg, b) \<in> set adopted. b \<in> B"
    and run: "apply_channel_update Z cs orphaned adopted = Some (outcomes, cs')"
  shows "\<exists>L'. chain_from Z s t cs' L' \<and> tracked Z B d (applied_blocks adopted outcomes) L'"
proof -
  define e where "e = min_position (List.map_filter (\<lambda>(msg, b). head_position_of cs msg b) orphaned)"
  obtain cs1 where cs1: "(case e of None \<Rightarrow> Some cs
      | Some idx \<Rightarrow> rederive_head Z (cs\<lparr>head_blocks := take idx (head_blocks cs)\<rparr>)) = Some cs1"
      "apply_all_adopted Z cs1 adopted = Some (outcomes, cs')"
    using run by (auto simp: apply_channel_update_def e_def panic_simps Let_def)
  have "\<exists>L1. chain_from Z s t cs1 L1 \<and> set L1 \<subseteq> set L"
    using cs1(1) chain(1) truncated_tracked [OF chain(1)] by (cases e) auto
  then obtain L1 where L1: "chain_from Z s t cs1 L1" "tracked Z B d [] L1"
    using tracked_subset [OF chain(2)] by blast
  from all_adopted_tracked [OF L1 xs cs1(2)] show ?thesis by simp
qed

subsection \<open>Finalized blocks\<close>

lemma replay_boundary: "replay_blocks Z s t bs = Some (s', t') \<Longrightarrow> boundary t \<le> boundary t'"
  using replay_id_range by (fastforce simp: word_le_nat_alt)

lemma finalize_through_tracked:
  assumes chain: "chain_from Z s t cs L" and n: "n < length (head_blocks cs)" and run: "finalize_through Z cs n = Some cs'"
  shows "chain_from Z s t cs' L" "set (head_blocks cs') \<subseteq> set (head_blocks cs)"
    "final_tip cs' = Some (tip_of_block (entry_block (head_blocks cs ! n)))"
proof -
  obtain fs where fs: "replay_blocks Z s t fs = Some (final_state cs, final_tip cs)"
      "L = fs @ map entry_block (head_blocks cs)" and ok: "chain_ok Z cs"
    using chain by (auto simp: chain_from_def)
  obtain cs1 where cs1: "finalize_through Z cs n = Some cs1" "chain_ok Z cs1"
      "replay_blocks Z (final_state cs) (final_tip cs) (map entry_block (take (Suc n) (head_blocks cs)))
        = Some (final_state cs1, final_tip cs1)" "head_blocks cs1 = drop (Suc n) (head_blocks cs)"
    by (rule finalize_through_ok [OF ok n])
  then have eq: "cs' = cs1" using run by simp
  have "L = (fs @ map entry_block (take (Suc n) (head_blocks cs))) @ map entry_block (drop (Suc n) (head_blocks cs))"
    by (simp add: fs(2) flip: map_append)
  then show "chain_from Z s t cs' L"
    using fs(1) cs1(2-4) unfolding chain_from_def eq
    by (intro conjI exI [of _ "fs @ map entry_block (take (Suc n) (head_blocks cs))"]) (simp_all add: replay_append)
  show "set (head_blocks cs') \<subseteq> set (head_blocks cs)" by (simp add: eq cs1(4) set_drop_subset)
  show "final_tip cs' = Some (tip_of_block (entry_block (head_blocks cs ! n)))"
    using replay_tip [OF cs1(3)] n by (auto simp: eq take_Suc_conv_app_nth)
qed

text \<open>A finalized block moves the final tier up to it, or leaves the chain from the stored tier as it is.\<close>

lemma finalized_direct_tracked:
  assumes chain: "chain_from Z s t cs L" and run: "apply_finalized_direct Z cs b slot = Some (outcome, cs')"
  shows "\<exists>L'. chain_from Z s t cs' L' \<and> set (head_blocks cs') \<subseteq> set (head_blocks cs) \<and>
    (outcome \<noteq> Applied \<longrightarrow> L' = L) \<and> (L' = L \<or> head_tip cs' = Some (tip_of_block b)) \<and>
    (outcome \<in> {Applied, AlreadyApplied} \<longrightarrow> final_tip cs' \<noteq> None \<and> id_of b \<le> boundary (final_tip cs'))"
proof -
  obtain fs where fs: "replay_blocks Z s t fs = Some (final_state cs, final_tip cs)"
      "L = fs @ map entry_block (head_blocks cs)" and ok: "chain_ok Z cs"
    using chain by (auto simp: chain_from_def)
  note ok' = conjunct1 [OF apply_finalized_direct_ok [OF ok run]]
  consider (held) "finalized_redelivery cs b" "outcome = AlreadyApplied" "cs' = cs"
    | (extends) x where "apply_block Z (final_tip cs) b (final_state cs) = Inr x" "outcome = Applied"
        "cs' = cs\<lparr>final_state := x, final_tip := Some (tip_of_block b), final_stall := None, head_blocks := [], head_state := x\<rparr>"
    | (parked) e where "outcome = Parked e" "cs' = record_final_stall cs b slot e"
  proof (cases "finalized_redelivery cs b")
    case True
    then show thesis using run by (intro held) (simp_all add: apply_finalized_direct_def)
  next
    case new: False
    show thesis
    proof (cases "apply_block Z (final_tip cs) b (final_state cs)")
      case (Inl f)
      with new run show thesis
        by (cases f) (auto simp: apply_finalized_direct_def intro!: parked)
    next
      case (Inr x)
      with new run show thesis by (intro extends [OF Inr]) (simp_all add: apply_finalized_direct_def)
    qed
  qed
  then show ?thesis
  proof cases
    case held
    with chain show ?thesis
      by (intro exI [of _ L]) (auto simp: finalized_redelivery_def boundary_def split: option.splits)
  next
    case extends
    then have "chain_from Z s t cs' (fs @ [b])"
      using fs(1) ok' unfolding chain_from_def by (intro conjI exI [of _ "fs @ [b]"]) (simp_all add: replay_append)
    with extends show ?thesis by (auto simp: boundary_def tip_of_block_def head_tip_def)
  next
    case parked
    then have "chain_from Z s t cs' L"
      using fs ok' unfolding chain_from_def by (intro conjI exI [of _ fs]) (simp_all add: record_final_stall_def)
    with parked show ?thesis by (auto simp: record_final_stall_def)
  qed
qed

lemma finalized_tracked:
  assumes chain: "chain_from Z s t cs L" and run: "apply_finalized Z cs msg b slot = Some (outcome, cs')"
  shows "\<exists>L'. chain_from Z s t cs' L' \<and> set (head_blocks cs') \<subseteq> set (head_blocks cs) \<and>
    (outcome \<noteq> Applied \<longrightarrow> L' = L) \<and> (L' = L \<or> head_tip cs' = Some (tip_of_block b)) \<and>
    (outcome \<in> {Applied, AlreadyApplied} \<longrightarrow> final_tip cs' \<noteq> None \<and> id_of b \<le> boundary (final_tip cs'))"
proof (cases "head_position_of cs msg b")
  case (Some n)
  then have n: "n < length (head_blocks cs)" "id_of (entry_block (head_blocks cs ! n)) = id_of b"
    unfolding head_position_of_def by (auto dest: position_Some)
  have "finalize_through Z cs n = Some cs'" "outcome = Applied"
    using run Some by (auto simp: apply_finalized_def)
  with finalize_through_tracked [OF chain n(1)] n(2) show ?thesis
    by (auto simp: boundary_def tip_of_block_def)
next
  case unknown: None
  define at where "at = position (\<lambda>entry. header_hash (block_header (entry_block entry))
    = header_prev_hash (block_header b)) (head_blocks cs)"
  obtain cs1 where cs1: "(case at of Some idx \<Rightarrow> finalize_through Z cs idx | None \<Rightarrow> Some cs) = Some cs1"
      "apply_finalized_direct Z cs1 b slot = Some (outcome, cs')"
    using run unknown by (auto simp: apply_finalized_def at_def panic_simps)
  have "chain_from Z s t cs1 L \<and> set (head_blocks cs1) \<subseteq> set (head_blocks cs)"
  proof (cases at)
    case (Some n)
    then have "n < length (head_blocks cs)" unfolding at_def by (rule position_less)
    with finalize_through_tracked [OF chain] cs1(1) Some show ?thesis by simp
  qed (use cs1(1) chain in simp)
  with finalized_direct_tracked [OF _ cs1(2)] show ?thesis by (meson subset_trans)
qed

lemma all_finalized_tracked:
  assumes "chain_from Z s t cs L" and "apply_all_finalized Z cs xs = Some (cs', advanced, irreversible)"
  shows "(\<exists>L'. chain_from Z s t cs' L' \<and> set (head_blocks cs') \<subseteq> set (head_blocks cs) \<and> (advanced = [] \<longrightarrow> L' = L)) \<and>
    boundary (final_tip cs) \<le> boundary (final_tip cs') \<and> (\<forall>f \<in> set advanced. id_of f \<le> boundary (final_tip cs'))"
  using assms
proof (induction xs arbitrary: cs L advanced irreversible)
  case (Cons x xs)
  obtain msg b where x: "x = (msg, b)" by force
  obtain outcome cs1 adv irr where run: "apply_finalized Z cs msg b 0 = Some (outcome, cs1)"
      "apply_all_finalized Z cs1 xs = Some (cs', adv, irr)" "advanced = (if outcome = Applied then b # adv else adv)"
    using Cons.prems(2) by (auto simp: x panic_simps split: if_splits)
  obtain L1 where L1: "chain_from Z s t cs1 L1" "set (head_blocks cs1) \<subseteq> set (head_blocks cs)"
      "outcome \<noteq> Applied \<longrightarrow> L1 = L" "outcome = Applied \<longrightarrow> id_of b \<le> boundary (final_tip cs1)"
    using finalized_tracked [OF Cons.prems(1) run(1)] by blast
  have "boundary (final_tip cs) \<le> boundary (final_tip cs1)"
    using apply_finalized_ok [OF _ run(1)] Cons.prems(1) replay_boundary by (auto simp: chain_from_def)
  with Cons.IH [OF L1(1) run(2)] L1(2-4) run(3) show ?case by (auto intro: order_trans)
qed auto

subsection \<open>Operations of the node\<close>

lemma tracked_disk: "\<forall>b \<in> set L. genuine Z B b \<Longrightarrow> finds (get_block d) L \<Longrightarrow> tracked Z B d [] L"
  by (simp add: tracked_def finds_def)

lemma chain_from_subset: "chain_from Z s t cs L \<Longrightarrow> set (map entry_block (head_blocks cs)) \<subseteq> set L"
  by (auto simp: chain_from_def)

text \<open>The chain moved its final tier in memory: counted from there, the store knows what is left.\<close>

lemma rebased_tracked:
  assumes "chain_from Z s t cs L" "tracked Z B d applied L"
    and "chain_from Z s t cs' L'" "set (head_blocks cs') \<subseteq> set (head_blocks cs)"
  shows "chain_from Z (final_state cs') (final_tip cs') cs' (map entry_block (head_blocks cs'))"
    "tracked Z B d applied (map entry_block (head_blocks cs'))" "boundary t \<le> boundary (final_tip cs')"
proof -
  show "chain_from Z (final_state cs') (final_tip cs') cs' (map entry_block (head_blocks cs'))"
    using assms(3) by (auto simp: chain_from_def intro!: chain_from_here [unfolded chain_from_def])
  show "tracked Z B d applied (map entry_block (head_blocks cs'))"
    using chain_from_subset [OF assms(1)] assms(4) by (intro tracked_subset [OF assms(2)]) auto
  show "boundary t \<le> boundary (final_tip cs')"
    using assms(3) replay_boundary by (auto simp: chain_from_def)
qed

lemma tip_of_meta_of_tip [simp]: "tip_of_meta (meta_of_tip t) = t"
  by (simp add: tip_of_meta_def meta_of_tip_def)

lemma unwrap_Some: "(case r of Inl e \<Rightarrow> None | Inr x \<Rightarrow> f x) = Some y \<longleftrightarrow> (\<exists>x. r = Inr x \<and> f x = Some y)"
  by (cases r) simp_all

text \<open>The blocks that a channel update applies are torn against the disk.\<close>

definition torn_update :: "sequencer_env \<Rightarrow> chain_state \<Rightarrow> db \<Rightarrow> follow_update \<Rightarrow> bool" where
  "torn_update S cs d u =
    (case apply_channel_update (host_zone S) cs (follow_orphaned u) (follow_adopted u) of
       None \<Rightarrow> False
     | Some (outcomes, _) \<Rightarrow> \<not> untorn d (applied_blocks (follow_adopted u) outcomes))"

lemma follow_keeps_chain:
  assumes old: "persisted (host_zone S) init B cs d" and free: "collision_free (host_zone S) B"
    and u: "\<forall>(msg, b) \<in> set (follow_adopted u). b \<in> B"
    and whole: "\<not> torn_update S cs d u"
    and run: "apply_follow_update S cs d mp u = Some (cs', d', mp')"
    and tip: "head_tip cs' = Some tip" "unat (tip_block_id tip) + 1 < 2 ^ 64"
  shows "persisted (host_zone S) init B cs' d'"
proof -
  let ?Z = "host_zone S"
  obtain s t L where p: "stored_final init d = (s, t)" "chain_from ?Z s t cs L"
      "\<forall>b \<in> set L. genuine ?Z B b" "finds (get_block d) L"
    using old unfolding persisted_def by blast
  obtain outcomes cs1 advanced irr final_meta out where r:
      "apply_channel_update ?Z cs (follow_orphaned u) (follow_adopted u) = Some (outcomes, cs1)"
      "apply_all_finalized ?Z cs1 (follow_finalized u) = Some (cs', advanced, irr)"
      "(if advanced = [] then Some None else map_option (\<lambda>t. Some (meta_of_tip t)) (final_tip cs')) = Some final_meta"
      "store_update d (follow_store_update S d u cs' (applied_blocks (follow_adopted u) outcomes) advanced irr final_meta)
        = Inr (out, d')"
    using run by (auto simp: apply_follow_update_def panic_simps unwrap_Some Let_def)
  define applied where "applied = applied_blocks (follow_adopted u) outcomes"
  have "untorn d applied" using whole r(1) by (simp add: torn_update_def applied_def)
  then obtain L1 where L1: "chain_from ?Z s t cs1 L1" "tracked ?Z B d applied L1" "untorn d applied"
    using channel_update_tracked [OF p(2) tracked_disk [OF p(3,4)] u r(1)] unfolding applied_def by blast
  obtain L2 where L2: "chain_from ?Z s t cs' L2" "set (head_blocks cs') \<subseteq> set (head_blocks cs1)" "advanced = [] \<longrightarrow> L2 = L1"
      and adv: "\<forall>f \<in> set advanced. id_of f \<le> boundary (final_tip cs')"
    using all_finalized_tracked [OF L1(1) r(2)] by blast
  note rebased = rebased_tracked [OF L1(1,2) L2(1,2)]
  note keep = store_update_keeps_chain [OF old free r(4) [folded applied_def], where applied = applied and advanced = advanced
      and cs' = cs' and tip = tip]
  show ?thesis
  proof (cases "advanced = []")
    case True
    with r(3) have "final_meta = None" by simp
    with True L1(2,3) L2(1,3) p(1) tip show ?thesis
      by (intro keep [of s t L2]) (simp_all add: follow_store_update_def store_update_new_def)
  next
    case False
    with r(3) obtain ft where ft: "final_tip cs' = Some ft" "final_meta = Some (meta_of_tip ft)" by auto
    with rebased adv L1(3) p(1) tip show ?thesis
      by (intro keep [of "final_state cs'" "final_tip cs'" "map entry_block (head_blocks cs')"])
        (simp_all add: follow_store_update_def store_update_new_def)
  qed
qed

lemma persisted_cells:
  assumes "persisted Z init B cs d" and "chain_cells d' = chain_cells d"
  shows "persisted Z init B cs d'"
proof -
  have "db_blocks d' = db_blocks d" "db_last_block d' = db_last_block d" "db_latest_meta d' = db_latest_meta d"
      "db_state d' = db_state d" "db_final d' = db_final d"
    using assms(2) by (simp_all add: chain_cells_def)
  moreover from this have "get_block d' = get_block d" "stored_final init d' = stored_final init d"
    by (auto simp: get_block_def stored_final_def)
  ultimately show ?thesis using assms(1) by (simp add: persisted_def disk_ok_def)
qed

end
