(* ===== verification/NodeRuns.thy ===== *)
theory NodeRuns
  imports RestartSafety
begin

text \<open>
  Runs of a sequencer node: it produces, follows the channel, records deliveries and restarts,
  and whenever it is stopped its store restores the head it had.
\<close>

subsection \<open>Production\<close>

lemma count_dispatch_failure_cells [cells_simps]: "chain_cells (count_dispatch_failure S d tx) = chain_cells d"
  by (auto simp: count_dispatch_failure_def record_dispatch_failure_def chain_cells_def Let_def split: option.splits)

lemma drop_settled_cells [cells_simps]: "chain_cells (snd (drop_settled_cross_zone_dispatches d keys)) = chain_cells d"
  by (simp add: drop_settled_cross_zone_dispatches_def cells_simps)

lemma high_water_cells [cells_simps]: "chain_cells (raise_published_high_water d i) = chain_cells d"
  by (simp add: raise_published_high_water_def chain_cells_def)

lemma build_step_cells: "build_step S C r item = Some (flow, r') \<Longrightarrow> chain_cells (br_db r') = chain_cells (br_db r)"
  by (auto simp: build_step_def panic_simps cells_simps Let_def split: if_splits prod.splits)

lemma build_loop_cells:
  "build_loop S C r q mp = Some (r', mp') \<Longrightarrow> chain_cells (br_db r') = chain_cells (br_db r)"
proof (induction S C r q mp rule: build_loop.induct)
  case (1 S C r q mp)
  show ?case
  proof (cases "next_item q mp")
    case None
    with "1.prems" show ?thesis by (simp add: build_loop.simps [of S C r q mp])
  next
    case (Some x)
    obtain origin tx stored rest mp1 where x: "x = ((origin, tx, stored), rest, mp1)" by (metis prod.collapse)
    obtain flow r1 where step: "build_step S C r (origin, tx, stored) = Some (flow, r1)"
      using "1.prems" Some x by (cases "build_step S C r (origin, tx, stored)") (auto simp: build_loop.simps [of S C r q mp])
    note cells = build_step_cells [OF step]
    show ?thesis
    proof (cases flow)
      case Continue
      with "1.prems" Some x step have "build_loop S C r1 rest mp1 = Some (r', mp')"
        by (simp add: build_loop.simps [of S C r q mp])
      from "1.IH" [OF Some x [symmetric] refl refl refl step refl Continue this] cells show ?thesis by simp
    qed (use "1.prems" Some x step cells in \<open>simp_all add: build_loop.simps [of S C r q mp]\<close>)
  qed
qed

lemma build_block_cells:
  assumes "build_block_from_mempool S cs d mp ts live = Some (built, d', mp')"
  shows "chain_cells d' = chain_cells d"
proof -
  obtain undecodable decoded where rec: "decode_recorded S (get_pending_cross_zone_dispatches d) = (undecodable, decoded)"
    by (cases "decode_recorded S (get_pending_cross_zone_dispatches d)")
  obtain settled dispatches where cls: "foldl (classify_dispatch S cs) (undecodable, []) decoded = (settled, dispatches)"
    by (cases "foldl (classify_dispatch S cs) (undecodable, []) decoded")
  define d1 where "d1 = (if settled = [] then d else snd (drop_settled_cross_zone_dispatches d settled))"
  have d1: "chain_cells d1 = chain_cells d" by (simp add: d1_def cells_simps)
  obtain height where height: "next_block_height cs = Some height"
    using assms by (auto simp: build_block_from_mempool_def panic_simps)
  note run = assms [unfolded build_block_from_mempool_def height bind.bind_lunit rec cls Let_def prod.case, folded d1_def]
  let ?C = "\<lparr>ctx_height = height, ctx_prev_hash = (case head_tip cs of None \<Rightarrow> 0 | Some t \<Rightarrow> tip_hash t),
      ctx_timestamp = ts, ctx_live_keys = live\<rparr>"
  let ?q = "pending_deposit_txs S d1 (head_state cs) @ dispatches @ build_finalize_unstake_txs S (head_state cs)"
  let ?r0 = "\<lparr>br_state = head_state cs, br_valid = [], br_withdrawals = [], br_db = d1\<rparr>"
  obtain r mp1 where loop: "build_loop S ?C ?r0 ?q mp = Some (r, mp1)"
    using run by (cases "build_loop S ?C ?r0 ?q mp") auto
  have "br_db r = d'" using run by (auto simp: loop split: sum.splits transition_error.splits)
  with build_loop_cells [OF loop] d1 show ?thesis by simp
qed

lemma adopted_head_tip:
  assumes "chain_ok Z cs" and "apply_adopted Z cs msg b = Some (Applied, cs')"
  shows "head_tip cs' = Some (tip_of_block b)"
  using assms(1,2) by (cases rule: apply_adopted_cases) (simp_all add: head_tip_def)

lemma produced_keeps_chain:
  assumes old: "persisted (host_zone S) init B (node_chain nd) (ss_db (node_store nd))"
    and free: "collision_free (host_zone S) B" and b: "b \<in> B" "unat (id_of b) + 1 < 2 ^ 64"
    and run: "record_produced_block S nd msg b withdrawals checkpoint = Some (Inr (), nd')"
  shows "persisted (host_zone S) init B (node_chain nd') (ss_db (node_store nd'))"
proof -
  let ?Z = "host_zone S" and ?d = "ss_db (node_store nd)"
  obtain s t L where p: "stored_final init ?d = (s, t)" "chain_from ?Z s t (node_chain nd) L"
      "\<forall>b \<in> set L. genuine ?Z B b" "finds (get_block ?d) L"
    using old unfolding persisted_def by blast
  then have ok: "chain_ok ?Z (node_chain nd)" by (simp add: chain_from_def)
  obtain outcome cs where cs: "apply_produced ?Z (node_chain nd) msg b = Some (outcome, cs)"
    using run by (auto simp: record_produced_block_def panic_simps)
  show ?thesis
  proof (cases "outcome = Applied")
    case True
    then have adopt: "apply_adopted ?Z (node_chain nd) msg b = Some (Applied, cs)"
      using cs by (auto simp: apply_produced_def split: if_splits)
    obtain st where st: "sequencer_store_update S (node_store nd) b withdrawals (head_state cs) (Some checkpoint) = Inr st"
        "nd' = nd\<lparr>node_chain := cs, node_store := st\<rparr>"
      using run by (auto simp: record_produced_block_def cs True Let_def split: sum.splits)
    obtain out where upd: "store_update ?d ((store_update_new (head_state cs))\<lparr>up_checkpoint := Some checkpoint,
        up_blocks := [(b, False)], up_head_tip := Some (meta_of_block b), up_new_withdraw_intents := withdrawals\<rparr>)
          = Inr (out, ss_db st)"
      using st(1) by (auto simp: sequencer_store_update_def atomic_update_def result_simps)
    obtain L' where "chain_from ?Z s t cs L'" "tracked ?Z B ?d [b] L'"
      using adopted_tracked [OF p(2) tracked_disk [OF p(3,4)] b(1) adopt] by auto
    with adopted_head_tip [OF ok adopt] p(1) b(2) have "persisted ?Z init B cs (ss_db st)"
      by (intro store_update_keeps_chain [OF old free upd, where applied = "[b]" and advanced = "[]" and L = L' and s = s and t = t
            and tip = "tip_of_block b"])
        (simp_all add: store_update_new_def meta_of_tip_def meta_of_block_def tip_of_block_def)
    with st(2) show ?thesis by simp
  next
    case False
    have "cs = node_chain nd"
    proof (cases "apply_adopted ?Z (node_chain nd) msg b = Some (outcome, cs)")
      case True
      from ok this show ?thesis using False by (cases rule: apply_adopted_cases) simp_all
    qed (use cs in \<open>auto simp: apply_produced_def split: if_splits\<close>)
    moreover have "nd' = nd\<lparr>node_chain := cs\<rparr>"
      using run False by (cases outcome) (auto simp: record_produced_block_def cs Let_def)
    ultimately show ?thesis using old by simp
  qed
qed

lemma record_produced_error:
  assumes "record_produced_block S nd msg b withdrawals checkpoint = Some (Inl e, nd')"
  shows "\<exists>x. e = StoreFailed x"
proof -
  obtain outcome cs where "apply_produced (host_zone S) (node_chain nd) msg b = Some (outcome, cs)"
    using assms by (auto simp: record_produced_block_def panic_simps)
  with assms show ?thesis by (cases outcome) (auto simp: record_produced_block_def Let_def split: sum.splits)
qed

lemma turn_keeps_chain:
  assumes old: "persisted (host_zone S) init B (node_chain nd) (ss_db (node_store nd))"
    and free: "collision_free (host_zone S) B"
    and carried: "\<forall>b ws out. publish b ws = Some out \<longrightarrow> b \<in> B \<and> unat (id_of b) + 1 < 2 ^ 64"
    and run: "run_production_turn S nd ts live publish tip = Some (outcome, nd')" "\<forall>e. outcome \<noteq> Inl (StoreFailed e)"
  shows "persisted (host_zone S) init B (node_chain nd') (ss_db (node_store nd'))"
proof -
  obtain built d pool where build: "build_block_from_mempool S (node_chain nd) (ss_db (node_store nd)) (node_pool nd) ts live
      = Some (built, d, pool)"
    using run(1) by (auto simp: run_production_turn_def panic_simps)
  have kept: "persisted (host_zone S) init B (node_chain nd) d'" if "chain_cells d' = chain_cells d" for d'
    using persisted_cells [OF old, of d'] build_block_cells [OF build] that by simp
  note turn = run(1) [unfolded run_production_turn_def build bind.bind_lunit prod.case Let_def]
  show ?thesis
  proof (cases "\<exists>meta out. built = Inr meta \<and> publish (built_block meta) (built_withdrawals meta) = Some out")
    case False
    with turn have "node_chain nd' = node_chain nd" "ss_db (node_store nd') = d"
      by (auto split: sum.splits option.splits)
    with kept [OF refl] show ?thesis by simp
  next
    case True
    then obtain meta out where built: "built = Inr meta" "publish (built_block meta) (built_withdrawals meta) = Some out"
      by blast
    with carried have b: "built_block meta \<in> B" "unat (id_of (built_block meta)) + 1 < 2 ^ 64" by blast+
    define nd3 where "nd3 = nd\<lparr>node_pool := pool, node_store := (node_store nd)\<lparr>ss_db :=
        raise_published_high_water d (id_of (built_block meta))\<rparr>, node_last_submission :=
        snd (submit_committee_update (node_last_submission nd) (built_committee_update meta) tip)\<rparr>"
    from turn obtain r where
        "record_produced_block S nd3 (this_msg out) (built_block meta) (released_notes out) (published_checkpoint out) = Some (r, nd')"
        "outcome = and_then r (\<lambda>_. Inr (id_of (built_block meta)))"
      by (auto simp: built panic_simps nd3_def)
    note nd3 = this(1) and r = this(2)
    have nd: "node_chain nd3 = node_chain nd" "chain_cells (ss_db (node_store nd3)) = chain_cells d"
      by (simp_all add: nd3_def cells_simps)
    have "persisted (host_zone S) init B (node_chain nd3) (ss_db (node_store nd3))" using kept [OF nd(2)] nd(1) by simp
    note produced = produced_keeps_chain [OF this free b]
    have "r = Inr ()" using nd3 run(2) r by (cases r) (auto dest!: record_produced_error)
    with produced nd3 show ?thesis by simp
  qed
qed

subsection \<open>Reconstruction\<close>

lemma settle_reconstructed_cells [cells_simps]: "chain_cells (settle_reconstructed_deliveries S d b) = chain_cells d"
  by (simp add: settle_reconstructed_deliveries_def cells_simps Let_def)

lemma reconstructed_keeps_chain:
  assumes old: "persisted (host_zone S) init B cs d" and free: "collision_free (host_zone S) B"
    and b: "unat (id_of b) + 1 < 2 ^ 64"
    and run: "apply_reconstructed_block S cs d b slot = Some (Inr (cs', d'))"
  shows "persisted (host_zone S) init B cs' d'"
proof (cases "held_verbatim d b = None \<and> \<not> before_final cs b")
  case False
  then have "cs' = cs" "chain_cells d' = chain_cells d"
    using run by (auto simp: apply_reconstructed_block_def Let_def cells_simps chain_cells_def [of "_\<lparr>db_anchor := _\<rparr>"]
        chain_cells_def [of "settle_reconstructed_deliveries _ _ _", symmetric] split: option.splits if_splits)
  with persisted_cells [OF old] show ?thesis by simp
next
  case True
  let ?Z = "host_zone S"
  obtain s t L tip0 where p: "stored_final init d = (s, t)" "chain_from ?Z s t cs L" "\<forall>b \<in> set L. genuine ?Z B b"
      "finds (get_block d) L" "head_tip cs = Some tip0" "unat (tip_block_id tip0) + 1 < 2 ^ 64"
    using old unfolding persisted_def by blast
  obtain outcome cs1 where fin: "apply_finalized ?Z cs (header_hash (block_header b)) b slot = Some (outcome, cs1)"
    using run True by (auto simp: apply_reconstructed_block_def Let_def panic_simps)
  have "outcome \<in> {Applied, AlreadyApplied} \<and> cs1 = cs' \<and> (\<exists>anchor out. store_update d (reconstruct_store_update S d cs' b anchor) = Inr (out, d'))"
    using run True fin by (cases outcome) (auto simp: apply_reconstructed_block_def Let_def result_simps)
  then obtain anchor out where r: "apply_finalized ?Z cs (header_hash (block_header b)) b slot = Some (outcome, cs')"
      "store_update d (reconstruct_store_update S d cs' b anchor) = Inr (out, d')" "outcome \<in> {Applied, AlreadyApplied}"
    using fin by blast
  obtain L' where L': "chain_from ?Z s t cs' L'" "set (head_blocks cs') \<subseteq> set (head_blocks cs)"
      "L' = L \<or> head_tip cs' = Some (tip_of_block b)" "final_tip cs' \<noteq> None" "id_of b \<le> boundary (final_tip cs')"
    using finalized_tracked [OF p(2) r(1)] r(3) by blast
  obtain tip where tip: "head_tip cs' = Some tip" "unat (tip_block_id tip) + 1 < 2 ^ 64"
  proof (cases "L' = L")
    case True
    with chain_from_replay [OF L'(1)] chain_from_replay [OF p(2)] p(5,6) show thesis by (intro that [of tip0]) simp_all
  next
    case False
    with L'(3) b show thesis by (intro that [of "tip_of_block b"]) (simp_all add: tip_of_block_def)
  qed
  obtain ft where ft: "final_tip cs' = Some ft" using L'(4) by blast
  from rebased_tracked [OF p(2) tracked_disk [OF p(3,4)] L'(1,2)] L'(5) p(1) tip ft show ?thesis
    by (intro store_update_keeps_chain [OF old free r(2), where applied = "[]" and advanced = "[b]" and tip = tip
          and s = "final_state cs'" and t = "final_tip cs'" and L = "map entry_block (head_blocks cs')"])
      (simp_all add: reconstruct_store_update_def store_update_new_def)
qed

lemma reconstruct_keeps_chain:
  assumes "persisted (host_zone S) init B cs d" and "collision_free (host_zone S) B"
    and "\<forall>(msg, slot) \<in> set msgs. \<forall>bytes b. msg = ZoneBlock bytes \<longrightarrow> host_block_of_bytes S bytes = Some b
      \<longrightarrow> unat (id_of b) + 1 < 2 ^ 64"
    and "reconstruct_messages S check cs d msgs = Some (Inr (cs', d'))"
  shows "persisted (host_zone S) init B cs' d'"
  using assms
proof (induction msgs arbitrary: check cs d)
  case (Cons x msgs)
  obtain msg slot where x: "x = (msg, slot)" by force
  define check' where "check' = map_option (\<lambda>c. observe S c msg slot) check"
  have rest: "reconstruct_messages S check' cs d msgs = Some (Inr (cs', d')) \<or>
      (\<exists>bytes b cs1 d1. msg = ZoneBlock bytes \<and> host_block_of_bytes S bytes = Some b \<and>
        apply_reconstructed_block S cs d b slot = Some (Inr (cs1, d1)) \<and>
        reconstruct_messages S check' cs1 d1 msgs = Some (Inr (cs', d')))"
    using Cons.prems(4)
    by (auto simp: x Let_def simp flip: check'_def split: option.splits chain_consistency.splits zone_message.splits sum.splits)
  have later: "\<forall>(msg, slot) \<in> set msgs. \<forall>bytes b. msg = ZoneBlock bytes \<longrightarrow> host_block_of_bytes S bytes = Some b
      \<longrightarrow> unat (id_of b) + 1 < 2 ^ 64"
    using Cons.prems(3) by simp
  from rest show ?case
  proof (elim disjE exE conjE)
    assume "reconstruct_messages S check' cs d msgs = Some (Inr (cs', d'))"
    with Cons.IH [OF Cons.prems(1,2) later] show ?case by blast
  next
    fix bytes b cs1 d1
    assume "msg = ZoneBlock bytes" "host_block_of_bytes S bytes = Some b"
      and step: "apply_reconstructed_block S cs d b slot = Some (Inr (cs1, d1))"
      and run: "reconstruct_messages S check' cs1 d1 msgs = Some (Inr (cs', d'))"
    with Cons.prems(3) have "unat (id_of b) + 1 < 2 ^ 64" by (simp add: x)
    from Cons.IH [OF reconstructed_keeps_chain [OF Cons.prems(1,2) this step] Cons.prems(2) later run] show ?case .
  qed
qed simp

subsection \<open>Restart\<close>

lemma restore_blocks:
  assumes "replay_blocks Z (head_state cs) (head_tip cs) bs = Some (x, t)"
  shows "try_fold (restore_head_block Z) cs bs = Inr (cs\<lparr>head_state := x, head_blocks := head_blocks cs @
    map (\<lambda>b. \<lparr>entry_msg = header_hash (block_header b), entry_block = b\<rparr>) bs\<rparr>)"
  using assms
proof (induction bs arbitrary: cs)
  case (Cons b bs)
  obtain s1 where s1: "apply_block Z (head_tip cs) b (head_state cs) = Inr s1"
      "replay_blocks Z s1 (Some (tip_of_block b)) bs = Some (x, t)"
    using Cons.prems by (auto split: sum.splits)
  with Cons.IH [of "cs\<lparr>head_state := s1, head_blocks := head_blocks cs @
      [\<lparr>entry_msg = header_hash (block_header b), entry_block = b\<rparr>]\<rparr>"]
  show ?case by (simp add: restore_head_block_def head_tip_def [of "_\<lparr>head_state := _, head_blocks := _\<rparr>"])
qed simp

text \<open>The blocks a restart reads are, up to signature and status, the chain of the node.\<close>

lemma disk_blocks_same:
  assumes disk: "disk_ok Z B t i d" and "replay_blocks Z s t L = Some (x, t1)" and "boundary t1 = i" and "finds (get_block d) L"
  defines "bs \<equiv> sort_key id_of (filter (\<lambda>b. boundary t < id_of b) (get_all_blocks d))"
  shows "list_all2 same_block bs L" "\<forall>b \<in> set bs. genuine Z B b" "finds (get_block d) bs"
proof -
  have keyed: "well_keyed (db_blocks d)" using disk by (simp add: disk_ok_def)
  have on_disk: "get_block d (id_of b) = Some b \<longleftrightarrow> b \<in> set (get_all_blocks d)" for b
    using keyed by (force simp: get_block_def get_all_blocks_def well_keyed_def)
  have ids: "map id_of (get_all_blocks d) = map fst (db_blocks d)"
    using keyed by (auto simp: get_all_blocks_def well_keyed_def)
  have bs: "set bs = {b \<in> set (get_all_blocks d). boundary t < id_of b}" by (auto simp: bs_def)
  show "\<forall>b \<in> set bs. genuine Z B b" using disk on_disk by (auto simp: bs disk_ok_def)
  show found: "finds (get_block d) bs" unfolding finds_def bs using on_disk same_block_refl by blast
  have "set (map id_of bs) = set (map id_of L)"
  proof -
    have "k \<in> id_of ` set bs \<longleftrightarrow> k \<in> id_of ` set L" for k
    proof
      assume "k \<in> id_of ` set bs"
      then have "boundary t < k" "k \<le> i" using disk on_disk by (auto simp: bs disk_ok_def)
      with replay_in_range [OF assms(2)] assms(3) show "k \<in> id_of ` set L" by simp
    next
      assume k: "k \<in> id_of ` set L"
      then obtain c where "get_block d k = Some c" "id_of c = k"
        using assms(4) same_block_fields(1) unfolding finds_def by blast
      moreover from k have "boundary t < k" using replay_in_range [OF assms(2)] by blast
      ultimately show "k \<in> id_of ` set bs" using on_disk [of c] by (auto simp: bs)
    qed
    then show ?thesis by auto
  qed
  moreover have "sorted_wrt (<) (map id_of bs)"
  proof -
    have "distinct (map id_of (get_all_blocks d))" using keyed by (simp add: ids well_keyed_def)
    then have "distinct (map id_of bs)" by (auto simp: bs_def distinct_map inj_on_def)
    then show ?thesis by (simp add: bs_def strict_sorted_iff)
  qed
  ultimately have "map id_of bs = map id_of L"
    using replay_sorted_ids [OF assms(2)] by (intro strict_sorted_equal) auto
  from finds_same [OF found assms(4) this] show "list_all2 same_block bs L" .
qed

lemma restart_keeps_chain:
  assumes old: "persisted Z init B cs d"
  shows "\<exists>cs'. restore_chain_state Z init d (head_state cs) = Some cs' \<and> persisted Z init B cs' d \<and>
    head_state cs' = head_state cs \<and> head_tip cs' = head_tip cs \<and>
    (\<exists>fs. replay_blocks Z (final_state cs') (final_tip cs') fs = Some (final_state cs, final_tip cs))"
proof -
  obtain s t L tip where p: "stored_final init d = (s, t)" "chain_from Z s t cs L" "head_tip cs = Some tip"
      "unat (tip_block_id tip) + 1 < 2 ^ 64" "db_state d = Some (head_state cs)" "db_last_block d = Some (tip_block_id tip)"
      "db_latest_meta d = Some (meta_of_tip tip)" "disk_ok Z B t (tip_block_id tip) d" "finds (get_block d) L"
    using old unfolding persisted_def by blast
  define bs where "bs = sort_key id_of (filter (\<lambda>b. boundary t < id_of b) (get_all_blocks d))"
  note replay = chain_from_replay [OF p(2)]
  note disk = disk_blocks_same [OF p(8) replay _ p(9), folded bs_def]
  have same: "list_all2 same_block bs L" and gen: "\<forall>b \<in> set bs. genuine Z B b" "finds (get_block d) bs"
    using disk p(3) by (simp_all add: boundary_def)
  have run: "replay_blocks Z s t bs = Some (head_state cs, head_tip cs)"
    using same_blocks_replay [OF same] replay by simp
  define cs' where "cs' = (from_final s t)\<lparr>head_state := head_state cs,
    head_blocks := map (\<lambda>b. \<lparr>entry_msg = header_hash (block_header b), entry_block = b\<rparr>) bs\<rparr>"
  have "try_fold (restore_head_block Z) (from_final s t) bs = Inr cs'"
    using restore_blocks [of Z "from_final s t" bs] run by (simp add: cs'_def from_final_def head_tip_def)
  then have restored: "restore_chain_state Z init d (head_state cs) = Some cs'"
    using p(1) by (simp add: restore_chain_state_def bs_def cs'_def stored_final_def boundary_def assert_that_def comp_def Let_def)
  have blocks: "map entry_block (head_blocks cs') = bs" by (simp add: cs'_def comp_def)
  have ok: "chain_ok Z cs'" 
    using run by (intro chain_okI [of _ _ "head_tip cs"]) (simp add: cs'_def from_final_def comp_def)
  have tips: "head_state cs' = head_state cs" "final_state cs' = s" "final_tip cs' = t"
    by (simp_all add: cs'_def from_final_def)
  have head: "head_tip cs' = head_tip cs" using ok run blocks tips by (simp add: chain_ok_def)
  have "chain_from Z s t cs' bs" using chain_from_here [OF ok] blocks tips by simp
  then have "persisted Z init B cs' d"
    using p gen tips head unfolding persisted_def by (intro exI [of _ s] exI [of _ t] exI [of _ bs] exI [of _ tip]) simp
  moreover have "\<exists>fs. replay_blocks Z s t fs = Some (final_state cs, final_tip cs)" using p(2) by (auto simp: chain_from_def)
  ultimately show ?thesis using restored head tips by auto
qed

subsection \<open>Runs\<close>

lemma genesis_persisted:
  assumes "apply_block Z None g init = Inr s" and "g \<in> B"
  shows "persisted Z init B ((from_final init None)\<lparr>head_state := s,
      head_blocks := [\<lparr>entry_msg = header_hash (block_header g), entry_block = g\<rparr>]\<rparr>) (create g s)"
    (is "persisted _ _ _ ?cs ?d")
proof -
  have "id_of g = 1"
    using apply_block_cases(2) [OF assms(1)] by (auto simp: GENESIS_BLOCK_ID_def)
  then have small: "unat (id_of g) + 1 < 2 ^ 64" by simp
  have "chain_ok Z ?cs" using assms(1) by (intro chain_okI [of _ _ "Some (tip_of_block g)"]) (simp add: from_final_def)
  then have "chain_from Z init None ?cs [g]" using chain_from_here [of Z ?cs] by (simp add: from_final_def)
  moreover have "disk_ok Z B None (id_of g) ?d"
    using applied_genuine [OF assms(2,1)]
    by (auto simp: disk_ok_def create_def put_block_payload_def empty_db_def well_keyed_def get_block_def Let_def split: if_splits)
  ultimately show ?thesis
    using small applied_genuine [OF assms(2,1)] unfolding persisted_def
    by (intro exI [of _ init] exI [of _ None] exI [of _ "[g]"] exI [of _ "tip_of_block g"])
      (simp add: stored_final_def create_def put_block_payload_def empty_db_def head_tip_def tip_of_block_def meta_of_tip_def
        meta_of_block_def finds_def get_block_def Let_def)
qed

text \<open>
  What happens to a node. A turn produces a block, with the answers of the committee and of the
  channel. A channel update arrives. The mempool and the records of the store that are not the
  chain change. The node restarts: it reopens the store, restores the chain and reconstructs what it
  missed from the channel.
\<close>

datatype node_event =
    Turn timestamp "sequencer_key list option" "block \<Rightarrow> (u64 \<times> array32) list \<Rightarrow> publish_outcome option" "slot option option"
  | Update follow_update
  | Records db tx_pool
  | Restart bool "slot option" "slot option \<Rightarrow> (zone_message \<times> slot) list" tx_pool

inductive node_step :: "sequencer_env \<Rightarrow> v03_state \<Rightarrow> node_event \<Rightarrow> sequencer_node \<Rightarrow> sequencer_node \<Rightarrow> bool" for S init where
  turn: "run_production_turn S nd ts live publish tip = Some (outcome, nd')
    \<Longrightarrow> node_step S init (Turn ts live publish tip) nd nd'"
| follow: "apply_follow_update S (node_chain nd) (ss_db (node_store nd)) (node_pool nd) u = Some (cs, d, mp)
    \<Longrightarrow> node_step S init (Update u) nd (nd\<lparr>node_chain := cs, node_store := (node_store nd)\<lparr>ss_db := d\<rparr>, node_pool := mp\<rparr>)"
| records: "chain_cells d = chain_cells (ss_db (node_store nd))
    \<Longrightarrow> node_step S init (Records d mp) nd (nd\<lparr>node_store := (node_store nd)\<lparr>ss_db := d\<rparr>, node_pool := mp\<rparr>)"
| restart: "from_dbio_and_signing_key S (ss_db (node_store nd)) = Some (Inr st) \<Longrightarrow> db_state (ss_db st) = Some stored
    \<Longrightarrow> restore_chain_state (host_zone S) init (ss_db st) stored = Some cs
    \<Longrightarrow> verify_and_reconstruct S cs (ss_db st) fresh tip_slot messages = Some (Inr (blank, cs', d))
    \<Longrightarrow> node_step S init (Restart fresh tip_slot messages mp) nd
      \<lparr>node_chain = cs', node_store = st\<lparr>ss_db := d\<rparr>, node_pool = mp, node_last_submission = None\<rparr>"

text \<open>
  The events after which a node can be expected to find its head again, over the blocks \<open>B\<close> that the
  channel carries. A turn does not fail to write its block after publishing it. A channel update
  leaves a head (it does not orphan the whole chain) and is not torn. Block ids stay below the limit
  of their type.
\<close>

definition below_limit :: "block_id \<Rightarrow> bool" where
  "below_limit i \<longleftrightarrow> unat i + 1 < 2 ^ 64"

fun regular :: "sequencer_env \<Rightarrow> block set \<Rightarrow> sequencer_node \<Rightarrow> node_event \<Rightarrow> bool" where
  "regular S B nd (Turn ts live publish tip) \<longleftrightarrow>
    (\<forall>b ws out. publish b ws = Some out \<longrightarrow> b \<in> B \<and> below_limit (id_of b)) \<and>
    (\<forall>e nd'. run_production_turn S nd ts live publish tip \<noteq> Some (Inl (StoreFailed e), nd'))"
| "regular S B nd (Update u) \<longleftrightarrow>
    (\<forall>(msg, b) \<in> set (follow_adopted u). b \<in> B) \<and>
    \<not> torn_update S (node_chain nd) (ss_db (node_store nd)) u \<and>
    (\<forall>cs d mp. apply_follow_update S (node_chain nd) (ss_db (node_store nd)) (node_pool nd) u = Some (cs, d, mp) \<longrightarrow>
      (\<exists>t. head_tip cs = Some t \<and> below_limit (tip_block_id t)))"
| "regular S B nd (Records d mp) \<longleftrightarrow> True"
| "regular S B nd (Restart fresh tip_slot messages mp) \<longleftrightarrow>
    (\<forall>after. \<forall>(msg, slot) \<in> set (messages after). \<forall>bytes b. msg = ZoneBlock bytes \<longrightarrow>
      host_block_of_bytes S bytes = Some b \<longrightarrow> below_limit (id_of b))"

inductive node_run :: "sequencer_env \<Rightarrow> v03_state \<Rightarrow> block set \<Rightarrow> sequencer_node \<Rightarrow> sequencer_node \<Rightarrow> bool" for S init B where
  stay: "node_run S init B nd nd"
| event: "node_run S init B nd nd' \<Longrightarrow> regular S B nd' ev \<Longrightarrow> node_step S init ev nd' nd'' \<Longrightarrow> node_run S init B nd nd''"

lemma verify_and_reconstruct_messages:
  assumes "verify_and_reconstruct S cs d fresh tip_slot messages = Some (Inr (blank, cs', d'))"
  shows "\<exists>check after. reconstruct_messages S check cs d (messages after) = Some (Inr (cs', d'))"
  using assms
  by (auto simp: verify_and_reconstruct_def Let_def split: option.splits bool.splits chain_consistency.splits sum.splits)

lemma node_step_persisted:
  assumes "node_step S init ev nd nd'" and "regular S B nd ev" and "collision_free (host_zone S) B"
    and "persisted (host_zone S) init B (node_chain nd) (ss_db (node_store nd))"
  shows "persisted (host_zone S) init B (node_chain nd') (ss_db (node_store nd'))"
  using assms(1)
proof cases
  case (turn ts live publish tip outcome)
  with assms(2) have "\<forall>b ws out. publish b ws = Some out \<longrightarrow> b \<in> B \<and> unat (id_of b) + 1 < 2 ^ 64"
      "\<forall>e. outcome \<noteq> Inl (StoreFailed e)"
    by (auto simp: below_limit_def)
  with turn_keeps_chain [OF assms(4,3)] turn show ?thesis by blast
next
  case (follow u cs d mp)
  with assms(2) obtain t where "\<forall>(msg, b) \<in> set (follow_adopted u). b \<in> B"
      "\<not> torn_update S (node_chain nd) (ss_db (node_store nd)) u" "head_tip cs = Some t" "unat (tip_block_id t) + 1 < 2 ^ 64"
    by (auto simp: below_limit_def)
  with follow_keeps_chain [OF assms(4,3)] follow show ?thesis by simp
next
  case (records d mp)
  with persisted_cells [OF assms(4)] show ?thesis by simp
next
  case (restart st stored cs fresh tip_slot messages blank cs' d mp)
  have db: "ss_db st = ss_db (node_store nd)"
    using restart(3) by (auto simp: from_dbio_and_signing_key_def panic_simps split: option.splits)
  have "stored = head_state (node_chain nd)"
    using restart(4) assms(4) by (auto simp: db persisted_def)
  with restart_keeps_chain [OF assms(4)] restart(5) have p: "persisted (host_zone S) init B cs (ss_db st)" by (auto simp: db)
  obtain check after where "reconstruct_messages S check cs (ss_db st) (messages after) = Some (Inr (cs', d))"
    using verify_and_reconstruct_messages [OF restart(6)] by blast
  from reconstruct_keeps_chain [OF p assms(3) _ this] restart(1,2) assms(2) show ?thesis by (simp add: below_limit_def)
qed

lemma node_run_persisted:
  "node_run S init B nd nd' \<Longrightarrow> collision_free (host_zone S) B
    \<Longrightarrow> persisted (host_zone S) init B (node_chain nd) (ss_db (node_store nd))
    \<Longrightarrow> persisted (host_zone S) init B (node_chain nd') (ss_db (node_store nd'))"
  by (induction rule: node_run.induct) (auto intro: node_step_persisted)

lemma start_persisted:
  assumes "apply_block (host_zone S) None g init = Inr s" and "g \<in> B"
    and "restore_chain_state (host_zone S) init (create g s) s = Some cs"
  shows "persisted (host_zone S) init B cs (create g s)"
  using restart_keeps_chain [OF genesis_persisted [OF assms(1,2)]] assms(3) by auto

text \<open>
  C24: A node finds its head again after a restart. Start it from a genesis block that applies to the
  initial state, and let it run: it produces blocks, follows channel updates that orphan, adopt and
  finalize blocks, and restarts with reconstruction. Assume that the hashes of the blocks on the channel
  do not collide and that ids stay below the limit of their type; that no turn fails to store a block
  it has published; and that every channel update leaves a head and is not torn, that is, it does not
  apply a block the disk holds after a new one of the same id. Whenever the node stops, restoring the
  chain from its store succeeds and gives the head state and tip that the node had, and the node's
  final tier is reached from the restored one by replaying blocks. So the panic of a store that
  disagrees with its blocks does not occur in such runs.
\<close>

theorem restart_restores_head:
  assumes "apply_block (host_zone S) None g init = Inr s" and "g \<in> B" and "collision_free (host_zone S) B"
    and "node_store nd0 = create_db_with_genesis S g s"
    and "restore_chain_state (host_zone S) init (ss_db (node_store nd0)) s = Some (node_chain nd0)"
    and "node_run S init B nd0 nd"
  shows "\<exists>stored cs. db_state (ss_db (node_store nd)) = Some stored \<and>
    restore_chain_state (host_zone S) init (ss_db (node_store nd)) stored = Some cs \<and>
    head_state cs = head_state (node_chain nd) \<and> head_tip cs = head_tip (node_chain nd) \<and>
    (\<exists>bs. replay_blocks (host_zone S) (final_state cs) (final_tip cs) bs
      = Some (final_state (node_chain nd), final_tip (node_chain nd)))"
proof -
  have "persisted (host_zone S) init B (node_chain nd0) (ss_db (node_store nd0))"
    using start_persisted [OF assms(1,2)] assms(4,5) by (simp add: create_db_with_genesis_def)
  from node_run_persisted [OF assms(6,3) this]
  have p: "persisted (host_zone S) init B (node_chain nd) (ss_db (node_store nd))" .
  then have "db_state (ss_db (node_store nd)) = Some (head_state (node_chain nd))" unfolding persisted_def by blast
  with restart_keeps_chain [OF p] show ?thesis by blast
qed

end
