(* ===== verification/StoreTypes.thy ===== *)
theory StoreTypes
  imports StoreUpdates StoreSafety
begin

text \<open>
  The shape of a store: what its cells satisfy after every operation of \<open>storage/src/sequencer\<close>.
\<close>

subsection \<open>Well-formed cells\<close>

definition blocks_wf :: "db \<Rightarrow> bool" where
  "blocks_wf d \<longleftrightarrow> distinct (map fst (db_blocks d)) \<and>
    (\<forall>(i, b) \<in> set (db_blocks d). header_block_id (block_header b) = i)"

definition deposits_wf :: "db \<Rightarrow> bool" where
  "deposits_wf d \<longleftrightarrow> distinct (map deposit_op_id (db_deposits d))"

definition dispatches_wf :: "db \<Rightarrow> bool" where
  "dispatches_wf d \<longleftrightarrow> distinct (map fst (db_dispatches d)) \<and> (\<forall>(k, r) \<in> set (db_dispatches d). dispatch_key r = k) \<and>
    unat (db_dispatch_count d) = length (db_dispatches d) \<and>
    length (db_dispatches d) \<le> MAX_PENDING_CROSS_ZONE_DISPATCHES \<and> db_legacy_dispatches d = None"

definition letters_wf :: "db \<Rightarrow> bool" where
  "letters_wf d \<longleftrightarrow> distinct (map letter_key (db_dead_letters d)) \<and>
    length (db_dead_letters d) \<le> MAX_DEAD_LETTER_CROSS_ZONE_DISPATCHES \<and>
    length (db_dead_letters d) \<le> unat (db_dead_letter_count d)"

definition store_wf :: "db \<Rightarrow> bool" where
  "store_wf d \<longleftrightarrow> blocks_wf d \<and> deposits_wf d \<and> dispatches_wf d \<and> letters_wf d"

lemma blocks_wf_keyed: "blocks_wf d \<longleftrightarrow> well_keyed (db_blocks d)"
  by (fastforce simp: blocks_wf_def well_keyed_def)

text \<open>The cells of the pending records.\<close>

definition record_cells :: "db \<Rightarrow> pending_deposit_event list \<times> (array32 \<times> pending_dispatch) list \<times> u64
    \<times> pending_dispatch list option \<times> dead_letter list \<times> u64" where
  "record_cells d = (db_deposits d, db_dispatches d, db_dispatch_count d, db_legacy_dispatches d, db_dead_letters d,
    db_dead_letter_count d)"

lemma record_cells_wf:
  assumes "record_cells d' = record_cells d"
  shows "deposits_wf d' = deposits_wf d" "dispatches_wf d' = dispatches_wf d" "letters_wf d' = letters_wf d"
  using assms by (simp_all add: record_cells_def deposits_wf_def dispatches_wf_def letters_wf_def)

subsection \<open>Records\<close>

lemma push_deposit_distinct:
  "distinct (map deposit_op_id rs) \<Longrightarrow> distinct (map deposit_op_id (foldl (push_deposit removed) rs events))"
  by (induction events arbitrary: rs) (auto simp: push_deposit_def)

lemma stage_deposits_wf:
  assumes "deposits_wf d" and "record_cells w = record_cells d"
  shows "deposits_wf (snd (stage_pending_deposit_events d new removed w))"
    "record_cells (snd (stage_pending_deposit_events d new removed w)) = (fst (record_cells
      (snd (stage_pending_deposit_events d new removed w))), snd (record_cells d))"
  using assms push_deposit_distinct [of "db_deposits d" removed new]
  by (auto simp: stage_pending_deposit_events_def deposits_wf_def record_cells_def distinct_map_filter Let_def)

lemma delete_length:
  "distinct (map fst al) \<Longrightarrow> map_of al k \<noteq> None \<Longrightarrow> Suc (length (AList.delete k al)) = length al"
proof (induction al)
  case (Cons x al)
  then show ?case by (cases "fst x = k") (auto simp: map_of_eq_None_iff intro: arg_cong [where f = length, OF delete_idem])
qed simp

lemma deletes_length:
  assumes "distinct (map fst al)" and "distinct ks" and "\<forall>k \<in> set ks. map_of al k \<noteq> None"
  shows "length (fold AList.delete ks al) + length ks = length al"
  using assms
proof (induction ks arbitrary: al)
  case (Cons k ks)
  have "\<forall>j \<in> set ks. map_of (AList.delete k al) j \<noteq> None"
    using Cons.prems(2,3) by (auto simp: delete_conv')
  with Cons.IH [of "AList.delete k al"] Cons.prems delete_length [of al k] show ?case
    by (auto simp: distinct_delete)
qed simp

lemma set_deletes: "set (fold AList.delete ks al) \<subseteq> set al"
proof (induction ks arbitrary: al)
  case (Cons k ks)
  have "set (AList.delete k al) \<subseteq> set al" by (auto simp: AList.delete_eq)
  with Cons.IH [of "AList.delete k al"] show ?case by auto
qed simp

lemma distinct_deletes: "distinct (map fst al) \<Longrightarrow> distinct (map fst (fold AList.delete ks al))"
  by (induction ks arbitrary: al) (simp_all add: distinct_delete)

lemma saturating_sub_count:
  assumes "n \<le> unat (c :: u64)"
  shows "unat (saturating_sub c (of_nat n)) = unat c - n"
proof -
  have "n < 2 ^ 64" using assms unsigned_less [of c, where 'a = nat] by simp
  then have "unat (of_nat n :: u64) = n" by (simp add: unsigned_of_nat take_bit_nat_eq_self)
  with assms show ?thesis by (simp add: saturating_sub_def word_le_nat_alt unat_sub word_less_nat_alt)
qed

lemma stage_removed_wf:
  assumes "dispatches_wf d" "letters_wf d" "snd (record_cells w) = snd (record_cells d)"
  shows "dispatches_wf (snd (stage_removed_dispatches d keys w))" "letters_wf (snd (stage_removed_dispatches d keys w))"
    "db_deposits (snd (stage_removed_dispatches d keys w)) = db_deposits w"
proof -
  have w: "db_dispatches w = db_dispatches d" "db_dispatch_count w = db_dispatch_count d"
      "db_legacy_dispatches w = db_legacy_dispatches d" "db_dead_letters w = db_dead_letters d"
      "db_dead_letter_count w = db_dead_letter_count d"
    using assms(3) by (simp_all add: record_cells_def)
  define staged where "staged = remdups (filter (\<lambda>k. map_of (db_dispatches d) k \<noteq> None) keys)"
  have len: "length (fold AList.delete staged (db_dispatches d)) + length staged = length (db_dispatches d)"
    using assms(1) by (intro deletes_length) (auto simp: dispatches_wf_def staged_def)
  have count: "unat (saturating_sub (db_dispatch_count d) (of_nat (length staged))) = length (db_dispatches d) - length staged"
    using assms(1) len by (subst saturating_sub_count) (auto simp: dispatches_wf_def)
  let ?w = "snd (stage_removed_dispatches d keys w)"
  have cells: "db_dispatches ?w = (if keys = [] then db_dispatches d else fold AList.delete staged (db_dispatches d))"
    "db_dispatch_count ?w = (if keys = [] \<or> staged = [] then db_dispatch_count d
      else saturating_sub (db_dispatch_count d) (of_nat (length staged)))"
    "db_legacy_dispatches ?w = db_legacy_dispatches d"
    unfolding staged_def by (simp_all add: stage_removed_dispatches_def stage_reconciled_dead_letters_def w Let_def)
  have "\<forall>(k, r) \<in> set (fold AList.delete staged (db_dispatches d)). dispatch_key r = k"
    using assms(1) set_deletes by (fastforce simp: dispatches_wf_def)
  then show "dispatches_wf ?w"
    using assms(1) len count distinct_deletes [of "db_dispatches d" staged]
    by (auto simp: dispatches_wf_def cells)
  show "letters_wf ?w"
    using assms(2) by (auto simp: letters_wf_def stage_removed_dispatches_def stage_reconciled_dead_letters_def w Let_def
        distinct_map_filter intro: le_trans [OF length_filter_le])
  show "db_deposits ?w = db_deposits w"
    by (simp add: stage_removed_dispatches_def stage_reconciled_dead_letters_def Let_def)
qed

lemma put_dispatches_append:
  assumes "distinct (map dispatch_key rs)" and "\<forall>r \<in> set rs. map_of (db_dispatches d) (dispatch_key r) = None"
  shows "db_dispatches (fold put_dispatch rs d) = db_dispatches d @ keyed rs"
  using assms
proof (induction rs arbitrary: d)
  case (Cons r rs)
  have absent: "AList.update k v al = al @ [(k, v)]" if "map_of al k = None" for k al and v :: pending_dispatch
    using that by (induction al) (auto split: if_splits)
  have "db_dispatches (put_dispatch r d) = db_dispatches d @ [(dispatch_key r, r)]"
    using Cons.prems(2) by (simp add: put_dispatch_def absent)
  moreover have "\<forall>q \<in> set rs. map_of (db_dispatches (put_dispatch r d)) (dispatch_key q) = None"
    using Cons.prems by (auto simp: put_dispatch_map) (metis imageI)
  ultimately show ?case using Cons.IH [of "put_dispatch r d"] Cons.prems(1) by simp
qed simp

lemma put_dispatches_cells [simp]:
  "db_blocks (fold put_dispatch rs d) = db_blocks d" "db_deposits (fold put_dispatch rs d) = db_deposits d"
  "db_legacy_dispatches (fold put_dispatch rs d) = db_legacy_dispatches d"
  "db_dead_letters (fold put_dispatch rs d) = db_dead_letters d"
  "db_dead_letter_count (fold put_dispatch rs d) = db_dead_letter_count d"
  by (induction rs arbitrary: d) (simp_all add: put_dispatch_def)

lemma new_dispatches_absent: "r \<in> set (new_dispatches d offered rs) \<Longrightarrow> map_of (db_dispatches d) (dispatch_key r) = None"
  by (induction rs arbitrary: offered) (auto split: if_splits)

lemma new_dispatches_length: "length (new_dispatches d offered rs) \<le> length rs"
  by (induction rs arbitrary: offered) (auto simp: le_SucI)

lemma add_pending_wf:
  assumes wf: "store_wf d" and run: "add_pending_cross_zone_dispatches d rs = Inr (n, d')" and len: "length rs < 2 ^ 64"
  shows "store_wf d'"
proof -
  define new where "new = new_dispatches d [] rs"
  have new: "distinct (map dispatch_key new)" "\<forall>r \<in> set new. map_of (db_dispatches d) (dispatch_key r) = None"
      "length new < 2 ^ 64"
    using new_dispatches_keys [of d "[]" rs] new_dispatches_absent [of _ d "[]" rs] new_dispatches_length [of d "[]" rs] len
    by (auto simp: new_def)
  show ?thesis
  proof (cases "new = []")
    case True
    with run wf show ?thesis by (simp add: add_pending_cross_zone_dispatches_def flip: new_def)
  next
    case False
    define after where "after = saturating_add (db_dispatch_count d) (of_nat (length new))"
    have run': "after \<le> of_nat MAX_PENDING_CROSS_ZONE_DISPATCHES" "d' = (fold put_dispatch new d)\<lparr>db_dispatch_count := after\<rparr>"
      using run False by (auto simp: add_pending_cross_zone_dispatches_def Let_def after_def simp flip: new_def split: if_splits)
    have small: "unat after \<le> 4096"
      using run'(1) by (simp add: MAX_PENDING_CROSS_ZONE_DISPATCHES_def word_le_nat_alt)
    have "unat (of_nat (length new) :: u64) = length new" using new(3) by (simp add: unsigned_of_nat take_bit_nat_eq_self)
    then have after: "unat after = unat (db_dispatch_count d) + length new"
      using small by (auto simp: after_def saturating_add_def unat_word_ariths unsigned_minus_1_eq_mask mask_eq_exp_minus_1
          split: if_splits)
    have keys: "distinct (map fst (db_dispatches d @ keyed new))"
    proof -
      have "fst ` set (db_dispatches d) \<inter> dispatch_key ` set new = {}" using new(2) by (force simp: map_of_eq_None_iff)
      with wf new(1) show ?thesis by (simp add: store_wf_def dispatches_wf_def comp_def image_image)
    qed
    have "dispatches_wf d'"
      using wf after small keys put_dispatches_append [OF new(1,2)]
      by (auto simp: store_wf_def dispatches_wf_def run'(2) MAX_PENDING_CROSS_ZONE_DISPATCHES_def)
    with wf show ?thesis by (simp add: store_wf_def blocks_wf_def deposits_wf_def letters_wf_def run'(2))
  qed
qed

lemma push_dead_letter_wf:
  assumes "distinct (map letter_key ls)" "length ls \<le> MAX_DEAD_LETTER_CROSS_ZONE_DISPATCHES"
  shows "distinct (map letter_key (push_dead_letter l ls))"
    "length (push_dead_letter l ls) \<le> MAX_DEAD_LETTER_CROSS_ZONE_DISPATCHES" "length (push_dead_letter l ls) \<le> Suc (length ls)"
proof -
  have "distinct (map letter_key (drop n (ls @ [l])))" if "letter_key l \<notin> letter_key ` set ls" for n
    using assms(1) that distinct_drop [of "map letter_key (ls @ [l])" n, unfolded drop_map] by simp
  with assms show "distinct (map letter_key (push_dead_letter l ls))"
    by (simp add: push_dead_letter_def Let_def del: drop_append map_append)
  show "length (push_dead_letter l ls) \<le> MAX_DEAD_LETTER_CROSS_ZONE_DISPATCHES" "length (push_dead_letter l ls) \<le> Suc (length ls)"
    using assms(2) by (auto simp: push_dead_letter_def MAX_DEAD_LETTER_CROSS_ZONE_DISPATCHES_def Let_def)
qed

lemma record_failure_wf:
  assumes wf: "store_wf d" and run: "record_dispatch_failure d key retire_at origin = (failure, d')"
  shows "store_wf d'"
proof (cases "map_of (db_dispatches d) key")
  case None
  with run wf show ?thesis by (simp add: record_dispatch_failure_def)
next
  case (Some held)
  have disp: "distinct (map fst (db_dispatches d))" "\<forall>(k, r) \<in> set (db_dispatches d). dispatch_key r = k"
      "unat (db_dispatch_count d) = length (db_dispatches d)"
      "length (db_dispatches d) \<le> MAX_PENDING_CROSS_ZONE_DISPATCHES" "db_legacy_dispatches d = None"
    and letters: "distinct (map letter_key (db_dead_letters d))"
      "length (db_dead_letters d) \<le> MAX_DEAD_LETTER_CROSS_ZONE_DISPATCHES"
      "length (db_dead_letters d) \<le> unat (db_dead_letter_count d)"
    using wf by (simp_all add: store_wf_def dispatches_wf_def letters_wf_def)
  have key: "key \<in> fst ` set (db_dispatches d)" "dispatch_key held = key"
    using Some disp(2) by (auto dest!: map_of_SomeD intro: rev_image_eqI)
  have update: "length (AList.update key r (db_dispatches d)) = length (db_dispatches d)" for r
    using key(1) update_keys [of key r "db_dispatches d"] by (metis length_map list.set_map)
  have count: "unat (saturating_sub (db_dispatch_count d) 1) = length (AList.delete key (db_dispatches d))"
    using delete_length [OF disp(1), of key] Some disp(3) saturating_sub_count [of 1 "db_dispatch_count d"] by simp
  have rest: "\<forall>(k, r) \<in> set (AList.delete key (db_dispatches d)). dispatch_key r = k"
    using disp(2) set_deletes [of "[key]" "db_dispatches d"] by fastforce
  have total: "Suc (length (db_dead_letters d)) \<le> unat (saturating_add (db_dead_letter_count d) 1)
      \<or> MAX_DEAD_LETTER_CROSS_ZONE_DISPATCHES \<le> unat (saturating_add (db_dead_letter_count d) 1)"
    using letters(3) by (auto simp: saturating_add_def unat_word_ariths unsigned_minus_1_eq_mask mask_eq_exp_minus_1
        MAX_DEAD_LETTER_CROSS_ZONE_DISPATCHES_def)
  show ?thesis
  proof (cases "saturating_add (failed_attempts held) 1 < retire_at")
    case True
    let ?held = "held\<lparr>failed_attempts := saturating_add (failed_attempts held) 1\<rparr>"
    have "d' = d\<lparr>db_dispatches := AList.update key ?held (db_dispatches d)\<rparr>"
      using run Some True by (simp add: record_dispatch_failure_def Let_def)
    moreover have "\<forall>(k, r) \<in> set (AList.update key ?held (db_dispatches d)). dispatch_key r = k"
      using disp(2) key(2) by (auto dest!: set_update_cases)
    ultimately show ?thesis
      using wf disp update by (simp add: store_wf_def blocks_wf_def deposits_wf_def dispatches_wf_def letters_wf_def distinct_update)
  next
    case False
    then obtain l where d': "d' = d\<lparr>db_dispatches := AList.delete key (db_dispatches d),
        db_dispatch_count := saturating_sub (db_dispatch_count d) 1,
        db_dead_letters := push_dead_letter l (db_dead_letters d),
        db_dead_letter_count := saturating_add (db_dead_letter_count d) 1\<rparr>"
      using run Some by (auto simp: record_dispatch_failure_def Let_def)
    have "dispatches_wf d'"
      using disp count rest delete_length [OF disp(1), of key] Some by (simp add: d' dispatches_wf_def distinct_delete)
    moreover have "letters_wf d'"
      using push_dead_letter_wf [OF letters(1,2), of l] total by (auto simp: d' letters_wf_def)
    ultimately show ?thesis using wf by (simp add: store_wf_def blocks_wf_def deposits_wf_def d')
  qed
qed

subsection \<open>Blocks\<close>

lemma put_payloads_records: "record_cells (fold (\<lambda>(_, b). put_block_payload b) xs w) = record_cells w"
  by (induction xs arbitrary: w) (auto simp: put_block_payload_def record_cells_def)

lemma delete_block_wf: "store_wf d \<Longrightarrow> delete_block d i = Inr d' \<Longrightarrow> store_wf d'"
  using set_deletes [of "[i]" "db_blocks d"]
  by (auto simp: delete_block_def store_wf_def blocks_wf_def deposits_wf_def dispatches_wf_def letters_wf_def distinct_delete
      split: option.splits)

lemma set_status_wf:
  assumes wf: "store_wf d" and run: "set_block_bedrock_status d i status = Inr d'"
  shows "store_wf d'"
proof -
  have keyed: "well_keyed (db_blocks d)" using wf by (simp add: store_wf_def blocks_wf_keyed)
  obtain b where b: "get_block d i = Some b" "d' = d\<lparr>db_blocks := AList.update i (b\<lparr>bedrock_status := status\<rparr>) (db_blocks d)\<rparr>"
    using run by (auto simp: set_block_bedrock_status_def split: option.splits)
  have "id_of b = i" using well_keyed_id [OF keyed] b(1) by (simp add: get_block_def)
  with well_keyed_update [OF keyed, of "b\<lparr>bedrock_status := status\<rparr>"] b(2) have "blocks_wf d'" by (simp add: blocks_wf_keyed)
  moreover have "record_cells d' = record_cells d" by (simp add: b(2) record_cells_def)
  ultimately show ?thesis using wf record_cells_wf [of d' d] by (simp add: store_wf_def)
qed

interpretation block_resets: invariant_step store_wf "\<lambda>d i. set_block_bedrock_status d i Pending"
  by unfold_locales (rule set_status_wf)

lemma clean_pending_wf:
  assumes "store_wf d"
  shows "store_wf (clean_pending_blocks_up_to d l)"
proof -
  have keyed: "well_keyed (db_blocks d)" using assms by (simp add: store_wf_def blocks_wf_keyed)
  have "well_keyed (collect_finalized_up_to d l [])"
    using blocks_to_write_keyed [OF keyed, of "(store_update_new s)\<lparr>up_finalized_up_to := Some l\<rparr>" for s]
    by (simp add: blocks_to_write_def store_update_new_def)
  from put_payloads [OF this keyed] record_cells_wf [OF put_payloads_records [of "collect_finalized_up_to d l []" d]] assms show ?thesis
    by (simp add: clean_pending_blocks_up_to_def store_wf_def blocks_wf_keyed)
qed

subsection \<open>Updates\<close>

lemma stage_withdrawals_records: "record_cells (snd (stage_consumed_withdrawals d ws w)) = record_cells w"
proof -
  have "record_cells (snd (foldl (\<lambda>(unmatched, w) (k, n).
      let stored = db_withdraws d k;
          matched = min n (case stored of None \<Rightarrow> 0 | Some count \<Rightarrow> saturating_add count 1) in
      (unmatched @ replicate (unat (saturating_sub n matched)) k,
       case Option.bind stored (\<lambda>count. checked_sub count n) of
         Some count \<Rightarrow> w\<lparr>db_withdraws := (db_withdraws w)(k \<mapsto> count)\<rparr>
       | None \<Rightarrow> if stored \<noteq> None then w\<lparr>db_withdraws := (db_withdraws w)(k := None)\<rparr> else w))
      (u, w) xs)) = record_cells w" for u xs
    by (induction xs arbitrary: u w) (auto simp: Let_def record_cells_def split: option.splits)
  then show ?thesis by (simp add: stage_consumed_withdrawals_def)
qed

lemma stage_intents_records:
  assumes "stage_new_withdraw_intents d ws w = Inr w'"
  shows "record_cells w' = record_cells w"
proof -
  have "try_fold (\<lambda>w (k, n).
      expect_some (checked_add (case db_withdraws d k of None \<Rightarrow> 0 | Some count \<Rightarrow> count) n)
        WithdrawCounterOverflow (\<lambda>next. Inr (w\<lparr>db_withdraws := (db_withdraws w)(k \<mapsto> next)\<rparr>))) w xs = Inr w'
      \<Longrightarrow> record_cells w' = record_cells w" for xs
    by (induction xs arbitrary: w) (auto simp: result_simps record_cells_def)
  with assms show ?thesis by (simp add: stage_new_withdraw_intents_def)
qed

lemma pin_head_records: "record_cells (pin_head last_block W u tip w) = record_cells w"
  by (simp add: pin_head_def delete_block_payloads_def record_cells_def Let_def)

lemma pin_head_keyed: "well_keyed (db_blocks w) \<Longrightarrow> well_keyed (db_blocks (pin_head last_block W u tip w))"
  by (simp add: pin_head_def delete_block_payloads_def well_keyed_filter Let_def)

lemma store_update_blocks_wf:
  assumes "blocks_wf d" and "store_update d u = Inr (out, d')"
  shows "blocks_wf d'"
proof -
  obtain last_block w where w: "chain_cells w = chain_cells (fold (\<lambda>(_, b). put_block_payload b) (blocks_to_write d u) d)"
    "d' = (case up_head_tip u of
        Some tip \<Rightarrow> if chain_changed d u last_block then pin_head last_block (blocks_to_write d u) u tip w else w
      | None \<Rightarrow> w)"
    by (rule store_update_cells [OF assms(2)])
  have keyed: "well_keyed (db_blocks d)" using assms(1) by (simp add: blocks_wf_keyed)
  have "well_keyed (db_blocks w)"
    using put_payloads [OF blocks_to_write_keyed [OF keyed] keyed] w(1) by (simp add: chain_cells_def)
  with pin_head_keyed show ?thesis by (simp add: blocks_wf_keyed w(2) split: option.splits)
qed

lemma store_update_wf:
  assumes wf: "store_wf d" and run: "store_update d u = Inr (out, d')"
  shows "store_wf d'"
proof -
  obtain last_block c a w w' where steps: "w = snd (stage_consumed_withdrawals d (up_consumed_withdrawals u)
      (snd (stage_removed_dispatches d (up_remove_dispatch_records u)
      (snd (stage_pending_deposit_events d (up_new_deposit_events u) (up_remove_deposit_records u)
      (fold (\<lambda>(_, b). put_block_payload b) (blocks_to_write d u) (d\<lparr>db_checkpoint := c, db_anchor := a\<rparr>)))))))"
    "stage_new_withdraw_intents d (up_new_withdraw_intents u) w = Inr w'"
    "d' = (case up_head_tip u of
        Some tip \<Rightarrow> if chain_changed d u last_block then pin_head last_block (blocks_to_write d u) u tip w' else w'
      | None \<Rightarrow> w')"
    by (rule store_update_steps [OF run])
  define w1 where "w1 = fold (\<lambda>(_, b). put_block_payload b) (blocks_to_write d u) (d\<lparr>db_checkpoint := c, db_anchor := a\<rparr>)"
  define w2 where "w2 = snd (stage_pending_deposit_events d (up_new_deposit_events u) (up_remove_deposit_records u) w1)"
  define w3 where "w3 = snd (stage_removed_dispatches d (up_remove_dispatch_records u) w2)"
  have parts: "deposits_wf d" "dispatches_wf d" "letters_wf d" "blocks_wf d" using wf by (simp_all add: store_wf_def)
  have w1: "record_cells w1 = record_cells d" unfolding w1_def put_payloads_records by (simp add: record_cells_def)
  note w2 = stage_deposits_wf [OF parts(1) w1, of "up_new_deposit_events u" "up_remove_deposit_records u", folded w2_def]
  have "snd (record_cells w2) = snd (record_cells d)" using w2(2) by (metis snd_conv)
  note w3 = stage_removed_wf [OF parts(2,3) this, of "up_remove_dispatch_records u", folded w3_def]
  have "record_cells d' = record_cells w3"
    using stage_intents_records [OF steps(2)]
    by (simp add: steps(1,3) pin_head_records stage_withdrawals_records flip: w1_def w2_def w3_def split: option.splits)
  from record_cells_wf [OF this] w3 w2(1) store_update_blocks_wf [OF parts(4) run] show ?thesis
    by (simp add: store_wf_def deposits_wf_def)
qed

subsection \<open>Every operation\<close>

text \<open>The operations of the store on the database, with lists shorter than an address space.\<close>

inductive store_step :: "db \<Rightarrow> db \<Rightarrow> bool" where
  deleted: "delete_block d i = Inr d' \<Longrightarrow> store_step d d'"
| finalized: "mark_block_as_finalized d i = Inr d' \<Longrightarrow> store_step d d'"
| reset: "reset_all_blocks_to_pending d = Inr d' \<Longrightarrow> store_step d d'"
| cleaned: "store_step d (clean_pending_blocks_up_to d l)"
| published: "store_step d (raise_published_high_water d i)"
| deposited: "add_pending_deposit_event d e = (new, d') \<Longrightarrow> store_step d d'"
| dispatched: "add_pending_cross_zone_dispatches d rs = Inr (n, d') \<Longrightarrow> length rs < 2 ^ 64 \<Longrightarrow> store_step d d'"
| migrated: "store_step d (migrate_legacy_pending_dispatches d)"
| failed: "record_dispatch_failure d k n origin = (failure, d') \<Longrightarrow> store_step d d'"
| settled: "drop_settled_cross_zone_dispatches d ks = (n, d') \<Longrightarrow> store_step d d'"
| withdrawn: "consume_unseen_withdraw_count d k = (seen, d') \<Longrightarrow> store_step d d'"
| updated: "store_update d u = Inr (out, d') \<Longrightarrow> store_step d d'"
| produced: "atomic_update d b ws s c = Inr d' \<Longrightarrow> store_step d d'"
| peer_tip: "store_step d (put_cross_zone_peer_tip d z t)"
| peer_floor: "store_step d (set_cross_zone_peer_floor d z i)"
| peer_floor_cleared: "store_step d (clear_cross_zone_peer_floor d z)"

lemma unchanged_wf:
  assumes "store_wf d" and "db_blocks d' = db_blocks d" and "record_cells d' = record_cells d"
  shows "store_wf d'"
  using assms record_cells_wf [OF assms(3)] by (simp add: store_wf_def blocks_wf_def)

lemma side_cells_wf:
  assumes "store_wf d"
  shows "store_wf (raise_published_high_water d i)" "store_wf (put_cross_zone_peer_tip d z t)"
    "store_wf (set_cross_zone_peer_floor d z i)" "store_wf (clear_cross_zone_peer_floor d z)"
  by (rule unchanged_wf [OF assms]; simp add: raise_published_high_water_def put_cross_zone_peer_tip_def
      set_cross_zone_peer_floor_def clear_cross_zone_peer_floor_def record_cells_def)+

lemma deposit_event_wf:
  assumes wf: "store_wf d" and run: "add_pending_deposit_event d e = (new, d')"
  shows "store_wf d'"
proof -
  have d': "d' = snd (stage_pending_deposit_events d [e] [] d)"
    using run by (simp add: add_pending_deposit_event_def split: prod.splits)
  note staged = stage_deposits_wf [of d d "[e]" "[]", folded d']
  have "snd (record_cells d') = snd (record_cells d)" using staged(2) wf by (metis snd_conv store_wf_def)
  then have "dispatches_wf d'" "letters_wf d'"
    using wf by (simp_all add: record_cells_def store_wf_def dispatches_wf_def letters_wf_def)
  moreover have "blocks_wf d'"
    using wf stage_deposits_cells [of d "[e]" "[]" d] by (simp add: d' store_wf_def blocks_wf_def chain_cells_def)
  ultimately show ?thesis using staged(1) wf by (simp add: store_wf_def)
qed

lemma settled_wf:
  assumes wf: "store_wf d" and run: "drop_settled_cross_zone_dispatches d ks = (n, d')"
  shows "store_wf d'"
proof -
  have d': "d' = snd (stage_removed_dispatches d ks d)"
    using run by (simp add: drop_settled_cross_zone_dispatches_def)
  from stage_removed_wf [of d d ks, folded d'] wf stage_dispatches_cells [of d ks d] show ?thesis
    by (simp add: d' store_wf_def blocks_wf_def deposits_wf_def chain_cells_def)
qed

lemma store_step_wf: "store_step d d' \<Longrightarrow> store_wf d \<Longrightarrow> store_wf d'"
proof (induction rule: store_step.induct)
  case (reset d d')
  then show ?case unfolding reset_all_blocks_to_pending_def by (blast intro: block_resets.try_fold_inv)
next
  case (migrated d)
  then show ?case by (simp add: migrate_legacy_pending_dispatches_def store_wf_def dispatches_wf_def)
next
  case (withdrawn d k seen d')
  then have d': "d' = snd (stage_consumed_withdrawals d [k] d)"
    by (simp add: consume_unseen_withdraw_count_def split: prod.splits)
  from withdrawn(2) show ?case
    by (rule unchanged_wf)
      (use stage_withdrawals_cells [of d "[k]" d] stage_withdrawals_records [of d "[k]" d] in \<open>simp_all add: d' chain_cells_def\<close>)
next
  case (produced d b ws s c d')
  then show ?case by (auto simp: atomic_update_def result_simps intro: store_update_wf)
next
  case (finalized d i d')
  then show ?case unfolding mark_block_as_finalized_def by (rule set_status_wf [rotated])
qed (rule delete_block_wf clean_pending_wf deposit_event_wf add_pending_wf record_failure_wf settled_wf store_update_wf
    side_cells_wf; assumption)+

lemma create_wf: "store_wf (create g s)"
  by (simp add: create_def put_block_payload_def empty_db_def store_wf_def blocks_wf_def deposits_wf_def dispatches_wf_def
      letters_wf_def MAX_DEAD_LETTER_CROSS_ZONE_DISPATCHES_def MAX_PENDING_CROSS_ZONE_DISPATCHES_def Let_def)

text \<open>
  C38: A store created with a genesis block keeps its shape under every operation. A block is filed under
  its own id and at most one under each; deposits and dead letters have different ids; a pending
  dispatch is filed under its key, the stored counter is the number of pending dispatches, and
  there are at most 4096 of them; at most 256 dead letters are kept, and no more than were ever counted.
\<close>

theorem store_well_formed: "store_step\<^sup>*\<^sup>* (create g s) d \<Longrightarrow> store_wf d"
  by (induction rule: rtranclp_induct) (auto intro: create_wf store_step_wf)

end
