(* ===== verification/PeerExamples.thy ===== *)
theory PeerExamples
  imports PeerSafety ZoneExamples
begin

text \<open>
  A peer zone whose genesis block carries one emission, watched by the sequencer of another zone
  and verified by its indexer.
\<close>

subsection \<open>Codecs\<close>

definition byte_words :: "bytes \<Rightarrow> u32 list" where
  "byte_words bs = map ucast bs @ [256]"

definition byte_of_words :: "u32 list \<Rightarrow> bytes" where
  "byte_of_words ws = map ucast (takeWhile (\<lambda>w. w \<noteq> 256) ws)"

definition after_bytes :: "u32 list \<Rightarrow> u32 list" where
  "after_bytes ws = drop 1 (dropWhile (\<lambda>w. w \<noteq> 256) ws)"

lemma byte_words_codec:
  "byte_of_words (byte_words bs @ ws) = bs" "after_bytes (byte_words bs @ ws) = ws"
proof -
  have small: "(ucast b :: u32) \<noteq> 256" for b :: u8
    using unsigned_less [of b, where 'a = nat] by (simp add: word_unat_eq_iff unsigned_ucast_eq take_bit_nat_eq_self)
  have round: "ucast (ucast b :: u32) = b" for b :: u8
    by (rule bit_word_eqI) (simp add: bit_simps)
  show "byte_of_words (byte_words bs @ ws) = bs" "after_bytes (byte_words bs @ ws) = ws"
    by (induction bs) (simp_all add: byte_of_words_def after_bytes_def byte_words_def small round)
qed

definition demo_inbox_words :: "inbox_instruction \<Rightarrow> u32 list" where
  "demo_inbox_words i =
    (case i of
       Dispatch msg \<Rightarrow> le_split 8 (src_zone msg) @ le_split 2 (src_block_id msg) @ le_split 8 (src_block_hash msg)
         @ [src_tx_index msg] @ le_split 8 (program_words (src_program_id msg))
         @ le_split 8 (program_words (target_program_id msg)) @ byte_words (payload msg)
         @ (case l1_inclusion_witness msg of None \<Rightarrow> [] | Some w \<Rightarrow> byte_words w)
     | InboxInitConfig _ \<Rightarrow> [])"

definition demo_inbox_of_words :: "u32 list \<Rightarrow> inbox_instruction option" where
  "demo_inbox_of_words ws =
    (if length ws < 36 then None
     else let rest = drop 35 ws in
       Some (Dispatch \<lparr>src_zone = le_join (take 8 ws), src_block_id = le_join (take 2 (drop 8 ws)),
         src_block_hash = le_join (take 8 (drop 10 ws)), src_tx_index = ws ! 18,
         src_program_id = ProgramId (le_join (take 8 (drop 19 ws))),
         target_program_id = ProgramId (le_join (take 8 (drop 27 ws))), payload = byte_of_words rest,
         l1_inclusion_witness = (if after_bytes rest = [] then None else Some (byte_of_words (after_bytes rest)))\<rparr>))"

lemma demo_inbox_codec: "demo_inbox_of_words (demo_inbox_words (Dispatch msg)) = Some (Dispatch msg)"
proof -
  have len: "length (byte_words bs) = Suc (length bs)" "byte_words bs \<noteq> []" for bs by (simp_all add: byte_words_def)
  show ?thesis
    using byte_words_codec(1) [of _ "[]"] byte_words_codec(2) [of _ "[]"]
    by (cases "l1_inclusion_witness msg")
      (simp_all add: demo_inbox_words_def demo_inbox_of_words_def len Let_def codec_simps byte_words_codec nth_append)
qed

definition demo_cross :: cross_codecs where
  "demo_cross = \<lparr>xc_sha256 = demo_sha256, xc_inbox_config_bytes = (\<lambda>c. array32 (self_zone c)),
    xc_inbox_config_of_bytes = (\<lambda>bs. if length bs = 32 then Some \<lparr>self_zone = of_array32 bs\<rparr> else None),
    xc_shard_bytes = (\<lambda>_. []), xc_shard_of_bytes = (\<lambda>_. None), xc_outbox_record_bytes = (\<lambda>_. []),
    xc_wrapped_config_bytes = (\<lambda>_. []), xc_wrapped_config_of_bytes = (\<lambda>_. None),
    xc_receiver_config_bytes = (\<lambda>_. []), xc_receiver_config_of_bytes = (\<lambda>_. None),
    xc_inbox_words = demo_inbox_words, xc_inbox_of_words = demo_inbox_of_words,
    xc_outbox_words = (\<lambda>_. []), xc_lock_words = (\<lambda>_. []), xc_lock_of_words = (\<lambda>_. None),
    xc_wrapped_words = (\<lambda>_. []), xc_wrapped_of_words = (\<lambda>_. None), xc_sender_words = (\<lambda>_. []),
    xc_sender_of_words = (\<lambda>ws. if ws = [] then None else Some (Send (ucast (hd ws)) (ProgramId 9) [5] [1, 0, 0, 0] 0)),
    xc_receiver_words = (\<lambda>_. [])\<rparr>"

subsection \<open>A peer's genesis block\<close>

definition ping_tx :: public_transaction where
  "ping_tx = genesis_public_tx (ProgramId 8) [] [2]"

definition peer_genesis :: block where
  "peer_genesis = into_pending_block demo_zone (\<lambda>_. Signature 5)
    \<lparr>hashable_block_id = GENESIS_BLOCK_ID, hashable_prev_hash = 0, hashable_timestamp = 3,
     hashable_transactions = [PublicTx ping_tx]\<rparr>"

definition demo_host :: host_env where
  "demo_host = \<lparr>host_zone = demo_zone, host_cross = demo_cross, host_inbox_id = ProgramId 7,
    host_outbox_id = ProgramId 6, host_lock_id = ProgramId 5, host_wrapped_id = ProgramId 4,
    host_sender_id = ProgramId 8, host_receiver_id = ProgramId 9,
    host_block_of_bytes = (\<lambda>bs. if bs = [1] then Some peer_genesis else None),
    host_tx_bytes = (\<lambda>_. [3]), host_tx_of_bytes = (\<lambda>_. None)\<rparr>"

definition peer_stream :: "(zone_message \<times> slot) list" where
  "peer_stream = [(ZoneBlock [1], 10)]"

definition demo_ctx :: peer_context where
  "demo_ctx = \<lparr>ctx_peer_zone = 1, ctx_self_zone = 2, ctx_pubkey = None\<rparr>"

definition demo_verifier :: verifier where
  "demo_verifier = \<lparr>verifier_self_zone = 2, verifier_pubkeys = Map.empty, verifier_seen = {}\<rparr>"

lemma demo_host_simps [simp]:
  "host_zone demo_host = demo_zone" "host_cross demo_host = demo_cross"
  "host_block_of_bytes demo_host bs = (if bs = [1] then Some peer_genesis else None)"
  "host_inbox_id demo_host = ProgramId 7" "host_sender_id demo_host = ProgramId 8"
  "host_tx_bytes demo_host tx = [3]"
  by (simp_all add: demo_host_def)

lemma peer_genesis_simps [simp]:
  "header_block_id (block_header peer_genesis) = GENESIS_BLOCK_ID"
  "body_transactions (block_body peer_genesis) = [PublicTx ping_tx]"
  "recompute_hash demo_zone peer_genesis = header_hash (block_header peer_genesis)"
  by (simp_all add: peer_genesis_def into_pending_block_def Let_def recompute_hash_def hashable_of_block_def)

lemma demo_screen: "screen_peer_block demo_zone peer_genesis None = Inr (block_hash_of peer_genesis)"
  by (simp add: screen_peer_block_def Let_def)

definition ping_record :: pending_dispatch where
  "ping_record = recorded (message_key demo_sha256 1 GENESIS_BLOCK_ID 0) [3]"

lemma ping_emission:
  "extract_emission demo_host (msg_program_id (pub_message ping_tx)) (msg_instruction_data (pub_message ping_tx)) =
    Some \<lparr>emission_zone = 2, emission_program = ProgramId 9, emission_accounts = [5], emission_payload = [1, 0, 0, 0]\<rparr>"
  by (simp add: extract_emission_def ping_tx_def genesis_public_tx_def demo_cross_def)

lemma demo_deliveries: "block_deliveries demo_host demo_ctx peer_genesis = [ping_record]"
  using ping_emission
  by (simp add: block_deliveries_def List.map_filter_def delivery_of_def Let_def demo_ctx_def
      is_sequencer_only_program_def ping_record_def demo_cross_def)

text \<open>
  Witness: the watcher records the peer's emission, and a verifier whose reader needs three polls
  to get there re-derives it.
\<close>

theorem watcher_verifier_agree_witness:
  "\<exists>r tx msg. watch_peer_stream demo_host demo_ctx empty_db None None (take 1 peer_stream) = (Drained, r) \<and>
    db_dispatches (run_db r) \<noteq> [] \<and> decode_dispatch demo_host (PublicTx tx) = Some msg \<and>
    rederive demo_host demo_verifier (\<lambda>n. fst (read_peer_stream demo_host 1 None Map.empty None
      (take (n - 2) peer_stream))) msg = Inr tx"
proof -
  obtain outcome r where watch: "watch_peer_stream demo_host demo_ctx empty_db None None (take 1 peer_stream) = (outcome, r)"
    by force
  then have r: "outcome = Drained" "map_of (db_dispatches (run_db r)) (dispatch_key ping_record) = Some ping_record"
    using demo_deliveries
    by (auto simp: watch_peer_stream_def peer_stream_def watcher_step_def watch_block_def demo_screen demo_ctx_def
        link_to_tip_def record_block_deliveries_def block_deliveries_def add_pending_cross_zone_dispatches_def
        empty_db_def put_dispatch_def enter_slot_def complete_slot_def advance_cursor_def
        put_cross_zone_peer_tip_def set_cross_zone_peer_floor_def saturating_add_def
        MAX_PENDING_CROSS_ZONE_DISPATCHES_def Let_def split: if_splits)
  have "collision_free demo_zone (stream_blocks demo_host peer_stream)"
    by (simp add: collision_free_def peer_stream_def)
  moreover have "length (body_transactions (block_body b)) \<le> 2 ^ 32" if "b \<in> stream_blocks demo_host peer_stream" for b
    using that by (simp add: peer_stream_def)
  ultimately show ?thesis
    using watcher_verifier_agree [of demo_host peer_stream demo_ctx empty_db None 1 outcome r demo_verifier
        "\<lambda>n. fst (read_peer_stream demo_host 1 None Map.empty None (take (n - 2) peer_stream))" "\<lambda>n. n - 2" 3]
      watch r demo_inbox_codec
    by (fastforce simp: demo_cross_def demo_verifier_def demo_ctx_def PEER_BLOCK_WAIT_TIMEOUT_def empty_db_def)
qed

end
