(* ===== verification/SequencerExamples.thy ===== *)
theory SequencerExamples
  imports ProductionSafety PeerExamples
begin

text \<open>
  A sequencer of the example zone: its production turns and what it follows. The runs show that
  the hypotheses of the theorems on the sequencer can hold.
\<close>

subsection \<open>The sequencer\<close>

definition demo_stake :: stake_codecs where
  "demo_stake = \<lparr>sk_sha256 = demo_sha256, sk_record_bytes = (\<lambda>_. []), sk_record_of_bytes = (\<lambda>_. None),
    sk_config_bytes = (\<lambda>_. []), sk_config_of_bytes = (\<lambda>_. None), sk_words = (\<lambda>_. []), sk_of_words = (\<lambda>_. None)\<rparr>"

definition demo_sequencer :: sequencer_env where
  "demo_sequencer = host_env.extend demo_host \<lparr>sq_stake = demo_stake, sq_stake_id = ProgramId 12,
    sq_vault_id = ProgramId 13, sq_bridge_words = (\<lambda>_. []), sq_bridge_of_words = (\<lambda>_. None),
    sq_deposit_metadata = (\<lambda>_. None), sq_tx_hash = (\<lambda>_. 0), sq_sign = (\<lambda>_. Signature 5),
    sq_max_block_size = 4096, sq_max_num_tx = 20\<rparr>"

lemma demo_sequencer_simps [simp]:
  "host_zone demo_sequencer = demo_zone" "sq_stake demo_sequencer = demo_stake"
  "sq_sign demo_sequencer = (\<lambda>_. Signature 5)"
  by (simp_all add: demo_sequencer_def host_env.defs demo_host_def)

definition demo_tip :: tip where
  "demo_tip = \<lparr>tip_block_id = GENESIS_BLOCK_ID, tip_hash = 9\<rparr>"

definition demo_chain :: chain_state where
  "demo_chain = from_final zone_state (Some demo_tip)"

lemma demo_chain_simps [simp]:
  "head_tip demo_chain = Some demo_tip" "head_state demo_chain = zone_state" "head_blocks demo_chain = []"
  by (simp_all add: demo_chain_def from_final_def head_tip_def)

lemma no_unstakes: "build_finalize_unstake_txs demo_sequencer s = []"
  by (simp add: build_finalize_unstake_txs_def finalize_unstake_candidates_def read_stake_config_def demo_stake_def
      split: option.splits)

subsection \<open>A block with a deployment\<close>

text \<open>A user deploys a program; the turn builds a block with the deployment and the clock.\<close>

definition deploy_pool :: tx_pool where
  "deploy_pool = \<lparr>mp_queue = [(UserOrigin, ProgramDeploymentTx demo_deploy)], mp_front_buffer = [], mp_max_size = 8\<rparr>"

definition clock_block :: "u64 \<Rightarrow> block" where
  "clock_block ts = into_pending_block demo_zone (\<lambda>_. Signature 5) \<lparr>hashable_block_id = 2, hashable_prev_hash = 9,
    hashable_timestamp = ts, hashable_transactions = [PublicTx (clock_invocation demo_zone ts)]\<rparr>"

lemma clock_runs:
  assumes "clock_ready zone_codecs demo_zone s" and "state_inv demo_sha256 s vs"
  shows "\<exists>s'. transition_from_public_transaction (zone_externals demo_zone) s (clock_invocation demo_zone ts) 2 ts = Inr s'"
proof -
  have valid: "validate_against_tip demo_zone (Some demo_tip) (clock_block ts) = Inr ()"
    unfolding clock_block_def
    by (rule into_pending_block_valid) (simp_all add: demo_tip_def GENESIS_BLOCK_ID_def checked_add_def)
  have "header_timestamp (block_header (clock_block ts)) = ts"
    by (simp add: clock_block_def into_pending_block_def Let_def)
  then have "body_transactions (block_body (clock_block ts))
      = [PublicTx (clock_invocation demo_zone (header_timestamp (block_header (clock_block ts))))]"
    by (simp add: clock_block_def)
  from clock_only_block_applies [OF demo_zone_executes_clock assms(1) zone_data_fits clock_ids_distinct _ valid this] assms(2)
  obtain s' where "apply_block demo_zone (Some demo_tip) (clock_block ts) s = Inr s'" by auto
  from apply_block_cases(3) [OF this] show ?thesis
    by (auto simp: apply_block_to_state_def clock_block_def into_pending_block_def Let_def result_simps)
qed

lemma deploy_applies:
  "\<exists>s. execute_check_on_state demo_zone zone_state (ProgramDeploymentTx demo_deploy) 2 ts = Inr s \<and>
    clock_ready zone_codecs demo_zone s \<and> state_inv demo_sha256 s [DUMMY_COMMITMENT]"
proof -
  have new: "AccountId 23 \<notin> set clock_account_ids" by code_simp
  then have "public_state zone_state (AccountId 23) = None"
    by (auto simp: zone_state_def clock_account_ids_def CLOCK_PROGRAM_ACCOUNT_IDS_def)
  then have none: "get_program zone_state (program_of_account (AccountId 23)) = None" by (simp add: get_program_def)
  define diff where "diff = \<lparr>diff_signers = [], diff_public = [], diff_commitments = [], diff_nullifiers = [],
    diff_program = Some \<lparr>prog_id = program_of_account (AccountId 23), prog_elf = [3]\<rparr>\<rparr>"
  have "from_program_deployment_transaction (zone_externals demo_zone) demo_deploy zone_state = Inr diff"
    using none by (simp add: from_program_deployment_transaction_def program_new_def demo_deploy_def demo_zone_def
        demo_externals_def diff_def)
  then have "validate_on_state demo_zone (ProgramDeploymentTx demo_deploy) zone_state 2 ts = Inr diff"
    by (simp add: validate_on_state_def diff_def validate_doesnt_modify_account_def clock_account_ids_def
        CLOCK_PROGRAM_ACCOUNT_IDS_def validate_bridge_account_modification_def Let_def)
  moreover obtain cs where "extend_commitments demo_sha256 (private_commitments zone_state) [] = Some cs"
    using extend_with_nothing [OF zone_state_inv] by blast
  then obtain s where s: "apply_state_diff demo_sha256 zone_state diff = Some s"
      "public_state s = (public_state zone_state)(AccountId 23 \<mapsto>
        default_account\<lparr>program_owner := PROGRAM_STORAGE_OWNER, data := Data [3]\<rparr>)"
    by (auto simp: apply_state_diff_def diff_def insert_program_def data_try_from_def DATA_MAX_LENGTH_def ensure_def)
  ultimately have run: "execute_check_on_state demo_zone zone_state (ProgramDeploymentTx demo_deploy) 2 ts = Inr s"
    by (simp add: execute_check_on_state_def apply_validated_def)
  have same: "get_account_by_id s i = get_account_by_id zone_state i" if "i \<noteq> AccountId 23" for i
    using that by (simp add: get_account_by_id_def account_or_default_def s(2))
  have clock: "get_account_by_id s i = get_account_by_id zone_state i" if "i \<in> set clock_account_ids" for i
    using that new by (intro same) auto
  have "get_program s clock_program = get_program zone_state clock_program"
    by (simp add: get_program_def s(2) clock_program_def)
  moreover have "CLOCK_01_PROGRAM_ACCOUNT_ID \<in> set clock_account_ids"
    by (simp add: clock_account_ids_def CLOCK_PROGRAM_ACCOUNT_IDS_def)
  ultimately have "clock_ready zone_codecs demo_zone s"
    using zone_clock_ready clock by (simp add: clock_ready_def)
  moreover have "state_inv demo_sha256 s [DUMMY_COMMITMENT]"
    using apply_state_diff_inv [OF zone_state_inv s(1)] by (simp add: diff_def)
  ultimately show ?thesis using run by blast
qed

lemma demo_builds:
  "\<exists>meta d mp. build_block_from_mempool demo_sequencer demo_chain empty_db deploy_pool 77 None = Some (Inr meta, d, mp) \<and>
    body_transactions (block_body (built_block meta))
      = [ProgramDeploymentTx demo_deploy, PublicTx (clock_invocation demo_zone 77)]"
proof -
  obtain s where deploy: "execute_check_on_state demo_zone zone_state (ProgramDeploymentTx demo_deploy) 2 77 = Inr s"
      and ready: "clock_ready zone_codecs demo_zone s" "state_inv demo_sha256 s [DUMMY_COMMITMENT]"
    using deploy_applies by blast
  obtain s' where clock: "transition_from_public_transaction (zone_externals demo_zone) s (clock_invocation demo_zone 77) 2 77 = Inr s'"
    using clock_runs [OF ready] by blast
  have height: "next_block_height demo_chain = Some 2"
    by (simp add: next_block_height_def demo_tip_def GENESIS_BLOCK_ID_def checked_add_def)
  define C :: block_context where "C = \<lparr>ctx_height = 2, ctx_prev_hash = tip_hash demo_tip, ctx_timestamp = 77, ctx_live_keys = None\<rparr>"
  define r :: build_run where "r = \<lparr>br_state = zone_state, br_valid = [], br_withdrawals = [], br_db = empty_db\<rparr>"
  have "build_step demo_sequencer C r (UserOrigin, ProgramDeploymentTx demo_deploy, False)
      = Some (Continue, r\<lparr>br_state := s, br_valid := [ProgramDeploymentTx demo_deploy]\<rparr>)"
    using deploy
    by (simp add: build_step_def block_size_def C_def r_def finalize_unstake_is_includable_def
        finalize_unstake_ownership_account_def apply_mempool_transaction_def extract_bridge_withdraw_data_def
        bridge_instruction_of_def Let_def)
      (simp add: demo_sequencer_def host_env.defs demo_zone_def)
  then have loop: "build_loop demo_sequencer C r [] deploy_pool = Some (r\<lparr>br_state := s, br_valid := [ProgramDeploymentTx demo_deploy]\<rparr>,
      deploy_pool\<lparr>mp_queue := []\<rparr>)"
    by (simp add: build_loop.simps next_item_def mempool_pop_def deploy_pool_def)
  show ?thesis
    using clock
    by (simp add: build_block_from_mempool_def height get_pending_cross_zone_dispatches_def decode_recorded_def
        pending_deposit_txs_def no_unstakes List.map_filter_simps empty_db_def)
      (simp add: loop [unfolded C_def r_def empty_db_def] r_def clock_lee_tx_def hashable_with_def)
qed

text \<open>Witness: the block with the deployment becomes the head of the node, and of a node that adopts it.\<close>

theorem produced_block_becomes_head_witness:
  "\<exists>meta d mp s. build_block_from_mempool demo_sequencer demo_chain empty_db deploy_pool 77 None = Some (Inr meta, d, mp) \<and>
    body_transactions (block_body (built_block meta))
      = [ProgramDeploymentTx demo_deploy, PublicTx (clock_invocation demo_zone 77)] \<and>
    apply_produced demo_zone demo_chain 3 (built_block meta) = Some (Applied, extended demo_chain s 3 (built_block meta)) \<and>
    apply_adopted demo_zone demo_chain 4 (built_block meta) = Some (Applied, extended demo_chain s 4 (built_block meta))"
proof -
  obtain meta d mp where run: "build_block_from_mempool demo_sequencer demo_chain empty_db deploy_pool 77 None
      = Some (Inr meta, d, mp)" "body_transactions (block_body (built_block meta))
      = [ProgramDeploymentTx demo_deploy, PublicTx (clock_invocation demo_zone 77)]"
    using demo_builds by blast
  have start: "(follow (host_zone demo_sequencer))\<^sup>*\<^sup>* (from_final zone_state (Some demo_tip)) demo_chain"
    by (simp add: demo_chain_def)
  have tip: "GENESIS_BLOCK_ID \<le> tip_block_id demo_tip" by (simp add: demo_tip_def)
  obtain s where "\<forall>s1 t1 cs1 msg. (follow demo_zone)\<^sup>*\<^sup>* (from_final s1 t1) cs1 \<and>
        head_tip cs1 = head_tip demo_chain \<and> head_state cs1 = head_state demo_chain \<longrightarrow>
      apply_produced demo_zone cs1 msg (built_block meta) = Some (Applied, extended cs1 s msg (built_block meta)) \<and>
      apply_adopted demo_zone cs1 msg (built_block meta) = Some (Applied, extended cs1 s msg (built_block meta))"
    using produced_block_becomes_head [OF start demo_chain_simps(1) tip run(1)] unfolding Let_def demo_sequencer_simps by blast
  with run start show ?thesis unfolding demo_sequencer_simps by blast
qed

end
