(* ===== verification/NodeExamples.thy ===== *)
theory NodeExamples
  imports NodeRuns StoreTypes SequencerExamples
begin

text \<open>
  A node of the example zone that starts from its genesis block, sees it finalized and stores the
  snapshot, so that a restart no longer replays it.
\<close>

definition genesis_node :: "v03_state \<Rightarrow> sequencer_node" where
  "genesis_node s = \<lparr>node_chain = (from_final zone_state None)\<lparr>head_state := s, head_blocks :=
      [\<lparr>entry_msg = header_hash (block_header (genesis_block (Signature 5))), entry_block = genesis_block (Signature 5)\<rparr>]\<rparr>,
    node_store = create_db_with_genesis demo_sequencer (genesis_block (Signature 5)) s,
    node_pool = mempool_new 8, node_last_submission = None\<rparr>"

definition finalize_genesis :: follow_update where
  "finalize_genesis = \<lparr>follow_checkpoint = [1], follow_adopted = [], follow_orphaned = [],
    follow_finalized = [(header_hash (block_header (genesis_block (Signature 5))), genesis_block (Signature 5))],
    follow_deposits = [], follow_withdrawals = []\<rparr>"

lemma genesis_node_restored:
  assumes "apply_block demo_zone None (genesis_block (Signature 5)) zone_state = Inr s"
  shows "restore_chain_state demo_zone zone_state (create (genesis_block (Signature 5)) s) s = Some (node_chain (genesis_node s))"
  using assms
  by (simp add: restore_chain_state_def create_def put_block_payload_def empty_db_def get_all_blocks_def Let_def
      restore_head_block_def from_final_def head_tip_def assert_that_def genesis_node_def GENESIS_BLOCK_ID_def)

lemma store_update_succeeds:
  assumes "db_last_block d \<noteq> None" and "up_new_withdraw_intents u = []"
  shows "\<exists>out d'. store_update d u = Inr (out, d')"
  using assms
  by (auto simp: store_update_def get_meta_last_block_in_db_def stage_new_withdraw_intents_def occurrences_def Let_def
      split: prod.splits)

lemma genesis_finalized:
  assumes "apply_block demo_zone None (genesis_block (Signature 5)) zone_state = Inr s"
  shows "\<exists>cs d mp. apply_follow_update demo_sequencer (node_chain (genesis_node s)) (ss_db (node_store (genesis_node s)))
      (mempool_new 8) finalize_genesis = Some (cs, d, mp) \<and>
    head_tip cs = Some (tip_of_block (genesis_block (Signature 5))) \<and> head_blocks cs = []"
proof -
  let ?g = "genesis_block (Signature 5)" and ?cs = "node_chain (genesis_node s)" and ?d = "ss_db (node_store (genesis_node s))"
  have fin: "apply_finalized demo_zone ?cs (header_hash (block_header ?g)) ?g 0 = Some (Applied, ?cs\<lparr>final_state := s,
      final_tip := Some (tip_of_block ?g), head_blocks := []\<rparr>)"
    using assms by (simp add: apply_finalized_def head_position_of_def finalize_through_def assert_that_def genesis_node_def
        from_final_def)
  define cs2 where "cs2 = ?cs\<lparr>final_state := s, final_tip := Some (tip_of_block ?g), head_blocks := []\<rparr>"
  let ?args = "follow_store_update demo_sequencer ?d finalize_genesis cs2 (applied_blocks [] []) [?g] [?g]
      (Some (meta_of_tip (tip_of_block ?g)))"
  obtain out d' where "store_update ?d ?args = Inr (out, d')"
    using store_update_succeeds [of ?d ?args]
    by (auto simp: genesis_node_def create_db_with_genesis_def create_def follow_store_update_def store_update_new_def Let_def)
  with fin show ?thesis
    by (simp add: apply_follow_update_def finalize_genesis_def apply_channel_update_def min_position_def Let_def
        List.map_filter_simps flip: cs2_def) (simp add: cs2_def head_tip_def)
qed

text \<open>Witness: the node after its genesis block was finalized.\<close>

theorem restart_restores_head_witness:
  "\<exists>s nd stored cs. apply_block demo_zone None (genesis_block (Signature 5)) zone_state = Inr s \<and>
    node_run demo_sequencer zone_state {genesis_block (Signature 5)} (genesis_node s) nd \<and>
    head_blocks (node_chain nd) = [] \<and> db_state (ss_db (node_store nd)) = Some stored \<and>
    restore_chain_state demo_zone zone_state (ss_db (node_store nd)) stored = Some cs \<and>
    head_tip cs = Some (tip_of_block (genesis_block (Signature 5)))"
proof -
  let ?g = "genesis_block (Signature 5)"
  obtain s where s: "apply_block demo_zone None ?g zone_state = Inr s" using genesis_applies by blast
  obtain cs d mp where run: "apply_follow_update demo_sequencer (node_chain (genesis_node s)) (ss_db (node_store (genesis_node s)))
      (mempool_new 8) finalize_genesis = Some (cs, d, mp)" and cs: "head_tip cs = Some (tip_of_block ?g)" "head_blocks cs = []"
    using genesis_finalized [OF s] by blast
  define nd where "nd = (genesis_node s)\<lparr>node_chain := cs, node_store := (node_store (genesis_node s))\<lparr>ss_db := d\<rparr>, node_pool := mp\<rparr>"
  have node_pool: "node_pool (genesis_node s) = mempool_new 8" by (simp add: genesis_node_def)
  have "node_step demo_sequencer zone_state (Update finalize_genesis) (genesis_node s) nd"
    unfolding nd_def by (rule node_step.follow) (simp add: run node_pool)
  moreover have "regular demo_sequencer {?g} (genesis_node s) (Update finalize_genesis)"
    using run cs(1)
    by (simp add: node_pool below_limit_def tip_of_block_def GENESIS_BLOCK_ID_def torn_update_def)
      (simp add: finalize_genesis_def apply_channel_update_def min_position_def applied_blocks_def List.map_filter_simps)
  ultimately have steps: "node_run demo_sequencer zone_state {?g} (genesis_node s) nd"
    by (blast intro: node_run.stay node_run.event)
  have "collision_free (host_zone demo_sequencer) {?g}" by (simp add: collision_free_def)
  from restart_restores_head [OF _ _ this _ _ steps, of ?g s] s genesis_node_restored [OF s] steps cs show ?thesis
    by (auto simp: genesis_node_def create_db_with_genesis_def nd_def)
qed

subsection \<open>A store with a dead letter\<close>

definition fresh_store :: db where
  "fresh_store = create (genesis_block (Signature 5)) zone_state"

definition retired_letter :: dead_letter where
  "retired_letter = \<lparr>letter_key = 7, letter_origin = \<lparr>origin_zone = 1, origin_block_id = 2, origin_tx_index = 3\<rparr>,
    letter_failed_attempts = 1, letter_transaction_bytes = 2\<rparr>"

lemma letter_run:
  "add_pending_cross_zone_dispatches fresh_store [recorded 7 [1, 2], recorded 8 [3]] = Inr (2, fresh_store\<lparr>db_dispatches :=
    [(7, recorded 7 [1, 2]), (8, recorded 8 [3])], db_dispatch_count := 2\<rparr>)"
  "record_dispatch_failure (fresh_store\<lparr>db_dispatches := [(7, recorded 7 [1, 2]), (8, recorded 8 [3])], db_dispatch_count := 2\<rparr>)
    7 1 \<lparr>origin_zone = 1, origin_block_id = 2, origin_tx_index = 3\<rparr> = (Retired retired_letter,
    fresh_store\<lparr>db_dispatches := [(8, recorded 8 [3])], db_dispatch_count := 1, db_dead_letters := [retired_letter],
      db_dead_letter_count := 1\<rparr>)"
  by (simp_all add: add_pending_cross_zone_dispatches_def record_dispatch_failure_def fresh_store_def create_def
      put_block_payload_def empty_db_def put_dispatch_def recorded_def saturating_add_def saturating_sub_def
      MAX_PENDING_CROSS_ZONE_DISPATCHES_def push_dead_letter_def MAX_DEAD_LETTER_CROSS_ZONE_DISPATCHES_def retired_letter_def
      Let_def)

text \<open>Witness: one of two recorded dispatches fails and is retired.\<close>

theorem store_well_formed_witness:
  "\<exists>d. store_step\<^sup>*\<^sup>* fresh_store d \<and> db_dead_letters d = [retired_letter] \<and> store_wf d \<and>
    unat (db_dispatch_count d) = 1"
proof -
  let ?d1 = "fresh_store\<lparr>db_dispatches := [(7, recorded 7 [1, 2]), (8, recorded 8 [3])], db_dispatch_count := 2\<rparr>"
  let ?d2 = "fresh_store\<lparr>db_dispatches := [(8, recorded 8 [3])], db_dispatch_count := 1, db_dead_letters := [retired_letter],
      db_dead_letter_count := 1\<rparr>"
  have "store_step fresh_store ?d1" by (rule store_step.dispatched [OF letter_run(1)]) simp
  moreover have "store_step ?d1 ?d2" by (rule store_step.failed [OF letter_run(2)])
  ultimately have run: "store_step\<^sup>*\<^sup>* fresh_store ?d2" by (meson converse_rtranclp_into_rtranclp rtranclp.rtrancl_refl)
  from store_well_formed [OF run [unfolded fresh_store_def]] run show ?thesis
    by (intro exI [of _ ?d2]) (simp add: fresh_store_def)
qed

end
