(* ===== verification/InboxSafety.thy ===== *)
theory InboxSafety
  imports CrossZone
begin

text \<open>
  The inbox delivers each message of a peer's block once. One account, the seen shard, records the
  deliveries of a block; the facts here are on the sequence of inbox runs that use one shard.
\<close>

subsection \<open>One run\<close>

definition dispatched :: "cross_codecs \<Rightarrow> seen_shard \<Rightarrow> account \<Rightarrow> cross_zone_message \<Rightarrow> program_output \<Rightarrow> bool" where
  "dispatched X shard seen msg out \<longleftrightarrow>
    (if shard_contains shard (src_tx_index msg) then chained_calls out = [] \<and> post_account (post_states out ! 1) = seen
     else \<exists>call d. chained_calls out = [call] \<and>
      call_program_id call = target_program_id msg \<and> payload_words (payload msg) = Some (call_instruction_data call) \<and>
      data_of_bytes (xc_shard_bytes X (snd (shard_insert shard (src_block_hash msg) (src_tx_index msg)))) = Some d \<and>
      post_account (post_states out ! 1) = seen\<lparr>data := d\<rparr>)"

lemma inbox_main_dispatch:
  assumes "inbox_main X inp words = Some out" and "input_instruction inp = Dispatch msg"
    and "input_pre_states inp = config # seen # rest"
  shows "\<exists>shard. shard_of_data X (data (account seen)) = Some shard \<and> shard_binds shard (src_block_hash msg) \<and>
    dispatched X shard (account seen) msg out"
proof -
  obtain posts calls where main: "inbox_dispatch X (input_self inp) (config # seen # rest) msg = Some (posts, calls)"
      "out = with_chained_calls (guest_output inp words posts) calls"
    using assms by (auto simp: inbox_main_def panic_simps)
  obtain marker targets where rest: "rest = marker # targets"
    using main(1) by (cases rest) (auto simp: inbox_dispatch_def)
  obtain shard seen_post where run: "shard_of_data X (data (account seen)) = Some shard" "shard_binds shard (src_block_hash msg)"
      "(if shard_contains shard (src_tx_index msg) then Some (post_new (account seen), [])
        else do {
          let shard = snd (shard_insert shard (src_block_hash msg) (src_tx_index msg));
          d \<leftarrow> data_of_bytes (xc_shard_bytes X shard);
          words \<leftarrow> payload_words (payload msg);
          Some (new_claimed_if_default ((account seen)\<lparr>data := d\<rparr>)
              (ClaimPda (inbox_seen_shard_seed (xc_sha256 X) (src_zone msg) (src_block_id msg))),
            [\<lparr>call_program_id = target_program_id msg, call_pre_states = marker # targets,
              call_instruction_data = words, call_pda_seeds = []\<rparr>])
        }) = Some (seen_post, calls)"
      "posts ! 1 = seen_post"
    using main(1) by (auto simp: rest inbox_dispatch_def panic_simps simp del: Let_def)
  have "dispatched X shard (account seen) msg out"
  proof (cases "shard_contains shard (src_tx_index msg)")
    case True
    with run(3) have "seen_post = post_new (account seen)" "calls = []" by auto
    with True run(4) show ?thesis
      by (simp add: dispatched_def main(2) with_chained_calls_def guest_output_def program_output_new_def post_new_def)
  next
    case False
    with run(3) obtain d words' where "data_of_bytes (xc_shard_bytes X
          (snd (shard_insert shard (src_block_hash msg) (src_tx_index msg)))) = Some d"
        "payload_words (payload msg) = Some words'"
        "seen_post = new_claimed_if_default ((account seen)\<lparr>data := d\<rparr>)
          (ClaimPda (inbox_seen_shard_seed (xc_sha256 X) (src_zone msg) (src_block_id msg)))"
        "calls = [\<lparr>call_program_id = target_program_id msg, call_pre_states = marker # targets,
          call_instruction_data = words', call_pda_seeds = []\<rparr>]"
      by (auto simp: panic_simps)
    with False run(4) show ?thesis
      by (simp add: dispatched_def main(2) with_chained_calls_def guest_output_def program_output_new_def
          new_claimed_if_default_def)
  qed
  with run(1,2) show ?thesis by blast
qed

subsection \<open>The life of a shard\<close>

text \<open>
  The runs of the inbox with shard account \<open>i\<close>, each with its message and its calls. Other programs
  cannot change the account, as it belongs to the inbox.
\<close>

inductive shard_history ::
  "cross_codecs \<Rightarrow> account_id \<Rightarrow> account \<Rightarrow> (cross_zone_message \<times> chained_call list) list \<Rightarrow> account \<Rightarrow> bool" for X i a where
  start: "shard_history X i a [] a"
| deliver: "shard_history X i a h a' \<Longrightarrow> inbox_main X inp words = Some out \<Longrightarrow> input_instruction inp = Dispatch msg
    \<Longrightarrow> input_pre_states inp = config # seen # rest \<Longrightarrow> account_id seen = i \<Longrightarrow> account seen = a'
    \<Longrightarrow> shard_history X i a (h @ [(msg, chained_calls out)]) (post_account (post_states out ! 1))"

definition shard_codec :: "cross_codecs \<Rightarrow> bool" where
  "shard_codec X \<longleftrightarrow> (\<forall>s. xc_shard_of_bytes X (xc_shard_bytes X s) = Some s \<and> xc_shard_bytes X s \<noteq> [])"

lemma shard_codec_data:
  assumes "shard_codec X" and "data_of_bytes (xc_shard_bytes X s) = Some d"
  shows "shard_of_data X d = Some s"
proof -
  have "into_inner d = xc_shard_bytes X s"
    using assms(2) by (auto simp: data_of_bytes_def data_try_from_def ensure_def split: if_splits)
  with assms(1) show ?thesis by (simp add: shard_codec_def shard_of_data_def)
qed

abbreviation indices :: "(cross_zone_message \<times> chained_call list) list \<Rightarrow> u32 set" where
  "indices h \<equiv> (\<lambda>x. src_tx_index (fst x)) ` set h"

definition delivered :: "(cross_zone_message \<times> chained_call list) list \<Rightarrow> seen_shard" where
  "delivered h = (if h = [] then default_shard
    else \<lparr>shard_block_hash = src_block_hash (fst (hd h)), shard_delivered = indices h\<rparr>)"

lemma delivered_fields [simp]:
  "shard_delivered (delivered h) = indices h" "h \<noteq> [] \<Longrightarrow> shard_block_hash (delivered h) = src_block_hash (fst (hd h))"
  by (simp_all add: delivered_def default_shard_def)

lemma delivered_default: "delivered h = default_shard \<longleftrightarrow> h = []"
  by (auto simp: delivered_def default_shard_def)

text \<open>A first delivery makes the call of its message, a repeated one makes none.\<close>

definition delivers :: "u32 set \<Rightarrow> cross_zone_message \<times> chained_call list \<Rightarrow> bool" where
  "delivers seen x \<longleftrightarrow> (if src_tx_index (fst x) \<in> seen then snd x = []
    else \<exists>call. snd x = [call] \<and> call_program_id call = target_program_id (fst x) \<and>
      payload_words (payload (fst x)) = Some (call_instruction_data call))"

definition exactly_once :: "(cross_zone_message \<times> chained_call list) list \<Rightarrow> bool" where
  "exactly_once h \<longleftrightarrow> (\<forall>k < length h. delivers (indices (take k h)) (h ! k))"

lemma exactly_once_snoc: "exactly_once (h @ [x]) \<longleftrightarrow> exactly_once h \<and> delivers (indices h) x"
proof -
  have "exactly_once (h @ [x]) \<longleftrightarrow> (\<forall>k \<le> length h. delivers (indices (take k (h @ [x]))) ((h @ [x]) ! k))"
    by (simp add: exactly_once_def less_Suc_eq_le)
  also have "\<dots> \<longleftrightarrow> (\<forall>k < length h. delivers (indices (take k (h @ [x]))) ((h @ [x]) ! k)) \<and> delivers (indices h) x"
    by (auto simp: le_less)
  also have "(\<forall>k < length h. delivers (indices (take k (h @ [x]))) ((h @ [x]) ! k)) \<longleftrightarrow> exactly_once h"
    by (simp add: exactly_once_def nth_append)
  finally show ?thesis .
qed

text \<open>The shard records the history, and all its messages are of one block.\<close>

definition history_ok :: "cross_codecs \<Rightarrow> (cross_zone_message \<times> chained_call list) list \<Rightarrow> account \<Rightarrow> bool" where
  "history_ok X h a \<longleftrightarrow> shard_of_data X (data a) = Some (delivered h) \<and> exactly_once h \<and>
    (\<forall>x \<in> set h. src_block_hash (fst x) = src_block_hash (fst (hd h)))"

lemma history_step:
  assumes codec: "shard_codec X" and ok: "history_ok X h (account seen)"
    and run: "inbox_main X inp words = Some out" "input_instruction inp = Dispatch msg"
      "input_pre_states inp = config # seen # rest"
  shows "history_ok X (h @ [(msg, chained_calls out)]) (post_account (post_states out ! 1))"
proof -
  let ?h = "h @ [(msg, chained_calls out)]"
  obtain shard where shard: "shard_of_data X (data (account seen)) = Some shard" "shard_binds shard (src_block_hash msg)"
      "dispatched X shard (account seen) msg out"
    using inbox_main_dispatch [OF run] by blast
  have shard_eq: "shard = delivered h" and once: "exactly_once h"
    and old: "\<forall>x \<in> set h. src_block_hash (fst x) = src_block_hash (fst (hd h))"
    using ok shard(1) by (simp_all add: history_ok_def)
  have hash: "h \<noteq> [] \<Longrightarrow> src_block_hash msg = src_block_hash (fst (hd h))"
    using shard(2) by (simp add: shard_binds_def shard_eq delivered_default)
  have same: "\<forall>x \<in> set ?h. src_block_hash (fst x) = src_block_hash (fst (hd ?h))"
    using old hash by (cases h) simp_all
  have insert: "snd (shard_insert shard (src_block_hash msg) (src_tx_index msg)) = delivered ?h"
    using shard(2) hash by (cases h) (simp_all add: shard_insert_def shard_eq delivered_def default_shard_def insert_commute)
  have contains: "shard_contains shard (src_tx_index msg) \<longleftrightarrow> src_tx_index msg \<in> indices h"
    by (simp add: shard_contains_def shard_eq)
  show ?thesis
  proof (cases "src_tx_index msg \<in> indices h")
    case True
    then have "delivered ?h = delivered h" by (cases h) (auto simp: delivered_def)
    with True shard(1,3) contains once same shard_eq show ?thesis
      by (simp add: history_ok_def exactly_once_snoc delivers_def dispatched_def)
  next
    case False
    with shard(3) contains obtain call d where new: "chained_calls out = [call]" "call_program_id call = target_program_id msg"
        "payload_words (payload msg) = Some (call_instruction_data call)"
        "data_of_bytes (xc_shard_bytes X (delivered ?h)) = Some d" "post_account (post_states out ! 1) = (account seen)\<lparr>data := d\<rparr>"
      unfolding dispatched_def insert by auto
    with shard_codec_data [OF codec new(4)] False once same show ?thesis
      by (simp add: history_ok_def exactly_once_snoc delivers_def)
  qed
qed

lemma shard_history_ok:
  assumes "shard_codec X" and "into_inner (data a) = []" and "shard_history X i a h a'"
  shows "history_ok X h a'"
  using assms(3)
proof induction
  case start
  with assms(2) show ?case by (simp add: history_ok_def shard_of_data_def delivered_def exactly_once_def)
next
  case (deliver h a' inp words out msg config seen rest)
  have "history_ok X h (account seen)" using deliver.IH deliver.hyps(6) by (rule ssubst [rotated])
  from history_step [OF assms(1) this deliver.hyps(2-4)] show ?case .
qed

text \<open>
  C36: The inbox delivers exactly once. Take a shard account that has never been used and any sequence
  of dispatches through it. All of them name the same block of the peer. The first dispatch of each
  transaction index calls the target program with the payload, and every later dispatch of that
  index calls nothing.
\<close>

theorem inbox_delivers_once:
  assumes "shard_codec X" and "into_inner (data a) = []" and "shard_history X i a h a'" and "k < length h"
  shows "src_block_hash (fst (h ! k)) = src_block_hash (fst (h ! 0)) \<and>
    (if \<exists>j < k. src_tx_index (fst (h ! j)) = src_tx_index (fst (h ! k)) then snd (h ! k) = []
     else \<exists>call. snd (h ! k) = [call] \<and> call_program_id call = target_program_id (fst (h ! k)) \<and>
       payload_words (payload (fst (h ! k))) = Some (call_instruction_data call))"
proof -
  have ok: "exactly_once h" "\<forall>x \<in> set h. src_block_hash (fst x) = src_block_hash (fst (hd h))"
    using shard_history_ok [OF assms(1-3)] by (simp_all add: history_ok_def)
  have "h \<noteq> []" using assms(4) by auto
  then have "src_block_hash (fst (h ! k)) = src_block_hash (fst (h ! 0))"
    using ok(2) assms(4) by (metis hd_conv_nth nth_mem)
  moreover have "t \<in> indices (take k h) \<longleftrightarrow> (\<exists>j < k. src_tx_index (fst (h ! j)) = t)" for t
  proof -
    have "set (take k h) = (\<lambda>j. h ! j) ` {..<k}" using nth_image [of k h] assms(4) by (simp add: lessThan_atLeast0)
    then show ?thesis by (auto simp: image_image)
  qed
  moreover have "delivers (indices (take k h)) (h ! k)" using ok(1) assms(4) by (simp add: exactly_once_def)
  ultimately show ?thesis unfolding delivers_def by (simp only: simp_thms)
qed

end
