(* ===== verification/InboxExamples.thy ===== *)
theory InboxExamples
  imports InboxSafety PeerExamples
begin

text \<open>A message that is dispatched twice through the inbox of the example zone.\<close>

definition demo_shard_bytes :: "seen_shard \<Rightarrow> bytes" where
  "demo_shard_bytes s = array32 (shard_block_hash s) @ concat (map u32_to_le_bytes (sorted_list_of_set (shard_delivered s)))"

definition demo_shard_of_bytes :: "bytes \<Rightarrow> seen_shard option" where
  "demo_shard_of_bytes bs = (if length bs < 32 then None
    else Some \<lparr>shard_block_hash = of_array32 (take 32 bs), shard_delivered = set (map le_join (chunks4 (drop 32 bs)))\<rparr>)"

definition shard_cross :: cross_codecs where
  "shard_cross = demo_cross\<lparr>xc_shard_bytes := demo_shard_bytes, xc_shard_of_bytes := demo_shard_of_bytes\<rparr>"

lemma chunks4_words: "map le_join (chunks4 (concat (map u32_to_le_bytes ws))) = (ws :: u32 list)"
proof (induction ws)
  case (Cons w ws)
  obtain a b c d where w: "u32_to_le_bytes w = [a, b, c, d]"
    by (simp add: u32_to_le_bytes_def eval_nat_numeral)
  have "le_join (u32_to_le_bytes w) = w" by (simp add: u32_to_le_bytes_def codec_simps)
  with Cons w show ?case by simp
qed simp

lemma shard_cross_codec: "shard_codec shard_cross"
proof -
  have "set (map le_join (chunks4 (concat (map u32_to_le_bytes (sorted_list_of_set S))))) = (S :: u32 set)" for S
    unfolding chunks4_words by simp
  moreover have "array32 h \<noteq> []" for h
  proof -
    have "length (array32 h) = 32" by simp
    then show ?thesis by (metis list.size(3) zero_neq_numeral)
  qed
  ultimately show ?thesis
    by (simp add: shard_codec_def shard_cross_def demo_shard_bytes_def demo_shard_of_bytes_def codec_simps)
qed

definition shard_message :: cross_zone_message where
  "shard_message = \<lparr>src_zone = 1, src_block_id = 2, src_block_hash = 5, src_tx_index = 3, src_program_id = ProgramId 8,
    target_program_id = ProgramId 9, payload = [1, 0, 0, 0], l1_inclusion_witness = None\<rparr>"

definition shard_input :: "account \<Rightarrow> inbox_instruction program_input" where
  "shard_input a = \<lparr>input_self = ProgramId 7, input_caller = None, input_pre_states =
    [\<lparr>account = default_account\<lparr>data := Data (array32 2)\<rparr>, is_authorized = False,
       account_id = inbox_config_account_id demo_sha256 (ProgramId 7)\<rparr>,
     \<lparr>account = a, is_authorized = False, account_id = inbox_seen_shard_account_id demo_sha256 (ProgramId 7) 1 2\<rparr>,
     \<lparr>account = default_account, is_authorized = False,
       account_id = inbox_source_marker_account_id demo_sha256 (ProgramId 7) 1 (ProgramId 8)\<rparr>],
    input_instruction = Dispatch shard_message\<rparr>"

definition used_shard :: account where
  "used_shard = default_account\<lparr>data := Data (demo_shard_bytes \<lparr>shard_block_hash = 5, shard_delivered = {3}\<rparr>)\<rparr>"

lemma used_shard_data:
  "data_of_bytes (demo_shard_bytes \<lparr>shard_block_hash = 5, shard_delivered = {3}\<rparr>) = Some (data used_shard)"
  by (simp add: used_shard_def data_of_bytes_def data_try_from_def demo_shard_bytes_def DATA_MAX_LENGTH_def)

lemma used_shard_read: "shard_of_data shard_cross (data used_shard) = Some \<lparr>shard_block_hash = 5, shard_delivered = {3}\<rparr>"
  by (rule shard_codec_data [OF shard_cross_codec]) (use used_shard_data in \<open>simp add: shard_cross_def\<close>)

lemma fresh_shard_read: "shard_of_data shard_cross (data default_account) = Some default_shard"
  by (simp add: shard_of_data_def default_account_def)

lemmas shard_run_simps = inbox_main_def inbox_dispatch_def shard_input_def shard_message_def assert_that_def shard_binds_def
  shard_contains_def shard_insert_def payload_words_def with_chained_calls_def guest_output_def program_output_new_def
  post_new_def new_claimed_if_default_def

lemma shard_cross_simps [simp]:
  "xc_sha256 shard_cross = demo_sha256" "xc_shard_bytes shard_cross = demo_shard_bytes"
  "xc_inbox_config_of_bytes shard_cross (array32 z) = Some \<lparr>self_zone = z\<rparr>"
  by (simp_all add: shard_cross_def demo_cross_def codec_simps)

lemma shard_runs:
  "\<exists>out. inbox_main shard_cross (shard_input default_account) [] = Some out \<and>
    post_account (post_states out ! 1) = used_shard"
  "\<exists>out. inbox_main shard_cross (shard_input used_shard) [] = Some out"
  using used_shard_data
  by (simp_all add: shard_run_simps fresh_shard_read used_shard_read default_shard_def) (simp add: used_shard_def)

text \<open>Witness: the same message twice. The first dispatch calls its target, the second one does not.\<close>

theorem inbox_delivers_once_witness:
  "\<exists>calls calls' a. shard_history shard_cross (inbox_seen_shard_account_id demo_sha256 (ProgramId 7) 1 2) default_account
      [(shard_message, calls), (shard_message, calls')] a \<and> length calls = 1 \<and> calls' = []"
proof -
  let ?i = "inbox_seen_shard_account_id demo_sha256 (ProgramId 7) 1 2"
  obtain out where out: "inbox_main shard_cross (shard_input default_account) [] = Some out"
      "post_account (post_states out ! 1) = used_shard"
    using shard_runs(1) by blast
  obtain out' where out': "inbox_main shard_cross (shard_input used_shard) [] = Some out'" using shard_runs(2) by blast
  have "shard_history shard_cross ?i default_account ([] @ [(shard_message, chained_calls out)]) (post_account (post_states out ! 1))"
    by (rule shard_history.deliver [OF shard_history.start out(1)]) (simp add: shard_input_def)+
  then have one: "shard_history shard_cross ?i default_account [(shard_message, chained_calls out)] used_shard"
    unfolding out(2) by simp
  have "shard_history shard_cross ?i default_account ([(shard_message, chained_calls out)] @ [(shard_message, chained_calls out')])
      (post_account (post_states out' ! 1))"
    by (rule shard_history.deliver [OF one out']) (simp add: shard_input_def)+
  then have run: "shard_history shard_cross ?i default_account [(shard_message, chained_calls out), (shard_message, chained_calls out')]
      (post_account (post_states out' ! 1))" by simp
  have empty: "into_inner (data default_account) = []" by (simp add: default_account_def)
  note once = inbox_delivers_once [OF shard_cross_codec empty run]
  have "length (chained_calls out) = 1" using once [of 0] by auto
  moreover have "chained_calls out' = []" using once [of 1] by (auto split: if_splits)
  ultimately show ?thesis using run by blast
qed

end
