(* ===== verification/StakeSafety.thy ===== *)
theory StakeSafety
  imports Staking
begin

text \<open>
  The stake of sequencers is backed. The facts are on sequences of runs of the stake program, with
  anything other programs may do in between.
\<close>

subsection \<open>Runs of the program\<close>

type_synonym world = "account_id \<Rightarrow> account"

text \<open>The pre-states of a run are the accounts of the world, each once.\<close>

definition reads :: "world \<Rightarrow> account_with_metadata list \<Rightarrow> bool" where
  "reads W pres \<longleftrightarrow> (\<forall>p \<in> set pres. account p = W (account_id p)) \<and> distinct (map account_id pres)"

definition settle_post :: "program_id \<Rightarrow> account_post_state \<Rightarrow> account" where
  "settle_post self p = (case post_claim p of None \<Rightarrow> post_account p
    | Some _ \<Rightarrow> (post_account p)\<lparr>program_owner := account_of_program self\<rparr>)"

definition write_posts :: "program_id \<Rightarrow> world \<Rightarrow> account_with_metadata list \<Rightarrow> account_post_state list \<Rightarrow> world" where
  "write_posts self W pres posts = fold (\<lambda>(pre, p) W. W(account_id pre := settle_post self p)) (zip pres posts) W"

text \<open>
  What other programs can do: they neither take from an account of this program nor change its
  data or owner.
\<close>

definition outside :: "program_id \<Rightarrow> world \<Rightarrow> world \<Rightarrow> bool" where
  "outside self W W' \<longleftrightarrow> (\<forall>i. program_owner (W i) = account_of_program self \<longrightarrow>
    program_owner (W' i) = program_owner (W i) \<and> data (W' i) = data (W i) \<and> balance (W i) \<le> balance (W' i))"

text \<open>
  A stake is the run, the call of the mover, and the confirming call on the pre-state that the
  first run asked for. \<open>V\<close> are the keys that are points of the curve.
\<close>

inductive stake_step :: "stake_codecs \<Rightarrow> (sequencer_key \<Rightarrow> bool) \<Rightarrow> program_id \<Rightarrow> world \<Rightarrow> world \<Rightarrow> bool" for K V self where
  others: "outside self W W' \<Longrightarrow> stake_step K V self W W'"
| staked: "stake_main K inp words = Some out \<Longrightarrow> input_self inp = self \<Longrightarrow> input_instruction inp = Stake key amount p ws
    \<Longrightarrow> V key \<Longrightarrow> reads W (input_pre_states inp)
    \<Longrightarrow> outside self (write_posts self W (input_pre_states inp) (post_states out)) W'
    \<Longrightarrow> input_pre_states inp' = call_pre_states (chained_calls out ! 1) \<Longrightarrow> reads W' (input_pre_states inp')
    \<Longrightarrow> input_instruction inp' = ConfirmStake expected \<Longrightarrow> stake_main K inp' words' = Some out'
    \<Longrightarrow> stake_step K V self W W'"
| requested: "stake_main K inp words = Some out \<Longrightarrow> input_self inp = self
    \<Longrightarrow> input_instruction inp = UnstakeRequest amount destination \<Longrightarrow> reads W (input_pre_states inp)
    \<Longrightarrow> stake_step K V self W (write_posts self W (input_pre_states inp) (post_states out))"
| released: "stake_main K inp words = Some out \<Longrightarrow> input_self inp = self
    \<Longrightarrow> input_instruction inp = FinalizeUnstake \<Longrightarrow> reads W (input_pre_states inp)
    \<Longrightarrow> stake_step K V self W (write_posts self W (input_pre_states inp) (post_states out))"

subsection \<open>The invariant\<close>

definition stake_codec :: "stake_codecs \<Rightarrow> (sequencer_key \<Rightarrow> bool) \<Rightarrow> bool" where
  "stake_codec K V \<longleftrightarrow>
    (\<forall>r. V (stake_key r) \<longrightarrow> sk_record_of_bytes K (sk_record_bytes K r) = Some r) \<and>
    (\<forall>bs r. sk_record_of_bytes K bs = Some r \<longrightarrow> V (stake_key r)) \<and>
    (\<forall>c. (\<forall>k \<in> fmdom' (stake_entries c). V k) \<longrightarrow> sk_config_of_bytes K (sk_config_bytes K c) = Some c)"

definition pending_amount :: "stake_record \<Rightarrow> u128" where
  "pending_amount r = (case stake_pending r of None \<Rightarrow> 0 | Some p \<Rightarrow> unstake_amount p)"

text \<open>The account of an entry holds its stake, its record names the key and the pending amount.\<close>

definition backed :: "stake_codecs \<Rightarrow> program_id \<Rightarrow> world \<Rightarrow> u128 \<Rightarrow> sequencer_key \<Rightarrow> sequencer_entry \<Rightarrow> bool" where
  "backed K self W minimum key entry \<longleftrightarrow>
    program_owner (W (entry_account_id entry)) = account_of_program self \<and>
    (\<exists>r. sk_record_of_bytes K (into_inner (data (W (entry_account_id entry)))) = Some r \<and> stake_key r = key \<and>
      pending_amount r = entry_total_pending entry) \<and>
    entry_total_staked entry \<le> balance (W (entry_account_id entry)) \<and>
    entry_total_pending entry \<le> entry_total_staked entry \<and>
    (minimum \<le> net_stake entry \<or> net_stake entry = 0 \<and> entry_total_pending entry \<noteq> 0)"

definition stake_inv :: "stake_codecs \<Rightarrow> (sequencer_key \<Rightarrow> bool) \<Rightarrow> program_id \<Rightarrow> world \<Rightarrow> stake_config \<Rightarrow> bool" where
  "stake_inv K V self W c \<longleftrightarrow>
    program_owner (W (sequencer_stake_config_account_id (sk_sha256 K) self)) = account_of_program self \<and>
    sk_config_of_bytes K (into_inner (data (W (sequencer_stake_config_account_id (sk_sha256 K) self)))) = Some c \<and>
    (\<forall>key entry. fmlookup (stake_entries c) key = Some entry \<longrightarrow> V key \<and>
      entry_account_id entry \<noteq> sequencer_stake_config_account_id (sk_sha256 K) self \<and>
      backed K self W (minimum_sequencer_stake c) key entry)"

lemma backed_outside:
  "backed K self W m key entry \<Longrightarrow> outside self W W' \<Longrightarrow> backed K self W' m key entry"
  by (fastforce simp: backed_def outside_def intro: order_trans)

lemma stake_inv_outside: "stake_inv K V self W c \<Longrightarrow> outside self W W' \<Longrightarrow> stake_inv K V self W' c"
  unfolding stake_inv_def using backed_outside [of K self W _ _ _ W'] by (auto simp: outside_def)

lemma backed_cong:
  "W' (entry_account_id entry) = W (entry_account_id entry) \<Longrightarrow> backed K self W' m key entry = backed K self W m key entry"
  by (simp add: backed_def)

abbreviation config_id :: "stake_codecs \<Rightarrow> program_id \<Rightarrow> account_id" where
  "config_id K self \<equiv> sequencer_stake_config_account_id (sk_sha256 K) self"

lemma data_of_bytes_inner: "data_of_bytes bs = Some d \<Longrightarrow> into_inner d = bs"
  by (auto simp: data_of_bytes_def data_try_from_def ensure_def split: if_splits)

lemma valid_keys:
  assumes "stake_inv K V self W c" and "stake_codec K V" and "data_of_bytes (sk_config_bytes K c') = Some d"
    and "\<And>k. k \<noteq> key \<Longrightarrow> fmlookup (stake_entries c') k = fmlookup (stake_entries c) k"
    and "fmlookup (stake_entries c') key \<noteq> None \<Longrightarrow> V key"
  shows "sk_config_of_bytes K (into_inner d) = Some c'"
proof -
  have "V k" if "k \<in> fmdom' (stake_entries c')" for k
  proof (cases "k = key")
    case False
    with that assms(4) obtain e where "fmlookup (stake_entries c) k = Some e" by (auto simp: fmlookup_dom'_iff)
    with assms(1) show ?thesis by (simp add: stake_inv_def)
  qed (use that assms(5) in \<open>auto simp: fmlookup_dom'_iff\<close>)
  with assms(2,3) show ?thesis by (simp add: stake_codec_def data_of_bytes_inner)
qed

text \<open>An operation on the entry of one key and its account keeps the invariant.\<close>

lemma stake_inv_update:
  assumes inv: "stake_inv K V self W c" and codec: "stake_codec K V"
    and config: "data_of_bytes (sk_config_bytes K c') = Some cd" "W' (config_id K self) = (W (config_id K self))\<lparr>data := cd\<rparr>"
      "minimum_sequencer_stake c' = minimum_sequencer_stake c"
      "\<And>k. k \<noteq> key \<Longrightarrow> fmlookup (stake_entries c') k = fmlookup (stake_entries c) k"
    and frame: "\<And>i. i \<noteq> j \<Longrightarrow> i \<noteq> config_id K self \<Longrightarrow> program_owner (W i) = account_of_program self \<Longrightarrow>
      program_owner (W' i) = program_owner (W i) \<and> data (W' i) = data (W i) \<and> balance (W i) \<le> balance (W' i)"
    and free: "\<And>k e. fmlookup (stake_entries c) k = Some e \<Longrightarrow> entry_account_id e = j \<Longrightarrow> k = key"
    and updated: "\<And>e. fmlookup (stake_entries c') key = Some e \<Longrightarrow> V key \<and> entry_account_id e = j \<and> j \<noteq> config_id K self \<and>
      backed K self W' (minimum_sequencer_stake c) key e"
  shows "stake_inv K V self W' c'"
proof -
  have "V k \<and> entry_account_id e \<noteq> config_id K self \<and> backed K self W' (minimum_sequencer_stake c) k e"
    if e: "fmlookup (stake_entries c') k = Some e" for k e
  proof (cases "k = key")
    case True
    with updated e show ?thesis by blast
  next
    case False
    then have old: "fmlookup (stake_entries c) k = Some e" using e config(4) by simp
    with inv have b: "V k" "entry_account_id e \<noteq> config_id K self" "backed K self W (minimum_sequencer_stake c) k e"
      by (simp_all add: stake_inv_def)
    have "entry_account_id e \<noteq> j" using free [OF old] False by blast
    with frame [OF this b(2)] b(3) have "backed K self W' (minimum_sequencer_stake c) k e"
      by (auto simp: backed_def intro: order_trans)
    with b show ?thesis by blast
  qed
  moreover have "sk_config_of_bytes K (into_inner cd) = Some c'"
    using updated by (intro valid_keys [OF inv codec config(1,4)]) auto
  moreover have "program_owner (W (config_id K self)) = account_of_program self" using inv by (simp add: stake_inv_def)
  ultimately show ?thesis using config(2,3) by (simp add: stake_inv_def)
qed

lemma entry_owner:
  assumes "stake_inv K V self W c" and "fmlookup (stake_entries c) k = Some e" and "entry_account_id e = j"
  shows "program_owner (W j) = account_of_program self"
proof -
  have "backed K self W (minimum_sequencer_stake c) k e" using assms(1,2) by (simp add: stake_inv_def)
  with assms(3) show ?thesis by (simp add: backed_def)
qed

text \<open>The record of an account tells the only key it can back.\<close>

lemma record_key:
  assumes "stake_inv K V self W c" and "sk_record_of_bytes K (into_inner (data (W j))) = Some r"
    and "fmlookup (stake_entries c) k = Some e" and "entry_account_id e = j"
  shows "k = stake_key r"
proof -
  have "backed K self W (minimum_sequencer_stake c) k e" using assms(1,3) by (simp add: stake_inv_def)
  with assms(2,4) show ?thesis by (auto simp: backed_def)
qed

lemma config_decoded:
  assumes "stake_inv K V self W c" and "reads W pres" and "config_account \<in> set pres"
    and "decode_config K self config_account = Some c'"
  shows "account_id config_account = config_id K self" "c' = c"
  using assms by (auto simp: decode_config_def panic_simps reads_def stake_inv_def)

subsection \<open>Unstaking\<close>

lemma unstake_request_cases:
  assumes "unstake_request K self pres amount destination = Some posts"
  obtains own conf r c entry pending od cd where "pres = [own, conf]" "program_owner (account own) = account_of_program self"
      "sk_record_of_bytes K (into_inner (data (account own))) = Some r" "stake_pending r = None"
      "decode_config K self conf = Some c" "fmlookup (stake_entries c) (stake_key r) = Some entry"
      "entry_account_id entry = account_id own" "allows_unstake_request entry amount (minimum_sequencer_stake c)"
      "checked_add (entry_total_pending entry) amount = Some pending"
      "data_of_bytes (sk_record_bytes K (r\<lparr>stake_pending := Some \<lparr>unstake_amount = amount, unstake_destination = destination\<rparr>\<rparr>)) = Some od"
      "data_of_bytes (sk_config_bytes K (c\<lparr>stake_entries :=
        fmupd (stake_key r) (entry\<lparr>entry_total_pending := pending\<rparr>) (stake_entries c)\<rparr>)) = Some cd"
      "posts = [post_new ((account own)\<lparr>data := od\<rparr>), post_new ((account conf)\<lparr>data := cd\<rparr>)]"
proof -
  obtain own conf where pres: "pres = [own, conf]" using assms by (auto simp: unstake_request_def split: list.splits)
  show thesis using assms by (auto simp: pres unstake_request_def panic_simps Let_def elim!: that [OF pres])
qed

lemma request_inv:
  assumes codec: "stake_codec K V" and inv: "stake_inv K V self W c" and reads: "reads W pres"
    and run: "unstake_request K self pres amount destination = Some posts"
  shows "\<exists>c'. stake_inv K V self (write_posts self W pres posts) c'"
  using run
proof (rule unstake_request_cases)
  fix own conf r c0 entry pending od cd
  assume pres: "pres = [own, conf]" and owner: "program_owner (account own) = account_of_program self"
    and r: "sk_record_of_bytes K (into_inner (data (account own))) = Some r" "stake_pending r = None"
    and conf: "decode_config K self conf = Some c0" and entry0: "fmlookup (stake_entries c0) (stake_key r) = Some entry"
      "entry_account_id entry = account_id own"
    and allowed0: "allows_unstake_request entry amount (minimum_sequencer_stake c0)"
    and pending: "checked_add (entry_total_pending entry) amount = Some pending"
    and od: "data_of_bytes (sk_record_bytes K (r\<lparr>stake_pending := Some \<lparr>unstake_amount = amount, unstake_destination = destination\<rparr>\<rparr>)) = Some od"
    and cd0: "data_of_bytes (sk_config_bytes K (c0\<lparr>stake_entries :=
        fmupd (stake_key r) (entry\<lparr>entry_total_pending := pending\<rparr>) (stake_entries c0)\<rparr>)) = Some cd"
    and posts: "posts = [post_new ((account own)\<lparr>data := od\<rparr>), post_new ((account conf)\<lparr>data := cd\<rparr>)]"
  have c0: "c0 = c" "account_id conf = config_id K self" using config_decoded [OF inv reads _ conf] by (simp_all add: pres)
  define key where "key = stake_key r"
  define c' where "c' = c\<lparr>stake_entries := fmupd key (entry\<lparr>entry_total_pending := pending\<rparr>) (stake_entries c)\<rparr>"
  note entry = entry0 [unfolded c0 key_def [symmetric]] and allowed = allowed0 [unfolded c0]
  have cd': "data_of_bytes (sk_config_bytes K c') = Some cd" using cd0 by (simp add: c0(1) c'_def key_def)
  have ids: "account own = W (account_id own)" "account conf = W (config_id K self)" "account_id own \<noteq> config_id K self"
    using reads c0(2) by (auto simp: pres reads_def)
  have old: "V key" "backed K self W (minimum_sequencer_stake c) key entry" using inv entry(1) by (simp_all add: stake_inv_def)
  let ?W' = "write_posts self W pres posts"
  have W': "?W' = W(account_id own := (W (account_id own))\<lparr>data := od\<rparr>,
      config_id K self := (W (config_id K self))\<lparr>data := cd\<rparr>)"
    by (simp add: write_posts_def pres posts settle_post_def post_new_def c0(2) ids(1,2))
  have none: "entry_total_pending entry = 0" using old(2) r entry(2) ids(1) by (auto simp: backed_def pending_amount_def)
  then have amount: "pending = amount" using pending by (simp add: checked_add_def split: if_splits)
  have staked: "net_stake entry = entry_total_staked entry" by (simp add: net_stake_def saturating_sub_def none)
  have "minimum_sequencer_stake c \<le> entry_total_staked entry" using old(2) by (simp add: backed_def staked none)
  then have net: "amount \<le> entry_total_staked entry"
      "minimum_sequencer_stake c \<le> entry_total_staked entry - amount \<or> entry_total_staked entry = amount \<and> amount \<noteq> 0"
    using allowed by (auto simp: allows_unstake_request_def checked_sub_def staked split: option.splits if_splits)
  have rec: "sk_record_of_bytes K (into_inner od) = Some (r\<lparr>stake_pending := Some \<lparr>unstake_amount = amount,
      unstake_destination = destination\<rparr>\<rparr>)"
    using codec old(1) by (simp add: stake_codec_def key_def data_of_bytes_inner [OF od])
  have new: "backed K self ?W' (minimum_sequencer_stake c) key (entry\<lparr>entry_total_pending := pending\<rparr>)"
    using old(2) net rec ids(3) entry(2) owner ids(1)
    by (simp add: backed_def W' amount pending_amount_def key_def net_stake_def saturating_sub_def)
  have "stake_inv K V self ?W' c'"
    by (rule stake_inv_update [OF inv codec cd', where key = key and j = "account_id own"])
      (use new entry(2) old(1) ids(3) record_key [OF inv, of "account_id own" r] r(1) ids(1) in \<open>auto simp: W' c'_def key_def\<close>)
  then show ?thesis by blast
qed

lemma finalize_unstake_cases:
  assumes "finalize_unstake K self pres = Some posts"
  obtains own dest conf r pending ob od db c c' cd where "pres = [own, dest, conf]"
      "program_owner (account own) = account_of_program self"
      "sk_record_of_bytes K (into_inner (data (account own))) = Some r" "stake_pending r = Some pending"
      "checked_sub (balance (account own)) (unstake_amount pending) = Some ob"
      "data_of_bytes (sk_record_bytes K (r\<lparr>stake_pending := None\<rparr>)) = Some od"
      "checked_add (balance (account dest)) (unstake_amount pending) = Some db"
      "decode_config K self conf = Some c" "release_entry c (stake_key r) (account_id own) (unstake_amount pending) = Some c'"
      "data_of_bytes (sk_config_bytes K c') = Some cd"
      "posts = [post_new ((account own)\<lparr>balance := ob, data := od\<rparr>), post_new ((account dest)\<lparr>balance := db\<rparr>),
        post_new ((account conf)\<lparr>data := cd\<rparr>)]"
proof -
  obtain own dest conf where pres: "pres = [own, dest, conf]"
    using assms by (auto simp: finalize_unstake_def split: list.splits)
  show thesis using assms by (auto simp: pres finalize_unstake_def panic_simps Let_def elim!: that [OF pres])
qed

lemma release_entry_cases:
  assumes "release_entry c key j amount = Some c'"
  obtains entry where "fmlookup (stake_entries c) key = Some entry" "entry_account_id entry = j"
      "amount \<le> entry_total_staked entry" "amount \<le> entry_total_pending entry"
      "c' = c\<lparr>stake_entries := (if entry_total_staked entry = amount then fmdrop key (stake_entries c)
        else fmupd key (entry\<lparr>entry_total_staked := entry_total_staked entry - amount,
          entry_total_pending := entry_total_pending entry - amount\<rparr>) (stake_entries c))\<rparr>"
  using assms by (auto simp: release_entry_def checked_sub_def panic_simps split: if_splits)

lemma release_inv:
  assumes codec: "stake_codec K V" and inv: "stake_inv K V self W c" and reads: "reads W pres"
    and run: "finalize_unstake K self pres = Some posts"
  shows "\<exists>c'. stake_inv K V self (write_posts self W pres posts) c'"
  using run
proof (rule finalize_unstake_cases)
  fix own dest conf r pending ob od db c0 c' cd
  assume pres: "pres = [own, dest, conf]" and owner: "program_owner (account own) = account_of_program self"
    and r: "sk_record_of_bytes K (into_inner (data (account own))) = Some r" "stake_pending r = Some pending"
    and ob: "checked_sub (balance (account own)) (unstake_amount pending) = Some ob"
    and od: "data_of_bytes (sk_record_bytes K (r\<lparr>stake_pending := None\<rparr>)) = Some od"
    and db: "checked_add (balance (account dest)) (unstake_amount pending) = Some db"
    and conf: "decode_config K self conf = Some c0"
    and release: "release_entry c0 (stake_key r) (account_id own) (unstake_amount pending) = Some c'"
    and cd: "data_of_bytes (sk_config_bytes K c') = Some cd"
    and posts: "posts = [post_new ((account own)\<lparr>balance := ob, data := od\<rparr>), post_new ((account dest)\<lparr>balance := db\<rparr>),
        post_new ((account conf)\<lparr>data := cd\<rparr>)]"
  have c0: "c0 = c" "account_id conf = config_id K self" using config_decoded [OF inv reads _ conf] by (simp_all add: pres)
  define key where "key = stake_key r"
  define amount where "amount = unstake_amount pending"
  obtain entry where entry: "fmlookup (stake_entries c) key = Some entry" "entry_account_id entry = account_id own"
      "amount \<le> entry_total_staked entry"
      "c' = c\<lparr>stake_entries := (if entry_total_staked entry = amount then fmdrop key (stake_entries c)
        else fmupd key (entry\<lparr>entry_total_staked := entry_total_staked entry - amount,
          entry_total_pending := entry_total_pending entry - amount\<rparr>) (stake_entries c))\<rparr>"
    using release_entry_cases [OF release [unfolded c0(1), folded key_def amount_def]] by blast
  have ids: "account own = W (account_id own)" "account dest = W (account_id dest)" "account conf = W (config_id K self)"
      "account_id own \<noteq> config_id K self" "account_id dest \<noteq> config_id K self" "account_id own \<noteq> account_id dest"
    using reads c0(2) by (auto simp: pres reads_def)
  have old: "V key" "backed K self W (minimum_sequencer_stake c) key entry" using inv entry(1) by (simp_all add: stake_inv_def)
  let ?W' = "write_posts self W pres posts"
  have W': "?W' = W(account_id own := (W (account_id own))\<lparr>balance := ob, data := od\<rparr>,
      account_id dest := (W (account_id dest))\<lparr>balance := db\<rparr>, config_id K self := (W (config_id K self))\<lparr>data := cd\<rparr>)"
    by (simp add: write_posts_def pres posts settle_post_def post_new_def c0(2) ids(1-3))
  have paid: "amount \<le> balance (W (account_id own))" "ob = balance (W (account_id own)) - amount" "balance (W (account_id dest)) \<le> db"
    using ob db by (auto simp: checked_sub_def checked_add_def amount_def ids(1,2) word_le_nat_alt unat_word_ariths split: if_splits)
  have all: "entry_total_pending entry = amount"
    using old(2) r entry(2) ids(1) by (auto simp: backed_def pending_amount_def amount_def)
  have rec: "sk_record_of_bytes K (into_inner od) = Some (r\<lparr>stake_pending := None\<rparr>)"
    using codec old(1) by (simp add: stake_codec_def key_def data_of_bytes_inner [OF od])
  have new: "backed K self ?W' (minimum_sequencer_stake c) key (entry\<lparr>entry_total_staked := entry_total_staked entry - amount,
      entry_total_pending := entry_total_pending entry - amount\<rparr>)" if "entry_total_staked entry \<noteq> amount"
    using that old(2) rec ids(4,6) entry(2,3) owner ids(1) paid(1)
    by (auto simp: backed_def W' all paid(2) pending_amount_def key_def net_stake_def saturating_sub_def word_le_nat_alt unat_sub)
  have "stake_inv K V self ?W' c'"
    by (rule stake_inv_update [OF inv codec cd, where key = key and j = "account_id own"])
      (use new entry(2) old(1) ids(4-6) record_key [OF inv, of "account_id own" r, folded key_def] r(1) ids(1) paid(3)
        in \<open>auto simp: W' entry(4) split: if_splits\<close>)
  then show ?thesis by blast
qed

subsection \<open>Staking\<close>

lemma outside_replace:
  assumes "outside self W W'" and "\<And>i. i \<noteq> j \<Longrightarrow> W1 i = W i" and "W' j = W1 j"
  shows "outside self W1 W'"
  unfolding outside_def
proof (intro allI impI)
  fix i assume "program_owner (W1 i) = account_of_program self"
  with assms show "program_owner (W' i) = program_owner (W1 i) \<and> data (W' i) = data (W1 i) \<and> balance (W1 i) \<le> balance (W' i)"
    by (cases "i = j") (simp_all add: outside_def)
qed

lemma stake_cases:
  assumes "stake K self pres key amount mover words = Some (posts, calls)"
  obtains funding own conf c expected entry od cd where "pres = [funding, own, conf]"
      "decode_config K self conf = Some c" "checked_add (balance (account own)) amount = Some expected"
      "program_owner (account own) \<noteq> DEFAULT_PROGRAM_OWNER \<Longrightarrow> check_claimed_ownership K self own key = Some ()"
      "stake_entry c key (account_id own) (program_owner (account own) \<noteq> DEFAULT_PROGRAM_OWNER) amount = Some entry"
      "data_of_bytes (sk_record_bytes K \<lparr>stake_key = key, stake_pending = None\<rparr>) = Some od"
      "data_of_bytes (sk_config_bytes K (c\<lparr>stake_entries := fmupd key entry (stake_entries c)\<rparr>)) = Some cd"
      "posts = [post_new (account funding), new_claimed_if_default ((account own)\<lparr>data := od\<rparr>) ClaimAuthorized,
        post_new ((account conf)\<lparr>data := cd\<rparr>)]"
      "call_pre_states (calls ! 1) = [own\<lparr>account := (account own)\<lparr>data := od, program_owner := account_of_program self,
        balance := expected\<rparr>\<rparr>]"
proof -
  obtain funding own conf where pres: "pres = [funding, own, conf]"
    using assms by (auto simp: stake_def split: list.splits)
  show thesis
    using assms by (auto simp: pres stake_def panic_simps Let_def chained_call_new_def split: if_splits elim!: that [OF pres])
qed

lemma stake_entry_backed:
  assumes entry: "stake_entry c key j claimed amount = Some entry"
    and old: "\<And>e. fmlookup (stake_entries c) key = Some e \<Longrightarrow> backed K self W (minimum_sequencer_stake c) key e"
    and r: "claimed \<Longrightarrow> \<exists>r. sk_record_of_bytes K (into_inner (data (W j))) = Some r \<and> stake_pending r = None"
    and expected: "checked_add (balance (W j)) amount = Some expected"
    and W': "W' j = (W j)\<lparr>data := od, program_owner := account_of_program self, balance := expected\<rparr>"
      "sk_record_of_bytes K (into_inner od) = Some \<lparr>stake_key = key, stake_pending = None\<rparr>"
  shows "entry_account_id entry = j \<and> backed K self W' (minimum_sequencer_stake c) key entry"
proof (cases "fmlookup (stake_entries c) key")
  case None
  with entry have "entry = \<lparr>entry_account_id = j, entry_total_staked = amount, entry_total_pending = 0\<rparr>"
      "minimum_sequencer_stake c \<le> amount"
    by (auto simp: stake_entry_def panic_simps)
  moreover have "amount \<le> expected" using expected by (auto simp: checked_simps word_le_nat_alt)
  ultimately show ?thesis using W' by (simp add: backed_def pending_amount_def net_stake_def saturating_sub_def)
next
  case (Some e)
  with entry obtain new_total where new: "claimed" "entry_account_id e = j" "checked_add (entry_total_staked e) amount = Some new_total"
      "entry = e\<lparr>entry_total_staked := new_total\<rparr>"
    by (auto simp: stake_entry_def panic_simps)
  have e: "backed K self W (minimum_sequencer_stake c) key e" by (rule old [OF Some])
  with r new(1,2) have none: "entry_total_pending e = 0" by (auto simp: backed_def pending_amount_def)
  have "minimum_sequencer_stake c \<le> entry_total_staked e" "entry_total_staked e \<le> balance (W j)"
    using e none new(2) by (auto simp: backed_def net_stake_def saturating_sub_def)
  then have "minimum_sequencer_stake c \<le> new_total" "new_total \<le> expected"
    using new(3) expected by (auto simp: checked_simps word_le_nat_alt)
  with W' new(2) none show ?thesis by (simp add: new(4) backed_def pending_amount_def net_stake_def saturating_sub_def)
qed

lemma stake_keeps_inv:
  assumes codec: "stake_codec K V" and self: "account_of_program self \<noteq> DEFAULT_PROGRAM_OWNER"
    and inv: "stake_inv K V self W c" and reads: "reads W pres" and key: "V key"
    and run: "stake K self pres key amount mover words = Some (posts, calls)"
    and after: "outside self (write_posts self W pres posts) W'" "reads W' (call_pre_states (calls ! 1))"
  shows "\<exists>c'. stake_inv K V self W' c'"
  using run
proof (rule stake_cases)
  fix funding own conf c0 expected entry od cd
  assume pres: "pres = [funding, own, conf]" and conf: "decode_config K self conf = Some c0"
    and expected: "checked_add (balance (account own)) amount = Some expected"
    and claimed: "program_owner (account own) \<noteq> DEFAULT_PROGRAM_OWNER \<Longrightarrow> check_claimed_ownership K self own key = Some ()"
    and entry: "stake_entry c0 key (account_id own) (program_owner (account own) \<noteq> DEFAULT_PROGRAM_OWNER) amount = Some entry"
    and od: "data_of_bytes (sk_record_bytes K \<lparr>stake_key = key, stake_pending = None\<rparr>) = Some od"
    and cd: "data_of_bytes (sk_config_bytes K (c0\<lparr>stake_entries := fmupd key entry (stake_entries c0)\<rparr>)) = Some cd"
    and posts: "posts = [post_new (account funding), new_claimed_if_default ((account own)\<lparr>data := od\<rparr>) ClaimAuthorized,
        post_new ((account conf)\<lparr>data := cd\<rparr>)]"
    and call: "call_pre_states (calls ! 1) = [own\<lparr>account := (account own)\<lparr>data := od, program_owner := account_of_program self,
        balance := expected\<rparr>\<rparr>]"
  have c0: "c0 = c" "account_id conf = config_id K self" using config_decoded [OF inv reads _ conf] by (simp_all add: pres)
  have ids: "account own = W (account_id own)" "account funding = W (account_id funding)" "account conf = W (config_id K self)"
      "account_id own \<noteq> config_id K self" "account_id funding \<noteq> config_id K self" "account_id own \<noteq> account_id funding"
    using reads c0(2) by (auto simp: pres reads_def)
  let ?own = "(W (account_id own))\<lparr>data := od, program_owner := account_of_program self, balance := expected\<rparr>"
  define W1 where "W1 = W(account_id own := ?own, config_id K self := (W (config_id K self))\<lparr>data := cd\<rparr>)"
  have r: "\<exists>r. sk_record_of_bytes K (into_inner (data (W (account_id own)))) = Some r \<and> stake_key r = key \<and> stake_pending r = None"
      "program_owner (W (account_id own)) = account_of_program self"
    if "program_owner (account own) \<noteq> DEFAULT_PROGRAM_OWNER"
    using claimed [OF that] by (auto simp: check_claimed_ownership_def panic_simps ids(1))
  have rec: "sk_record_of_bytes K (into_inner od) = Some \<lparr>stake_key = key, stake_pending = None\<rparr>"
    using codec key by (simp add: stake_codec_def data_of_bytes_inner [OF od])
  have new: "entry_account_id entry = account_id own \<and> backed K self W1 (minimum_sequencer_stake c) key entry"
  proof (rule stake_entry_backed [OF entry [unfolded c0(1)]])
    show "backed K self W (minimum_sequencer_stake c) key e" if "fmlookup (stake_entries c) key = Some e" for e
      using that inv by (simp add: stake_inv_def)
    show "checked_add (balance (W (account_id own))) amount = Some expected" using expected by (simp add: ids(1))
  qed (use r(1) rec ids(4) in \<open>auto simp: W1_def\<close>)
  have free: "k = key" if "fmlookup (stake_entries c) k = Some e" "entry_account_id e = account_id own" for k e
  proof (cases "program_owner (account own) = DEFAULT_PROGRAM_OWNER")
    case True
    with entry_owner [OF inv that] self show ?thesis by (simp add: ids(1))
  next
    case False
    with r(1) record_key [OF inv _ that] show ?thesis by blast
  qed
  have "stake_inv K V self W1 (c\<lparr>stake_entries := fmupd key entry (stake_entries c)\<rparr>)"
    by (rule stake_inv_update [OF inv codec cd [unfolded c0(1)], where key = key and j = "account_id own"])
      (use new free ids(4) key in \<open>auto simp: W1_def\<close>)
  moreover have "outside self W1 W'"
  proof (rule outside_replace [OF after(1)])
    show "W' (account_id own) = W1 (account_id own)" using after(2) ids(4) unfolding call by (simp add: reads_def ids(1) W1_def)
    show "W1 i = write_posts self W pres posts i" if "i \<noteq> account_id own" for i
      using that by (simp add: W1_def write_posts_def pres posts settle_post_def post_new_def c0(2) ids(2,3))
  qed
  ultimately show ?thesis using stake_inv_outside by blast
qed

subsection \<open>All runs\<close>

lemma stake_step_inv:
  assumes "stake_step K V self W W'" and codec: "stake_codec K V" and self: "account_of_program self \<noteq> DEFAULT_PROGRAM_OWNER"
    and inv: "stake_inv K V self W c"
  shows "\<exists>c'. stake_inv K V self W' c'"
  using assms(1)
proof cases
  case others
  with stake_inv_outside [OF inv] show ?thesis by blast
next
  case (staked inp words out key amount p ws inp' expected words' out')
  then obtain posts calls where "stake K self (input_pre_states inp) key amount p ws = Some (posts, calls)"
      "post_states out = posts" "chained_calls out = calls"
    by (auto simp: stake_main_def panic_simps with_chained_calls_def guest_output_def program_output_new_def)
  with stake_keeps_inv [OF codec self inv] staked show ?thesis by simp
next
  case (requested inp words out amount destination)
  then have "unstake_request K self (input_pre_states inp) amount destination = Some (post_states out)"
    by (auto simp: stake_main_def panic_simps with_chained_calls_def guest_output_def program_output_new_def)
  with request_inv [OF codec inv] requested show ?thesis by simp
next
  case (released inp words out)
  then have "finalize_unstake K self (input_pre_states inp) = Some (post_states out)"
    by (auto simp: stake_main_def panic_simps with_chained_calls_def guest_output_def program_output_new_def)
  with release_inv [OF codec inv] released show ?thesis by simp
qed

lemma stake_run_inv:
  assumes "(stake_step K V self)\<^sup>*\<^sup>* W W'" and "stake_codec K V" and "account_of_program self \<noteq> DEFAULT_PROGRAM_OWNER"
    and "stake_inv K V self W c"
  shows "\<exists>c'. stake_inv K V self W' c'"
  using assms(1)
proof (induction rule: rtranclp_induct)
  case base
  with assms(4) show ?case by blast
next
  case (step W1 W2)
  with stake_step_inv [OF step.hyps(2) assms(2,3)] show ?case by blast
qed

text \<open>
  C37: The stake of every sequencer is backed. Start from a configuration account of the program that
  lists no sequencer, and let the program run, with any other program in between. The configuration
  stays readable, and each sequencer it lists has an account of the program whose record names its
  key and its pending withdrawal, which holds at least the listed stake. The stake that is not pending
  is at least the minimum, or it is all on its way out.
\<close>

theorem stake_backed:
  assumes "stake_codec K V" and "account_of_program self \<noteq> DEFAULT_PROGRAM_OWNER"
    and "program_owner (W (config_id K self)) = account_of_program self"
    and "sk_config_of_bytes K (into_inner (data (W (config_id K self)))) = Some c" and "stake_entries c = fmempty"
    and "(stake_step K V self)\<^sup>*\<^sup>* W W'"
  shows "\<exists>c'. sk_config_of_bytes K (into_inner (data (W' (config_id K self)))) = Some c' \<and>
    (\<forall>key entry. fmlookup (stake_entries c') key = Some entry \<longrightarrow>
      (\<exists>r. sk_record_of_bytes K (into_inner (data (W' (entry_account_id entry)))) = Some r \<and> stake_key r = key \<and>
        pending_amount r = entry_total_pending entry) \<and>
      program_owner (W' (entry_account_id entry)) = account_of_program self \<and>
      entry_total_pending entry \<le> entry_total_staked entry \<and>
      entry_total_staked entry \<le> balance (W' (entry_account_id entry)) \<and>
      (minimum_sequencer_stake c' \<le> net_stake entry \<or> net_stake entry = 0 \<and> entry_total_pending entry \<noteq> 0))"
proof -
  have "stake_inv K V self W c" using assms(3-5) by (simp add: stake_inv_def)
  from stake_run_inv [OF assms(6,1,2) this] obtain c' where "stake_inv K V self W' c'" by blast
  then show ?thesis by (intro exI [of _ c']) (simp add: stake_inv_def backed_def)
qed

end
