(* ===== verification/StakeExamples.thy ===== *)
theory StakeExamples
  imports StakeSafety ZoneExamples
begin

text \<open>A sequencer that stakes the minimum. The example has one valid key, which its encodings leave out.\<close>

subsection \<open>Encodings\<close>

definition one_record_bytes :: "stake_record \<Rightarrow> bytes" where
  "one_record_bytes r = (case stake_pending r of None \<Rightarrow> [0]
    | Some p \<Rightarrow> 1 # u128_to_le_bytes (unstake_amount p) @ array32 (id_value (unstake_destination p)))"

definition one_record_of_bytes :: "bytes \<Rightarrow> stake_record option" where
  "one_record_of_bytes bs = (if bs = [] then None else Some \<lparr>stake_key = 7, stake_pending = (if hd bs = 0 then None
    else Some \<lparr>unstake_amount = le_join (take 16 (tl bs)), unstake_destination = AccountId (of_array32 (drop 16 (tl bs)))\<rparr>)\<rparr>)"

definition one_config_bytes :: "stake_config \<Rightarrow> bytes" where
  "one_config_bytes c = u128_to_le_bytes (minimum_sequencer_stake c) @ (case fmlookup (stake_entries c) 7 of None \<Rightarrow> []
    | Some e \<Rightarrow> u128_to_le_bytes (entry_total_staked e) @ u128_to_le_bytes (entry_total_pending e) @ array32 (id_value (entry_account_id e)))"

definition one_config_of_bytes :: "bytes \<Rightarrow> stake_config option" where
  "one_config_of_bytes bs = Some \<lparr>minimum_sequencer_stake = le_join (take 16 bs), stake_entries =
    (if length bs = 16 then fmempty else fmupd 7 \<lparr>entry_account_id = AccountId (of_array32 (drop 48 bs)),
      entry_total_staked = le_join (take 16 (drop 16 bs)), entry_total_pending = le_join (take 16 (drop 32 bs))\<rparr> fmempty)\<rparr>"

definition one_stake :: stake_codecs where
  "one_stake = \<lparr>sk_sha256 = demo_sha256, sk_record_bytes = one_record_bytes, sk_record_of_bytes = one_record_of_bytes,
    sk_config_bytes = one_config_bytes, sk_config_of_bytes = one_config_of_bytes, sk_words = (\<lambda>_. []), sk_of_words = (\<lambda>_. None)\<rparr>"

lemma one_record_codec: "stake_key r = 7 \<Longrightarrow> one_record_of_bytes (one_record_bytes r) = Some r"
  by (cases "stake_pending r") (simp_all add: one_record_bytes_def one_record_of_bytes_def)

lemma one_config_codec:
  assumes "\<forall>k \<in> fmdom' (stake_entries c). k = 7"
  shows "one_config_of_bytes (one_config_bytes c) = Some c"
proof -
  have "stake_entries c = (case fmlookup (stake_entries c) 7 of None \<Rightarrow> fmempty | Some e \<Rightarrow> fmupd 7 e fmempty)"
    using assms by (intro fmap_ext) (force simp: fmlookup_dom'_iff split: option.splits)
  note entries = this
  show ?thesis
  proof (cases "fmlookup (stake_entries c) 7")
    case None
    with entries show ?thesis
      by (auto simp: one_config_bytes_def one_config_of_bytes_def intro!: stake_config.equality)
  next
    case (Some e)
    with entries show ?thesis
      by (cases e) (auto simp: one_config_bytes_def one_config_of_bytes_def intro!: stake_config.equality)
  qed
qed

lemma one_stake_codec: "stake_codec one_stake (\<lambda>k. k = 7)"
  using one_record_codec one_config_codec
  by (auto simp: stake_codec_def one_stake_def one_record_of_bytes_def split: if_splits)

subsection \<open>A run\<close>

definition stake_program :: program_id where
  "stake_program = program_of_account (AccountId 9)"

abbreviation demo_config_id :: account_id where
  "demo_config_id \<equiv> sequencer_stake_config_account_id demo_sha256 stake_program"

lemma demo_config_id: "demo_config_id \<noteq> AccountId 1" "demo_config_id \<noteq> AccountId 2"
proof -
  have "of_array32 (ascii ''/LEZ/v0.3/MinSequencerStake/0000'') \<notin> {1, 2}" by code_simp
  then show "demo_config_id \<noteq> AccountId 1" "demo_config_id \<noteq> AccountId 2"
    by (auto simp: sequencer_stake_config_account_id_def demo_public_pda sequencer_stake_config_seed_def)
qed

definition config_before :: stake_config where
  "config_before = \<lparr>minimum_sequencer_stake = 100, stake_entries = fmempty\<rparr>"

definition config_after :: stake_config where
  "config_after = config_before\<lparr>stake_entries := fmupd 7 \<lparr>entry_account_id = AccountId 2, entry_total_staked = 100,
    entry_total_pending = 0\<rparr> fmempty\<rparr>"

definition world_before :: world where
  "world_before = (\<lambda>_. default_account)(demo_config_id := default_account\<lparr>program_owner := AccountId 9,
    data := Data (one_config_bytes config_before)\<rparr>)"

definition world_after :: world where
  "world_after = (\<lambda>_. default_account)(demo_config_id := default_account\<lparr>program_owner := AccountId 9,
      data := Data (one_config_bytes config_after)\<rparr>,
    AccountId 2 := default_account\<lparr>program_owner := AccountId 9, balance := 100, data := Data [0]\<rparr>)"

definition stake_input :: "stake_instruction program_input" where
  "stake_input = \<lparr>input_self = stake_program, input_caller = None, input_pre_states =
    [\<lparr>account = default_account, is_authorized = True, account_id = AccountId 1\<rparr>,
     \<lparr>account = default_account, is_authorized = True, account_id = AccountId 2\<rparr>,
     \<lparr>account = world_before demo_config_id, is_authorized = False, account_id = demo_config_id\<rparr>],
    input_instruction = Stake 7 100 (ProgramId 3) []\<rparr>"

definition confirm_input :: "stake_instruction program_input" where
  "confirm_input = \<lparr>input_self = stake_program, input_caller = Some stake_program, input_pre_states =
    [\<lparr>account = world_after (AccountId 2), is_authorized = True, account_id = AccountId 2\<rparr>],
    input_instruction = ConfirmStake 100\<rparr>"

lemma demo_stake_data:
  "data_of_bytes (one_record_bytes \<lparr>stake_key = 7, stake_pending = None\<rparr>) = Some (Data [0])"
  "data_of_bytes (one_config_bytes config_after) = Some (Data (one_config_bytes config_after))"
  by (simp_all add: one_record_bytes_def one_config_bytes_def config_after_def data_of_bytes_def data_try_from_def
      DATA_MAX_LENGTH_def)

lemma demo_config_decodes:
  "decode_config one_stake stake_program \<lparr>account = world_before demo_config_id, is_authorized = False, account_id = demo_config_id\<rparr>
    = Some config_before"
proof -
  have "one_config_of_bytes (one_config_bytes config_before) = Some config_before"
    by (rule one_config_codec) (simp add: config_before_def)
  then show ?thesis
    by (simp add: decode_config_def assert_that_def world_before_def one_stake_def stake_program_def)
qed

lemma demo_stake_runs:
  "\<exists>out. stake_main one_stake stake_input [] = Some out \<and>
    post_states out = [post_new default_account, new_claimed_if_default (default_account\<lparr>data := Data [0]\<rparr>) ClaimAuthorized,
      post_new ((world_before demo_config_id)\<lparr>data := Data (one_config_bytes config_after)\<rparr>)] \<and>
    call_pre_states (chained_calls out ! 1) = input_pre_states confirm_input"
proof -
  have entry: "stake_entry config_before 7 (AccountId 2) False 100
      = Some \<lparr>entry_account_id = AccountId 2, entry_total_staked = 100, entry_total_pending = 0\<rparr>"
    by (simp add: stake_entry_def config_before_def assert_that_def)
  have config: "config_before\<lparr>stake_entries := fmupd 7 \<lparr>entry_account_id = AccountId 2, entry_total_staked = 100,
      entry_total_pending = 0\<rparr> (stake_entries config_before)\<rparr> = config_after"
    by (simp add: config_after_def config_before_def)
  have sum: "checked_add (balance default_account) 100 = Some 100" "program_owner default_account = DEFAULT_PROGRAM_OWNER"
    by (simp_all add: default_account_def checked_add_def DEFAULT_PROGRAM_OWNER_def)
  have codec: "sk_record_bytes one_stake = one_record_bytes" "sk_config_bytes one_stake = one_config_bytes"
    by (simp_all add: one_stake_def)
  have after: "account_of_program stake_program = AccountId 9" by (simp add: stake_program_def)
  show ?thesis
    by (simp add: stake_main_def stake_input_def confirm_input_def assert_that_def stake_def demo_config_decodes sum entry config
        demo_stake_data codec with_chained_calls_def guest_output_def program_output_new_def chained_call_new_def Let_def after)
      (simp add: world_after_def default_account_def)
qed

lemma demo_stake_step: "stake_step one_stake (\<lambda>k. k = 7) stake_program world_before world_after"
proof -
  obtain out where out: "stake_main one_stake stake_input [] = Some out"
    "post_states out = [post_new default_account, new_claimed_if_default (default_account\<lparr>data := Data [0]\<rparr>) ClaimAuthorized,
      post_new ((world_before demo_config_id)\<lparr>data := Data (one_config_bytes config_after)\<rparr>)]"
    "call_pre_states (chained_calls out ! 1) = input_pre_states confirm_input"
    using demo_stake_runs by blast
  have other: "demo_config_id \<noteq> AccountId 1" "demo_config_id \<noteq> AccountId 2" "AccountId 1 \<noteq> demo_config_id" "AccountId 2 \<noteq> demo_config_id"
    using demo_config_id by simp_all
  have posts: "write_posts stake_program world_before (input_pre_states stake_input) (post_states out)
      = world_before(AccountId 2 := default_account\<lparr>program_owner := AccountId 9, data := Data [0]\<rparr>,
        demo_config_id := (world_before demo_config_id)\<lparr>data := Data (one_config_bytes config_after)\<rparr>)"
    by (rule ext) (simp add: out(2) write_posts_def stake_input_def settle_post_def post_new_def new_claimed_if_default_def
        stake_program_def world_before_def other default_account_def DEFAULT_PROGRAM_OWNER_def)
  obtain out' where confirm: "stake_main one_stake confirm_input [] = Some out'"
    by (simp add: stake_main_def confirm_input_def confirm_stake_def assert_that_def world_after_def)
  show ?thesis
  proof (rule stake_step.staked [OF out(1) _ _ _ _ _ out(3) [symmetric] _ _ confirm])
    show "reads world_before (input_pre_states stake_input)"
      using other by (simp add: reads_def stake_input_def world_before_def)
    show "outside stake_program (write_posts stake_program world_before (input_pre_states stake_input) (post_states out)) world_after"
      unfolding posts outside_def using other by (simp add: world_before_def world_after_def default_account_def)
    show "reads world_after (input_pre_states confirm_input)" by (simp add: reads_def confirm_input_def)
  qed (simp_all add: stake_input_def confirm_input_def)
qed

text \<open>Witness: after the first stake of 100 the account of the sequencer holds it.\<close>

theorem stake_backed_witness:
  "(stake_step one_stake (\<lambda>k. k = 7) stake_program)\<^sup>*\<^sup>* world_before world_after \<and>
    (\<exists>c. one_config_of_bytes (into_inner (data (world_after demo_config_id))) = Some c \<and> stake_entries c \<noteq> fmempty \<and>
      (\<forall>key entry. fmlookup (stake_entries c) key = Some entry \<longrightarrow> entry_total_staked entry \<le> balance (world_after (entry_account_id entry))))"
proof -
  have steps: "(stake_step one_stake (\<lambda>k. k = 7) stake_program)\<^sup>*\<^sup>* world_before world_after" using demo_stake_step by blast
  have owner: "account_of_program stake_program \<noteq> DEFAULT_PROGRAM_OWNER" by (simp add: stake_program_def DEFAULT_PROGRAM_OWNER_def)
  have sha: "sk_sha256 one_stake = demo_sha256" "sk_config_of_bytes one_stake = one_config_of_bytes" by (simp_all add: one_stake_def)
  have c: "one_config_of_bytes (into_inner (data (world_before demo_config_id))) = Some config_before"
      "program_owner (world_before demo_config_id) = account_of_program stake_program"
    using one_config_codec [of config_before] by (simp_all add: world_before_def config_before_def stake_program_def)
  have after: "one_config_of_bytes (into_inner (data (world_after demo_config_id))) = Some config_after"
    using one_config_codec [of config_after] demo_config_id by (simp add: world_after_def config_after_def)
  from stake_backed [OF one_stake_codec owner, of world_before config_before world_after] c steps after show ?thesis
    by (auto simp: sha config_before_def) (simp_all add: config_after_def)
qed

end
