(* ===== verification/Spec2Isabelle.thy ===== *)
theory Spec2Isabelle
  imports PrivateExamples ZoneExamples GuestExamples NodeExamples InboxExamples StakeExamples
begin

text \<open>
  \<^bold>\<open>Verification of the Logos execution zone.\<close>

  The program is a rollup. Users send public, privacy-preserving and program-deployment
  transactions to a zone; a sequencer orders them into blocks and inscribes the blocks on a
  channel of the Bedrock chain; every node replays the channel. Programs are zkVM guests that
  own accounts and call each other. Private accounts exist on chain only as commitments and
  nullifiers, and a circuit proves that a private transaction is a valid run of the programs.
  Zones send each other messages through an outbox and an inbox program.

  \<^bold>\<open>How the code is modelled.\<close> Machine integers are words of their width, a \<open>[u8; 32]\<close> is a
  256-bit word with its first byte on top, \<open>usize\<close> is a natural number. A \<open>Result\<close> is a sum with
  the error on the left; a panic, a failed \<open>assert!\<close> or an \<open>expect\<close> is \<open>None\<close>. State is passed
  explicitly. Overflow is written out: \<open>checked_\<close> and \<open>saturating_\<close> operations return what the
  Rust ones return, and plain arithmetic on words wraps, as it does in the guests. Loops over
  collections are folds; those whose end is not structural, the chained calls of a transaction,
  the drain of the mempool, the verifier's prefix and its wait for a peer's block, are functions
  with a termination proof, so no definition runs on fuel.

  Code that is not in the repository is a parameter: SHA-256, ChaCha20, the key exchange and
  the key derivation of notes, BIP-340 signatures, the zkVM executor and its receipt verifier,
  the Borsh and zkVM encodings of data, and what the zone SDK reports of the channel. They are
  the fields of \<open>externals\<close>, \<open>guest_env\<close>, \<open>guest_codecs\<close>, \<open>token_codecs\<close>, \<open>amm_codecs\<close>,
  \<open>stake_codecs\<close>, \<open>cross_codecs\<close>, \<open>zone_env\<close>, \<open>host_env\<close> and \<open>sequencer_env\<close>. A theorem that relies on
  one of them names what it relies on as a hypothesis, such as that a decoder inverts its
  encoder or that verified receipts come from runs of the program. Statements on hashes are
  never that a hash is injective: they end in an explicit collision, or assume that the
  blocks at hand do not collide.

  \<^bold>\<open>The state machine\<close> (\<open>src/lee/state_machine\<close>).
  \<^item> \<open>Accounts\<close>, \<open>Derivations\<close>: accounts and their encodings; account ids, nullifiers, commitments
    and the note cipher (\<open>core/src/account\<close>, \<open>nullifier.rs\<close>, \<open>commitment.rs\<close>, \<open>encryption\<close>). Derived
    values bind their inputs, and decryption inverts encryption.
  \<^item> \<open>Execution\<close>: program inputs and outputs and \<open>validate_execution\<close> (\<open>core/src/program\<close>), with an
    exact characterization of what validates.
  \<^item> \<open>MerkleTrees\<close>: the array-based tree of commitments (\<open>src/merkle_tree\<close>) refines a list of values.
  \<^item> \<open>Transactions\<close>, \<open>State\<close>, \<open>Validation\<close>: the three kinds of transaction, \<open>V03State\<close> and the
    validated state diffs (\<open>src/public_transaction\<close>, \<open>src/privacy_preserving_transaction\<close>,
    \<open>src/state\<close>, \<open>src/validated_state_diff\<close>).
  \<^item> \<open>Ledger\<close>: a step relation over all transitions, from a genesis with any public accounts, private
    accounts and programs. Balances are conserved, only authorized
    accounts are spent, signed transactions and nullifiers are used once, every commitment has
    a membership proof, deployed code does not change, and a transaction runs at most eleven
    programs. \<open>LedgerExamples\<close> has the witnesses.
  \<^item> \<open>Circuit\<close>, \<open>CircuitSafety\<close>, \<open>PrivateLedger\<close>, \<open>PrivateExamples\<close>: the privacy circuit
    (\<open>src/lee/privacy_preserving_circuit\<close>). A run neither creates nor destroys value, authorizes only with a
    key, a flag or a derived address, binds every private derived account to one program and
    seed, and its transaction moves value only between public accounts and notes, each note with
    its own commitment and nullifier.

  \<^bold>\<open>Programs\<close> (\<open>src/lez/programs\<close>). One group of definitions for each guest, as a function from its
  input to its output or a panic.
  \<^item> \<open>Guests\<close>: clock, authenticated transfer, vault, faucet, bridge, pinata. \<open>Tokens\<close>: the token
    program conserves units and needs authorization. \<open>Amm\<close>, \<open>AmmSafety\<close>: swaps keep the product
    of the reserves in both modes (the locale \<open>swap_rule\<close>), liquidity keeps its share below 2^64,
    and above it removal wraps. \<open>GuestExamples\<close> has the witnesses.
  \<^item> \<open>Staking\<close>: the stake of sequencers and the committee read from it. \<open>StakeSafety\<close>,
    \<open>StakeExamples\<close>: every listed stake is backed by the balance of an account of the program.
  \<^item> \<open>CrossZone\<close>: inbox, outbox, the two ends of the token bridge and the ping programs.
    \<open>InboxSafety\<close>, \<open>InboxExamples\<close>: the inbox delivers each message of a block once.

  \<^bold>\<open>The zone\<close> (\<open>src/lez\<close>).
  \<^item> \<open>Blocks\<close>, \<open>BlockSafety\<close>: the zone's transactions, block hashing and the application of a block
    (\<open>common/src\<close>, \<open>chain_state/src/apply.rs\<close>). User transactions keep the system accounts, a block
    advances the clock, an empty block applies.
  \<^item> \<open>ChainState\<close>, \<open>ChainSafety\<close>, \<open>ZoneExamples\<close>: the two-tier chain (\<open>chain_state/src/chain.rs\<close>) refines
    a linear chain of validated blocks whose final part only grows, its replays of validated blocks
    never panic, and the tip hash commits to the whole chain.
  \<^item> \<open>Store\<close>, \<open>StoreSafety\<close>: the sequencer's database (\<open>storage/src/sequencer\<close>), a record with one field
    for each cell and an update as one step. \<open>StoreTypes\<close>: every operation keeps its shape.
  \<^item> \<open>Consistency\<close>: the startup probe of the channel (\<open>chain_state/src/consistency.rs\<close>).
  \<^item> \<open>PeerChain\<close>, \<open>PeerSafety\<close>, \<open>PeerExamples\<close>: the host side of cross-zone messages
    (\<open>cross_zone/src\<close>, \<open>sequencer/core/src/cross_zone_watcher.rs\<close>,
    \<open>indexer/core/src/cross_zone_verifier.rs\<close>). What a watcher records in its first pass is what
    the verifier re-derives; both readers are instances of the locale \<open>peer_reader\<close>.
  \<^item> \<open>Sequencer\<close>, \<open>Following\<close>, \<open>ProductionSafety\<close>, \<open>SequencerExamples\<close>: mempool, block production,
    following the channel, reconstruction and restart (\<open>mempool/src\<close>, \<open>sequencer/core/src\<close>). A
    produced block becomes the head of every node with the head it was built on.
  \<^item> \<open>StoreUpdates\<close>, \<open>RestartSafety\<close>, \<open>NodeRuns\<close>, \<open>NodeExamples\<close>: chain state and store together. What one
    update writes, that it keeps the chain on disk, and a step relation of a node (turns, channel
    updates, restarts): in every run of regular events a restart from the store finds the head the
    node had. Not regular are a published block that the store fails to write and an update that
    takes a stored block after a new one of the same id, after which the disk keeps the wrong one.

  \<^bold>\<open>Interfaces.\<close> \<open>byte_codec\<close> is the contract of an encoding, \<open>accumulator\<close> of the commitment tree,
  \<open>output_chain\<close> of the calls of the circuit, \<open>invariant_step\<close> of a fold that keeps an invariant,
  \<open>swap_rule\<close> of a price rule and \<open>peer_reader\<close> of a reader of a peer's channel. Each is interpreted
  on the definitions of the model.

  \<^bold>\<open>Not modelled.\<close>
  \<^item> Networking, RPC and gossip servers, actors and task groups, the Bedrock client, metrics and
    logs: input and output without a state of their own. What they deliver is an argument.
  \<^item> RocksDB and its failures, and the dump and restore of a whole database, which copy bytes.
  \<^item> The indexer's ingest loop and store, wallet, explorer, command line tools, language
    bindings, hardware wallet, tests and benchmarks.
  \<^item> The associated token account and pinata token programs; the key tree of the wallet.
  \<^item> The founding transactions of a new zone and its constants.
  \<^item> Timing and concurrency below the level of an operation: the chain lock makes each
    operation of the sequencer one step, and the verifier's polls see its cache grow.
\<close>

end
